(* ===== verification/Prelude.thy ===== *)
theory Prelude
  imports Main
    "HOL-Library.Multiset"
    "HOL-Library.List_Lexorder"
    "HOL-Library.Option_ord"
    "HOL-Library.Product_Lexorder"
begin

text \<open>
  Shared vocabulary of the development: Rust results and the question-mark operator, checked and
  saturating machine arithmetic, durations and monotonic instants, the stable sort and the
  duplicate checks the domain constructors use, and the lemma collections the component theories
  extend.
\<close>

named_theorems result_simps "elimination of results built with the question-mark operator"
named_theorems limit_defs "numeric limits of the source"
named_theorems wf_intros "introduction rules for well-formedness predicates"

section \<open>Results\<close>

text \<open>
  \<open>Result<T, E>\<close> is \<open>'e + 'a\<close> with \<open>Inl\<close> the error. \<open>and_then\<close> is the question-mark operator,
  \<open>require\<close> an early return with an error, \<open>ok_or\<close> and \<open>map_err\<close> the methods of those names.
\<close>

type_synonym ('a, 'e) result = "'e + 'a"

definition and_then :: "('a, 'e) result \<Rightarrow> ('a \<Rightarrow> ('b, 'e) result) \<Rightarrow> ('b, 'e) result" where
  "and_then r f = (case r of Inl e \<Rightarrow> Inl e | Inr x \<Rightarrow> f x)"

definition require :: "bool \<Rightarrow> 'e \<Rightarrow> (unit, 'e) result" where
  "require b e = (if b then Inr () else Inl e)"

definition ok_or :: "'e \<Rightarrow> 'a option \<Rightarrow> ('a, 'e) result" where
  "ok_or e m = (case m of None \<Rightarrow> Inl e | Some x \<Rightarrow> Inr x)"

definition map_err :: "('e \<Rightarrow> 'f) \<Rightarrow> ('a, 'e) result \<Rightarrow> ('a, 'f) result" where
  "map_err f r = (case r of Inl e \<Rightarrow> Inl (f e) | Inr x \<Rightarrow> Inr x)"

definition map_ok :: "('a \<Rightarrow> 'b) \<Rightarrow> ('a, 'e) result \<Rightarrow> ('b, 'e) result" where
  "map_ok f r = (case r of Inl e \<Rightarrow> Inl e | Inr x \<Rightarrow> Inr (f x))"

text \<open>\<open>Option<Result>\<close> turned inside out (\<open>transpose\<close>) after mapping a fallible constructor.\<close>

definition try_option :: "('a \<Rightarrow> ('b, 'e) result) \<Rightarrow> 'a option \<Rightarrow> ('b option, 'e) result" where
  "try_option f m = (case m of None \<Rightarrow> Inr None | Some x \<Rightarrow> map_ok Some (f x))"

text \<open>A fallible constructor mapped over a vector and collected: the first error wins.\<close>

fun try_map :: "('a \<Rightarrow> ('b, 'e) result) \<Rightarrow> 'a list \<Rightarrow> ('b list, 'e) result" where
  "try_map f [] = Inr []"
| "try_map f (x # xs) = and_then (f x) (\<lambda>y. and_then (try_map f xs) (\<lambda>ys. Inr (y # ys)))"

lemma and_then_simps [simp]:
  "and_then (Inl e) f = Inl e"
  "and_then (Inr x) f = f x"
  by (simp_all add: and_then_def)

lemma require_simps [simp]:
  "require True e = Inr ()"
  "require False e = Inl e"
  by (simp_all add: require_def)

lemma ok_or_simps [simp]:
  "ok_or e None = Inl e"
  "ok_or e (Some x) = Inr x"
  by (simp_all add: ok_or_def)

lemma map_err_simps [simp]:
  "map_err f (Inl e) = Inl (f e)"
  "map_err f (Inr x) = Inr x"
  by (simp_all add: map_err_def)

lemma map_ok_simps [simp]:
  "map_ok f (Inl e) = Inl e"
  "map_ok f (Inr x) = Inr (f x)"
  by (simp_all add: map_ok_def)

lemma try_option_simps [simp]:
  "try_option f None = Inr None"
  "try_option f (Some x) = map_ok Some (f x)"
  by (simp_all add: try_option_def)

lemma and_then_Inr [result_simps]:
  "and_then r f = Inr y \<longleftrightarrow> (\<exists>x. r = Inr x \<and> f x = Inr y)"
  by (cases r) auto

lemma and_then_Inl [result_simps]:
  "and_then r f = Inl e \<longleftrightarrow> r = Inl e \<or> (\<exists>x. r = Inr x \<and> f x = Inl e)"
  by (cases r) auto

lemma require_Inr [result_simps]: "require b e = Inr u \<longleftrightarrow> b"
  by (cases b) auto

lemma require_Inl [result_simps]: "require b e = Inl e' \<longleftrightarrow> \<not> b \<and> e' = e"
  by (cases b) auto

lemma ok_or_Inr [result_simps]: "ok_or e m = Inr x \<longleftrightarrow> m = Some x"
  by (cases m) auto

lemma ok_or_Inl [result_simps]: "ok_or e m = Inl e' \<longleftrightarrow> m = None \<and> e' = e"
  by (cases m) auto

lemma map_err_Inr [result_simps]: "map_err f r = Inr x \<longleftrightarrow> r = Inr x"
  by (cases r) auto

lemma map_err_Inl [result_simps]: "map_err f r = Inl e \<longleftrightarrow> (\<exists>e'. r = Inl e' \<and> e = f e')"
  by (cases r) auto

lemma map_ok_Inr [result_simps]: "map_ok f r = Inr y \<longleftrightarrow> (\<exists>x. r = Inr x \<and> y = f x)"
  by (cases r) auto

lemma map_ok_Inl [result_simps]: "map_ok f r = Inl e \<longleftrightarrow> r = Inl e"
  by (cases r) auto

lemma try_option_Inr [result_simps]:
  "try_option f m = Inr y \<longleftrightarrow>
     (m = None \<and> y = None) \<or> (\<exists>x z. m = Some x \<and> f x = Inr z \<and> y = Some z)"
  by (cases m) (auto simp: result_simps)

lemma try_option_ident:
  "(\<And>x. m = Some x \<Longrightarrow> f x = Inr x) \<Longrightarrow> try_option f m = Inr m"
  by (cases m) auto

lemma try_map_Inr:
  "try_map f xs = Inr ys \<longleftrightarrow> list_all2 (\<lambda>x y. f x = Inr y) xs ys"
  by (induction xs arbitrary: ys) (auto simp: result_simps list_all2_Cons1)

lemma try_map_ident: "(\<And>x. x \<in> set xs \<Longrightarrow> f x = Inr x) \<Longrightarrow> try_map f xs = Inr xs"
  by (induction xs) auto

section \<open>Machine integers, durations and instants\<close>

text \<open>
  Unsigned integers are \<open>nat\<close> with the width written out at every operation that can overflow.
  A \<open>std::time::Duration\<close> is its nanosecond count. A monotonic \<open>Instant\<close> is a nanosecond count
  too; on Linux its seconds are a signed 64-bit integer, which bounds \<open>checked_add\<close>.
\<close>

type_synonym duration = nat
type_synonym instant = nat

definition u64_max :: nat where [limit_defs]: "u64_max = 2 ^ 64 - 1"
definition u8_max :: nat where [limit_defs]: "u8_max = 2 ^ 8 - 1"
definition usize_max :: nat where [limit_defs]: "usize_max = 2 ^ 64 - 1"

definition checked_add :: "nat \<Rightarrow> nat \<Rightarrow> nat \<Rightarrow> nat option" where
  "checked_add mx a b = (if a + b \<le> mx then Some (a + b) else None)"

definition checked_mul :: "nat \<Rightarrow> nat \<Rightarrow> nat \<Rightarrow> nat option" where
  "checked_mul mx a b = (if a * b \<le> mx then Some (a * b) else None)"

definition saturating_add :: "nat \<Rightarrow> nat \<Rightarrow> nat \<Rightarrow> nat" where
  "saturating_add mx a b = min mx (a + b)"

definition nanos_per_sec :: nat where [limit_defs]: "nanos_per_sec = 1000000000"

definition duration_max :: duration where
  [limit_defs]: "duration_max = u64_max * nanos_per_sec + 999999999"

definition from_secs :: "nat \<Rightarrow> duration" where "from_secs s = s * nanos_per_sec"
definition from_mins :: "nat \<Rightarrow> duration" where "from_mins m = from_secs (60 * m)"
definition from_hours :: "nat \<Rightarrow> duration" where "from_hours h = from_secs (3600 * h)"

definition duration_saturating_mul :: "duration \<Rightarrow> nat \<Rightarrow> duration" where
  "duration_saturating_mul d k = min duration_max (d * k)"

definition instant_max :: instant where
  [limit_defs]: "instant_max = 2 ^ 63 * nanos_per_sec - 1"

definition instant_checked_add :: "instant \<Rightarrow> duration \<Rightarrow> instant option" where
  "instant_checked_add t d = (if t + d \<le> instant_max then Some (t + d) else None)"

lemmas duration_defs = from_secs_def from_mins_def from_hours_def nanos_per_sec_def

lemma checked_add_Some [simp]:
  "checked_add mx a b = Some c \<longleftrightarrow> a + b \<le> mx \<and> c = a + b"
  by (auto simp: checked_add_def)

lemma checked_add_None [simp]: "checked_add mx a b = None \<longleftrightarrow> mx < a + b"
  by (auto simp: checked_add_def)

lemma checked_mul_Some [simp]:
  "checked_mul mx a b = Some c \<longleftrightarrow> a * b \<le> mx \<and> c = a * b"
  by (auto simp: checked_mul_def)

lemma checked_mul_None [simp]: "checked_mul mx a b = None \<longleftrightarrow> mx < a * b"
  by (auto simp: checked_mul_def)

section \<open>Stable sorting by a comparison\<close>

text \<open>
  \<open>slice::sort_by\<close> and \<open>sort\<close> are stable. \<open>sort_by le\<close> is the stable insertion sort for the
  relation "compares less or equal"; for an ordinary key it is the library's \<open>sort_key\<close>.
\<close>

fun insort_by :: "('a \<Rightarrow> 'a \<Rightarrow> bool) \<Rightarrow> 'a \<Rightarrow> 'a list \<Rightarrow> 'a list" where
  "insort_by le x [] = [x]"
| "insort_by le x (y # ys) = (if le x y then x # y # ys else y # insort_by le x ys)"

definition sort_by :: "('a \<Rightarrow> 'a \<Rightarrow> bool) \<Rightarrow> 'a list \<Rightarrow> 'a list" where
  "sort_by le xs = foldr (insort_by le) xs []"

lemma sort_by_simps [simp]:
  "sort_by le [] = []"
  "sort_by le (x # xs) = insort_by le x (sort_by le xs)"
  by (simp_all add: sort_by_def)

lemma mset_insort_by [simp]: "mset (insort_by le x xs) = add_mset x (mset xs)"
  by (induction xs) auto

lemma mset_sort_by [simp]: "mset (sort_by le xs) = mset xs"
  by (induction xs) auto

lemma set_insort_by [simp]: "set (insort_by le x xs) = insert x (set xs)"
  by (induction xs) auto

lemma set_sort_by [simp]: "set (sort_by le xs) = set xs"
  by (induction xs) auto

lemma length_sort_by [simp]: "length (sort_by le xs) = length xs"
  by (metis mset_sort_by size_mset)

lemma distinct_map_sort_by [simp]: "distinct (map f (sort_by le xs)) \<longleftrightarrow> distinct (map f xs)"
proof -
  have "mset (map f (sort_by le xs)) = mset (map f xs)" by simp
  then show ?thesis by (rule mset_eq_imp_distinct_iff)
qed

lemma sort_by_sorted_id: "sorted_wrt le xs \<Longrightarrow> sort_by le xs = xs"
proof (induction xs)
  case (Cons x xs)
  then show ?case by (cases xs) auto
qed simp

lemma insort_by_key: "insort_by (\<lambda>x y. f x \<le> f y) x xs = insort_key f x xs"
  by (induction xs) auto

lemma sort_by_key: "sort_by (\<lambda>x y. f x \<le> f y) xs = sort_key f xs"
  by (induction xs) (auto simp: insort_by_key)

text \<open>
  What a comparison owes the sort on the elements it is used for: it is total and transitive
  there. In return the result is sorted and sorting again changes nothing.
\<close>

locale sort_order =
  fixes le :: "'a \<Rightarrow> 'a \<Rightarrow> bool" and A :: "'a set"
  assumes le_total: "x \<in> A \<Longrightarrow> y \<in> A \<Longrightarrow> le x y \<or> le y x"
    and le_trans: "x \<in> A \<Longrightarrow> y \<in> A \<Longrightarrow> z \<in> A \<Longrightarrow> le x y \<Longrightarrow> le y z \<Longrightarrow> le x z"
begin

lemma sorted_insort:
  "x \<in> A \<Longrightarrow> set ys \<subseteq> A \<Longrightarrow> sorted_wrt le ys \<Longrightarrow> sorted_wrt le (insort_by le x ys)"
proof (induction ys)
  case (Cons y ys)
  show ?case
  proof (cases "le x y")
    case True
    have "le x z" if "z \<in> set ys" for z
      using Cons.prems True that by (auto intro: le_trans [of x y z])
    with True Cons.prems show ?thesis by simp
  next
    case False
    then have "le y x" using Cons.prems le_total [of x y] by auto
    with False Cons show ?thesis by simp
  qed
qed simp

lemma sorted_sort: "set xs \<subseteq> A \<Longrightarrow> sorted_wrt le (sort_by le xs)"
  by (induction xs) (simp_all add: sorted_insort)

lemma sort_idem: "set xs \<subseteq> A \<Longrightarrow> sort_by le (sort_by le xs) = sort_by le xs"
  by (rule sort_by_sorted_id) (rule sorted_sort)

end

interpretation key_sort: sort_order "\<lambda>x y. f x \<le> f y" UNIV for f :: "'a \<Rightarrow> 'b::linorder"
  by unfold_locales auto

section \<open>Three-way comparisons\<close>

text \<open>\<open>std::cmp::Ordering\<close>, \<open>Ord::cmp\<close> of a linear order and \<open>then_with\<close>.\<close>

datatype ordering = Less | Equal | Greater

definition cmp :: "'a::linorder \<Rightarrow> 'a \<Rightarrow> ordering" where
  "cmp x y = (if x < y then Less else if x = y then Equal else Greater)"

fun then_with :: "ordering \<Rightarrow> ordering \<Rightarrow> ordering" where
  "then_with Equal r = r"
| "then_with l r = l"

definition sort_cmp :: "('a \<Rightarrow> 'a \<Rightarrow> ordering) \<Rightarrow> 'a list \<Rightarrow> 'a list" where
  "sort_cmp c xs = sort_by (\<lambda>x y. c x y \<noteq> Greater) xs"

lemma cmp_simps [simp]:
  "cmp x y = Less \<longleftrightarrow> x < y"
  "cmp x y = Equal \<longleftrightarrow> x = y"
  "cmp x y = Greater \<longleftrightarrow> y < x"
  by (auto simp: cmp_def)

lemma then_with_simps [simp]:
  "then_with l r = Less \<longleftrightarrow> l = Less \<or> l = Equal \<and> r = Less"
  "then_with l r = Equal \<longleftrightarrow> l = Equal \<and> r = Equal"
  "then_with l r = Greater \<longleftrightarrow> l = Greater \<or> l = Equal \<and> r = Greater"
  by (cases l; simp)+

lemma mset_sort_cmp [simp]: "mset (sort_cmp c xs) = mset xs"
  by (simp add: sort_cmp_def)

lemma set_sort_cmp [simp]: "set (sort_cmp c xs) = set xs"
  by (simp add: sort_cmp_def)

lemma sorted_wrt_mset_unique:
  assumes "mset xs = mset ys" "sorted_wrt le xs" "sorted_wrt le ys"
    and antisym: "\<And>x y. le x y \<Longrightarrow> le y x \<Longrightarrow> x = y"
  shows "xs = ys"
  using assms(1-3)
proof (induction xs arbitrary: ys)
  case (Cons x xs)
  then obtain y ys' where ys: "ys = y # ys'" by (cases ys) auto
  have "x \<in> set ys" "y \<in> set (x # xs)"
    using Cons.prems(1) ys by (metis list.set_intros(1) set_mset_mset)+
  then have "x = y" using Cons.prems ys antisym by auto
  with Cons ys show ?case by simp
qed simp

text \<open>
  The contract of an \<open>Ord\<close> implementation consistent with equality. It makes sorting canonical:
  the result depends on the elements only, not on the order they came in.
\<close>

locale comparison =
  fixes c :: "'a \<Rightarrow> 'a \<Rightarrow> ordering"
  assumes cmp_equal: "c x y = Equal \<longleftrightarrow> x = y"
    and cmp_swap: "c x y = Greater \<longleftrightarrow> c y x = Less"
    and cmp_trans: "c x y = Less \<Longrightarrow> c y z = Less \<Longrightarrow> c x z = Less"

sublocale comparison \<subseteq> sort_order "\<lambda>x y. c x y \<noteq> Greater" UNIV
proof
  show "c x y \<noteq> Greater \<or> c y x \<noteq> Greater" for x y
    by (metis cmp_swap ordering.distinct(4))
  show "c x z \<noteq> Greater" if "c x y \<noteq> Greater" "c y z \<noteq> Greater" for x y z
    using that by (metis cmp_equal cmp_swap cmp_trans ordering.exhaust ordering.distinct(3))
qed

context comparison
begin

lemma cmp_antisym: "c x y \<noteq> Greater \<Longrightarrow> c y x \<noteq> Greater \<Longrightarrow> x = y"
  by (metis cmp_equal cmp_swap ordering.exhaust)

lemma sort_cmp_canonical: "mset xs = mset ys \<Longrightarrow> sort_cmp c xs = sort_cmp c ys"
  unfolding sort_cmp_def
  by (rule sorted_wrt_mset_unique [where le = "\<lambda>x y. c x y \<noteq> Greater"])
    (use sorted_sort cmp_antisym in auto)

lemma sort_cmp_idem: "sort_cmp c (sort_cmp c xs) = sort_cmp c xs"
  by (rule sort_cmp_canonical) simp

end

interpretation std_cmp: comparison cmp
  by unfold_locales auto

text \<open>
  Chains of \<open>then_with\<close> over keys: each link is a lawful comparison (reflexive, antisymmetric in
  the three-way sense, transitive), and chaining preserves that.
\<close>

definition cmp_lawful :: "('a \<Rightarrow> 'a \<Rightarrow> ordering) \<Rightarrow> bool" where
  "cmp_lawful c \<longleftrightarrow>
     (\<forall>x y. c x y = Greater \<longleftrightarrow> c y x = Less) \<and>
     (\<forall>x y z. c x y \<noteq> Greater \<longrightarrow> c y z \<noteq> Greater \<longrightarrow>
        c x z = (if c x y = Equal \<and> c y z = Equal then Equal else Less))"

named_theorems lawful_intros "lawful comparisons"

lemma lawful_key [lawful_intros]: "cmp_lawful (\<lambda>x y. cmp (f x) (f y))"
  by (auto simp: cmp_lawful_def cmp_def split: if_splits)

lemma lawful_key_rev [lawful_intros]: "cmp_lawful (\<lambda>x y. cmp (f y) (f x))"
  by (auto simp: cmp_lawful_def cmp_def split: if_splits)

lemma lawful_swap: "cmp_lawful c \<Longrightarrow> c x y = Greater \<longleftrightarrow> c y x = Less"
  unfolding cmp_lawful_def by blast

lemma lawful_trans:
  "cmp_lawful c \<Longrightarrow> c x y \<noteq> Greater \<Longrightarrow> c y z \<noteq> Greater \<Longrightarrow>
     c x z = (if c x y = Equal \<and> c y z = Equal then Equal else Less)"
  unfolding cmp_lawful_def by blast

lemma lawful_then_with [lawful_intros]:
  assumes c: "cmp_lawful c" and d: "cmp_lawful d"
  shows "cmp_lawful (\<lambda>x y. then_with (c x y) (d x y))"
  unfolding cmp_lawful_def
proof (intro conjI allI impI)
  fix x y z
  show "then_with (c x y) (d x y) = Greater \<longleftrightarrow> then_with (c y x) (d y x) = Less"
    using lawful_swap [OF c, of x y] lawful_swap [OF c, of y x] lawful_swap [OF d, of x y]
    by (cases "c x y"; cases "c y x") simp_all
  assume le: "then_with (c x y) (d x y) \<noteq> Greater" "then_with (c y z) (d y z) \<noteq> Greater"
  then show "then_with (c x z) (d x z) =
      (if then_with (c x y) (d x y) = Equal \<and> then_with (c y z) (d y z) = Equal then Equal else Less)"
    using lawful_trans [OF c, of x y z] lawful_trans [OF d, of x y z]
    by (cases "c x y"; cases "c y z") (simp_all split: if_splits)
qed

lemma comparison_lawful:
  assumes "cmp_lawful c" "\<And>x y. c x y = Equal \<longleftrightarrow> x = y"
  shows "comparison c"
proof
  show "c x z = Less" if "c x y = Less" "c y z = Less" for x y z
    using lawful_trans [OF assms(1), of x y z] that by simp
qed (use assms(2) lawful_swap [OF assms(1)] in blast)+

lemma lex_trans:
  fixes a :: "'a::order"
  assumes "a < b \<or> a = b \<and> P" "b < c \<or> b = c \<and> Q" "P \<Longrightarrow> Q \<Longrightarrow> R"
  shows "a < c \<or> a = c \<and> R"
  using assms by auto

section \<open>Duplicate checks\<close>

text \<open>
  \<open>windows(2).any(\<dots> == \<dots>)\<close> on a sorted vector, and the insertion of every element into a set that
  must be new each time.
\<close>

fun adjacent_equal :: "('a \<Rightarrow> 'b) \<Rightarrow> 'a list \<Rightarrow> bool" where
  "adjacent_equal f (x # y # zs) = (f x = f y \<or> adjacent_equal f (y # zs))"
| "adjacent_equal f _ = False"

fun all_new :: "'b set \<Rightarrow> 'b list \<Rightarrow> bool" where
  "all_new seen [] = True"
| "all_new seen (x # xs) = (x \<notin> seen \<and> all_new (insert x seen) xs)"

lemma all_new_iff: "all_new seen xs \<longleftrightarrow> distinct xs \<and> set xs \<inter> seen = {}"
  by (induction xs arbitrary: seen) auto

lemma all_new_empty [simp]: "all_new {} xs \<longleftrightarrow> distinct xs"
  by (simp add: all_new_iff)

lemma adjacent_equal_sorted:
  "sorted (map f xs) \<Longrightarrow> adjacent_equal f xs \<longleftrightarrow> \<not> distinct (map f xs)"
proof (induction f xs rule: adjacent_equal.induct)
  case (1 f x y zs)
  then have "f x = f y \<longleftrightarrow> f x \<in> f ` set (y # zs)"
    by (auto intro: order.antisym)
  with 1 show ?case by auto
qed auto

lemma adjacent_equal_sort_key [simp]:
  "adjacent_equal f (sort_key f xs) \<longleftrightarrow> \<not> distinct (map f xs)"
proof -
  have "mset (map f (sort_key f xs)) = mset (map f xs)" by simp
  then show ?thesis
    by (simp add: adjacent_equal_sorted mset_eq_imp_distinct_iff)
qed

lemma distinct_map_sort_key [simp]: "distinct (map g (sort_key f xs)) \<longleftrightarrow> distinct (map g xs)"
  by (metis distinct_map_sort_by sort_by_key)

lemma sort_key_sorted_id: "sorted (map f xs) \<Longrightarrow> sort_key f xs = xs"
  by (metis sort_by_key sort_by_sorted_id sorted_map)

lemma find_unique:
  assumes "x \<in> set xs" "P x" and unique: "\<And>y. P y \<Longrightarrow> y = x"
  shows "find P xs = Some x"
  using assms(1)
proof (induction xs)
  case (Cons y ys)
  show ?case
  proof (cases "P y")
    case True
    with unique show ?thesis by auto
  next
    case False
    with Cons \<open>P x\<close> show ?thesis by auto
  qed
qed simp

lemma find_SomeD: "find P xs = Some x \<Longrightarrow> P x \<and> x \<in> set xs"
  by (induction xs) (auto split: if_splits)

lemma find_NoneD: "find P xs = None \<longleftrightarrow> (\<forall>x\<in>set xs. \<not> P x)"
  by (induction xs) auto

section \<open>Options\<close>

text \<open>\<open>is_some_and\<close>, \<open>is_none_or\<close> and \<open>or\<close> of Rust options.\<close>

definition is_some_and :: "('a \<Rightarrow> bool) \<Rightarrow> 'a option \<Rightarrow> bool" where
  "is_some_and P m = (case m of None \<Rightarrow> False | Some x \<Rightarrow> P x)"

definition is_none_or :: "('a \<Rightarrow> bool) \<Rightarrow> 'a option \<Rightarrow> bool" where
  "is_none_or P m = (case m of None \<Rightarrow> True | Some x \<Rightarrow> P x)"

definition opt_or :: "'a option \<Rightarrow> 'a option \<Rightarrow> 'a option" where
  "opt_or m n = (case m of None \<Rightarrow> n | Some x \<Rightarrow> Some x)"

lemma is_some_and_simps [simp]:
  "is_some_and P None = False" "is_some_and P (Some x) = P x"
  by (simp_all add: is_some_and_def)

lemma is_none_or_simps [simp]:
  "is_none_or P None = True" "is_none_or P (Some x) = P x"
  by (simp_all add: is_none_or_def)

lemma opt_or_simps [simp]:
  "opt_or None n = n" "opt_or (Some x) n = Some x"
  by (simp_all add: opt_or_def)

lemma is_some_and_iff: "is_some_and P m \<longleftrightarrow> (\<exists>x. m = Some x \<and> P x)"
  by (cases m) auto

end
