(* ===== verification/Ordered_Map.thy ===== *)
theory Ordered_Map
  imports Prelude
begin

text \<open>
  The ordered maps of the runtime (\<open>BTreeMap\<close>): iteration is in strictly ascending key order and
  a key occurs at most once, so a map is the ascending list of its entries. The type carries the
  ordering invariant; the operations below are the ones the sources call.
\<close>

section \<open>The type and its operations\<close>

fun ins_entry :: "'k::linorder \<Rightarrow> 'v \<Rightarrow> ('k \<times> 'v) list \<Rightarrow> ('k \<times> 'v) list" where
  "ins_entry k v [] = [(k, v)]"
| "ins_entry k v (e # es) =
     (if k < fst e then (k, v) # e # es
      else if fst e < k then e # ins_entry k v es
      else (k, v) # es)"

definition ascending :: "('k::linorder \<times> 'v) list \<Rightarrow> bool" where
  "ascending es \<longleftrightarrow> sorted_wrt (<) (map fst es)"

lemma set_ins_entry: "fst ` set (ins_entry k v es) = insert k (fst ` set es)"
  by (induction es) auto

lemma ascending_ins_entry: "ascending es \<Longrightarrow> ascending (ins_entry k v es)"
proof (induction es)
  case (Cons e es)
  then have asc: "ascending es" and above: "\<And>x. x \<in> fst ` set es \<Longrightarrow> fst e < x"
    by (auto simp: ascending_def)
  have "fst e < x" if "fst e < k" "x \<in> fst ` set (ins_entry k v es)" for x
    using that above by (auto simp: set_ins_entry)
  with Cons asc above show ?case
    by (fastforce simp: ascending_def)
qed (simp add: ascending_def)

lemma ascending_filter: "ascending es \<Longrightarrow> ascending (filter P es)"
  by (induction es) (auto simp: ascending_def)

lemma ascending_distinct: "ascending es \<Longrightarrow> distinct (map fst es)"
  unfolding ascending_def by (induction es) auto

lemma map_of_ins_entry: "ascending es \<Longrightarrow> map_of (ins_entry k v es) = (map_of es)(k \<mapsto> v)"
  by (induction es) (auto simp: ascending_def fun_eq_iff)

lemma map_of_drop_key:
  "map_of (filter (\<lambda>e. fst e \<noteq> k) es) = (map_of es)(k := None)"
  by (induction es) (auto simp: fun_eq_iff)

typedef (overloaded) ('k::linorder, 'v) btree_map = "{es :: ('k \<times> 'v) list. ascending es}"
  morphisms bt_entries Btree_map
  by (rule exI [of _ "[]"]) (simp add: ascending_def)

setup_lifting type_definition_btree_map

lift_definition bt_empty :: "('k::linorder, 'v) btree_map" is "[]"
  by (simp add: ascending_def)

lift_definition bt_insert :: "'k::linorder \<Rightarrow> 'v \<Rightarrow> ('k, 'v) btree_map \<Rightarrow> ('k, 'v) btree_map" is ins_entry
  by (rule ascending_ins_entry)

lift_definition bt_remove :: "'k::linorder \<Rightarrow> ('k, 'v) btree_map \<Rightarrow> ('k, 'v) btree_map" is
  "\<lambda>k es. filter (\<lambda>e. fst e \<noteq> k) es"
  by (rule ascending_filter)

lift_definition bt_get :: "('k::linorder, 'v) btree_map \<Rightarrow> 'k \<Rightarrow> 'v option" is map_of .

definition bt_contains :: "('k::linorder, 'v) btree_map \<Rightarrow> 'k \<Rightarrow> bool" where
  "bt_contains m k = (bt_get m k \<noteq> None)"

definition bt_keys :: "('k::linorder, 'v) btree_map \<Rightarrow> 'k list" where
  "bt_keys m = map fst (bt_entries m)"

definition bt_values :: "('k::linorder, 'v) btree_map \<Rightarrow> 'v list" where
  "bt_values m = map snd (bt_entries m)"

definition bt_len :: "('k::linorder, 'v) btree_map \<Rightarrow> nat" where
  "bt_len m = length (bt_entries m)"

instantiation btree_map :: (linorder, equal) equal
begin

definition equal_btree_map :: "('a, 'b) btree_map \<Rightarrow> ('a, 'b) btree_map \<Rightarrow> bool" where
  "equal_btree_map m n \<longleftrightarrow> bt_entries m = bt_entries n"

instance
  by intro_classes (simp add: equal_btree_map_def bt_entries_inject)

end

section \<open>Lookup laws\<close>

lemma bt_get_empty [simp]: "bt_get bt_empty k = None"
  by transfer simp

lemma bt_get_insert [simp]: "bt_get (bt_insert k v m) k' = (if k' = k then Some v else bt_get m k')"
  by transfer (simp add: map_of_ins_entry)

lemma bt_get_remove [simp]: "bt_get (bt_remove k m) k' = (if k' = k then None else bt_get m k')"
  by transfer (simp add: map_of_drop_key)

lemma bt_contains_simps [simp]:
  "\<not> bt_contains bt_empty k"
  "bt_contains (bt_insert k v m) k' \<longleftrightarrow> k' = k \<or> bt_contains m k'"
  "bt_contains (bt_remove k m) k' \<longleftrightarrow> k' \<noteq> k \<and> bt_contains m k'"
  by (auto simp: bt_contains_def)

lemma bt_entries_ascending: "ascending (bt_entries m)"
  using bt_entries [of m] by simp

lemma bt_get_entry: "bt_get m k = Some v \<longleftrightarrow> (k, v) \<in> set (bt_entries m)"
  by transfer (simp add: ascending_distinct)

lemma bt_keys_sorted: "sorted_wrt (<) (bt_keys m)"
  using bt_entries_ascending [of m] by (simp add: bt_keys_def ascending_def)

lemma bt_keys_distinct [simp]: "distinct (bt_keys m)"
  by (simp add: bt_keys_def ascending_distinct bt_entries_ascending)

lemma set_bt_keys: "set (bt_keys m) = {k. bt_contains m k}"
  by (auto simp: bt_keys_def bt_contains_def bt_get_entry image_iff) (metis fst_conv)

lemma bt_keys_eq: "bt_keys m = sorted_list_of_set {k. bt_contains m k}"
  by (metis bt_keys_distinct bt_keys_sorted set_bt_keys sorted_list_of_set.idem_if_sorted_distinct
      strict_sorted_imp_sorted)

lemma finite_bt_dom [simp]: "finite {k. bt_contains m k}"
  by (metis List.finite_set set_bt_keys)

lemma bt_len_card: "bt_len m = card {k. bt_contains m k}"
  by (metis bt_keys_def bt_keys_distinct bt_len_def distinct_card length_map set_bt_keys)

lemma bt_entries_keys: "bt_entries m = map (\<lambda>k. (k, the (bt_get m k))) (bt_keys m)"
proof -
  have "map (\<lambda>e. (fst e, the (bt_get m (fst e)))) (bt_entries m) = bt_entries m"
    by (rule map_idI) (metis bt_get_entry option.sel prod.collapse)
  then show ?thesis by (simp add: bt_keys_def comp_def)
qed

lemma bt_eqI: "(\<And>k. bt_get m k = bt_get n k) \<Longrightarrow> m = n"
proof -
  assume get: "\<And>k. bt_get m k = bt_get n k"
  then have "bt_keys m = bt_keys n" by (simp add: bt_keys_eq bt_contains_def)
  with get have "bt_entries m = bt_entries n" by (simp add: bt_entries_keys)
  then show ?thesis by (simp add: bt_entries_inject)
qed

lemma set_bt_values: "set (bt_values m) = {v. \<exists>k. bt_get m k = Some v}"
  by (auto simp: bt_values_def bt_get_entry image_iff) (metis snd_conv)+

lemma bt_len_empty [simp]: "bt_len bt_empty = 0"
  by (simp add: bt_len_card)

lemma bt_len_insert:
  "bt_len (bt_insert k v m) = (if bt_contains m k then bt_len m else Suc (bt_len m))"
proof -
  have "{k'. bt_contains (bt_insert k v m) k'} = insert k {k'. bt_contains m k'}" by auto
  then show ?thesis by (simp add: bt_len_card card_insert_if)
qed

lemma bt_len_remove:
  "bt_len (bt_remove k m) = (if bt_contains m k then bt_len m - 1 else bt_len m)"
proof -
  have "{k'. bt_contains (bt_remove k m) k'} = {k'. bt_contains m k'} - {k}" by auto
  then show ?thesis by (simp add: bt_len_card)
qed

lemma bt_len_pos: "bt_contains m k \<Longrightarrow> 0 < bt_len m"
  by (auto simp: bt_len_card card_gt_0_iff)

lemma bt_insert_overwrite: "bt_insert k v (bt_insert k w m) = bt_insert k v m"
  by (rule bt_eqI) simp

lemma bt_values_keys: "bt_values m = map (\<lambda>k. the (bt_get m k)) (bt_keys m)"
  by (simp add: bt_values_def bt_entries_keys)

section \<open>The contract clients rely on\<close>

text \<open>
  A keyed store: what a lookup returns after an insertion or a removal. Batches of insertions and
  removals, which the scheduler and the actor perform entry by entry, follow from these laws.
\<close>

locale keyed_store =
  fixes put :: "'k \<Rightarrow> 'v \<Rightarrow> 'm \<Rightarrow> 'm" and del :: "'k \<Rightarrow> 'm \<Rightarrow> 'm" and get :: "'m \<Rightarrow> 'k \<Rightarrow> 'v option"
  assumes get_put: "get (put k v m) k' = (if k' = k then Some v else get m k')"
    and get_del: "get (del k m) k' = (if k' = k then None else get m k')"
begin

lemma get_del_all: "get (fold del ks m) k = (if k \<in> set ks then None else get m k)"
  by (induction ks arbitrary: m) (auto simp: get_del)

lemma get_put_all:
  "distinct ks \<Longrightarrow>
     get (fold (\<lambda>k. put k (f k)) ks m) k = (if k \<in> set ks then Some (f k) else get m k)"
  by (induction ks arbitrary: m) (auto simp: get_put)

end

interpretation bt: keyed_store bt_insert bt_remove bt_get
  by unfold_locales simp_all

end
