(* ===== verification/Provider_Id.thy ===== *)
theory Provider_Id
  imports Prelude
begin

text \<open>
  The closed provider registry (\<open>crates/domain/src/provider_id.rs\<close>): the identifiers in
  declaration order, their canonical names, parsing, and the derived ordering by declaration
  position. A Rust \<open>str\<close> is the list of its Unicode scalar values; \<open>lit\<close> embeds an ASCII literal.
\<close>

type_synonym str = "nat list"

definition lit :: "string \<Rightarrow> str" where
  "lit s = map of_char s"

lemma lit_inject [simp]: "lit s = lit t \<longleftrightarrow> s = t"
  by (simp add: lit_def inj_map_eq_map inj_on_def)

lemma lit_Nil [simp]: "lit s = [] \<longleftrightarrow> s = []"
  by (simp add: lit_def)

section \<open>Identifiers\<close>

datatype (plugins only: code) provider_id =
    Codex | OpenAi | AzureOpenAi | Claude | ClinePass | Cursor | OpenCode | OpenCodeGo |
    Alibaba | AlibabaTokenPlan | QwenCloud | Factory | Fireworks | Gemini | Antigravity |
    Copilot | Devin | Zai | MiniMax | Manus | Kimi | Kilo | Kiro | VertexAi | Augment |
    JetBrains | Moonshot | Amp | T3Chat | Ollama | Synthetic | OpenRouter | ElevenLabs | Warp |
    Windsurf | Zed | Perplexity | Mimo | Doubao | Sakana | Abacus | Mistral | DeepSeek |
    DeepInfra | Codebuff | Crof | Venice | CommandCode | Qoder | StepFun | Bedrock | Grok |
    Groq | LlmProxy | LiteLlm | Deepgram | Poe | Chutes | Neuralwatt | ClawRouter | LongCat |
    Sub2Api | Wayfinder | ZenMux | AiAnd | ZoomMate | Xai | Notion | IbmBob

definition provider_ALL :: "provider_id list" where
  "provider_ALL = [
     Codex, OpenAi, AzureOpenAi, Claude, ClinePass, Cursor, OpenCode, OpenCodeGo, Alibaba,
     AlibabaTokenPlan, QwenCloud, Factory, Fireworks, Gemini, Antigravity, Copilot, Devin, Zai,
     MiniMax, Manus, Kimi, Kilo, Kiro, VertexAi, Augment, JetBrains, Moonshot, Amp, T3Chat,
     Ollama, Synthetic, OpenRouter, ElevenLabs, Warp, Windsurf, Zed, Perplexity, Mimo, Doubao,
     Sakana, Abacus, Mistral, DeepSeek, DeepInfra, Codebuff, Crof, Venice, CommandCode, Qoder,
     StepFun, Bedrock, Grok, Groq, LlmProxy, LiteLlm, Deepgram, Poe, Chutes, Neuralwatt,
     ClawRouter, LongCat, Sub2Api, Wayfinder, ZenMux, AiAnd, ZoomMate, Xai, Notion, IbmBob]"

primrec provider_name :: "provider_id \<Rightarrow> string" where
  "provider_name Codex = ''codex''"
| "provider_name OpenAi = ''openai''"
| "provider_name AzureOpenAi = ''azureopenai''"
| "provider_name Claude = ''claude''"
| "provider_name ClinePass = ''clinepass''"
| "provider_name Cursor = ''cursor''"
| "provider_name OpenCode = ''opencode''"
| "provider_name OpenCodeGo = ''opencodego''"
| "provider_name Alibaba = ''alibaba''"
| "provider_name AlibabaTokenPlan = ''alibabatokenplan''"
| "provider_name QwenCloud = ''qwencloud''"
| "provider_name Factory = ''factory''"
| "provider_name Fireworks = ''fireworks''"
| "provider_name Gemini = ''gemini''"
| "provider_name Antigravity = ''antigravity''"
| "provider_name Copilot = ''copilot''"
| "provider_name Devin = ''devin''"
| "provider_name Zai = ''zai''"
| "provider_name MiniMax = ''minimax''"
| "provider_name Manus = ''manus''"
| "provider_name Kimi = ''kimi''"
| "provider_name Kilo = ''kilo''"
| "provider_name Kiro = ''kiro''"
| "provider_name VertexAi = ''vertexai''"
| "provider_name Augment = ''augment''"
| "provider_name JetBrains = ''jetbrains''"
| "provider_name Moonshot = ''moonshot''"
| "provider_name Amp = ''amp''"
| "provider_name T3Chat = ''t3chat''"
| "provider_name Ollama = ''ollama''"
| "provider_name Synthetic = ''synthetic''"
| "provider_name OpenRouter = ''openrouter''"
| "provider_name ElevenLabs = ''elevenlabs''"
| "provider_name Warp = ''warp''"
| "provider_name Windsurf = ''windsurf''"
| "provider_name Zed = ''zed''"
| "provider_name Perplexity = ''perplexity''"
| "provider_name Mimo = ''mimo''"
| "provider_name Doubao = ''doubao''"
| "provider_name Sakana = ''sakana''"
| "provider_name Abacus = ''abacus''"
| "provider_name Mistral = ''mistral''"
| "provider_name DeepSeek = ''deepseek''"
| "provider_name DeepInfra = ''deepinfra''"
| "provider_name Codebuff = ''codebuff''"
| "provider_name Crof = ''crof''"
| "provider_name Venice = ''venice''"
| "provider_name CommandCode = ''commandcode''"
| "provider_name Qoder = ''qoder''"
| "provider_name StepFun = ''stepfun''"
| "provider_name Bedrock = ''bedrock''"
| "provider_name Grok = ''grok''"
| "provider_name Groq = ''groq''"
| "provider_name LlmProxy = ''llmproxy''"
| "provider_name LiteLlm = ''litellm''"
| "provider_name Deepgram = ''deepgram''"
| "provider_name Poe = ''poe''"
| "provider_name Chutes = ''chutes''"
| "provider_name Neuralwatt = ''neuralwatt''"
| "provider_name ClawRouter = ''clawrouter''"
| "provider_name LongCat = ''longcat''"
| "provider_name Sub2Api = ''sub2api''"
| "provider_name Wayfinder = ''wayfinder''"
| "provider_name ZenMux = ''zenmux''"
| "provider_name AiAnd = ''aiand''"
| "provider_name ZoomMate = ''zoommate''"
| "provider_name Xai = ''xai''"
| "provider_name Notion = ''notion''"
| "provider_name IbmBob = ''ibmbob''"

primrec provider_discriminant :: "provider_id \<Rightarrow> nat" where
  "provider_discriminant Codex = 0"
| "provider_discriminant OpenAi = 1"
| "provider_discriminant AzureOpenAi = 2"
| "provider_discriminant Claude = 3"
| "provider_discriminant ClinePass = 4"
| "provider_discriminant Cursor = 5"
| "provider_discriminant OpenCode = 6"
| "provider_discriminant OpenCodeGo = 7"
| "provider_discriminant Alibaba = 8"
| "provider_discriminant AlibabaTokenPlan = 9"
| "provider_discriminant QwenCloud = 10"
| "provider_discriminant Factory = 11"
| "provider_discriminant Fireworks = 12"
| "provider_discriminant Gemini = 13"
| "provider_discriminant Antigravity = 14"
| "provider_discriminant Copilot = 15"
| "provider_discriminant Devin = 16"
| "provider_discriminant Zai = 17"
| "provider_discriminant MiniMax = 18"
| "provider_discriminant Manus = 19"
| "provider_discriminant Kimi = 20"
| "provider_discriminant Kilo = 21"
| "provider_discriminant Kiro = 22"
| "provider_discriminant VertexAi = 23"
| "provider_discriminant Augment = 24"
| "provider_discriminant JetBrains = 25"
| "provider_discriminant Moonshot = 26"
| "provider_discriminant Amp = 27"
| "provider_discriminant T3Chat = 28"
| "provider_discriminant Ollama = 29"
| "provider_discriminant Synthetic = 30"
| "provider_discriminant OpenRouter = 31"
| "provider_discriminant ElevenLabs = 32"
| "provider_discriminant Warp = 33"
| "provider_discriminant Windsurf = 34"
| "provider_discriminant Zed = 35"
| "provider_discriminant Perplexity = 36"
| "provider_discriminant Mimo = 37"
| "provider_discriminant Doubao = 38"
| "provider_discriminant Sakana = 39"
| "provider_discriminant Abacus = 40"
| "provider_discriminant Mistral = 41"
| "provider_discriminant DeepSeek = 42"
| "provider_discriminant DeepInfra = 43"
| "provider_discriminant Codebuff = 44"
| "provider_discriminant Crof = 45"
| "provider_discriminant Venice = 46"
| "provider_discriminant CommandCode = 47"
| "provider_discriminant Qoder = 48"
| "provider_discriminant StepFun = 49"
| "provider_discriminant Bedrock = 50"
| "provider_discriminant Grok = 51"
| "provider_discriminant Groq = 52"
| "provider_discriminant LlmProxy = 53"
| "provider_discriminant LiteLlm = 54"
| "provider_discriminant Deepgram = 55"
| "provider_discriminant Poe = 56"
| "provider_discriminant Chutes = 57"
| "provider_discriminant Neuralwatt = 58"
| "provider_discriminant ClawRouter = 59"
| "provider_discriminant LongCat = 60"
| "provider_discriminant Sub2Api = 61"
| "provider_discriminant Wayfinder = 62"
| "provider_discriminant ZenMux = 63"
| "provider_discriminant AiAnd = 64"
| "provider_discriminant ZoomMate = 65"
| "provider_discriminant Xai = 66"
| "provider_discriminant Notion = 67"
| "provider_discriminant IbmBob = 68"

section \<open>Names and parsing\<close>

datatype parse_provider_id_error = ParseProviderIdError

definition provider_as_str :: "provider_id \<Rightarrow> str" where
  "provider_as_str p = lit (provider_name p)"

definition provider_from_str :: "str \<Rightarrow> (provider_id, parse_provider_id_error) result" where
  "provider_from_str v =
     ok_or ParseProviderIdError (find (\<lambda>p. provider_as_str p = v) provider_ALL)"

lemma provider_ALL_nth: "provider_ALL ! provider_discriminant p = p"
  by (cases p) (simp_all add: provider_ALL_def)

lemma provider_discriminants: "map provider_discriminant provider_ALL = [0..<69]"
  unfolding provider_ALL_def by (simp add: upt_rec)

lemma length_provider_ALL: "length provider_ALL = 69"
  by (metis provider_discriminants diff_zero length_map length_upt)

lemma provider_ALL_distinct: "distinct provider_ALL"
  using distinct_upt [of 0 69] unfolding provider_discriminants [symmetric] distinct_map by blast

lemma provider_discriminant_inject [simp]:
  "provider_discriminant p = provider_discriminant q \<longleftrightarrow> p = q"
  by (metis provider_ALL_nth)

lemma provider_discriminant_less: "provider_discriminant p < 69"
  by (cases p) simp_all

lemma provider_ALL_complete: "p \<in> set provider_ALL"
  by (metis length_provider_ALL nth_mem provider_ALL_nth provider_discriminant_less)

lemma provider_names_distinct: "distinct (map provider_name provider_ALL)"
  unfolding provider_ALL_def by simp

lemma provider_as_str_inject [simp]: "provider_as_str p = provider_as_str q \<longleftrightarrow> p = q"
proof
  assume "provider_as_str p = provider_as_str q"
  then have eq: "provider_name p = provider_name q" by (simp add: provider_as_str_def)
  have inj: "inj_on provider_name (set provider_ALL)"
    using provider_names_distinct by (simp only: distinct_map)
  show "p = q" by (rule inj_onD [OF inj eq provider_ALL_complete provider_ALL_complete])
qed (erule arg_cong)

section \<open>Ordering\<close>

text \<open>The derived \<open>Ord\<close> compares declaration positions.\<close>

instantiation provider_id :: linorder
begin

definition less_eq_provider_id :: "provider_id \<Rightarrow> provider_id \<Rightarrow> bool" where
  "less_eq_provider_id p q \<longleftrightarrow> provider_discriminant p \<le> provider_discriminant q"

definition less_provider_id :: "provider_id \<Rightarrow> provider_id \<Rightarrow> bool" where
  "less_provider_id p q \<longleftrightarrow> provider_discriminant p < provider_discriminant q"

instance
  by intro_classes (auto simp: less_eq_provider_id_def less_provider_id_def)

end

text \<open>
  Parsing and printing provider identifiers are inverse: every identifier parses back from its
  canonical name, and a text parses exactly when it is the canonical name of one of the 69
  identifiers.
\<close>

theorem provider_id_round_trip:
  "provider_from_str (provider_as_str p) = Inr p \<and>
   (provider_from_str v = Inr q \<longleftrightarrow> v = provider_as_str q) \<and>
   length provider_ALL = 69"
proof (intro conjI)
  show parse: "provider_from_str (provider_as_str p) = Inr p"
    unfolding provider_from_str_def
    by (subst find_unique [where x = p])
      (simp_all only: provider_ALL_complete provider_as_str_inject ok_or_simps)
  show "provider_from_str v = Inr q \<longleftrightarrow> v = provider_as_str q"
    unfolding provider_from_str_def
  proof
    assume "ok_or ParseProviderIdError (find (\<lambda>p. provider_as_str p = v) provider_ALL) = Inr q"
    then have "find (\<lambda>p. provider_as_str p = v) provider_ALL = Some q" by (simp only: ok_or_Inr)
    then show "v = provider_as_str q" by (blast dest: find_SomeD)
  next
    assume "v = provider_as_str q"
    then have "find (\<lambda>p. provider_as_str p = v) provider_ALL = Some q"
      by (intro find_unique provider_ALL_complete) (simp_all only: provider_as_str_inject)
    then show "ok_or ParseProviderIdError (find (\<lambda>p. provider_as_str p = v) provider_ALL) = Inr q"
      by (simp only: ok_or_Inr)
  qed
qed (rule length_provider_ALL)

end
