(* ===== verification/Identifiers.thy ===== *)
theory Identifiers
  imports Provider_Id
begin

text \<open>
  Bounded text (\<open>crates/domain/src/text.rs\<close>) and routing identifiers
  (\<open>crates/domain/src/ids.rs\<close>): validation of provider instances and account keys, the exact
  account scope with its derived ordering, and the opaque identifiers derived from keyed digests.
  HMAC-SHA-256 is a parameter, a function from key and message bytes to digest bytes.
\<close>

section \<open>Characters and UTF-8\<close>

definition is_control :: "nat \<Rightarrow> bool" where
  "is_control c \<longleftrightarrow> c < 32 \<or> 127 \<le> c \<and> c \<le> 159"

definition is_whitespace :: "nat \<Rightarrow> bool" where
  "is_whitespace c \<longleftrightarrow>
     9 \<le> c \<and> c \<le> 13 \<or> c = 32 \<or> c = 133 \<or> c = 160 \<or> c = 5760 \<or> 8192 \<le> c \<and> c \<le> 8202 \<or>
     c = 8232 \<or> c = 8233 \<or> c = 8239 \<or> c = 8287 \<or> c = 12288"

definition is_ascii_digit :: "nat \<Rightarrow> bool" where
  "is_ascii_digit c \<longleftrightarrow> 48 \<le> c \<and> c \<le> 57"

definition is_ascii_alphabetic :: "nat \<Rightarrow> bool" where
  "is_ascii_alphabetic c \<longleftrightarrow> 65 \<le> c \<and> c \<le> 90 \<or> 97 \<le> c \<and> c \<le> 122"

definition is_ascii_alphanumeric :: "nat \<Rightarrow> bool" where
  "is_ascii_alphanumeric c \<longleftrightarrow> is_ascii_digit c \<or> is_ascii_alphabetic c"

definition is_lower_hex :: "nat \<Rightarrow> bool" where
  "is_lower_hex c \<longleftrightarrow> is_ascii_digit c \<or> 97 \<le> c \<and> c \<le> 102"

definition utf8_char :: "nat \<Rightarrow> nat list" where
  "utf8_char c =
     (if c < 128 then [c]
      else if c < 2048 then [192 + c div 64, 128 + c mod 64]
      else if c < 65536 then [224 + c div 4096, 128 + c div 64 mod 64, 128 + c mod 64]
      else [240 + c div 262144, 128 + c div 4096 mod 64, 128 + c div 64 mod 64, 128 + c mod 64])"

definition as_bytes :: "str \<Rightarrow> nat list" where
  "as_bytes s = concat (map utf8_char s)"

definition str_len :: "str \<Rightarrow> nat" where
  "str_len s = length (as_bytes s)"

definition trim :: "str \<Rightarrow> str" where
  "trim s = rev (dropWhile is_whitespace (rev (dropWhile is_whitespace s)))"

lemma as_bytes_simps [simp]:
  "as_bytes [] = []" "as_bytes (c # s) = utf8_char c @ as_bytes s"
  by (simp_all add: as_bytes_def)

lemma as_bytes_ascii: "\<forall>c\<in>set s. c < 128 \<Longrightarrow> as_bytes s = s"
  by (induction s) (auto simp: utf8_char_def)

lemma length_le_str_len: "length s \<le> str_len s"
  by (induction s) (auto simp: str_len_def utf8_char_def)

lemma dropWhile_full_length: "length (dropWhile P s) = length s \<Longrightarrow> dropWhile P s = s"
  using length_dropWhile_le [of P "tl s"] by (cases s) auto

lemma trim_fixed_iff:
  "trim s = s \<longleftrightarrow> s = [] \<or> \<not> is_whitespace (hd s) \<and> \<not> is_whitespace (last s)"
proof
  assume fixed: "trim s = s"
  have "length (trim s) \<le> length (dropWhile is_whitespace s)"
    unfolding trim_def by (metis length_dropWhile_le length_rev)
  with fixed have "dropWhile is_whitespace s = s"
    by (intro dropWhile_full_length) (simp add: le_antisym length_dropWhile_le)
  moreover from this fixed have "dropWhile is_whitespace (rev s) = rev s"
    unfolding trim_def by (metis rev_rev_ident)
  ultimately show "s = [] \<or> \<not> is_whitespace (hd s) \<and> \<not> is_whitespace (last s)"
    by (metis dropWhile_eq_self_iff hd_rev rev_is_Nil_conv)
next
  assume "s = [] \<or> \<not> is_whitespace (hd s) \<and> \<not> is_whitespace (last s)"
  then show "trim s = s"
    unfolding trim_def by (metis dropWhile_eq_self_iff hd_rev rev_is_Nil_conv rev_rev_ident)
qed

lemma set_trim: "set (trim s) \<subseteq> set s"
  unfolding trim_def by (metis set_dropWhileD set_rev subsetI)

lemma trim_idem [simp]: "trim (trim s) = trim s"
proof (cases "trim s = []")
  case False
  let ?d = "dropWhile is_whitespace s"
  let ?e = "dropWhile is_whitespace (rev ?d)"
  have ne: "?e \<noteq> []" using False by (simp add: trim_def)
  then have last: "\<not> is_whitespace (last (trim s))"
    unfolding trim_def by (metis hd_dropWhile last_rev)
  have "?d \<noteq> []" using ne by force
  then have "\<not> is_whitespace (hd ?d)" by (rule hd_dropWhile)
  moreover have "hd (trim s) = hd ?d"
  proof -
    have "rev ?d = takeWhile is_whitespace (rev ?d) @ ?e" by simp
    then have "?d = rev ?e @ rev (takeWhile is_whitespace (rev ?d))"
      by (metis rev_append rev_rev_ident)
    then show ?thesis unfolding trim_def using ne by (metis hd_append2 rev_is_Nil_conv)
  qed
  ultimately show ?thesis using last by (simp add: trim_fixed_iff)
next
  case True
  then show ?thesis by (simp add: trim_def [of "[]"])
qed

section \<open>Bounded text\<close>

datatype bounded_text_error =
    ZeroCapacity | EmptyText | ControlCharacter nat | TooLong nat nat

definition bounded_text_new :: "nat \<Rightarrow> str \<Rightarrow> (str, bounded_text_error) result" where
  "bounded_text_new mx v =
     (if mx = 0 then Inl ZeroCapacity
      else case find is_control v of
        Some c \<Rightarrow> Inl (ControlCharacter c)
      | None \<Rightarrow>
          (let t = trim v in
           if t = [] then Inl EmptyText
           else if mx < str_len t then Inl (TooLong mx (str_len t))
           else Inr t))"

definition bounded_text_ok :: "nat \<Rightarrow> str \<Rightarrow> bool" where
  "bounded_text_ok mx t \<longleftrightarrow>
     t \<noteq> [] \<and> trim t = t \<and> str_len t \<le> mx \<and> (\<forall>c\<in>set t. \<not> is_control c)"

lemma str_len_pos: "t \<noteq> [] \<Longrightarrow> 0 < str_len t"
  by (metis length_le_str_len gr0I le_zero_eq length_0_conv)

lemma bounded_text_new_ok: "bounded_text_new mx v = Inr t \<Longrightarrow> bounded_text_ok mx t \<and> t = trim v"
  using set_trim [of v]
  by (auto simp: bounded_text_new_def bounded_text_ok_def Let_def find_NoneD
      split: if_splits option.splits)

lemma bounded_text_new_ident: "bounded_text_ok mx t \<Longrightarrow> bounded_text_new mx t = Inr t"
  using str_len_pos [of t]
  by (auto simp: bounded_text_new_def bounded_text_ok_def Let_def find_NoneD [THEN iffD2])

lemma bounded_text_ok_iff: "bounded_text_ok mx t \<longleftrightarrow> bounded_text_new mx t = Inr t"
  using bounded_text_new_ident bounded_text_new_ok by blast

lemma bounded_text_ok_mono: "bounded_text_ok m t \<Longrightarrow> m \<le> n \<Longrightarrow> bounded_text_ok n t"
  by (auto simp: bounded_text_ok_def)

text \<open>
  Construction of bounded text accepts exactly the inputs without control characters whose
  trimmed form is non-empty and fits the byte limit, the stored text is that trimmed form, and the
  stored text survives its own serialisation: constructing from it again gives it back.
\<close>

theorem bounded_text_new_correct:
  "(bounded_text_new mx v = Inr t \<longleftrightarrow>
      t = trim v \<and> t \<noteq> [] \<and> str_len t \<le> mx \<and> (\<forall>c\<in>set v. \<not> is_control c)) \<and>
   (bounded_text_new mx v = Inr t \<longrightarrow> bounded_text_ok mx t \<and> bounded_text_new mx t = Inr t)"
proof
  show "bounded_text_new mx v = Inr t \<longleftrightarrow>
      t = trim v \<and> t \<noteq> [] \<and> str_len t \<le> mx \<and> (\<forall>c\<in>set v. \<not> is_control c)"
    using str_len_pos [of t]
    by (auto simp: bounded_text_new_def Let_def find_NoneD
        split: if_splits option.splits dest: find_SomeD)
  show "bounded_text_new mx v = Inr t \<longrightarrow> bounded_text_ok mx t \<and> bounded_text_new mx t = Inr t"
    using bounded_text_new_ok bounded_text_new_ident by blast
qed

theorem bounded_text_new_correct_witness:
  "bounded_text_new 8 (lit '' usage '') = Inr (lit ''usage'') \<and>
   bounded_text_ok 8 (lit ''usage'')"
proof -
  have new: "bounded_text_new 8 (lit '' usage '') = Inr (lit ''usage'')" by code_simp
  with bounded_text_new_correct [of 8 "lit '' usage ''" "lit ''usage''"] show ?thesis by blast
qed

section \<open>Scope identifiers\<close>

definition MAX_PROVIDER_INSTANCE_ID_BYTES :: nat where
  [limit_defs]: "MAX_PROVIDER_INSTANCE_ID_BYTES = 128"
definition MAX_ACCOUNT_KEY_BYTES :: nat where
  [limit_defs]: "MAX_ACCOUNT_KEY_BYTES = 160"

datatype scope_id_error =
    EmptyId string
  | SurroundingWhitespaceId string
  | TooLongId string nat nat
  | InvalidCharacterId string nat

definition scope_char_ok :: "bool \<Rightarrow> nat \<Rightarrow> bool" where
  "scope_char_ok allow_at c \<longleftrightarrow>
     is_ascii_alphanumeric c \<or> c \<in> set (lit ''-_.:+'') \<or> allow_at \<and> c = of_char CHR ''@''"

definition validate_scope_id ::
    "str \<Rightarrow> nat \<Rightarrow> string \<Rightarrow> bool \<Rightarrow> (unit, scope_id_error) result" where
  "validate_scope_id v maximum description allow_at =
     (if v = [] then Inl (EmptyId description)
      else if v \<noteq> trim v then Inl (SurroundingWhitespaceId description)
      else if maximum < str_len v then Inl (TooLongId description maximum (str_len v))
      else case find (\<lambda>c. \<not> scope_char_ok allow_at c) v of
        Some c \<Rightarrow> Inl (InvalidCharacterId description c)
      | None \<Rightarrow> Inr ())"

definition provider_instance_id_new :: "str \<Rightarrow> (str, scope_id_error) result" where
  "provider_instance_id_new v =
     and_then (validate_scope_id v MAX_PROVIDER_INSTANCE_ID_BYTES ''provider instance ID'' True)
       (\<lambda>_. Inr v)"

definition account_key_new :: "str \<Rightarrow> (str, scope_id_error) result" where
  "account_key_new v =
     and_then (validate_scope_id v MAX_ACCOUNT_KEY_BYTES ''account key'' False) (\<lambda>_. Inr v)"

definition scope_id_ok :: "nat \<Rightarrow> bool \<Rightarrow> str \<Rightarrow> bool" where
  "scope_id_ok maximum allow_at v \<longleftrightarrow>
     v \<noteq> [] \<and> length v \<le> maximum \<and> (\<forall>c\<in>set v. scope_char_ok allow_at c)"

lemma scope_char_ok_ascii:
  "scope_char_ok a c \<Longrightarrow> 32 < c \<and> c < 128"
  by (auto simp: scope_char_ok_def is_ascii_alphanumeric_def is_ascii_digit_def
      is_ascii_alphabetic_def lit_def)

lemma scope_char_ok_not_whitespace: "scope_char_ok a c \<Longrightarrow> \<not> is_whitespace c"
  using scope_char_ok_ascii [of a c] by (auto simp: is_whitespace_def)

lemma scope_chars_bytes: "\<forall>c\<in>set v. scope_char_ok a c \<Longrightarrow> as_bytes v = v"
  by (rule as_bytes_ascii) (blast dest: scope_char_ok_ascii)

lemma scope_chars_trim: "\<forall>c\<in>set v. scope_char_ok a c \<Longrightarrow> trim v = v"
  by (cases "v = []") (auto simp: trim_fixed_iff dest: scope_char_ok_not_whitespace)

lemma validate_scope_id_iff:
  "validate_scope_id v mx d a = Inr () \<longleftrightarrow> scope_id_ok mx a v"
  using scope_chars_bytes [of v a] scope_chars_trim [of v a]
  by (auto simp: validate_scope_id_def scope_id_ok_def str_len_def find_NoneD
      split: if_splits option.splits dest: find_SomeD)

lemma scope_id_new_iff:
  "provider_instance_id_new v = Inr w \<longleftrightarrow> scope_id_ok MAX_PROVIDER_INSTANCE_ID_BYTES True v \<and> w = v"
  "account_key_new v = Inr w \<longleftrightarrow> scope_id_ok MAX_ACCOUNT_KEY_BYTES False v \<and> w = v"
  by (auto simp: provider_instance_id_new_def account_key_new_def result_simps validate_scope_id_iff)

section \<open>Account scopes\<close>

text \<open>
  The exact routing scope. Its derived order is lexicographic: provider, then instance, then
  account; the byte order of UTF-8 text is the order of its scalar values.
\<close>

datatype account_scope =
  AccountScope (sc_provider: provider_id) (sc_instance: str) (sc_account: str)

definition scope_key :: "account_scope \<Rightarrow> provider_id \<times> str \<times> str" where
  "scope_key s = (sc_provider s, sc_instance s, sc_account s)"

lemma scope_key_inject [simp]: "scope_key s = scope_key t \<longleftrightarrow> s = t"
  by (cases s; cases t) (auto simp: scope_key_def)

instantiation account_scope :: linorder
begin

definition less_eq_account_scope :: "account_scope \<Rightarrow> account_scope \<Rightarrow> bool" where
  "less_eq_account_scope s t \<longleftrightarrow> scope_key s \<le> scope_key t"

definition less_account_scope :: "account_scope \<Rightarrow> account_scope \<Rightarrow> bool" where
  "less_account_scope s t \<longleftrightarrow> scope_key s < scope_key t"

instance
proof
  fix s t :: account_scope
  show "s < t \<longleftrightarrow> s \<le> t \<and> \<not> t \<le> s"
    by (simp add: less_eq_account_scope_def less_account_scope_def less_le_not_le)
  show "s \<le> t \<Longrightarrow> t \<le> s \<Longrightarrow> s = t"
    by (simp add: less_eq_account_scope_def flip: scope_key_inject)
qed (auto simp: less_eq_account_scope_def)

end

definition scope_ok :: "account_scope \<Rightarrow> bool" where
  "scope_ok s \<longleftrightarrow>
     scope_id_ok MAX_PROVIDER_INSTANCE_ID_BYTES True (sc_instance s) \<and>
     scope_id_ok MAX_ACCOUNT_KEY_BYTES False (sc_account s)"

section \<open>Opaque record identifiers\<close>

text \<open>
  Identifiers and public aliases are prefixes of the hexadecimal digest of a keyed message. The
  message starts with a fixed domain tag; each component is preceded by its length as eight
  big-endian bytes.
\<close>

type_synonym hmac_fn = "nat list \<Rightarrow> nat list \<Rightarrow> nat list"

definition hmac_digest_ok :: "hmac_fn \<Rightarrow> bool" where
  "hmac_digest_ok hmac \<longleftrightarrow> (\<forall>k m. length (hmac k m) = 32 \<and> (\<forall>b\<in>set (hmac k m). b < 256))"

datatype opaque_record_kind = CreditEventKind | ResetCreditKind

fun record_kind_domain :: "opaque_record_kind \<Rightarrow> str" where
  "record_kind_domain CreditEventKind = lit ''credit-event''"
| "record_kind_domain ResetCreditKind = lit ''reset-credit''"

fun be_bytes :: "nat \<Rightarrow> nat \<Rightarrow> nat list" where
  "be_bytes 0 n = []"
| "be_bytes (Suc k) n = (n div 256 ^ k) mod 256 # be_bytes k n"

definition hex_digit :: "nat \<Rightarrow> nat" where
  "hex_digit n = (if n < 10 then 48 + n else 87 + n)"

definition lower_hex :: "nat list \<Rightarrow> str" where
  "lower_hex bs = concat (map (\<lambda>b. [hex_digit (b div 16), hex_digit (b mod 16)]) bs)"

definition update_scope_mac :: "account_scope \<Rightarrow> nat list" where
  "update_scope_mac s =
     as_bytes (provider_as_str (sc_provider s)) @ [0] @ as_bytes (sc_instance s) @ [0] @
     as_bytes (sc_account s)"

definition opaque_record_message :: "account_scope \<Rightarrow> opaque_record_kind \<Rightarrow> nat list list \<Rightarrow> nat list" where
  "opaque_record_message s kind components =
     lit ''omarchy-ai-bar/opaque-record/v1'' @ [0] @ record_kind_domain kind @ [0] @
     update_scope_mac s @ concat (map (\<lambda>c. be_bytes 8 (length c) @ c) components)"

definition OPAQUE_RECORD_ID_HEX_BYTES :: nat where
  [limit_defs]: "OPAQUE_RECORD_ID_HEX_BYTES = 32"

definition opaque_record_id_derive ::
    "hmac_fn \<Rightarrow> nat list \<Rightarrow> account_scope \<Rightarrow> opaque_record_kind \<Rightarrow> nat list list \<Rightarrow> str" where
  "opaque_record_id_derive hmac privacy_key s kind components =
     take OPAQUE_RECORD_ID_HEX_BYTES
       (lower_hex (hmac privacy_key (opaque_record_message s kind components)))"

definition opaque_record_id_public_ordinal :: "hmac_fn \<Rightarrow> opaque_record_kind \<Rightarrow> nat \<Rightarrow> str" where
  "opaque_record_id_public_ordinal hmac kind ordinal =
     take OPAQUE_RECORD_ID_HEX_BYTES
       (lower_hex (hmac (replicate 32 0)
          (lit ''omarchy-ai-bar/public-record-ordinal/v1'' @ [0] @ record_kind_domain kind @ [0] @
           be_bytes 8 ordinal)))"

datatype opaque_record_id_error = OpaqueRecordIdError

definition opaque_record_id_from_wire :: "str \<Rightarrow> (str, opaque_record_id_error) result" where
  "opaque_record_id_from_wire v =
     (if str_len v \<noteq> OPAQUE_RECORD_ID_HEX_BYTES \<or>
         \<not> list_all is_lower_hex (as_bytes v)
      then Inl OpaqueRecordIdError else Inr v)"

definition public_scope_message :: "account_scope \<Rightarrow> str \<Rightarrow> nat list" where
  "public_scope_message s field =
     lit ''omarchy-ai-bar/public-scope/v1'' @ [0] @ field @ [0] @ update_scope_mac s"

definition public_scope_id :: "hmac_fn \<Rightarrow> account_scope \<Rightarrow> str \<Rightarrow> nat list \<Rightarrow> str" where
  "public_scope_id hmac s field privacy_key =
     take 24 (lower_hex (hmac privacy_key (public_scope_message s field)))"

text \<open>
  The projection builds its identifiers with the validating constructors and expects success;
  \<open>None\<close> stands for the panic of a failed expectation.
\<close>

definition scope_public_projection :: "hmac_fn \<Rightarrow> nat list \<Rightarrow> account_scope \<Rightarrow> account_scope option" where
  "scope_public_projection hmac privacy_key s =
     (case (provider_instance_id_new
              (lit ''instance-'' @ public_scope_id hmac s (lit ''instance'') privacy_key),
            account_key_new
              (lit ''account-'' @ public_scope_id hmac s (lit ''account'') privacy_key))
      of (Inr i, Inr a) \<Rightarrow> Some (AccountScope (sc_provider s) i a)
       | _ \<Rightarrow> None)"

lemma length_be_bytes [simp]: "length (be_bytes k n) = k"
  by (induction k) auto

definition be_value :: "nat list \<Rightarrow> nat" where
  "be_value bs = foldl (\<lambda>a b. a * 256 + b) 0 bs"

lemma foldl_base: "foldl (\<lambda>a b. a * 256 + b) (x::nat) bs = x * 256 ^ length bs + foldl (\<lambda>a b. a * 256 + b) 0 bs"
proof (induction bs arbitrary: x)
  case (Cons b bs)
  show ?case
    using Cons [of "x * 256 + b"] Cons [of b] by (simp add: algebra_simps)
qed simp

lemma be_value_bytes: "be_value (be_bytes k n) = n mod 256 ^ k"
proof (induction k)
  case (Suc k)
  have "be_value (be_bytes (Suc k) n) = (n div 256 ^ k mod 256) * 256 ^ k + n mod 256 ^ k"
    using Suc foldl_base [of "n div 256 ^ k mod 256" "be_bytes k n"] by (simp add: be_value_def)
  also have "\<dots> = n mod (256 ^ k * 256)"
    unfolding mod_mult2_eq by (simp only: mult.commute)
  finally show ?case by (simp only: power_Suc mult.commute)
qed (simp add: be_value_def)

lemma be_bytes_inject: "m < 256 ^ k \<Longrightarrow> n < 256 ^ k \<Longrightarrow> be_bytes k m = be_bytes k n \<Longrightarrow> m = n"
  by (metis be_value_bytes mod_less)

lemma length_lower_hex [simp]: "length (lower_hex bs) = 2 * length bs"
  by (induction bs) (auto simp: lower_hex_def)

lemma hex_digit_ok: "n < 16 \<Longrightarrow> is_lower_hex (hex_digit n)"
  by (auto simp: hex_digit_def is_ascii_digit_def is_lower_hex_def)

lemma lower_hex_digits: "\<forall>b\<in>set bs. b < 256 \<Longrightarrow> \<forall>c\<in>set (lower_hex bs). is_lower_hex c"
  by (auto simp: lower_hex_def dest!: bspec intro!: hex_digit_ok)

lemma digest_prefix:
  assumes "hmac_digest_ok hmac" "n \<le> 64"
  shows "length (take n (lower_hex (hmac k m))) = n"
    and "\<forall>c\<in>set (take n (lower_hex (hmac k m))). is_lower_hex c"
proof -
  from assms(1) have len: "length (hmac k m) = 32" and "\<forall>b\<in>set (hmac k m). b < 256"
    by (simp_all add: hmac_digest_ok_def)
  from this(2) have "\<forall>c\<in>set (lower_hex (hmac k m)). is_lower_hex c"
    by (rule lower_hex_digits)
  then show "\<forall>c\<in>set (take n (lower_hex (hmac k m))). is_lower_hex c"
    by (blast dest: in_set_takeD)
  show "length (take n (lower_hex (hmac k m))) = n" using assms(2) len by simp
qed

lemma is_lower_hex_scope_char: "is_lower_hex c \<Longrightarrow> scope_char_ok a c"
  by (auto simp: is_lower_hex_def scope_char_ok_def is_ascii_alphanumeric_def is_ascii_alphabetic_def)

section \<open>Unambiguous messages\<close>

lemma split_at_nul:
  fixes a :: "nat list"
  assumes "a @ r = a' @ r'" "0 \<notin> set a" "0 \<notin> set a'"
    and "r = [] \<or> hd r = 0" "r' = [] \<or> hd r' = 0"
  shows "a = a' \<and> r = r'"
  using assms
proof (induction a arbitrary: a')
  case Nil
  then show ?case by (cases a') auto
next
  case (Cons x a)
  then show ?case by (cases a') auto
qed

lemma lit_nul_free: "\<forall>c\<in>set s. of_char c \<noteq> (0::nat) \<Longrightarrow> 0 \<notin> set (lit s)"
  by (auto simp: lit_def)

lemma provider_bytes:
  "as_bytes (provider_as_str p) = provider_as_str p" "0 \<notin> set (provider_as_str p)"
proof -
  have "\<forall>c\<in>set (provider_name p). 0 < (of_char c :: nat) \<and> (of_char c :: nat) < 128"
    by (cases p) simp_all
  then show "as_bytes (provider_as_str p) = provider_as_str p" "0 \<notin> set (provider_as_str p)"
    by (auto simp: provider_as_str_def lit_def intro!: as_bytes_ascii)
qed

lemma scope_id_bytes: "scope_id_ok mx a v \<Longrightarrow> as_bytes v = v \<and> 0 \<notin> set v"
  by (metis scope_id_ok_def scope_chars_bytes scope_char_ok_ascii less_zeroE)

lemma update_scope_mac_inject:
  assumes "scope_ok s" "scope_ok t"
    and "r = [] \<or> hd r = 0" "r' = [] \<or> hd r' = 0"
    and "update_scope_mac s @ r = update_scope_mac t @ r'"
  shows "s = t \<and> r = r'"
proof -
  note bytes = scope_id_bytes [OF conjunct1 [OF assms(1) [unfolded scope_ok_def]]]
    scope_id_bytes [OF conjunct2 [OF assms(1) [unfolded scope_ok_def]]]
    scope_id_bytes [OF conjunct1 [OF assms(2) [unfolded scope_ok_def]]]
    scope_id_bytes [OF conjunct2 [OF assms(2) [unfolded scope_ok_def]]]
  from assms(5) have "provider_as_str (sc_provider s) @ 0 # sc_instance s @ 0 # sc_account s @ r =
      provider_as_str (sc_provider t) @ 0 # sc_instance t @ 0 # sc_account t @ r'"
    using bytes by (simp add: update_scope_mac_def provider_bytes)
  from split_at_nul [OF this] have p: "sc_provider s = sc_provider t"
    and rest: "sc_instance s @ 0 # sc_account s @ r = sc_instance t @ 0 # sc_account t @ r'"
    by (simp_all add: provider_bytes)
  from split_at_nul [OF rest] bytes have i: "sc_instance s = sc_instance t"
    and rest: "sc_account s @ r = sc_account t @ r'"
    by simp_all
  from split_at_nul [OF rest _ _ assms(3,4)] bytes have "sc_account s = sc_account t \<and> r = r'"
    by simp
  with p i show ?thesis by (simp add: account_scope.expand)
qed

lemma components_inject:
  assumes "\<forall>c\<in>set cs. length c < 2 ^ 56" "\<forall>c\<in>set ds. length c < 2 ^ 56"
    and "concat (map (\<lambda>c. be_bytes 8 (length c) @ c) cs) = concat (map (\<lambda>c. be_bytes 8 (length c) @ c) ds)"
  shows "cs = ds"
  using assms
proof (induction cs arbitrary: ds)
  case Nil
  then show ?case by (cases ds) (auto simp flip: length_0_conv)
next
  case (Cons c cs)
  then obtain d ds' where ds: "ds = d # ds'"
    by (cases ds) (auto simp flip: length_0_conv)
  let ?f = "\<lambda>c. be_bytes 8 (length c) @ c"
  from Cons.prems(3) have eq: "be_bytes 8 (length c) @ (c @ concat (map ?f cs)) =
      be_bytes 8 (length d) @ (d @ concat (map ?f ds'))"
    by (simp add: ds)
  then have bytes: "be_bytes 8 (length c) = be_bytes 8 (length d)"
    and rest: "c @ concat (map ?f cs) = d @ concat (map ?f ds')"
    by (simp_all add: append_eq_append_conv)
  have "length c < 256 ^ 8" "length d < 256 ^ 8" using Cons.prems(1,2) ds by auto
  then have "length c = length d" using bytes by (rule be_bytes_inject)
  with rest have "c = d" and "concat (map ?f cs) = concat (map ?f ds')" by simp_all
  with Cons ds show ?case by simp
qed

lemma components_head:
  assumes "\<forall>c\<in>set cs. length c < 2 ^ 56"
  shows "concat (map (\<lambda>c. be_bytes 8 (length c) @ c) cs) = [] \<or>
         hd (concat (map (\<lambda>c. be_bytes 8 (length c) @ c) cs)) = 0"
proof (cases cs)
  case (Cons c cs')
  have "be_bytes 8 (length c) = length c div 256 ^ 7 mod 256 # be_bytes 7 (length c)"
    using be_bytes.simps(2) [of 7 "length c"] by simp
  moreover have "length c div 256 ^ 7 = 0" using assms Cons by simp
  ultimately show ?thesis using Cons by simp
qed simp

text \<open>
  the message authenticated for an opaque record identifier determines the record kind, the
  exact account scope and the list of components, so two different records of an installation
  never share a message: this is what the length prefixes and separators are for.
\<close>

theorem opaque_record_message_unambiguous:
  assumes "scope_ok s" "scope_ok t"
    and "\<forall>c\<in>set cs. length c < 2 ^ 56" "\<forall>c\<in>set ds. length c < 2 ^ 56"
    and "opaque_record_message s k cs = opaque_record_message t l ds"
  shows "s = t \<and> k = l \<and> cs = ds"
proof -
  let ?c = "\<lambda>cs. concat (map (\<lambda>c. be_bytes 8 (length c) @ c) cs)"
  have nul: "0 \<notin> set (record_kind_domain k)" for k
    by (cases k) (auto simp: lit_def)
  from assms(5) have "record_kind_domain k @ 0 # update_scope_mac s @ ?c cs =
      record_kind_domain l @ 0 # update_scope_mac t @ ?c ds"
    by (simp add: opaque_record_message_def)
  from split_at_nul [OF this nul nul] have dom: "record_kind_domain k = record_kind_domain l"
    and rest: "update_scope_mac s @ ?c cs = update_scope_mac t @ ?c ds"
    by simp_all
  from dom have "k = l" by (cases k; cases l) simp_all
  moreover have "s = t \<and> ?c cs = ?c ds"
    by (rule update_scope_mac_inject [OF assms(1,2) components_head [OF assms(3)]
          components_head [OF assms(4)] rest])
  ultimately show ?thesis using components_inject [OF assms(3,4)] by blast
qed

theorem opaque_record_message_unambiguous_witness:
  "opaque_record_message (AccountScope Codex (lit ''default'') (lit ''a'')) ResetCreditKind [[7, 8], [9]] \<noteq>
   opaque_record_message (AccountScope Codex (lit ''default'') (lit ''a'')) ResetCreditKind [[7], [8, 9]]"
proof -
  let ?s = "AccountScope Codex (lit ''default'') (lit ''a'')"
  have ok: "scope_ok ?s"
    by (simp add: scope_ok_def scope_id_ok_def scope_char_ok_def limit_defs lit_def
        is_ascii_alphanumeric_def is_ascii_alphabetic_def is_ascii_digit_def)
  show ?thesis
    using opaque_record_message_unambiguous [OF ok ok, of "[[7, 8], [9]]" "[[7], [8, 9]]"
        ResetCreditKind ResetCreditKind] by auto
qed

lemma scope_public_projection_total:
  assumes "hmac_digest_ok hmac"
  shows "\<exists>t. scope_public_projection hmac key s = Some t \<and> scope_ok t \<and> sc_provider t = sc_provider s \<and>
     length (sc_instance t) = 33 \<and> length (sc_account t) = 32"
proof -
  have ids: "length (public_scope_id hmac s f key) = 24"
    "\<forall>c\<in>set (public_scope_id hmac s f key). scope_char_ok a c" for f a
    using digest_prefix [OF assms, of 24] is_lower_hex_scope_char
    by (auto simp: public_scope_id_def)
  have "scope_id_ok MAX_PROVIDER_INSTANCE_ID_BYTES True
      (lit ''instance-'' @ public_scope_id hmac s (lit ''instance'') key)"
    using ids(1) [of "lit ''instance''"] ids(2) [of "lit ''instance''" True]
    by (simp add: scope_id_ok_def limit_defs ball_Un)
      (simp add: lit_def scope_char_ok_def is_ascii_alphanumeric_def is_ascii_alphabetic_def)
  moreover have "scope_id_ok MAX_ACCOUNT_KEY_BYTES False
      (lit ''account-'' @ public_scope_id hmac s (lit ''account'') key)"
    using ids(1) [of "lit ''account''"] ids(2) [of "lit ''account''" False]
    by (simp add: scope_id_ok_def limit_defs ball_Un)
      (simp add: lit_def scope_char_ok_def is_ascii_alphanumeric_def is_ascii_alphabetic_def)
  ultimately show ?thesis
    using ids(1)
    by (simp add: scope_public_projection_def scope_id_new_iff [THEN iffD2] scope_ok_def lit_def)
qed



end
