(* ===== verification/Domain_Values.thy ===== *)
theory Domain_Values
  imports Identifiers Complex_Main
begin

text \<open>
  The scalar values of the domain crate: timestamps (\<open>timestamp.rs\<close>), finite measurements and
  percentages and window durations (\<open>percentage.rs\<close>), freshness and refresh phase
  (\<open>freshness.rs\<close>), and classified errors (\<open>error.rs\<close>).
\<close>

section \<open>Decimal printing\<close>

fun decimal :: "nat \<Rightarrow> str" where
  "decimal n = (if n < 10 then [48 + n] else decimal (n div 10) @ [48 + n mod 10])"

declare decimal.simps [simp del]

definition undecimal :: "str \<Rightarrow> nat" where
  "undecimal s = foldl (\<lambda>a c. a * 10 + (c - 48)) 0 s"

lemma undecimal_snoc: "undecimal (ds @ [d]) = undecimal ds * 10 + (d - 48)"
  by (simp add: undecimal_def)

lemma undecimal_bound: "\<forall>d\<in>set ds. is_ascii_digit d \<Longrightarrow> undecimal ds < 10 ^ length ds"
proof (induction ds rule: rev_induct)
  case (snoc d ds)
  then have "undecimal ds < 10 ^ length ds" "d - 48 < 10" by (auto simp: is_ascii_digit_def)
  then show ?case by (simp add: undecimal_snoc)
qed (simp add: undecimal_def)

lemma undecimal_decimal [simp]: "undecimal (decimal n) = n"
proof (induction n rule: decimal.induct)
  case (1 n)
  then show ?case by (cases "n < 10") (simp_all add: decimal.simps [of n] undecimal_def)
qed

lemma decimal_inject [simp]: "decimal m = decimal n \<longleftrightarrow> m = n"
  by (metis undecimal_decimal)

lemma decimal_digits: "c \<in> set (decimal n) \<Longrightarrow> is_ascii_digit c"
proof (induction n rule: decimal.induct)
  case (1 n)
  then show ?case
    by (cases "n < 10") (auto simp: decimal.simps [of n] is_ascii_digit_def)
qed

lemma length_decimal: "n < 10 ^ k \<Longrightarrow> 0 < k \<Longrightarrow> length (decimal n) \<le> k"
proof (induction n arbitrary: k rule: decimal.induct)
  case (1 n)
  show ?case
  proof (cases "n < 10")
    case False
    from 1(3) obtain j where "k = Suc j" by (cases k) auto
    moreover from this have "0 < j" using False 1(2) by (cases j) auto
    ultimately have k: "k = Suc j" "0 < j" .
    then have "n div 10 < 10 ^ j" using 1(2) by auto
    then show ?thesis using 1(1) [OF False _ k(2)] k False by (simp add: decimal.simps [of n])
  qed (use 1 in \<open>simp add: decimal.simps [of n]\<close>)
qed

lemma decimal_not_Nil [simp]: "decimal n \<noteq> []"
  by (simp add: decimal.simps [of n])

lemma ascii_digit_plain: "is_ascii_digit c \<Longrightarrow> \<not> is_control c \<and> \<not> is_whitespace c \<and> c < 128"
  by (auto simp: is_ascii_digit_def is_control_def is_whitespace_def)

text \<open>A printable ASCII prefix followed by a decimal count is bounded text.\<close>

lemma bounded_text_label:
  assumes "s \<noteq> []" "\<forall>c\<in>set (lit s). \<not> is_control c \<and> c < 128" "\<not> is_whitespace (hd (lit s))"
    and "n < 10 ^ 20" "length s + 20 \<le> mx"
  shows "bounded_text_ok mx (lit s @ decimal n)"
proof -
  have d: "\<not> is_control c \<and> \<not> is_whitespace c \<and> c < 128" if "c \<in> set (decimal n)" for c
    using decimal_digits [OF that] by (rule ascii_digit_plain)
  have plain: "\<forall>c\<in>set (lit s @ decimal n). \<not> is_control c \<and> c < 128"
    using d assms(2) by auto
  then have "as_bytes (lit s @ decimal n) = lit s @ decimal n" by (intro as_bytes_ascii) auto
  then have "str_len (lit s @ decimal n) \<le> mx"
    using assms(5) length_decimal [OF assms(4)] by (simp add: str_len_def lit_def)
  moreover have "trim (lit s @ decimal n) = lit s @ decimal n"
    using assms(1,3) d by (simp add: trim_fixed_iff)
  ultimately show ?thesis using assms(1) plain by (simp add: bounded_text_ok_def)
qed

text \<open>So is a printable ASCII text without surrounding blanks that fits the limit.\<close>

lemma bounded_text_lit:
  assumes "s \<noteq> []" "\<forall>c\<in>set (lit s). 32 \<le> c \<and> c < 127" "hd (lit s) \<noteq> 32" "last (lit s) \<noteq> 32"
    and "length s \<le> mx"
  shows "bounded_text_ok mx (lit s)"
proof -
  have ne: "lit s \<noteq> []" using assms(1) by (simp add: lit_def)
  have blank: "\<not> is_whitespace c" if "c \<in> set (lit s)" "c \<noteq> 32" for c
    using assms(2) that by (auto simp: is_whitespace_def)
  have ends: "\<not> is_whitespace (hd (lit s))" "\<not> is_whitespace (last (lit s))"
    using blank assms(3,4) hd_in_set [OF ne] last_in_set [OF ne] by blast+
  have "as_bytes (lit s) = lit s" using assms(2) by (intro as_bytes_ascii) auto
  then have "str_len (lit s) \<le> mx" using assms(5) by (simp add: str_len_def lit_def)
  moreover have "trim (lit s) = lit s" using ends ne by (simp add: trim_fixed_iff)
  moreover have "\<forall>c\<in>set (lit s). \<not> is_control c" using assms(2) by (auto simp: is_control_def)
  ultimately show ?thesis using ne by (simp add: bounded_text_ok_def)
qed

section \<open>Timestamps\<close>

text \<open>
  A timestamp is the UTC instant in nanoseconds since the Unix epoch; comparison and subtraction
  are those of instants. The calendar library supplies checked addition, RFC 3339 formatting and
  parsing and the conversion from Unix seconds.
\<close>

type_synonym timestamp = int

record time_lib =
  odt_checked_add :: "int \<Rightarrow> int \<Rightarrow> int option"
  odt_from_unix :: "int \<Rightarrow> int option"
  rfc3339_formats :: "int \<Rightarrow> bool"
  rfc3339_print :: "int \<Rightarrow> str"
  rfc3339_parse :: "str \<Rightarrow> int option"

text \<open>
  Documented behaviour used below: checked addition adds exactly when it succeeds, a conversion
  from Unix seconds denotes that many seconds, and a printed timestamp carries no surrounding
  whitespace and parses back.
\<close>

definition time_lib_ok :: "time_lib \<Rightarrow> bool" where
  "time_lib_ok tlib \<longleftrightarrow>
     (\<forall>t d u. odt_checked_add tlib t d = Some u \<longrightarrow> u = t + d) \<and>
     (\<forall>s t. odt_from_unix tlib s = Some t \<longrightarrow> t = s * int nanos_per_sec) \<and>
     (\<forall>t. rfc3339_formats tlib t \<longrightarrow>
        trim (rfc3339_print tlib t) = rfc3339_print tlib t \<and> rfc3339_parse tlib (rfc3339_print tlib t) = Some t)"

datatype timestamp_error =
    TsSurroundingWhitespace | InvalidRfc3339 | NotRfc3339Representable | InvalidUnixTimestamp

definition timestamp_new :: "time_lib \<Rightarrow> int \<Rightarrow> (timestamp, timestamp_error) result" where
  "timestamp_new tlib v = (if rfc3339_formats tlib v then Inr v else Inl NotRfc3339Representable)"

definition timestamp_parse :: "time_lib \<Rightarrow> str \<Rightarrow> (timestamp, timestamp_error) result" where
  "timestamp_parse tlib v =
     (if v \<noteq> trim v then Inl TsSurroundingWhitespace
      else and_then (ok_or InvalidRfc3339 (rfc3339_parse tlib v)) (timestamp_new tlib))"

definition timestamp_from_unix :: "time_lib \<Rightarrow> int \<Rightarrow> (timestamp, timestamp_error) result" where
  "timestamp_from_unix tlib s =
     and_then (ok_or InvalidUnixTimestamp (odt_from_unix tlib s)) (timestamp_new tlib)"

definition unix_timestamp :: "timestamp \<Rightarrow> int" where
  "unix_timestamp t = t div int nanos_per_sec"

lemma timestamp_from_unix_value:
  assumes "time_lib_ok tlib" "timestamp_from_unix tlib s = Inr t"
  shows "unix_timestamp t = s"
proof -
  have "odt_from_unix tlib s = Some t"
    using assms(2)
    by (auto simp: timestamp_from_unix_def timestamp_new_def result_simps split: if_splits)
  then have "t = s * int nanos_per_sec" using assms(1) by (simp add: time_lib_ok_def)
  then show ?thesis by (simp add: unix_timestamp_def nanos_per_sec_def)
qed

lemma timestamp_parse_print:
  "time_lib_ok tlib \<Longrightarrow> timestamp_new tlib v = Inr t \<Longrightarrow> timestamp_parse tlib (rfc3339_print tlib t) = Inr t"
  by (auto simp: timestamp_parse_def timestamp_new_def time_lib_ok_def split: if_splits)

section \<open>Floating-point measurements\<close>

text \<open>
  An \<open>f64\<close> is a rational, the negative zero, an infinity or NaN. The constructors below compare
  but do not round, so the representation by the exact value suffices for them.
\<close>

datatype f64 = F64 rat | NegZero | PosInf | NegInf | NaN

fun f64_is_finite :: "f64 \<Rightarrow> bool" where
  "f64_is_finite (F64 _) = True"
| "f64_is_finite NegZero = True"
| "f64_is_finite _ = False"

fun f64_value :: "f64 \<Rightarrow> rat" where
  "f64_value (F64 q) = q"
| "f64_value _ = 0"

definition f64_eq_zero :: "f64 \<Rightarrow> bool" where
  "f64_eq_zero v \<longleftrightarrow> f64_is_finite v \<and> f64_value v = 0"

fun f64_less :: "f64 \<Rightarrow> f64 \<Rightarrow> bool" where
  "f64_less NaN _ = False"
| "f64_less _ NaN = False"
| "f64_less PosInf _ = False"
| "f64_less _ NegInf = False"
| "f64_less _ PosInf = True"
| "f64_less NegInf _ = True"
| "f64_less v w = (f64_value v < f64_value w)"

definition canonical_zero :: "f64 \<Rightarrow> f64" where
  "canonical_zero v = (if f64_eq_zero v then F64 0 else v)"

datatype finite_number_error = FiniteNonFinite
datatype percentage_error = PercentNonFinite | OutsideDisplayRange f64

definition finite_number_new :: "f64 \<Rightarrow> (f64, finite_number_error) result" where
  "finite_number_new v = (if f64_is_finite v then Inr (canonical_zero v) else Inl FiniteNonFinite)"

definition usage_percent_new :: "f64 \<Rightarrow> (f64, percentage_error) result" where
  "usage_percent_new v = (if f64_is_finite v then Inr (canonical_zero v) else Inl PercentNonFinite)"

definition display_percent_new :: "f64 \<Rightarrow> (f64, percentage_error) result" where
  "display_percent_new v =
     (if \<not> f64_is_finite v then Inl PercentNonFinite
      else if \<not> (0 \<le> f64_value v \<and> f64_value v \<le> 100) then Inl (OutsideDisplayRange v)
      else Inr (canonical_zero v))"

definition display_percent_clamped :: "f64 \<Rightarrow> f64" where
  "display_percent_clamped v =
     (if f64_less v (F64 0) then F64 0 else if f64_less (F64 100) v then F64 100 else v)"

text \<open>The representation invariants of the two percentage types.\<close>

definition usage_percent_ok :: "f64 \<Rightarrow> bool" where
  "usage_percent_ok v \<longleftrightarrow> (\<exists>q. v = F64 q)"

definition display_percent_ok :: "f64 \<Rightarrow> bool" where
  "display_percent_ok v \<longleftrightarrow> (\<exists>q. v = F64 q \<and> 0 \<le> q \<and> q \<le> 100)"

lemma canonical_zero_finite: "f64_is_finite v \<Longrightarrow> canonical_zero v = F64 (f64_value v)"
  by (cases v) (auto simp: canonical_zero_def f64_eq_zero_def)

text \<open>
  The percentage constructors never let a non-finite value or a negative zero in, keep the
  numeric value otherwise, and a usage percentage of any size is brought into the display range
  by clamping, which leaves values already in range unchanged.
\<close>

theorem percentage_constructors_correct:
  "(usage_percent_new v = Inr p \<longleftrightarrow> f64_is_finite v \<and> p = F64 (f64_value v)) \<and>
   (display_percent_new v = Inr p \<longleftrightarrow>
      f64_is_finite v \<and> p = F64 (f64_value v) \<and> 0 \<le> f64_value v \<and> f64_value v \<le> 100) \<and>
   display_percent_clamped (F64 q) = F64 (max 0 (min 100 q)) \<and>
   display_percent_ok (display_percent_clamped (F64 q))"
  by (auto simp: usage_percent_new_def display_percent_new_def canonical_zero_finite
      display_percent_clamped_def display_percent_ok_def)

section \<open>Window durations\<close>

datatype window_duration_error = ZeroDuration | NonPositiveProviderMinutes int | DurationOverflow

definition window_duration_from_seconds :: "nat \<Rightarrow> (nat, window_duration_error) result" where
  "window_duration_from_seconds s = (if s = 0 then Inl ZeroDuration else Inr s)"

definition window_duration_from_provider_minutes :: "int \<Rightarrow> (nat, window_duration_error) result" where
  "window_duration_from_provider_minutes minutes =
     (if minutes \<le> 0 then Inl (NonPositiveProviderMinutes minutes)
      else and_then (ok_or DurationOverflow (checked_mul u64_max (nat minutes) 60))
        window_duration_from_seconds)"

definition window_duration_optional_from_provider_minutes ::
    "int \<Rightarrow> (nat option, window_duration_error) result" where
  "window_duration_optional_from_provider_minutes minutes =
     (if minutes = 0 then Inr None
      else map_ok Some (window_duration_from_provider_minutes minutes))"

text \<open>
  A provider minute count maps to a duration exactly when it is positive and its seconds fit
  64 bits; the result is then sixty times the count, so it is positive and never wraps. Zero means
  no duration.
\<close>

theorem window_duration_minutes_correct:
  "window_duration_optional_from_provider_minutes m =
     (if m = 0 then Inr None
      else if m < 0 then Inl (NonPositiveProviderMinutes m)
      else if u64_max < 60 * nat m then Inl DurationOverflow
      else Inr (Some (60 * nat m)))"
  by (auto simp: window_duration_optional_from_provider_minutes_def
      window_duration_from_provider_minutes_def window_duration_from_seconds_def checked_mul_def
      mult.commute)

section \<open>Freshness and refresh phase\<close>

datatype freshness = Fresh | Stale timestamp | UnknownFreshness

datatype refresh_phase = Idle | Scheduled timestamp | Refreshing timestamp

fun freshness_is_fresh :: "freshness \<Rightarrow> bool" where
  "freshness_is_fresh Fresh = True"
| "freshness_is_fresh _ = False"

fun refresh_phase_is_active :: "refresh_phase \<Rightarrow> bool" where
  "refresh_phase_is_active (Refreshing _) = True"
| "refresh_phase_is_active _ = False"

end
