(* ===== verification/Rate_Window.thy ===== *)
theory Rate_Window
  imports Domain_Values
begin

text \<open>
  Quota lanes (\<open>crates/domain/src/rate_window.rs\<close>): construction, the backfill of a missing reset
  from a cached lane, named lanes and their public projection.
\<close>

section \<open>Lanes\<close>

definition MAX_NAMED_WINDOW_ID_LENGTH :: nat where [limit_defs]: "MAX_NAMED_WINDOW_ID_LENGTH = 128"
definition MAX_WINDOW_TEXT_LENGTH :: nat where [limit_defs]: "MAX_WINDOW_TEXT_LENGTH = 120"

datatype window_usage = Known f64 | UnknownUsage

fun usage_used_percent :: "window_usage \<Rightarrow> f64 option" where
  "usage_used_percent (Known p) = Some p"
| "usage_used_percent UnknownUsage = None"

record rate_window =
  rw_usage :: window_usage
  rw_duration :: "nat option"
  rw_resets_at :: "timestamp option"
  rw_reset_description :: "str option"
  rw_next_regen_percent :: "f64 option"
  rw_synthetic_placeholder :: bool

datatype rate_window_error = SyntheticPlaceholderMustBeKnownZero | DuplicateNamedWindowId

definition known_zero :: "window_usage \<Rightarrow> bool" where
  "known_zero u = (case u of Known p \<Rightarrow> f64_eq_zero p | UnknownUsage \<Rightarrow> False)"

definition rate_window_new ::
    "window_usage \<Rightarrow> nat option \<Rightarrow> timestamp option \<Rightarrow> str option \<Rightarrow> f64 option \<Rightarrow> bool \<Rightarrow>
     (rate_window, rate_window_error) result" where
  "rate_window_new usage duration resets_at reset_description next_regen_percent synthetic =
     (if synthetic \<and> \<not> known_zero usage then Inl SyntheticPlaceholderMustBeKnownZero
      else Inr \<lparr>rw_usage = usage, rw_duration = duration, rw_resets_at = resets_at,
                rw_reset_description = reset_description,
                rw_next_regen_percent = next_regen_percent,
                rw_synthetic_placeholder = synthetic\<rparr>)"

text \<open>Decoding hands the wire fields to the constructor.\<close>

definition rate_window_decode :: "rate_window \<Rightarrow> (rate_window, rate_window_error) result" where
  "rate_window_decode wire =
     rate_window_new (rw_usage wire) (rw_duration wire) (rw_resets_at wire)
       (rw_reset_description wire) (rw_next_regen_percent wire) (rw_synthetic_placeholder wire)"

definition backfilling_reset_time ::
    "rate_window \<Rightarrow> rate_window option \<Rightarrow> timestamp \<Rightarrow> rate_window" where
  "backfilling_reset_time w cached now =
     (if rw_resets_at w \<noteq> None then w
      else case cached of
        None \<Rightarrow> w
      | Some c \<Rightarrow>
          (case rw_resets_at c of
            None \<Rightarrow> w
          | Some cached_reset \<Rightarrow>
              if cached_reset \<le> now then w
              else \<lparr>rw_usage = rw_usage w,
                    rw_duration = opt_or (rw_duration w) (rw_duration c),
                    rw_resets_at = Some cached_reset,
                    rw_reset_description = opt_or (rw_reset_description w) (rw_reset_description c),
                    rw_next_regen_percent = rw_next_regen_percent w,
                    rw_synthetic_placeholder = rw_synthetic_placeholder w\<rparr>))"

definition window_without_personal_information :: "rate_window \<Rightarrow> rate_window" where
  "window_without_personal_information w = w\<lparr>rw_reset_description := None\<rparr>"

text \<open>
  The invariant of a lane: its parts satisfy the invariants of their types, and a placeholder has a
  known zero usage.
\<close>

definition rate_window_ok :: "rate_window \<Rightarrow> bool" where
  "rate_window_ok w \<longleftrightarrow>
     (\<forall>p. rw_usage w = Known p \<longrightarrow> usage_percent_ok p) \<and>
     is_none_or (\<lambda>d. 0 < d \<and> d \<le> u64_max) (rw_duration w) \<and>
     is_none_or (bounded_text_ok MAX_WINDOW_TEXT_LENGTH) (rw_reset_description w) \<and>
     is_none_or usage_percent_ok (rw_next_regen_percent w) \<and>
     (rw_synthetic_placeholder w \<longrightarrow> known_zero (rw_usage w))"

lemma rate_window_new_Inr:
  "rate_window_new u d r t n s = Inr w \<longleftrightarrow>
     (s \<longrightarrow> known_zero u) \<and>
     w = \<lparr>rw_usage = u, rw_duration = d, rw_resets_at = r, rw_reset_description = t,
          rw_next_regen_percent = n, rw_synthetic_placeholder = s\<rparr>"
  by (auto simp: rate_window_new_def)

lemma rate_window_decode_ok: "rate_window_ok w \<Longrightarrow> rate_window_decode w = Inr w"
  by (cases w) (simp add: rate_window_decode_def rate_window_new_def rate_window_ok_def)

lemma backfill_ok [wf_intros]:
  "rate_window_ok w \<Longrightarrow> is_none_or rate_window_ok c \<Longrightarrow> rate_window_ok (backfilling_reset_time w c now)"
  by (auto simp: backfilling_reset_time_def rate_window_ok_def opt_or_def
      split: option.splits if_splits)

lemma window_redaction_ok [wf_intros]:
  "rate_window_ok w \<Longrightarrow> rate_window_ok (window_without_personal_information w)"
  by (simp add: window_without_personal_information_def rate_window_ok_def)

lemma backfill_fresh_fields [simp]:
  "rw_usage (backfilling_reset_time w c now) = rw_usage w"
  "rw_next_regen_percent (backfilling_reset_time w c now) = rw_next_regen_percent w"
  "rw_synthetic_placeholder (backfilling_reset_time w c now) = rw_synthetic_placeholder w"
  by (auto simp: backfilling_reset_time_def split: option.splits)

lemma backfill_reset:
  "rw_resets_at (backfilling_reset_time w c now) =
     (case rw_resets_at w of
       Some r \<Rightarrow> Some r
     | None \<Rightarrow> (case c of None \<Rightarrow> None
               | Some cw \<Rightarrow> (case rw_resets_at cw of None \<Rightarrow> None
                           | Some r \<Rightarrow> if r \<le> now then None else Some r)))"
  by (auto simp: backfilling_reset_time_def split: option.splits)

lemma backfill_idem:
  "backfilling_reset_time (backfilling_reset_time w c now) c now = backfilling_reset_time w c now"
  by (auto simp: backfilling_reset_time_def split: option.splits)

text \<open>
  Backfilling never touches what the fresh response says (usage, regeneration, placeholder
  marker, an existing reset, and every lane that already has a reset as a whole); the reset it
  reports is the fresh one or a cached one strictly in the future; a filled lane takes only missing
  fields from the cache; and applying it twice is the same as once.
\<close>

theorem backfill_keeps_fresh_lane:
  "rw_usage (backfilling_reset_time w c now) = rw_usage w \<and>
   rw_next_regen_percent (backfilling_reset_time w c now) = rw_next_regen_percent w \<and>
   rw_synthetic_placeholder (backfilling_reset_time w c now) = rw_synthetic_placeholder w \<and>
   (if rw_resets_at w \<noteq> None then backfilling_reset_time w c now = w
    else case c of
        None \<Rightarrow> backfilling_reset_time w c now = w
      | Some cw \<Rightarrow>
          (if is_some_and (\<lambda>r. now < r) (rw_resets_at cw)
           then rw_resets_at (backfilling_reset_time w c now) = rw_resets_at cw \<and>
                rw_duration (backfilling_reset_time w c now)
                  = opt_or (rw_duration w) (rw_duration cw) \<and>
                rw_reset_description (backfilling_reset_time w c now)
                  = opt_or (rw_reset_description w) (rw_reset_description cw)
           else backfilling_reset_time w c now = w)) \<and>
   backfilling_reset_time (backfilling_reset_time w c now) c now = backfilling_reset_time w c now"
  unfolding backfill_idem
  by (auto simp: backfilling_reset_time_def is_some_and_def split: option.splits)

section \<open>Named lanes\<close>

record named_rate_window =
  nw_id :: str
  nw_title :: str
  nw_window :: rate_window

definition named_window_ok :: "named_rate_window \<Rightarrow> bool" where
  "named_window_ok n \<longleftrightarrow>
     bounded_text_ok MAX_NAMED_WINDOW_ID_LENGTH (nw_id n) \<and>
     bounded_text_ok MAX_WINDOW_TEXT_LENGTH (nw_title n) \<and> rate_window_ok (nw_window n)"

definition named_rate_window_new :: "str \<Rightarrow> str \<Rightarrow> rate_window \<Rightarrow> named_rate_window" where
  "named_rate_window_new i t w = \<lparr>nw_id = i, nw_title = t, nw_window = w\<rparr>"

definition validate_unique_ids :: "named_rate_window list \<Rightarrow> (unit, rate_window_error) result" where
  "validate_unique_ids ws = require (all_new {} (map nw_id ws)) DuplicateNamedWindowId"

definition named_without_personal_information ::
    "named_rate_window \<Rightarrow> nat \<Rightarrow> named_rate_window" where
  "named_without_personal_information n ordinal =
     (let ordinal = saturating_add usize_max ordinal 1 in
      \<lparr>nw_id = lit ''window-'' @ decimal ordinal, nw_title = lit ''Window '' @ decimal ordinal,
       nw_window = window_without_personal_information (nw_window n)\<rparr>)"

definition named_public_projection :: "named_rate_window list \<Rightarrow> named_rate_window list" where
  "named_public_projection ws =
     map (\<lambda>(ordinal, w). named_without_personal_information w ordinal) (enumerate 0 ws)"

text \<open>The generated labels satisfy the bounded-text contract, so the expectations never panic.\<close>

lemma window_labels_ok:
  assumes "n \<le> usize_max"
  shows "bounded_text_ok MAX_NAMED_WINDOW_ID_LENGTH (lit ''window-'' @ decimal n)"
    and "bounded_text_ok MAX_WINDOW_TEXT_LENGTH (lit ''Window '' @ decimal n)"
proof -
  have n: "n < 10 ^ 20" using assms by (simp add: usize_max_def)
  show "bounded_text_ok MAX_NAMED_WINDOW_ID_LENGTH (lit ''window-'' @ decimal n)"
    by (rule bounded_text_label)
      (use n in \<open>simp_all add: lit_def is_control_def is_whitespace_def MAX_NAMED_WINDOW_ID_LENGTH_def\<close>)
  show "bounded_text_ok MAX_WINDOW_TEXT_LENGTH (lit ''Window '' @ decimal n)"
    by (rule bounded_text_label)
      (use n in \<open>simp_all add: lit_def is_control_def is_whitespace_def MAX_WINDOW_TEXT_LENGTH_def\<close>)
qed

lemma named_redaction_ok [wf_intros]:
  "named_window_ok n \<Longrightarrow> named_window_ok (named_without_personal_information n k)"
  by (simp add: named_window_ok_def named_without_personal_information_def Let_def
      window_labels_ok window_redaction_ok saturating_add_def)

lemma named_projection_nth:
  "i < length ws \<Longrightarrow>
     named_public_projection ws ! i = named_without_personal_information (ws ! i) i"
  by (simp add: named_public_projection_def nth_enumerate_eq)

lemma length_named_projection [simp]: "length (named_public_projection ws) = length ws"
  by (simp add: named_public_projection_def)

lemma nw_id_projection:
  "length ws \<le> usize_max \<Longrightarrow>
     map nw_id (named_public_projection ws) = map (\<lambda>i. lit ''window-'' @ decimal (Suc i)) [0..<length ws]"
  by (rule nth_equalityI)
    (auto simp: named_projection_nth named_without_personal_information_def saturating_add_def)

lemma distinct_nw_id_projection:
  "length ws \<le> usize_max \<Longrightarrow> distinct (map nw_id (named_public_projection ws))"
  by (simp add: nw_id_projection distinct_map inj_on_def)

lemma named_projection_ok:
  "\<forall>w\<in>set ws. named_window_ok w \<Longrightarrow> \<forall>w\<in>set (named_public_projection ws). named_window_ok w"
  by (auto simp: in_set_conv_nth [of _ "named_public_projection ws"] named_projection_nth
      intro!: named_redaction_ok)

text \<open>
  The public projection of named lanes keeps their number, order, usage, duration, reset and
  placeholder marker, drops the reset text, replaces every id and title by a text that depends on
  the position alone, and the ids stay unique and within their bounds.
\<close>

theorem named_public_projection_correct:
  assumes "\<forall>w\<in>set ws. named_window_ok w" and "length ws \<le> usize_max"
  shows "length (named_public_projection ws) = length ws \<and>
    validate_unique_ids (named_public_projection ws) = Inr () \<and>
    (\<forall>w\<in>set (named_public_projection ws). named_window_ok w) \<and>
    (\<forall>i<length ws.
       nw_id (named_public_projection ws ! i) = lit ''window-'' @ decimal (i + 1) \<and>
       nw_title (named_public_projection ws ! i) = lit ''Window '' @ decimal (i + 1) \<and>
       nw_window (named_public_projection ws ! i)
         = (nw_window (ws ! i))\<lparr>rw_reset_description := None\<rparr>)"
  using assms named_projection_ok [OF assms(1)] distinct_nw_id_projection [OF assms(2)]
  by (auto simp: validate_unique_ids_def named_projection_nth named_without_personal_information_def
      window_without_personal_information_def saturating_add_def)

lemma named_public_projection_correct_witness:
  "let w = \<lparr>rw_usage = Known (F64 12), rw_duration = Some 300, rw_resets_at = Some 5,
            rw_reset_description = Some (lit ''soon''), rw_next_regen_percent = None,
            rw_synthetic_placeholder = False\<rparr>;
       n = \<lparr>nw_id = lit ''acct'', nw_title = lit ''Me'', nw_window = w\<rparr>
   in validate_unique_ids (named_public_projection [n]) = Inr () \<and>
      nw_window (named_public_projection [n] ! 0) = w\<lparr>rw_reset_description := None\<rparr>"
proof -
  let ?w = "\<lparr>rw_usage = Known (F64 12), rw_duration = Some 300, rw_resets_at = Some 5,
            rw_reset_description = Some (lit ''soon''), rw_next_regen_percent = None,
            rw_synthetic_placeholder = False\<rparr>"
  let ?n = "\<lparr>nw_id = lit ''acct'', nw_title = lit ''Me'', nw_window = ?w\<rparr>"
  have "bounded_text_ok MAX_WINDOW_TEXT_LENGTH (lit ''soon'')"
    "bounded_text_ok MAX_NAMED_WINDOW_ID_LENGTH (lit ''acct'')"
    "bounded_text_ok MAX_WINDOW_TEXT_LENGTH (lit ''Me'')"
    by (rule bounded_text_lit; simp add: lit_def limit_defs)+
  then have "named_window_ok ?n"
    by (simp add: named_window_ok_def rate_window_ok_def usage_percent_ok_def u64_max_def)
  then have ok: "\<forall>w\<in>set [?n]. named_window_ok w" by simp
  have len: "length [?n] \<le> usize_max" by (simp add: usize_max_def)
  note facts = named_public_projection_correct [OF ok len]
  from facts have unique: "validate_unique_ids (named_public_projection [?n]) = Inr ()" by blast
  from facts have "\<forall>i<length [?n]. nw_window (named_public_projection [?n] ! i)
       = (nw_window ([?n] ! i))\<lparr>rw_reset_description := None\<rparr>" by blast
  then have "nw_window (named_public_projection [?n] ! 0) = ?w\<lparr>rw_reset_description := None\<rparr>"
    by (metis length_Cons nth_Cons_0 named_rate_window.select_convs(3) zero_less_Suc)
  with unique show ?thesis unfolding Let_def by blast
qed

end
