(* ===== verification/Money_Credits.thy ===== *)
theory Money_Credits
  imports Rate_Window
begin

text \<open>
  Exact amounts and their units (\<open>crates/domain/src/money.rs\<close>) and provider credits
  (\<open>crates/domain/src/credits.rs\<close>).
\<close>

section \<open>Exact decimals\<close>

text \<open>
  An \<open>ExactDecimal\<close> is a normalised \<open>rust_decimal::Decimal\<close>: trailing zeros are stripped and
  negative zero is zero, so it is determined by its value and negative exactly when that value is.
  Parsing, printing and subtraction belong to that crate and are parameters.
\<close>

type_synonym exact_decimal = rat

record decimal_lib =
  dec_from_str :: "str \<Rightarrow> rat option"
  dec_to_string :: "rat \<Rightarrow> str"
  dec_checked_sub :: "rat \<Rightarrow> rat \<Rightarrow> rat option"

text \<open>
  What the code relies on: subtracting a non-negative amount never yields more than the minuend,
  and subtracting zero returns it.
\<close>

definition decimal_lib_ok :: "decimal_lib \<Rightarrow> bool" where
  "decimal_lib_ok dl \<longleftrightarrow>
     (\<forall>a b c. dec_checked_sub dl a b = Some c \<longrightarrow> 0 \<le> b \<longrightarrow> c \<le> a) \<and>
     (\<forall>a. dec_checked_sub dl a 0 = Some a)"

datatype exact_decimal_error = DecimalEmpty | DecimalSurroundingWhitespace | DecimalInvalid

definition exact_decimal_parse :: "decimal_lib \<Rightarrow> str \<Rightarrow> (exact_decimal, exact_decimal_error) result" where
  "exact_decimal_parse dl v =
     (if v = [] then Inl DecimalEmpty
      else if v \<noteq> trim v then Inl DecimalSurroundingWhitespace
      else ok_or DecimalInvalid (dec_from_str dl v))"

section \<open>Units and amounts\<close>

definition MAX_PROVIDER_UNIT_BYTES :: nat where [limit_defs]: "MAX_PROVIDER_UNIT_BYTES = 32"
definition MAX_QUANTITY_UNIT_BYTES :: nat where [limit_defs]: "MAX_QUANTITY_UNIT_BYTES = 32"

datatype currency_code_error = CurrencySurroundingWhitespace | CurrencyInvalid

definition to_ascii_uppercase :: "str \<Rightarrow> str" where
  "to_ascii_uppercase = map (\<lambda>c. if 97 \<le> c \<and> c \<le> 122 then c - 32 else c)"

definition currency_code_new :: "str \<Rightarrow> (str, currency_code_error) result" where
  "currency_code_new v =
     (if v \<noteq> trim v then Inl CurrencySurroundingWhitespace
      else if str_len v \<noteq> 3 \<or> \<not> list_all is_ascii_alphabetic (as_bytes v) then Inl CurrencyInvalid
      else Inr (to_ascii_uppercase v))"

record money =
  mo_amount :: exact_decimal
  mo_currency :: str

datatype cost_unit = Currency str | ProviderUnit str

record cost_amount =
  ca_amount :: exact_decimal
  ca_unit :: cost_unit

definition provider_unit_new :: "str \<Rightarrow> (str, bounded_text_error) result" where
  "provider_unit_new v = bounded_text_new MAX_PROVIDER_UNIT_BYTES v"

definition cost_unit_provider :: "str \<Rightarrow> (cost_unit, bounded_text_error) result" where
  "cost_unit_provider v = map_ok ProviderUnit (provider_unit_new v)"

fun cost_unit_as_str :: "cost_unit \<Rightarrow> str" where
  "cost_unit_as_str (Currency c) = c"
| "cost_unit_as_str (ProviderUnit u) = u"

fun cost_unit_without_personal_information :: "cost_unit \<Rightarrow> cost_unit" where
  "cost_unit_without_personal_information (Currency c) = Currency c"
| "cost_unit_without_personal_information (ProviderUnit _) = ProviderUnit (lit ''credits'')"

definition cost_amount_provider ::
    "exact_decimal \<Rightarrow> str \<Rightarrow> (cost_amount, bounded_text_error) result" where
  "cost_amount_provider a u = map_ok (\<lambda>u. \<lparr>ca_amount = a, ca_unit = u\<rparr>) (cost_unit_provider u)"

definition cost_amount_from_money :: "money \<Rightarrow> cost_amount" where
  "cost_amount_from_money m = \<lparr>ca_amount = mo_amount m, ca_unit = Currency (mo_currency m)\<rparr>"

definition cost_amount_without_personal_information :: "cost_amount \<Rightarrow> cost_amount" where
  "cost_amount_without_personal_information a =
     \<lparr>ca_amount = ca_amount a, ca_unit = cost_unit_without_personal_information (ca_unit a)\<rparr>"

text \<open>The wire form carries the unit in one of two optional fields.\<close>

record cost_amount_repr =
  cr_amount :: exact_decimal
  cr_currency :: "str option"
  cr_provider_unit :: "str option"

datatype cost_amount_error = MissingUnit | AmbiguousUnit

definition cost_amount_serialize :: "cost_amount \<Rightarrow> cost_amount_repr" where
  "cost_amount_serialize a =
     (case ca_unit a of
       Currency c \<Rightarrow> \<lparr>cr_amount = ca_amount a, cr_currency = Some c, cr_provider_unit = None\<rparr>
     | ProviderUnit u \<Rightarrow> \<lparr>cr_amount = ca_amount a, cr_currency = None, cr_provider_unit = Some u\<rparr>)"

definition cost_amount_deserialize :: "cost_amount_repr \<Rightarrow> (cost_amount, cost_amount_error) result" where
  "cost_amount_deserialize r =
     (case (cr_currency r, cr_provider_unit r) of
       (Some c, None) \<Rightarrow> Inr \<lparr>ca_amount = cr_amount r, ca_unit = Currency c\<rparr>
     | (None, Some u) \<Rightarrow> Inr \<lparr>ca_amount = cr_amount r, ca_unit = ProviderUnit u\<rparr>
     | (None, None) \<Rightarrow> Inl MissingUnit
     | (Some _, Some _) \<Rightarrow> Inl AmbiguousUnit)"

record quantity =
  qt_amount :: exact_decimal
  qt_unit :: str

definition quantity_new :: "exact_decimal \<Rightarrow> str \<Rightarrow> (quantity, bounded_text_error) result" where
  "quantity_new a u =
     map_ok (\<lambda>u. \<lparr>qt_amount = a, qt_unit = u\<rparr>) (bounded_text_new MAX_QUANTITY_UNIT_BYTES u)"

definition currency_ok :: "str \<Rightarrow> bool" where
  "currency_ok c \<longleftrightarrow> length c = 3 \<and> (\<forall>x\<in>set c. 65 \<le> x \<and> x \<le> 90)"

fun cost_unit_ok :: "cost_unit \<Rightarrow> bool" where
  "cost_unit_ok (Currency c) = currency_ok c"
| "cost_unit_ok (ProviderUnit u) = bounded_text_ok MAX_PROVIDER_UNIT_BYTES u"

definition cost_amount_ok :: "cost_amount \<Rightarrow> bool" where
  "cost_amount_ok a \<longleftrightarrow> cost_unit_ok (ca_unit a)"

definition quantity_ok :: "quantity \<Rightarrow> bool" where
  "quantity_ok q \<longleftrightarrow> bounded_text_ok MAX_QUANTITY_UNIT_BYTES (qt_unit q)"

lemma as_bytes_alphabetic:
  "list_all is_ascii_alphabetic (as_bytes v) \<Longrightarrow> \<forall>c\<in>set v. is_ascii_alphabetic c"
proof (induction v)
  case (Cons c v)
  have "c < 128"
    using Cons.prems by (auto simp: utf8_char_def is_ascii_alphabetic_def split: if_splits)
  with Cons show ?case by (simp add: utf8_char_def)
qed simp

lemma alphabetic_trim: "\<forall>c\<in>set v. is_ascii_alphabetic c \<Longrightarrow> trim v = v"
proof -
  assume v: "\<forall>c\<in>set v. is_ascii_alphabetic c"
  have "\<not> is_whitespace c" if "c \<in> set v" for c
    using v that by (auto simp: is_ascii_alphabetic_def is_whitespace_def)
  then show ?thesis by (cases "v = []") (auto simp: trim_fixed_iff)
qed

lemma currency_code_new_Inr:
  "currency_code_new v = Inr c \<longleftrightarrow>
     length v = 3 \<and> (\<forall>x\<in>set v. is_ascii_alphabetic x) \<and> c = to_ascii_uppercase v"
proof (cases "\<forall>x\<in>set v. is_ascii_alphabetic x")
  case True
  then have "as_bytes v = v" by (intro as_bytes_ascii) (auto simp: is_ascii_alphabetic_def)
  then show ?thesis
    using True alphabetic_trim [OF True]
    by (auto simp: currency_code_new_def str_len_def list_all_iff)
next
  case False
  then show ?thesis using as_bytes_alphabetic by (auto simp: currency_code_new_def)
qed

lemma currency_code_new_ok: "currency_code_new v = Inr c \<Longrightarrow> currency_ok c"
  by (auto simp: currency_code_new_Inr currency_ok_def to_ascii_uppercase_def is_ascii_alphabetic_def)

lemma currency_code_new_ident: "currency_ok c \<Longrightarrow> currency_code_new c = Inr c"
  by (auto simp: currency_code_new_Inr currency_ok_def to_ascii_uppercase_def is_ascii_alphabetic_def
      intro!: map_idI [symmetric])

lemma credits_unit_bounded: "bounded_text_ok MAX_PROVIDER_UNIT_BYTES (lit ''credits'')"
  by (rule bounded_text_lit) (simp_all add: lit_def MAX_PROVIDER_UNIT_BYTES_def)

lemma cost_amount_redaction_ok [wf_intros]:
  "cost_amount_ok a \<Longrightarrow> cost_amount_ok (cost_amount_without_personal_information a)"
  by (cases "ca_unit a")
    (simp_all add: cost_amount_ok_def cost_amount_without_personal_information_def
      credits_unit_bounded)

text \<open>
  a currency code is accepted exactly when it is three ASCII letters, is stored in upper case
  and then re-read unchanged; an amount and its unit survive serialisation, and a wire value
  decodes exactly when it is the serialisation of an amount, so that a currency and a provider unit
  are never conflated and an amount always has one of them.
\<close>

theorem money_wire_round_trip:
  "(currency_code_new v = Inr c \<longleftrightarrow>
      length v = 3 \<and> (\<forall>x\<in>set v. is_ascii_alphabetic x) \<and> c = to_ascii_uppercase v) \<and>
   (currency_code_new v = Inr c \<longrightarrow> currency_code_new c = Inr c) \<and>
   (cost_amount_deserialize r = Inr a \<longleftrightarrow> r = cost_amount_serialize a)"
proof (intro conjI)
  show "cost_amount_deserialize r = Inr a \<longleftrightarrow> r = cost_amount_serialize a"
    by (cases a; cases r)
      (auto simp: cost_amount_deserialize_def cost_amount_serialize_def
        split: option.splits cost_unit.splits)
  show "currency_code_new v = Inr c \<longrightarrow> currency_code_new c = Inr c"
    using currency_code_new_ident [OF currency_code_new_ok] by blast
qed (simp add: currency_code_new_Inr)

theorem money_wire_round_trip_witness:
  "currency_code_new (lit ''usd'') = Inr (lit ''USD'') \<and> currency_code_new (lit ''USD'') = Inr (lit ''USD'')"
proof -
  have "currency_code_new (lit ''usd'') = Inr (lit ''USD'')"
    by (simp add: currency_code_new_Inr lit_def to_ascii_uppercase_def is_ascii_alphabetic_def)
  then show ?thesis using money_wire_round_trip [of "lit ''usd''" "lit ''USD''"] by blast
qed

section \<open>Credit events\<close>

definition MAX_CREDIT_EVENTS :: nat where [limit_defs]: "MAX_CREDIT_EVENTS = 1024"

datatype credit_error =
    CreditScopeMismatch | NegativeAmount | NonPositiveLimit | CreditDecimalOverflow
  | InconsistentRemaining | TooManyEvents | DuplicateEventId | CreditInvalidText bounded_text_error

definition require_non_negative :: "exact_decimal \<Rightarrow> (unit, credit_error) result" where
  "require_non_negative v = (if v < 0 then Inl NegativeAmount else Inr ())"

record credit_event =
  ev_scope :: account_scope
  ev_id :: str
  ev_occurred_at :: timestamp
  ev_service :: str
  ev_used :: exact_decimal

definition credit_event_from_provider ::
    "hmac_fn \<Rightarrow> time_lib \<Rightarrow> decimal_lib \<Rightarrow> nat list \<Rightarrow> account_scope \<Rightarrow> str option \<Rightarrow> nat \<Rightarrow> timestamp \<Rightarrow>
     str \<Rightarrow> exact_decimal \<Rightarrow> (credit_event, credit_error) result" where
  "credit_event_from_provider hmac tlib dl privacy_key s source_id occurrence_index occurred_at
     service used =
     and_then (require_non_negative used) (\<lambda>_.
     and_then (map_err CreditInvalidText (bounded_text_new 120 service)) (\<lambda>service.
     and_then (map_err CreditInvalidText (try_option (bounded_text_new 512) source_id)) (\<lambda>source_id.
     let (source_tag, source_bytes) =
           (case source_id of
             None \<Rightarrow> (lit ''absent'', [])
           | Some value \<Rightarrow> (lit ''present'', as_bytes value));
         i = opaque_record_id_derive hmac privacy_key s CreditEventKind
           [source_tag, source_bytes, as_bytes (rfc3339_print tlib occurred_at), as_bytes service,
            as_bytes (dec_to_string dl used), be_bytes 4 occurrence_index]
     in Inr \<lparr>ev_scope = s, ev_id = i, ev_occurred_at = occurred_at, ev_service = service,
             ev_used = used\<rparr>)))"

definition credit_event_deserialize :: "credit_event \<Rightarrow> (credit_event, credit_error) result" where
  "credit_event_deserialize r =
     and_then (require_non_negative (ev_used r)) (\<lambda>_.
     and_then (map_err CreditInvalidText (bounded_text_new 120 (ev_service r))) (\<lambda>service.
     Inr (r\<lparr>ev_service := service\<rparr>)))"

definition credit_event_ok :: "credit_event \<Rightarrow> bool" where
  "credit_event_ok e \<longleftrightarrow> 0 \<le> ev_used e \<and> bounded_text_ok 120 (ev_service e)"

lemma credit_event_from_provider_ok:
  "credit_event_from_provider hmac tlib dl key s src n t srv u = Inr e \<Longrightarrow>
     credit_event_ok e \<and> ev_scope e = s \<and> ev_occurred_at e = t \<and> ev_used e = u"
  by (auto simp: credit_event_from_provider_def result_simps require_non_negative_def
      credit_event_ok_def Let_def split: if_splits option.splits; metis bounded_text_new_ok)

lemma credit_event_deserialize_ident: "credit_event_ok e \<Longrightarrow> credit_event_deserialize e = Inr e"
  by (simp add: credit_event_deserialize_def credit_event_ok_def require_non_negative_def
      bounded_text_new_ident)

section \<open>Credit limits\<close>

record credit_limit_snapshot =
  cl_title :: str
  cl_used :: exact_decimal
  cl_limit :: exact_decimal
  cl_remaining :: exact_decimal
  cl_remaining_percent :: f64
  cl_resets_at :: "timestamp option"
  cl_updated_at :: timestamp

definition credit_limit_new ::
    "decimal_lib \<Rightarrow> str \<Rightarrow> exact_decimal \<Rightarrow> exact_decimal \<Rightarrow> f64 \<Rightarrow> timestamp option \<Rightarrow> timestamp \<Rightarrow>
     (credit_limit_snapshot, credit_error) result" where
  "credit_limit_new dl title used allowance remaining_percent resets_at updated_at =
     and_then (require_non_negative used) (\<lambda>_.
     and_then (require (\<not> allowance \<le> 0) NonPositiveLimit) (\<lambda>_.
     and_then (ok_or CreditDecimalOverflow (dec_checked_sub dl allowance used)) (\<lambda>difference.
     let remaining = max difference 0;
         title = trim title;
         title = (if title = [] then lit ''Monthly credit limit'' else title) in
     and_then (map_err CreditInvalidText (bounded_text_new 120 title)) (\<lambda>title.
     Inr \<lparr>cl_title = title, cl_used = used, cl_limit = allowance, cl_remaining = remaining,
          cl_remaining_percent = remaining_percent, cl_resets_at = resets_at,
          cl_updated_at = updated_at\<rparr>))))"

definition credit_limit_deserialize ::
    "decimal_lib \<Rightarrow> credit_limit_snapshot \<Rightarrow> (credit_limit_snapshot, credit_error) result" where
  "credit_limit_deserialize dl r =
     and_then (credit_limit_new dl (cl_title r) (cl_used r) (cl_limit r) (cl_remaining_percent r)
         (cl_resets_at r) (cl_updated_at r)) (\<lambda>snapshot.
     if cl_remaining snapshot \<noteq> cl_remaining r then Inl InconsistentRemaining else Inr snapshot)"

definition credit_limit_public_projection :: "credit_limit_snapshot \<Rightarrow> credit_limit_snapshot" where
  "credit_limit_public_projection l = l\<lparr>cl_title := lit ''Credit limit''\<rparr>"

definition credit_limit_ok :: "decimal_lib \<Rightarrow> credit_limit_snapshot \<Rightarrow> bool" where
  "credit_limit_ok dl l \<longleftrightarrow>
     bounded_text_ok 120 (cl_title l) \<and> 0 \<le> cl_used l \<and> 0 < cl_limit l \<and>
     is_some_and (\<lambda>d. cl_remaining l = max d 0) (dec_checked_sub dl (cl_limit l) (cl_used l))"

lemma credit_title_bounded:
  "bounded_text_ok 120 (lit ''Monthly credit limit'')" "bounded_text_ok 120 (lit ''Credit limit'')"
  by (rule bounded_text_lit; simp add: lit_def)+

lemma credit_limit_new_ok: "credit_limit_new dl t u l p r a = Inr c \<Longrightarrow> credit_limit_ok dl c"
  by (auto simp: credit_limit_new_def result_simps require_non_negative_def credit_limit_ok_def
      Let_def is_some_and_def dest: bounded_text_new_ok split: if_splits)

lemma credit_limit_deserialize_ident:
  "credit_limit_ok dl c \<Longrightarrow> credit_limit_deserialize dl c = Inr c"
  by (cases c) (auto simp: credit_limit_deserialize_def credit_limit_new_def credit_limit_ok_def
      require_non_negative_def is_some_and_def bounded_text_new_ident bounded_text_ok_def
      split: option.splits)

lemma credit_limit_projection_ok [wf_intros]:
  "credit_limit_ok dl c \<Longrightarrow> credit_limit_ok dl (credit_limit_public_projection c)"
  by (simp add: credit_limit_ok_def credit_limit_public_projection_def credit_title_bounded)

text \<open>
  A decoded credit limit is consistent: its remaining amount is the one derived from limit and
  usage, lies between zero and the limit and is the whole limit when nothing is used; a wire value
  with any other remaining amount is rejected; and what was accepted once decodes to itself.
\<close>

theorem credit_limit_consistent:
  assumes "decimal_lib_ok dl" and "credit_limit_deserialize dl w = Inr c"
  shows "credit_limit_deserialize dl c = Inr c \<and> cl_remaining c = cl_remaining w \<and>
    0 \<le> cl_remaining c \<and> cl_remaining c \<le> cl_limit c \<and>
    (cl_used c = 0 \<longrightarrow> cl_remaining c = cl_limit c)"
proof -
  from assms(2) obtain t u l p r a where "credit_limit_new dl t u l p r a = Inr c"
    and rem: "cl_remaining c = cl_remaining w"
    by (auto simp: credit_limit_deserialize_def result_simps split: if_splits)
  from this(1) have ok: "credit_limit_ok dl c" by (rule credit_limit_new_ok)
  then show ?thesis
    using assms(1) rem credit_limit_deserialize_ident [OF ok]
    by (auto simp: credit_limit_ok_def is_some_and_def decimal_lib_ok_def split: option.splits)
qed

theorem credit_limit_consistent_witness:
  "let dl = \<lparr>dec_from_str = \<lambda>_. None, dec_to_string = \<lambda>_. [], dec_checked_sub = \<lambda>a b. Some (a - b)\<rparr>;
       w = \<lparr>cl_title = lit ''Plan'', cl_used = 30, cl_limit = 20, cl_remaining = 0,
            cl_remaining_percent = F64 0, cl_resets_at = None, cl_updated_at = 5\<rparr>
   in credit_limit_deserialize dl w = Inr w \<and> 0 \<le> cl_remaining w"
proof -
  let ?dl = "\<lparr>dec_from_str = \<lambda>_. None, dec_to_string = \<lambda>_. [], dec_checked_sub = \<lambda>a b. Some (a - b)\<rparr>"
  let ?w = "\<lparr>cl_title = lit ''Plan'', cl_used = 30, cl_limit = 20, cl_remaining = 0,
            cl_remaining_percent = F64 0, cl_resets_at = None, cl_updated_at = 5\<rparr>"
  have "bounded_text_ok 120 (lit ''Plan'')" by (rule bounded_text_lit) (simp_all add: lit_def)
  then have "credit_limit_ok ?dl ?w" by (simp add: credit_limit_ok_def)
  then have "credit_limit_deserialize ?dl ?w = Inr ?w" by (rule credit_limit_deserialize_ident)
  moreover have "decimal_lib_ok ?dl" by (simp add: decimal_lib_ok_def)
  ultimately show ?thesis using credit_limit_consistent [of ?dl ?w ?w] unfolding Let_def by blast
qed

section \<open>Credit snapshots\<close>

record credits_snapshot =
  cs_scope :: account_scope
  cs_remaining :: exact_decimal
  cs_events :: "credit_event list"
  cs_updated_at :: timestamp
  cs_limit :: "credit_limit_snapshot option"

text \<open>Newest first, ties by identifier.\<close>

definition credit_event_le :: "credit_event \<Rightarrow> credit_event \<Rightarrow> bool" where
  "credit_event_le l r \<longleftrightarrow>
     ev_occurred_at r < ev_occurred_at l \<or>
     ev_occurred_at r = ev_occurred_at l \<and> ev_id l \<le> ev_id r"

definition credits_snapshot_new ::
    "account_scope \<Rightarrow> exact_decimal \<Rightarrow> credit_event list \<Rightarrow> timestamp \<Rightarrow> credit_limit_snapshot option \<Rightarrow>
     (credits_snapshot, credit_error) result" where
  "credits_snapshot_new s remaining events updated_at allowance =
     and_then (require_non_negative remaining) (\<lambda>_.
     if length events > MAX_CREDIT_EVENTS then Inl TooManyEvents
     else if list_ex (\<lambda>e. ev_scope e \<noteq> s) events then Inl CreditScopeMismatch
     else let events = sort_by credit_event_le events in
       if \<not> all_new {} (map ev_id events) then Inl DuplicateEventId
       else Inr \<lparr>cs_scope = s, cs_remaining = remaining, cs_events = events,
                 cs_updated_at = updated_at, cs_limit = allowance\<rparr>)"

definition credits_without_personal_information ::
    "credits_snapshot \<Rightarrow> account_scope \<Rightarrow> credits_snapshot" where
  "credits_without_personal_information c s =
     \<lparr>cs_scope = s, cs_remaining = cs_remaining c, cs_events = [],
      cs_updated_at = cs_updated_at c,
      cs_limit = map_option credit_limit_public_projection (cs_limit c)\<rparr>"

interpretation credit_order: sort_order credit_event_le UNIV
  by unfold_locales (auto simp: credit_event_le_def)

definition credits_ok :: "decimal_lib \<Rightarrow> credits_snapshot \<Rightarrow> bool" where
  "credits_ok dl c \<longleftrightarrow>
     0 \<le> cs_remaining c \<and> length (cs_events c) \<le> MAX_CREDIT_EVENTS \<and>
     (\<forall>e\<in>set (cs_events c). ev_scope e = cs_scope c \<and> credit_event_ok e) \<and>
     sorted_wrt credit_event_le (cs_events c) \<and> distinct (map ev_id (cs_events c)) \<and>
     is_none_or (credit_limit_ok dl) (cs_limit c)"

lemma credits_snapshot_new_ident:
  "credits_ok dl c \<Longrightarrow> credits_snapshot_new (cs_scope c) (cs_remaining c) (cs_events c)
      (cs_updated_at c) (cs_limit c) = Inr c"
  by (cases c) (auto simp: credits_snapshot_new_def credits_ok_def require_non_negative_def
      sort_by_sorted_id list_ex_iff)

lemma credits_redaction_ok [wf_intros]:
  "credits_ok dl c \<Longrightarrow> credits_ok dl (credits_without_personal_information c s)"
  by (auto simp: credits_ok_def credits_without_personal_information_def is_none_or_def
      credit_limit_projection_ok split: option.splits)

text \<open>
  A credit snapshot is accepted exactly when the balance is not negative, the events are few
  enough, all belong to the snapshot's scope and have distinct identifiers. It then holds the same
  events, newest first with ties by identifier, whatever the order they came in, and rebuilding it
  from its own parts gives the same snapshot.
\<close>

theorem credits_snapshot_new_correct:
  "((\<exists>c. credits_snapshot_new s rem evs t l = Inr c) \<longleftrightarrow>
      0 \<le> rem \<and> length evs \<le> MAX_CREDIT_EVENTS \<and> (\<forall>e\<in>set evs. ev_scope e = s) \<and>
      distinct (map ev_id evs)) \<and>
   (\<forall>c. credits_snapshot_new s rem evs t l = Inr c \<longrightarrow>
      mset (cs_events c) = mset evs \<and> sorted_wrt credit_event_le (cs_events c) \<and>
      credits_snapshot_new s rem (cs_events c) t l = Inr c)"
proof (intro conjI allI impI)
  fix c
  assume "credits_snapshot_new s rem evs t l = Inr c"
  then show "mset (cs_events c) = mset evs" "sorted_wrt credit_event_le (cs_events c)"
    "credits_snapshot_new s rem (cs_events c) t l = Inr c"
    using credit_order.sorted_sort [of evs] credit_order.sort_idem [of evs]
    by (auto simp: credits_snapshot_new_def require_non_negative_def list_ex_iff Let_def
        split: if_splits)
qed (auto simp: credits_snapshot_new_def require_non_negative_def list_ex_iff Let_def)

theorem credits_snapshot_new_correct_witness:
  "let s = AccountScope Codex (lit ''default'') (lit ''a'');
       e = \<lambda>i t. \<lparr>ev_scope = s, ev_id = [i], ev_occurred_at = t, ev_service = lit ''x'', ev_used = 1\<rparr>
   in credits_snapshot_new s 5 [e 1 10, e 2 20] 30 None =
        Inr \<lparr>cs_scope = s, cs_remaining = 5, cs_events = [e 2 20, e 1 10], cs_updated_at = 30,
             cs_limit = None\<rparr> \<and>
      sorted_wrt credit_event_le [e 2 20, e 1 10]"
proof -
  let ?s = "AccountScope Codex (lit ''default'') (lit ''a'')"
  let ?e = "\<lambda>i t. \<lparr>ev_scope = ?s, ev_id = [i], ev_occurred_at = t, ev_service = lit ''x'', ev_used = 1\<rparr>"
  let ?c = "\<lparr>cs_scope = ?s, cs_remaining = 5, cs_events = [?e 2 20, ?e 1 10], cs_updated_at = 30,
             cs_limit = None\<rparr>"
  have run: "credits_snapshot_new ?s 5 [?e 1 10, ?e 2 20] 30 None = Inr ?c"
    by (simp add: credits_snapshot_new_def require_non_negative_def MAX_CREDIT_EVENTS_def
        credit_event_le_def)
  show ?thesis using credits_snapshot_new_correct [of ?s 5 "[?e 1 10, ?e 2 20]" 30 None] run
    by (simp add: Let_def)
qed

end
