(* ===== verification/Cost_Usage.thy ===== *)
theory Cost_Usage
  imports Money_Credits
begin

text \<open>
  Typed cost and usage history (\<open>crates/domain/src/cost_usage.rs\<close>): metrics with their coverage
  check, daily, project, session and hourly breakdowns in canonical order, and the redaction that
  replaces every label by its position.
\<close>

section \<open>Limits, errors and shared checks\<close>

definition MAX_COST_HISTORY_DAYS :: nat where [limit_defs]: "MAX_COST_HISTORY_DAYS = 365"
definition MAX_COST_DAILY_BUCKETS :: nat where [limit_defs]: "MAX_COST_DAILY_BUCKETS = 365"
definition MAX_COST_MODELS :: nat where [limit_defs]: "MAX_COST_MODELS = 128"
definition MAX_COST_LINE_ITEMS :: nat where [limit_defs]: "MAX_COST_LINE_ITEMS = 128"
definition MAX_COST_PROJECTS :: nat where [limit_defs]: "MAX_COST_PROJECTS = 128"
definition MAX_COST_PROJECT_SOURCES :: nat where [limit_defs]: "MAX_COST_PROJECT_SOURCES = 32"
definition MAX_COST_SESSIONS :: nat where [limit_defs]: "MAX_COST_SESSIONS = 512"
definition MAX_COST_HOURLY_BUCKETS :: nat where
  [limit_defs]: "MAX_COST_HOURLY_BUCKETS = 24 * MAX_COST_HISTORY_DAYS"
definition COST_LABEL_BYTES :: nat where [limit_defs]: "COST_LABEL_BYTES = 160"
definition COST_PATH_BYTES :: nat where [limit_defs]: "COST_PATH_BYTES = 1024"
definition CREDENTIAL_FINGERPRINT_BYTES :: nat where [limit_defs]: "CREDENTIAL_FINGERPRINT_BYTES = 160"

datatype cost_usage_error =
    InvalidHistoryDays | InvalidInterval | InvalidDay | CostNegativeAmount string | CoverageOverflow
  | CoverageExceedsRequests | CostLimitExceeded string nat nat | CostDuplicate string
  | CostInvalidText bounded_text_error

definition ensure_nonnegative :: "string \<Rightarrow> exact_decimal option \<Rightarrow> (unit, cost_usage_error) result" where
  "ensure_nonnegative field v = (if is_some_and (\<lambda>v. v < 0) v then Inl (CostNegativeAmount field) else Inr ())"

definition check_limit :: "string \<Rightarrow> nat \<Rightarrow> nat \<Rightarrow> (unit, cost_usage_error) result" where
  "check_limit collection actual maximum =
     (if actual > maximum then Inl (CostLimitExceeded collection maximum actual) else Inr ())"

definition ensure_unique :: "str list \<Rightarrow> string \<Rightarrow> (unit, cost_usage_error) result" where
  "ensure_unique values field = (if \<not> all_new {} values then Inl (CostDuplicate field) else Inr ())"

definition cost_text :: "nat \<Rightarrow> str \<Rightarrow> (str, cost_usage_error) result" where
  "cost_text mx v = map_err CostInvalidText (bounded_text_new mx v)"

lemma check_simps [result_simps]:
  "ensure_nonnegative f v = Inr u \<longleftrightarrow> is_none_or (\<lambda>v. 0 \<le> v) v"
  "check_limit c n mx = Inr u \<longleftrightarrow> n \<le> mx"
  "ensure_unique vs f = Inr u \<longleftrightarrow> distinct vs"
  by (cases v; auto simp: ensure_nonnegative_def)
    (auto simp: check_limit_def ensure_unique_def)

lemma cost_text_Inr [result_simps]:
  "cost_text mx v = Inr t \<longleftrightarrow> bounded_text_new mx v = Inr t"
  by (simp add: cost_text_def result_simps)

section \<open>Metrics\<close>

record token_mix =
  tm_input_tokens :: "nat option"
  tm_output_tokens :: "nat option"
  tm_cache_read_tokens :: "nat option"
  tm_cache_creation_tokens :: "nat option"
  tm_reasoning_tokens :: "nat option"

record cost_coverage =
  cv_priced :: nat
  cv_unpriced :: nat
  cv_unmetered :: nat
  cv_estimated :: nat

definition coverage_total :: "cost_coverage \<Rightarrow> nat option" where
  "coverage_total c =
     Option.bind (checked_add u64_max (cv_priced c) (cv_unpriced c)) (\<lambda>n.
     Option.bind (checked_add u64_max n (cv_unmetered c)) (\<lambda>n.
     checked_add u64_max n (cv_estimated c)))"

definition cost_coverage_new ::
    "nat \<Rightarrow> nat \<Rightarrow> nat \<Rightarrow> nat \<Rightarrow> (cost_coverage, cost_usage_error) result" where
  "cost_coverage_new priced unpriced unmetered estimated =
     (let r = \<lparr>cv_priced = priced, cv_unpriced = unpriced, cv_unmetered = unmetered,
               cv_estimated = estimated\<rparr>
      in and_then (ok_or CoverageOverflow (coverage_total r)) (\<lambda>_. Inr r))"

record cost_metrics =
  cm_token_mix :: token_mix
  cm_total_tokens :: "nat option"
  cm_request_count :: "nat option"
  cm_amount :: "exact_decimal option"
  cm_coverage :: cost_coverage

definition cost_metrics_new ::
    "token_mix \<Rightarrow> nat option \<Rightarrow> nat option \<Rightarrow> exact_decimal option \<Rightarrow> cost_coverage \<Rightarrow>
     (cost_metrics, cost_usage_error) result" where
  "cost_metrics_new mix total_tokens request_count amount coverage =
     and_then (ensure_nonnegative ''usage amount'' amount) (\<lambda>_.
     if is_some_and (\<lambda>requests. is_some_and (\<lambda>n. n > requests) (coverage_total coverage)) request_count
     then Inl CoverageExceedsRequests
     else Inr \<lparr>cm_token_mix = mix, cm_total_tokens = total_tokens, cm_request_count = request_count,
               cm_amount = amount, cm_coverage = coverage\<rparr>)"

record cost_interval =
  iv_start :: timestamp
  iv_end :: timestamp

definition cost_interval_new :: "timestamp \<Rightarrow> timestamp \<Rightarrow> (cost_interval, cost_usage_error) result" where
  "cost_interval_new s e =
     (if e \<le> s then Inl InvalidInterval else Inr \<lparr>iv_start = s, iv_end = e\<rparr>)"

lemma coverage_total_eq:
  "coverage_total c =
     (let n = cv_priced c + cv_unpriced c + cv_unmetered c + cv_estimated c in
      if n \<le> u64_max then Some n else None)"
  by (auto simp: coverage_total_def checked_add_def Let_def)

text \<open>
  metrics built from a coverage record are consistent without overflow: the four categories
  add up to a 64-bit number, and where the request count is known they never exceed it. A coverage
  whose sum does not fit is refused, and so is one larger than the requests or a negative amount.
\<close>

theorem cost_metrics_coverage_bounded:
  "(\<exists>m. and_then (cost_coverage_new p u n e) (cost_metrics_new mix tot reqs amt) = Inr m) \<longleftrightarrow>
     p + u + n + e \<le> u64_max \<and> is_none_or (\<lambda>a. 0 \<le> a) amt \<and>
     is_none_or (\<lambda>r. p + u + n + e \<le> r) reqs"
  by (cases reqs)
    (auto simp: cost_coverage_new_def coverage_total_eq cost_metrics_new_def result_simps Let_def
      split: if_splits)

section \<open>Days\<close>

text \<open>
  Whether year, month and day form a calendar date is decided by the calendar library
  (\<open>Month::try_from\<close> and \<open>Date::from_calendar_date\<close>), a parameter here.
\<close>

type_synonym calendar = "nat \<Rightarrow> nat \<Rightarrow> nat \<Rightarrow> bool"

definition validate_day :: "calendar \<Rightarrow> str \<Rightarrow> (str, cost_usage_error) result" where
  "validate_day cal v =
     (let bs = as_bytes v in
      if length bs \<noteq> 10 \<or> bs ! 4 \<noteq> 45 \<or> bs ! 7 \<noteq> 45 \<or>
         list_ex (\<lambda>(index, b). index \<noteq> 4 \<and> index \<noteq> 7 \<and> \<not> is_ascii_digit b) (enumerate 0 bs)
      then Inl InvalidDay
      else let year = undecimal (take 4 v); month = undecimal (take 2 (drop 5 v));
               day = undecimal (take 2 (drop 8 v)) in
        if year = 0 then Inl InvalidDay
        else if \<not> cal year month day then Inl InvalidDay
        else cost_text 10 v)"

text \<open>The shape of a validated day: four, two and two digits with hyphens between them.\<close>

definition day_shape :: "str \<Rightarrow> bool" where
  "day_shape v \<longleftrightarrow> (\<exists>y m d. v = y @ 45 # m @ 45 # d \<and> length y = 4 \<and> length m = 2 \<and> length d = 2 \<and>
     (\<forall>c\<in>set (y @ m @ d). is_ascii_digit c))"

definition day_fields :: "str \<Rightarrow> nat \<times> nat \<times> nat" where
  "day_fields v = (undecimal (take 4 v), undecimal (take 2 (drop 5 v)), undecimal (take 2 (drop 8 v)))"

lemma undecimal_Cons: "undecimal (c # s) = (c - 48) * 10 ^ length s + undecimal s"
proof -
  have "foldl (\<lambda>a c. a * 10 + (c - 48)) x s = x * 10 ^ length s + foldl (\<lambda>a c. a * 10 + (c - 48)) 0 s"
    for x :: nat
  proof (induction s arbitrary: x)
    case (Cons d s)
    show ?case using Cons [of "x * 10 + (d - 48)"] Cons [of "d - 48"] by (simp add: algebra_simps)
  qed simp
  from this [of "c - 48"] show ?thesis by (simp add: undecimal_def)
qed

lemma digits_order:
  assumes "length s = length t" "\<forall>c\<in>set s. is_ascii_digit c" "\<forall>c\<in>set t. is_ascii_digit c"
  shows "s < t \<longleftrightarrow> undecimal s < undecimal t"
  using assms
proof (induction s t rule: list_induct2)
  case (Cons a s b t)
  have bounds: "undecimal s < 10 ^ length t" "undecimal t < 10 ^ length t"
    using Cons undecimal_bound [of s] undecimal_bound [of t] by auto
  have ab: "48 \<le> a" "48 \<le> b" using Cons by (auto simp: is_ascii_digit_def)
  have less: "x * 10 ^ length t + undecimal u < y * 10 ^ length t + undecimal w"
    if "x < y" "undecimal u < 10 ^ length t" for x y u w
  proof -
    have "Suc x * 10 ^ length t \<le> y * 10 ^ length t" using that(1) by (intro mult_le_mono1) simp
    with that(2) show ?thesis by simp
  qed
  consider "a < b" | "a = b" | "b < a" by linarith
  then show ?case
  proof cases
    case 1
    then have "a - 48 < b - 48" using ab by simp
    with 1 less [OF this bounds(1)] Cons.hyps show ?thesis by (simp add: undecimal_Cons)
  next
    case 2
    then show ?thesis using Cons by (simp add: undecimal_Cons)
  next
    case 3
    then have "b - 48 < a - 48" using ab by simp
    from less [OF this bounds(2)] have "undecimal (b # t) < undecimal (a # s)"
      using Cons.hyps by (simp add: undecimal_Cons)
    with 3 show ?thesis by simp
  qed
qed simp

lemma append_less_same_length:
  fixes a :: "nat list"
  assumes "length a = length b"
  shows "a @ x < b @ y \<longleftrightarrow> a < b \<or> a = b \<and> x < y"
  using assms by (induction a b rule: list_induct2) auto

lemma digits_eq:
  assumes "length s = length t" "\<forall>c\<in>set s. is_ascii_digit c" "\<forall>c\<in>set t. is_ascii_digit c"
  shows "s = t \<longleftrightarrow> undecimal s = undecimal t"
  using digits_order [OF assms] digits_order [OF assms(1) [symmetric] assms(3,2)]
  by (metis less_irrefl linorder_neqE)

lemma day_order:
  assumes "day_shape v" "day_shape w"
  shows "v < w \<longleftrightarrow> day_fields v < day_fields w"
proof -
  from assms obtain y m d y' m' d'
    where v: "v = y @ 45 # m @ 45 # d" "length y = 4" "length m = 2" "length d = 2"
        "\<forall>c\<in>set (y @ m @ d). is_ascii_digit c"
      and w: "w = y' @ 45 # m' @ 45 # d'" "length y' = 4" "length m' = 2" "length d' = 2"
        "\<forall>c\<in>set (y' @ m' @ d'). is_ascii_digit c"
    unfolding day_shape_def by blast
  have len: "length y = length y'" "length m = length m'" "length d = length d'"
    using v w by simp_all
  have dig: "\<forall>c\<in>set y. is_ascii_digit c" "\<forall>c\<in>set y'. is_ascii_digit c" "\<forall>c\<in>set m. is_ascii_digit c"
    "\<forall>c\<in>set m'. is_ascii_digit c" "\<forall>c\<in>set d. is_ascii_digit c" "\<forall>c\<in>set d'. is_ascii_digit c"
    using v w by auto
  have f: "day_fields v = (undecimal y, undecimal m, undecimal d)"
    "day_fields w = (undecimal y', undecimal m', undecimal d')"
    using v w by (simp_all add: day_fields_def)
  have "v < w \<longleftrightarrow> (undecimal y, undecimal m, undecimal d) < (undecimal y', undecimal m', undecimal d')"
    unfolding v(1) w(1) append_less_same_length [OF len(1)]
    by (simp add: append_less_same_length [OF len(2)] less_prod_def'
        digits_order [OF len(1) dig(1,2)] digits_order [OF len(2) dig(3,4)]
        digits_order [OF len(3) dig(5,6)] digits_eq [OF len(1) dig(1,2)] digits_eq [OF len(2) dig(3,4)])
  then show ?thesis unfolding f .
qed

lemma utf8_first: "utf8_char c \<noteq> [] \<and> (128 \<le> c \<longrightarrow> 128 \<le> hd (utf8_char c))"
  by (simp add: utf8_char_def)

lemma utf8_ascii: "\<forall>b\<in>set (utf8_char c). b < 128 \<Longrightarrow> c < 128"
  using utf8_first [of c] by (meson hd_in_set not_less)

lemma ascii_as_bytes: "\<forall>b\<in>set (as_bytes v). b < 128 \<Longrightarrow> as_bytes v = v"
proof (induction v)
  case (Cons c v)
  then have "\<forall>b\<in>set (utf8_char c). b < 128" "\<forall>b\<in>set (as_bytes v). b < 128" by auto
  then have "c < 128" "as_bytes v = v" using Cons.IH utf8_ascii by blast+
  then have "\<forall>x\<in>set (c # v). x < 128"
    using \<open>\<forall>b\<in>set (as_bytes v). b < 128\<close> by simp
  then show ?case by (rule as_bytes_ascii)
qed simp

lemma list10: "length v = 10 \<Longrightarrow>
  v = take 4 v @ v ! 4 # take 2 (drop 5 v) @ v ! 7 # take 2 (drop 8 v)"
  by (auto simp: length_Suc_conv numeral_eq_Suc)

lemma validate_day_shape:
  assumes "validate_day cal v = Inr d"
  shows "d = v \<and> day_shape v \<and> (case day_fields v of (y, m, d) \<Rightarrow> 0 < y \<and> cal y m d)"
proof -
  from assms have bytes: "length (as_bytes v) = 10" "as_bytes v ! 4 = 45" "as_bytes v ! 7 = 45"
    "\<forall>i<10. i \<noteq> 4 \<longrightarrow> i \<noteq> 7 \<longrightarrow> is_ascii_digit (as_bytes v ! i)"
    and date: "case day_fields v of (y, m, d) \<Rightarrow> 0 < y \<and> cal y m d"
    and bounded: "cost_text 10 v = Inr d"
    by (auto simp: validate_day_def Let_def list_ex_iff in_set_enumerate_eq day_fields_def
        split: if_splits)
  have chars: "b = 45 \<or> is_ascii_digit b" if "b \<in> set (as_bytes v)" for b
    using that bytes by (metis in_set_conv_nth)
  have "b < 128" if "b \<in> set (as_bytes v)" for b
    using chars [OF that] by (auto simp: is_ascii_digit_def)
  then have v: "as_bytes v = v" by (intro ascii_as_bytes) blast
  note bytes = bytes [unfolded v]
  have digits: "\<forall>c\<in>set (take 4 v @ take 2 (drop 5 v) @ take 2 (drop 8 v)). is_ascii_digit c"
    using bytes by (auto simp: in_set_conv_nth)
  then have shape: "day_shape v"
    unfolding day_shape_def using list10 [OF bytes(1)] bytes
    by (intro exI [of _ "take 4 v"] exI [of _ "take 2 (drop 5 v)"] exI [of _ "take 2 (drop 8 v)"]) simp
  have "\<not> is_whitespace c" if "c \<in> set v" for c
    using chars [unfolded v, OF that] ascii_digit_plain by (auto simp: is_whitespace_def)
  then have "trim v = v" by (cases "v = []") (simp_all add: trim_fixed_iff)
  moreover have "d = trim v" using bounded by (auto simp: result_simps dest: bounded_text_new_ok)
  ultimately show ?thesis using shape date by simp
qed

text \<open>
  A day accepted by the validator is stored as it was written, denotes a date of the calendar
  with a positive year, and the textual order by which buckets are sorted is the chronological one.
\<close>

theorem validated_days_chronological:
  assumes "validate_day cal v = Inr d" "validate_day cal w = Inr e"
  shows "d = v \<and> (case day_fields v of (y, m, d) \<Rightarrow> 0 < y \<and> cal y m d) \<and>
    (d < e \<longleftrightarrow> day_fields v < day_fields w)"
  using validate_day_shape [OF assms(1)] validate_day_shape [OF assms(2)] day_order [of v w] by simp

theorem validated_days_chronological_witness:
  "let cal = (\<lambda>y m d. 1 \<le> m \<and> m \<le> 12 \<and> 1 \<le> d \<and> d \<le> 28) in
   validate_day cal (lit ''2026-08-09'') = Inr (lit ''2026-08-09'') \<and>
   validate_day cal (lit ''2026-10-02'') = Inr (lit ''2026-10-02'') \<and>
   (lit ''2026-08-09'' < lit ''2026-10-02'' \<longleftrightarrow>
      day_fields (lit ''2026-08-09'') < day_fields (lit ''2026-10-02''))"
proof -
  let ?cal = "\<lambda>y m d. 1 \<le> m \<and> m \<le> 12 \<and> 1 \<le> d \<and> d \<le> (28::nat) \<and> (y::nat) = y \<and> (m::nat) = m"
  have bounded: "bounded_text_new 10 (lit s) = Inr (lit s)" if "bounded_text_ok 10 (lit s)" for s
    using that by (rule bounded_text_new_ident)
  have ok: "bounded_text_ok 10 (lit ''2026-08-09'')" "bounded_text_ok 10 (lit ''2026-10-02'')"
    by (rule bounded_text_lit; simp add: lit_def)+
  have ascii: "as_bytes (lit s) = lit s" if "\<forall>c\<in>set s. (of_char c :: nat) < 128" for s
    using that by (intro as_bytes_ascii) (auto simp: lit_def)
  have bytes: "as_bytes (lit ''2026-08-09'') = lit ''2026-08-09''"
    "as_bytes (lit ''2026-10-02'') = lit ''2026-10-02''"
    by (rule ascii; simp)+
  have runs: "validate_day ?cal (lit ''2026-08-09'') = Inr (lit ''2026-08-09'')"
    "validate_day ?cal (lit ''2026-10-02'') = Inr (lit ''2026-10-02'')"
    unfolding validate_day_def bytes cost_text_def bounded [OF ok(1)] bounded [OF ok(2)]
    by (simp_all add: lit_def is_ascii_digit_def undecimal_def)
  then show ?thesis
    using validated_days_chronological [OF runs] by simp
qed

section \<open>Breakdowns\<close>

record cost_line_item =
  li_name :: str
  li_amount :: exact_decimal

definition cost_line_item_new :: "str \<Rightarrow> exact_decimal \<Rightarrow> (cost_line_item, cost_usage_error) result" where
  "cost_line_item_new name amount =
     and_then (ensure_nonnegative ''line-item amount'' (Some amount)) (\<lambda>_.
     and_then (cost_text COST_LABEL_BYTES name) (\<lambda>name.
     Inr \<lparr>li_name = name, li_amount = amount\<rparr>))"

record cost_model =
  mb_name :: str
  mb_metrics :: cost_metrics
  mb_standard_amount :: "exact_decimal option"
  mb_priority_amount :: "exact_decimal option"
  mb_standard_tokens :: "nat option"
  mb_priority_tokens :: "nat option"

definition cost_model_new ::
    "str \<Rightarrow> cost_metrics \<Rightarrow> exact_decimal option \<Rightarrow> exact_decimal option \<Rightarrow> nat option \<Rightarrow> nat option \<Rightarrow>
     (cost_model, cost_usage_error) result" where
  "cost_model_new name metrics standard_amount priority_amount standard_tokens priority_tokens =
     and_then (ensure_nonnegative ''standard amount'' standard_amount) (\<lambda>_.
     and_then (ensure_nonnegative ''priority amount'' priority_amount) (\<lambda>_.
     and_then (cost_text COST_LABEL_BYTES name) (\<lambda>name.
     Inr \<lparr>mb_name = name, mb_metrics = metrics, mb_standard_amount = standard_amount,
          mb_priority_amount = priority_amount, mb_standard_tokens = standard_tokens,
          mb_priority_tokens = priority_tokens\<rparr>)))"

record cost_daily =
  db_day :: str
  db_interval :: "cost_interval option"
  db_metrics :: cost_metrics
  db_models_used :: "str list"
  db_models :: "cost_model list"
  db_line_items :: "cost_line_item list"

definition cost_daily_new ::
    "calendar \<Rightarrow> str \<Rightarrow> cost_interval option \<Rightarrow> cost_metrics \<Rightarrow> str list \<Rightarrow> cost_model list \<Rightarrow>
     cost_line_item list \<Rightarrow> (cost_daily, cost_usage_error) result" where
  "cost_daily_new cal day interval metrics models_used models line_items =
     and_then (validate_day cal day) (\<lambda>day.
     and_then (check_limit ''models used'' (length models_used) MAX_COST_MODELS) (\<lambda>_.
     and_then (check_limit ''model breakdowns'' (length models) MAX_COST_MODELS) (\<lambda>_.
     and_then (check_limit ''line items'' (length line_items) MAX_COST_LINE_ITEMS) (\<lambda>_.
     and_then (try_map (cost_text COST_LABEL_BYTES) models_used) (\<lambda>models_used.
     let models_used = sort models_used in
     and_then (ensure_unique models_used ''model label'') (\<lambda>_.
     let models = sort_key mb_name models in
     and_then (ensure_unique (map mb_name models) ''model'') (\<lambda>_.
     let line_items = sort_key li_name line_items in
     and_then (ensure_unique (map li_name line_items) ''line item'') (\<lambda>_.
     Inr \<lparr>db_day = day, db_interval = interval, db_metrics = metrics, db_models_used = models_used,
          db_models = models, db_line_items = line_items\<rparr>))))))))"

definition normalize_daily :: "cost_daily list \<Rightarrow> (cost_daily list, cost_usage_error) result" where
  "normalize_daily daily =
     and_then (check_limit ''daily buckets'' (length daily) MAX_COST_DAILY_BUCKETS) (\<lambda>_.
     let daily = sort_key db_day daily in
     and_then (ensure_unique (map db_day daily) ''daily bucket'') (\<lambda>_. Inr daily))"

definition normalize_models :: "cost_model list \<Rightarrow> (cost_model list, cost_usage_error) result" where
  "normalize_models models =
     and_then (check_limit ''model breakdowns'' (length models) MAX_COST_MODELS) (\<lambda>_.
     let models = sort_key mb_name models in
     and_then (ensure_unique (map mb_name models) ''model'') (\<lambda>_. Inr models))"

record cost_source =
  so_name :: str
  so_path :: "str option"
  so_metrics :: cost_metrics
  so_daily :: "cost_daily list"
  so_models :: "cost_model list"

definition so_sort_key :: "cost_source \<Rightarrow> str \<times> str option" where
  "so_sort_key s = (so_name s, so_path s)"

definition cost_source_new ::
    "str \<Rightarrow> str option \<Rightarrow> cost_metrics \<Rightarrow> cost_daily list \<Rightarrow> cost_model list \<Rightarrow>
     (cost_source, cost_usage_error) result" where
  "cost_source_new name path metrics daily models =
     and_then (normalize_daily daily) (\<lambda>daily.
     and_then (normalize_models models) (\<lambda>models.
     and_then (cost_text COST_LABEL_BYTES name) (\<lambda>name.
     and_then (try_option (cost_text COST_PATH_BYTES) path) (\<lambda>path.
     Inr \<lparr>so_name = name, so_path = path, so_metrics = metrics, so_daily = daily,
          so_models = models\<rparr>))))"

record cost_project =
  pr_name :: str
  pr_path :: "str option"
  pr_metrics :: cost_metrics
  pr_daily :: "cost_daily list"
  pr_models :: "cost_model list"
  pr_sources :: "cost_source list"

definition pr_sort_key :: "cost_project \<Rightarrow> str \<times> str option" where
  "pr_sort_key p = (pr_name p, pr_path p)"

definition cost_project_new ::
    "str \<Rightarrow> str option \<Rightarrow> cost_metrics \<Rightarrow> cost_daily list \<Rightarrow> cost_model list \<Rightarrow> cost_source list \<Rightarrow>
     (cost_project, cost_usage_error) result" where
  "cost_project_new name path metrics daily models sources =
     and_then (normalize_daily daily) (\<lambda>daily.
     and_then (normalize_models models) (\<lambda>models.
     and_then (check_limit ''project sources'' (length sources) MAX_COST_PROJECT_SOURCES) (\<lambda>_.
     let sources = sort_key so_sort_key sources in
     if adjacent_equal so_sort_key sources then Inl (CostDuplicate ''project source'')
     else
     and_then (cost_text COST_LABEL_BYTES name) (\<lambda>name.
     and_then (try_option (cost_text COST_PATH_BYTES) path) (\<lambda>path.
     Inr \<lparr>pr_name = name, pr_path = path, pr_metrics = metrics, pr_daily = daily,
          pr_models = models, pr_sources = sources\<rparr>)))))"

record cost_session =
  se_session_id :: str
  se_last_activity :: timestamp
  se_metrics :: cost_metrics
  se_models :: "cost_model list"

definition cost_session_new ::
    "str \<Rightarrow> timestamp \<Rightarrow> cost_metrics \<Rightarrow> cost_model list \<Rightarrow> (cost_session, cost_usage_error) result" where
  "cost_session_new session_id last_activity metrics models =
     and_then (normalize_models models) (\<lambda>models.
     and_then (cost_text COST_LABEL_BYTES session_id) (\<lambda>session_id.
     Inr \<lparr>se_session_id = session_id, se_last_activity = last_activity, se_metrics = metrics,
          se_models = models\<rparr>))"

record cost_hourly =
  hb_hour :: timestamp
  hb_metrics :: cost_metrics

section \<open>Snapshots\<close>

datatype cost_provenance = ListPriceEstimate | VendorMetered | MixedProvenance | UnknownProvenance

record cost_usage =
  cu_unit :: cost_unit
  cu_session :: cost_metrics
  cu_history :: cost_metrics
  cu_metered_amount :: "exact_decimal option"
  cu_history_days :: nat
  cu_history_coverage_established :: bool
  cu_history_label :: "str option"
  cu_credential_scope_fingerprint :: "str option"
  cu_daily :: "cost_daily list"
  cu_projects :: "cost_project list"
  cu_sessions :: "cost_session list"
  cu_hourly :: "cost_hourly list"
  cu_updated_at :: timestamp
  cu_provenance :: cost_provenance

text \<open>The fourteen arguments of the constructor are the fields of the record, before validation.\<close>

definition cost_usage_new :: "cost_usage \<Rightarrow> (cost_usage, cost_usage_error) result" where
  "cost_usage_new a =
     and_then (require (1 \<le> cu_history_days a \<and> cu_history_days a \<le> MAX_COST_HISTORY_DAYS)
       InvalidHistoryDays) (\<lambda>_.
     and_then (ensure_nonnegative ''metered amount'' (cu_metered_amount a)) (\<lambda>_.
     and_then (normalize_daily (cu_daily a)) (\<lambda>daily.
     and_then (check_limit ''projects'' (length (cu_projects a)) MAX_COST_PROJECTS) (\<lambda>_.
     let projects = sort_key pr_sort_key (cu_projects a) in
     if adjacent_equal pr_sort_key projects then Inl (CostDuplicate ''project'')
     else
     and_then (check_limit ''sessions'' (length (cu_sessions a)) MAX_COST_SESSIONS) (\<lambda>_.
     let sessions = sort_key se_session_id (cu_sessions a) in
     and_then (ensure_unique (map se_session_id sessions) ''session'') (\<lambda>_.
     and_then (check_limit ''hourly buckets'' (length (cu_hourly a)) MAX_COST_HOURLY_BUCKETS) (\<lambda>_.
     let hourly = sort_key hb_hour (cu_hourly a) in
     if adjacent_equal hb_hour hourly then Inl (CostDuplicate ''hourly timestamp'')
     else
     and_then (try_option (cost_text COST_LABEL_BYTES) (cu_history_label a)) (\<lambda>history_label.
     and_then (try_option (cost_text CREDENTIAL_FINGERPRINT_BYTES)
         (cu_credential_scope_fingerprint a)) (\<lambda>fingerprint.
     Inr (a\<lparr>cu_history_label := history_label, cu_credential_scope_fingerprint := fingerprint,
            cu_daily := daily, cu_projects := projects, cu_sessions := sessions,
            cu_hourly := hourly\<rparr>))))))))))"

section \<open>Redaction\<close>

definition public_ordinal :: "string \<Rightarrow> nat \<Rightarrow> str" where
  "public_ordinal prefix ordinal = lit prefix @ [45] @ decimal (saturating_add usize_max ordinal 1)"

definition enumerate_map :: "('a \<Rightarrow> nat \<Rightarrow> 'b) \<Rightarrow> 'a list \<Rightarrow> 'b list" where
  "enumerate_map f xs = map (\<lambda>(ordinal, x). f x ordinal) (enumerate 0 xs)"

definition line_item_redacted :: "cost_line_item \<Rightarrow> nat \<Rightarrow> cost_line_item" where
  "line_item_redacted l ordinal = \<lparr>li_name = public_ordinal ''line-item'' ordinal, li_amount = li_amount l\<rparr>"

definition model_redacted :: "cost_model \<Rightarrow> nat \<Rightarrow> cost_model" where
  "model_redacted m ordinal = m\<lparr>mb_name := public_ordinal ''model'' ordinal\<rparr>"

definition daily_redacted :: "cost_daily \<Rightarrow> cost_daily" where
  "daily_redacted d =
     \<lparr>db_day = db_day d, db_interval = db_interval d, db_metrics = db_metrics d,
      db_models_used = enumerate_map (\<lambda>_ ordinal. public_ordinal ''model'' ordinal) (db_models_used d),
      db_models = enumerate_map model_redacted (db_models d),
      db_line_items = enumerate_map line_item_redacted (db_line_items d)\<rparr>"

definition source_redacted :: "cost_source \<Rightarrow> nat \<Rightarrow> cost_source" where
  "source_redacted s ordinal =
     \<lparr>so_name = public_ordinal ''source'' ordinal, so_path = None, so_metrics = so_metrics s,
      so_daily = map daily_redacted (so_daily s),
      so_models = enumerate_map model_redacted (so_models s)\<rparr>"

definition project_redacted :: "cost_project \<Rightarrow> nat \<Rightarrow> cost_project" where
  "project_redacted p ordinal =
     \<lparr>pr_name = public_ordinal ''project'' ordinal, pr_path = None, pr_metrics = pr_metrics p,
      pr_daily = map daily_redacted (pr_daily p),
      pr_models = enumerate_map model_redacted (pr_models p),
      pr_sources = enumerate_map source_redacted (pr_sources p)\<rparr>"

definition session_redacted :: "cost_session \<Rightarrow> nat \<Rightarrow> cost_session" where
  "session_redacted s ordinal =
     \<lparr>se_session_id = public_ordinal ''session'' ordinal, se_last_activity = se_last_activity s,
      se_metrics = se_metrics s, se_models = enumerate_map model_redacted (se_models s)\<rparr>"

definition cost_usage_redacted :: "cost_usage \<Rightarrow> cost_usage" where
  "cost_usage_redacted u =
     \<lparr>cu_unit = (case cu_unit u of
                  Currency c \<Rightarrow> Currency c
                | ProviderUnit _ \<Rightarrow> ProviderUnit (lit ''credits'')),
      cu_session = cu_session u, cu_history = cu_history u,
      cu_metered_amount = cu_metered_amount u, cu_history_days = cu_history_days u,
      cu_history_coverage_established = cu_history_coverage_established u,
      cu_history_label = None, cu_credential_scope_fingerprint = None,
      cu_daily = map daily_redacted (cu_daily u),
      cu_projects = enumerate_map project_redacted (cu_projects u),
      cu_sessions = enumerate_map session_redacted (cu_sessions u),
      cu_hourly = cu_hourly u, cu_updated_at = cu_updated_at u, cu_provenance = cu_provenance u\<rparr>"

section \<open>Well-formed snapshots\<close>

abbreviation label_ok :: "str \<Rightarrow> bool" where
  "label_ok \<equiv> bounded_text_ok COST_LABEL_BYTES"

definition keyed_unique :: "('a \<Rightarrow> 'k::linorder) \<Rightarrow> nat \<Rightarrow> 'a list \<Rightarrow> bool" where
  "keyed_unique key mx xs \<longleftrightarrow> length xs \<le> mx \<and> sorted (map key xs) \<and> distinct (map key xs)"

definition cost_usage_shape_ok :: "cost_usage \<Rightarrow> bool" where
  "cost_usage_shape_ok u \<longleftrightarrow>
     1 \<le> cu_history_days u \<and> cu_history_days u \<le> MAX_COST_HISTORY_DAYS \<and>
     is_none_or (\<lambda>v. 0 \<le> v) (cu_metered_amount u) \<and>
     keyed_unique db_day MAX_COST_DAILY_BUCKETS (cu_daily u) \<and>
     keyed_unique pr_sort_key MAX_COST_PROJECTS (cu_projects u) \<and>
     keyed_unique se_session_id MAX_COST_SESSIONS (cu_sessions u) \<and>
     keyed_unique hb_hour MAX_COST_HOURLY_BUCKETS (cu_hourly u) \<and>
     is_none_or label_ok (cu_history_label u) \<and>
     is_none_or (bounded_text_ok CREDENTIAL_FINGERPRINT_BYTES) (cu_credential_scope_fingerprint u)"

lemma normalize_Inr [result_simps]:
  "normalize_daily ds = Inr es \<longleftrightarrow>
     length ds \<le> MAX_COST_DAILY_BUCKETS \<and> distinct (map db_day ds) \<and> es = sort_key db_day ds"
  "normalize_models ms = Inr ns \<longleftrightarrow>
     length ms \<le> MAX_COST_MODELS \<and> distinct (map mb_name ms) \<and> ns = sort_key mb_name ms"
  by (auto simp: normalize_daily_def normalize_models_def result_simps Let_def)

lemma try_text_ok:
  "try_option (cost_text mx) v = Inr w \<Longrightarrow> is_none_or (bounded_text_ok mx) w"
  by (auto simp: result_simps dest: bounded_text_new_ok)

lemma try_text_ident:
  "is_none_or (bounded_text_ok mx) v \<Longrightarrow> try_option (cost_text mx) v = Inr v"
  by (cases v) (simp_all add: cost_text_def bounded_text_new_ident)

lemma cost_usage_new_Inr:
  "cost_usage_new a = Inr u \<longleftrightarrow>
     1 \<le> cu_history_days a \<and> cu_history_days a \<le> MAX_COST_HISTORY_DAYS \<and>
     is_none_or (\<lambda>v. 0 \<le> v) (cu_metered_amount a) \<and>
     length (cu_daily a) \<le> MAX_COST_DAILY_BUCKETS \<and> distinct (map db_day (cu_daily a)) \<and>
     length (cu_projects a) \<le> MAX_COST_PROJECTS \<and> distinct (map pr_sort_key (cu_projects a)) \<and>
     length (cu_sessions a) \<le> MAX_COST_SESSIONS \<and> distinct (map se_session_id (cu_sessions a)) \<and>
     length (cu_hourly a) \<le> MAX_COST_HOURLY_BUCKETS \<and> distinct (map hb_hour (cu_hourly a)) \<and>
     (\<exists>hl fp. try_option (cost_text COST_LABEL_BYTES) (cu_history_label a) = Inr hl \<and>
        try_option (cost_text CREDENTIAL_FINGERPRINT_BYTES) (cu_credential_scope_fingerprint a) = Inr fp \<and>
        u = a\<lparr>cu_history_label := hl, cu_credential_scope_fingerprint := fp,
              cu_daily := sort_key db_day (cu_daily a),
              cu_projects := sort_key pr_sort_key (cu_projects a),
              cu_sessions := sort_key se_session_id (cu_sessions a),
              cu_hourly := sort_key hb_hour (cu_hourly a)\<rparr>)"
  unfolding cost_usage_new_def Let_def and_then_Inr require_Inr check_simps normalize_Inr
  by (auto simp: and_then_Inr check_simps split: if_splits)

lemma cost_usage_new_shape: "cost_usage_new a = Inr u \<Longrightarrow> cost_usage_shape_ok u"
  unfolding cost_usage_new_Inr
  by (auto simp: cost_usage_shape_ok_def keyed_unique_def try_text_ok)

lemma cost_usage_new_ident: "cost_usage_shape_ok u \<Longrightarrow> cost_usage_new u = Inr u"
  unfolding cost_usage_new_Inr
  by (auto simp: cost_usage_shape_ok_def keyed_unique_def try_text_ident sort_key_sorted_id)

text \<open>
  a cost snapshot that the constructor accepts keeps exactly the daily, project, session and
  hourly records it was given, each collection strictly ascending in its key (day, project name
  and path, session, hour) and within its limit, and keeps every measured figure; and building a
  snapshot from an accepted one changes nothing, so persisted snapshots decode to themselves.
\<close>

theorem cost_usage_new_canonical:
  assumes "cost_usage_new a = Inr u"
  shows "mset (cu_daily u) = mset (cu_daily a) \<and> mset (cu_projects u) = mset (cu_projects a) \<and>
    mset (cu_sessions u) = mset (cu_sessions a) \<and> mset (cu_hourly u) = mset (cu_hourly a) \<and>
    sorted_wrt (<) (map db_day (cu_daily u)) \<and> sorted_wrt (<) (map pr_sort_key (cu_projects u)) \<and>
    sorted_wrt (<) (map se_session_id (cu_sessions u)) \<and> sorted_wrt (<) (map hb_hour (cu_hourly u)) \<and>
    cu_session u = cu_session a \<and> cu_history u = cu_history a \<and>
    cu_metered_amount u = cu_metered_amount a \<and> cu_history_days u \<in> {1..365} \<and>
    cost_usage_new u = Inr u"
proof -
  have shape: "cost_usage_shape_ok u" using assms by (rule cost_usage_new_shape)
  have "mset (cu_daily u) = mset (cu_daily a) \<and> mset (cu_projects u) = mset (cu_projects a) \<and>
    mset (cu_sessions u) = mset (cu_sessions a) \<and> mset (cu_hourly u) = mset (cu_hourly a) \<and>
    cu_session u = cu_session a \<and> cu_history u = cu_history a \<and>
    cu_metered_amount u = cu_metered_amount a"
    using assms unfolding cost_usage_new_Inr by auto
  with shape cost_usage_new_ident [OF shape] show ?thesis
    by (simp add: cost_usage_shape_ok_def keyed_unique_def strict_sorted_iff MAX_COST_HISTORY_DAYS_def)
qed

theorem cost_usage_new_canonical_witness:
  "let mix = \<lparr>tm_input_tokens = Some 4, tm_output_tokens = None, tm_cache_read_tokens = None,
              tm_cache_creation_tokens = None, tm_reasoning_tokens = None\<rparr>;
       m = \<lparr>cm_token_mix = mix, cm_total_tokens = Some 4, cm_request_count = None, cm_amount = None,
            cm_coverage = \<lparr>cv_priced = 0, cv_unpriced = 0, cv_unmetered = 0, cv_estimated = 0\<rparr>\<rparr>;
       h = \<lambda>t. \<lparr>hb_hour = t, hb_metrics = m\<rparr>;
       a = \<lparr>cu_unit = Currency (lit ''USD''), cu_session = m, cu_history = m,
            cu_metered_amount = Some 3, cu_history_days = 30, cu_history_coverage_established = True,
            cu_history_label = None, cu_credential_scope_fingerprint = None, cu_daily = [],
            cu_projects = [], cu_sessions = [], cu_hourly = [h 7200, h 3600], cu_updated_at = 9000,
            cu_provenance = VendorMetered\<rparr>
   in \<exists>u. cost_usage_new a = Inr u \<and> cu_hourly u = [h 3600, h 7200] \<and> cost_usage_new u = Inr u"
proof -
  let ?mix = "\<lparr>tm_input_tokens = Some 4, tm_output_tokens = None, tm_cache_read_tokens = None,
              tm_cache_creation_tokens = None, tm_reasoning_tokens = None\<rparr>"
  let ?m = "\<lparr>cm_token_mix = ?mix, cm_total_tokens = Some 4, cm_request_count = None, cm_amount = None,
            cm_coverage = \<lparr>cv_priced = 0, cv_unpriced = 0, cv_unmetered = 0, cv_estimated = 0\<rparr>\<rparr>"
  let ?h = "\<lambda>t. \<lparr>hb_hour = t, hb_metrics = ?m\<rparr>"
  let ?a = "\<lparr>cu_unit = Currency (lit ''USD''), cu_session = ?m, cu_history = ?m,
            cu_metered_amount = Some 3, cu_history_days = 30, cu_history_coverage_established = True,
            cu_history_label = None, cu_credential_scope_fingerprint = None, cu_daily = [],
            cu_projects = [], cu_sessions = [], cu_hourly = [?h 7200, ?h 3600], cu_updated_at = 9000,
            cu_provenance = VendorMetered\<rparr>"
  have run: "cost_usage_new ?a = Inr (?a\<lparr>cu_hourly := [?h 3600, ?h 7200]\<rparr>)"
    unfolding cost_usage_new_Inr by (simp add: limit_defs)
  show ?thesis using cost_usage_new_canonical [OF run] run by (simp add: Let_def)
qed

section \<open>What redaction hides\<close>

text \<open>
  To say that redaction does not depend on labels, every label is replaced through an arbitrary
  function: names, paths, session identifiers, the history label and the credential fingerprint.
\<close>

definition relabel_line :: "(str \<Rightarrow> str) \<Rightarrow> cost_line_item \<Rightarrow> cost_line_item" where
  "relabel_line f l = l\<lparr>li_name := f (li_name l)\<rparr>"

definition relabel_model :: "(str \<Rightarrow> str) \<Rightarrow> cost_model \<Rightarrow> cost_model" where
  "relabel_model f m = m\<lparr>mb_name := f (mb_name m)\<rparr>"

definition relabel_daily :: "(str \<Rightarrow> str) \<Rightarrow> cost_daily \<Rightarrow> cost_daily" where
  "relabel_daily f d = d\<lparr>db_models_used := map f (db_models_used d),
     db_models := map (relabel_model f) (db_models d),
     db_line_items := map (relabel_line f) (db_line_items d)\<rparr>"

definition relabel_source :: "(str \<Rightarrow> str) \<Rightarrow> cost_source \<Rightarrow> cost_source" where
  "relabel_source f s = s\<lparr>so_name := f (so_name s), so_path := map_option f (so_path s),
     so_daily := map (relabel_daily f) (so_daily s),
     so_models := map (relabel_model f) (so_models s)\<rparr>"

definition relabel_project :: "(str \<Rightarrow> str) \<Rightarrow> cost_project \<Rightarrow> cost_project" where
  "relabel_project f p = p\<lparr>pr_name := f (pr_name p), pr_path := map_option f (pr_path p),
     pr_daily := map (relabel_daily f) (pr_daily p),
     pr_models := map (relabel_model f) (pr_models p),
     pr_sources := map (relabel_source f) (pr_sources p)\<rparr>"

definition relabel_session :: "(str \<Rightarrow> str) \<Rightarrow> cost_session \<Rightarrow> cost_session" where
  "relabel_session f s = s\<lparr>se_session_id := f (se_session_id s),
     se_models := map (relabel_model f) (se_models s)\<rparr>"

definition relabel_cost_usage :: "(str \<Rightarrow> str) \<Rightarrow> cost_usage \<Rightarrow> cost_usage" where
  "relabel_cost_usage f u = u\<lparr>
     cu_unit := (case cu_unit u of Currency c \<Rightarrow> Currency c | ProviderUnit v \<Rightarrow> ProviderUnit (f v)),
     cu_history_label := map_option f (cu_history_label u),
     cu_credential_scope_fingerprint := map_option f (cu_credential_scope_fingerprint u),
     cu_daily := map (relabel_daily f) (cu_daily u),
     cu_projects := map (relabel_project f) (cu_projects u),
     cu_sessions := map (relabel_session f) (cu_sessions u)\<rparr>"

lemma enumerate_map_map:
  "(\<And>x k. r (g x) k = r x k) \<Longrightarrow> enumerate_map r (map g xs) = enumerate_map r xs"
  by (simp add: enumerate_map_def enumerate_map_upt enumerate_eq_zip zip_map2 case_prod_beta)

lemma enumerate_map_const:
  fixes g :: "'a \<Rightarrow> 'a"
  shows "enumerate_map (\<lambda>_ k. h k) (map g xs) = enumerate_map (\<lambda>_ k. h k) xs"
  by (rule enumerate_map_map) (rule refl)

lemma relabel_redacted [simp]:
  "line_item_redacted (relabel_line f l) k = line_item_redacted l k"
  "model_redacted (relabel_model f m) k = model_redacted m k"
  by (simp_all add: line_item_redacted_def relabel_line_def model_redacted_def relabel_model_def)

lemma relabel_daily_redacted [simp]: "daily_redacted (relabel_daily f d) = daily_redacted d"
  by (simp add: daily_redacted_def relabel_daily_def enumerate_map_map enumerate_map_const)

lemma daily_redacted_keeps [simp]:
  "db_day (daily_redacted d) = db_day d" "db_metrics (daily_redacted d) = db_metrics d"
  by (simp_all add: daily_redacted_def)

lemma relabel_source_redacted [simp]: "source_redacted (relabel_source f s) k = source_redacted s k"
  by (simp add: source_redacted_def relabel_source_def enumerate_map_map o_def)

lemma relabel_project_redacted [simp]: "project_redacted (relabel_project f p) k = project_redacted p k"
  by (simp add: project_redacted_def relabel_project_def enumerate_map_map o_def)

lemma relabel_session_redacted [simp]: "session_redacted (relabel_session f s) k = session_redacted s k"
  by (simp add: session_redacted_def relabel_session_def enumerate_map_map)

text \<open>
  the redacted cost snapshot is independent of every label: renaming models, line items,
  sources, projects, paths, sessions, provider units, the history label and the credential
  fingerprint in any way leaves it the same, so none of them can be recovered from it, while the
  figures, days and hours are the original ones.
\<close>

theorem cost_usage_redaction_independent:
  "cost_usage_redacted (relabel_cost_usage f u) = cost_usage_redacted u \<and>
   cu_session (cost_usage_redacted u) = cu_session u \<and> cu_history (cost_usage_redacted u) = cu_history u \<and>
   cu_metered_amount (cost_usage_redacted u) = cu_metered_amount u \<and>
   cu_hourly (cost_usage_redacted u) = cu_hourly u \<and>
   map db_day (cu_daily (cost_usage_redacted u)) = map db_day (cu_daily u) \<and>
   map db_metrics (cu_daily (cost_usage_redacted u)) = map db_metrics (cu_daily u)"
  by (simp add: cost_usage_redacted_def relabel_cost_usage_def enumerate_map_map o_def
      split: cost_unit.splits)

end
