(* ===== verification/Provider_Status.thy ===== *)
theory Provider_Status
  imports Domain_Values
begin

text \<open>
  Provider health (\<open>crates/domain/src/status.rs\<close>): incidents, the recursive component feed with its
  depth, count and identifier checks, and the canonical order of both.
\<close>

section \<open>Incidents\<close>

definition MAX_STATUS_DESCRIPTION_LENGTH :: nat where [limit_defs]: "MAX_STATUS_DESCRIPTION_LENGTH = 512"
definition MAX_INCIDENT_ID_LENGTH :: nat where [limit_defs]: "MAX_INCIDENT_ID_LENGTH = 128"
definition MAX_INCIDENT_TITLE_LENGTH :: nat where [limit_defs]: "MAX_INCIDENT_TITLE_LENGTH = 256"
definition MAX_INCIDENTS_PER_PROVIDER :: nat where [limit_defs]: "MAX_INCIDENTS_PER_PROVIDER = 64"
definition MAX_STATUS_COMPONENTS_PER_PROVIDER :: nat where
  [limit_defs]: "MAX_STATUS_COMPONENTS_PER_PROVIDER = 64"
definition MAX_STATUS_COMPONENT_DEPTH :: nat where [limit_defs]: "MAX_STATUS_COMPONENT_DEPTH = 4"

datatype provider_health =
    Operational | Degraded | PartialOutage | MajorOutage | Critical | Maintenance | UnknownHealth

fun health_rank :: "provider_health \<Rightarrow> nat" where
  "health_rank Operational = 0"
| "health_rank Degraded = 1"
| "health_rank PartialOutage = 2"
| "health_rank MajorOutage = 3"
| "health_rank Critical = 4"
| "health_rank Maintenance = 5"
| "health_rank UnknownHealth = 6"

lemma health_rank_inject [simp]: "health_rank g = health_rank h \<longleftrightarrow> g = h"
  by (cases g; cases h) simp_all

record provider_incident =
  in_id :: str
  in_title :: str
  in_health :: provider_health
  in_started_at :: "timestamp option"
  in_updated_at :: "timestamp option"
  in_resolved_at :: "timestamp option"
  in_description :: "str option"

datatype provider_status_error =
    TooManyIncidents nat nat | DuplicateIncidentId | TooManyComponents nat nat
  | ComponentDepthExceeded nat | DuplicateComponentId | InvalidIncidentTimeline

definition provider_incident_new ::
    "str \<Rightarrow> str \<Rightarrow> provider_health \<Rightarrow> timestamp option \<Rightarrow> timestamp option \<Rightarrow> timestamp option \<Rightarrow>
     str option \<Rightarrow> (provider_incident, provider_status_error) result" where
  "provider_incident_new i title health started_at updated_at resolved_at description =
     (if is_some_and (\<lambda>updated. is_some_and (\<lambda>started. updated < started) started_at) updated_at \<or>
         is_some_and (\<lambda>resolved. is_some_and (\<lambda>started. resolved < started) started_at) resolved_at \<or>
         is_some_and (\<lambda>resolved. is_some_and (\<lambda>updated. resolved < updated) updated_at) resolved_at
      then Inl InvalidIncidentTimeline
      else Inr \<lparr>in_id = i, in_title = title, in_health = health, in_started_at = started_at,
                in_updated_at = updated_at, in_resolved_at = resolved_at,
                in_description = description\<rparr>)"

definition incident_cmp :: "provider_incident \<Rightarrow> provider_incident \<Rightarrow> ordering" where
  "incident_cmp a b =
     then_with (then_with (then_with (then_with (then_with (then_with
       (cmp (in_updated_at b) (in_updated_at a))
       (cmp (in_started_at b) (in_started_at a)))
       (cmp (in_id a) (in_id b)))
       (cmp (in_title a) (in_title b)))
       (cmp (health_rank (in_health a)) (health_rank (in_health b))))
       (cmp (in_resolved_at a) (in_resolved_at b)))
       (cmp (in_description a) (in_description b))"

interpretation incident: comparison incident_cmp
proof (rule comparison_lawful)
  show "cmp_lawful incident_cmp" unfolding incident_cmp_def by (intro lawful_intros)
  show "incident_cmp x y = Equal \<longleftrightarrow> x = y" for x y
    by (cases x; cases y) (auto simp: incident_cmp_def)
qed

section \<open>Components\<close>

datatype status_component =
  StatusComponent (co_id: str) (co_name: str) (co_health: provider_health) (co_raw_status: str)
    (co_children: "status_component list")

fun component_cmp :: "status_component \<Rightarrow> status_component \<Rightarrow> ordering"
and components_cmp :: "status_component list \<Rightarrow> status_component list \<Rightarrow> ordering" where
  "component_cmp (StatusComponent i n h r cs) (StatusComponent i' n' h' r' cs') =
     then_with (then_with (then_with (then_with (cmp i i') (cmp n n'))
       (cmp (health_rank h) (health_rank h'))) (cmp r r')) (components_cmp cs cs')"
| "components_cmp [] [] = Equal"
| "components_cmp [] (_ # _) = Less"
| "components_cmp (_ # _) [] = Greater"
| "components_cmp (x # xs) (y # ys) = then_with (component_cmp x y) (components_cmp xs ys)"

fun component_count :: "status_component \<Rightarrow> nat" and components_count :: "status_component list \<Rightarrow> nat" where
  "component_count (StatusComponent i n h r cs) = Suc (components_count cs)"
| "components_count [] = 0"
| "components_count (x # xs) = component_count x + components_count xs"

text \<open>
  The recursive check and sort threads the running count and the identifiers seen so far through a
  depth-first traversal; each level is sorted after its elements are normalised.
\<close>

function (sequential) normalize_component_level ::
    "status_component list \<Rightarrow> nat \<Rightarrow> nat \<Rightarrow> str set \<Rightarrow>
     (status_component list \<times> nat \<times> str set, provider_status_error) result"
  and normalize_component_loop ::
    "status_component list \<Rightarrow> nat \<Rightarrow> nat \<Rightarrow> str set \<Rightarrow>
     (status_component list \<times> nat \<times> str set, provider_status_error) result" where
  "normalize_component_level components depth seen_count ids =
     (if components = [] then Inr (components, seen_count, ids)
      else if depth > MAX_STATUS_COMPONENT_DEPTH
      then Inl (ComponentDepthExceeded MAX_STATUS_COMPONENT_DEPTH)
      else and_then (normalize_component_loop components depth seen_count ids) (\<lambda>(components, seen_count, ids).
        Inr (sort_cmp component_cmp components, seen_count, ids)))"
| "normalize_component_loop [] depth seen_count ids = Inr ([], seen_count, ids)"
| "normalize_component_loop (StatusComponent i n h r children # rest) depth seen_count ids =
     (let seen_count = seen_count + 1 in
      if seen_count > MAX_STATUS_COMPONENTS_PER_PROVIDER
      then Inl (TooManyComponents seen_count MAX_STATUS_COMPONENTS_PER_PROVIDER)
      else if i \<in> ids then Inl DuplicateComponentId
      else and_then (normalize_component_level children (depth + 1) seen_count (insert i ids))
        (\<lambda>(children, seen_count, ids).
         and_then (normalize_component_loop rest depth seen_count ids) (\<lambda>(rest, seen_count, ids).
         Inr (StatusComponent i n h r children # rest, seen_count, ids))))"
  by pat_completeness auto
termination
  by (relation "measure (case_sum (\<lambda>(cs, _). 2 * components_count cs + 1)
        (\<lambda>(cs, _). 2 * components_count cs))") auto

definition normalize_components ::
    "status_component list \<Rightarrow> (status_component list, provider_status_error) result" where
  "normalize_components cs = map_ok fst (normalize_component_level cs 1 0 {})"

definition status_component_new ::
    "str \<Rightarrow> str \<Rightarrow> provider_health \<Rightarrow> str \<Rightarrow> status_component list \<Rightarrow>
     (status_component, provider_status_error) result" where
  "status_component_new i n h r children =
     and_then (normalize_components children) (\<lambda>children.
     and_then (normalize_components [StatusComponent i n h r children]) (\<lambda>singleton.
     Inr (hd singleton)))"

record provider_status =
  ps_health :: provider_health
  ps_description :: "str option"
  ps_checked_at :: "timestamp option"
  ps_incidents :: "provider_incident list"
  ps_components :: "status_component list"

definition provider_status_with_components ::
    "provider_health \<Rightarrow> str option \<Rightarrow> timestamp option \<Rightarrow> provider_incident list \<Rightarrow>
     status_component list \<Rightarrow> (provider_status, provider_status_error) result" where
  "provider_status_with_components health description checked_at incidents components =
     (if length incidents > MAX_INCIDENTS_PER_PROVIDER
      then Inl (TooManyIncidents (length incidents) MAX_INCIDENTS_PER_PROVIDER)
      else if \<not> all_new {} (map in_id incidents) then Inl DuplicateIncidentId
      else let incidents = sort_cmp incident_cmp incidents in
        and_then (normalize_components components) (\<lambda>components.
        Inr \<lparr>ps_health = health, ps_description = description, ps_checked_at = checked_at,
             ps_incidents = incidents, ps_components = components\<rparr>))"

definition provider_status_new ::
    "provider_health \<Rightarrow> str option \<Rightarrow> timestamp option \<Rightarrow> provider_incident list \<Rightarrow>
     (provider_status, provider_status_error) result" where
  "provider_status_new health description checked_at incidents =
     provider_status_with_components health description checked_at incidents []"

definition provider_status_deserialize ::
    "provider_status \<Rightarrow> (provider_status, provider_status_error) result" where
  "provider_status_deserialize w =
     provider_status_with_components (ps_health w) (ps_description w) (ps_checked_at w)
       (ps_incidents w) (ps_components w)"

definition status_without_personal_information :: "provider_status \<Rightarrow> provider_status" where
  "status_without_personal_information s =
     \<lparr>ps_health = ps_health s, ps_description = None, ps_checked_at = ps_checked_at s,
      ps_incidents = [], ps_components = []\<rparr>"

section \<open>The component order\<close>

lemma component_cmp_Equal:
  "component_cmp x y = Equal \<longleftrightarrow> x = y" "components_cmp xs ys = Equal \<longleftrightarrow> xs = ys"
  by (induction x y and xs ys rule: component_cmp_components_cmp.induct) auto

lemma component_cmp_swap:
  "component_cmp x y = Greater \<longleftrightarrow> component_cmp y x = Less"
  "components_cmp xs ys = Greater \<longleftrightarrow> components_cmp ys xs = Less"
  by (induction x y and xs ys rule: component_cmp_components_cmp.induct)
    (auto simp: component_cmp_Equal)

lemma component_cmp_trans:
  "component_cmp x y = Less \<Longrightarrow> component_cmp y z = Less \<Longrightarrow> component_cmp x z = Less"
  "components_cmp xs ys = Less \<Longrightarrow> components_cmp ys zs = Less \<Longrightarrow> components_cmp xs zs = Less"
proof (induction x y and xs ys arbitrary: z and zs rule: component_cmp_components_cmp.induct)
  case (1 i n h r cs i' n' h' r' cs')
  obtain i'' n'' h'' r'' cs'' where z: "z = StatusComponent i'' n'' h'' r'' cs''" by (cases z)
  have key: "component_cmp (StatusComponent i n h r cs) (StatusComponent i' n' h' r' cs') = Less \<longleftrightarrow>
      (i, n, health_rank h, r) < (i', n', health_rank h', r') \<or>
      (i, n, health_rank h, r) = (i', n', health_rank h', r') \<and> components_cmp cs cs' = Less"
    for i n h r cs i' n' h' r' cs'
    by (auto simp: less_prod_def')
  from 1(2,3) show ?case unfolding z key by (rule lex_trans) (rule 1(1))
next
  case (3 y ys)
  then show ?case by (cases zs) auto
next
  case (5 x xs y ys)
  then show ?case by (cases zs) (auto simp: component_cmp_Equal)
qed auto

interpretation component: comparison component_cmp
  by unfold_locales (rule component_cmp_Equal component_cmp_swap component_cmp_trans; assumption?)+

section \<open>Normalisation\<close>

text \<open>
  Reference definitions: the identifiers of a forest in traversal order, its depth, and the forest
  with every level sorted.
\<close>

fun component_ids :: "status_component \<Rightarrow> str list" and components_ids :: "status_component list \<Rightarrow> str list" where
  "component_ids (StatusComponent i n h r cs) = i # components_ids cs"
| "components_ids [] = []"
| "components_ids (x # xs) = component_ids x @ components_ids xs"

fun component_depth :: "status_component \<Rightarrow> nat" and components_depth :: "status_component list \<Rightarrow> nat" where
  "component_depth (StatusComponent i n h r cs) = Suc (components_depth cs)"
| "components_depth [] = 0"
| "components_depth (x # xs) = max (component_depth x) (components_depth xs)"

fun canonical_component :: "status_component \<Rightarrow> status_component" where
  "canonical_component (StatusComponent i n h r cs) =
     StatusComponent i n h r (sort_cmp component_cmp (map canonical_component cs))"

abbreviation canonical_components :: "status_component list \<Rightarrow> status_component list" where
  "canonical_components cs \<equiv> sort_cmp component_cmp (map canonical_component cs)"

definition components_admissible :: "status_component list \<Rightarrow> bool" where
  "components_admissible cs \<longleftrightarrow>
     components_depth cs \<le> MAX_STATUS_COMPONENT_DEPTH \<and>
     components_count cs \<le> MAX_STATUS_COMPONENTS_PER_PROVIDER \<and> distinct (components_ids cs)"

lemma length_components_ids:
  "length (component_ids x) = component_count x" "length (components_ids xs) = components_count xs"
  by (induction x and xs rule: component_ids_components_ids.induct) auto

lemma normalize_level_iff:
  assumes "n \<le> MAX_STATUS_COMPONENTS_PER_PROVIDER"
  shows "normalize_component_level cs d n ids = Inr r \<longleftrightarrow>
      (cs \<noteq> [] \<longrightarrow> d + components_depth cs \<le> Suc MAX_STATUS_COMPONENT_DEPTH) \<and>
      n + components_count cs \<le> MAX_STATUS_COMPONENTS_PER_PROVIDER \<and>
      distinct (components_ids cs) \<and> set (components_ids cs) \<inter> ids = {} \<and>
      r = (canonical_components cs, n + components_count cs, ids \<union> set (components_ids cs))"
    and "d \<le> MAX_STATUS_COMPONENT_DEPTH \<Longrightarrow> normalize_component_loop cs d n ids = Inr r \<longleftrightarrow>
      d + components_depth cs \<le> Suc MAX_STATUS_COMPONENT_DEPTH \<and>
      n + components_count cs \<le> MAX_STATUS_COMPONENTS_PER_PROVIDER \<and>
      distinct (components_ids cs) \<and> set (components_ids cs) \<inter> ids = {} \<and>
      r = (map canonical_component cs, n + components_count cs, ids \<union> set (components_ids cs))"
  using assms
proof (induction cs d n ids and cs d n ids arbitrary: r and r
    rule: normalize_component_level_normalize_component_loop.induct)
  case (1 cs d n ids)
  have pos: "0 < components_depth cs" if "cs \<noteq> []"
    using that by (cases "hd cs"; cases cs) (auto simp: less_max_iff_disj)
  show ?case
  proof (cases "cs = [] \<or> MAX_STATUS_COMPONENT_DEPTH < d")
    case True
    then show ?thesis using pos 1(2) by (auto simp: sort_cmp_def)
  next
    case False
    then show ?thesis using 1 by (auto simp: result_simps)
  qed
next
  case (2 d n ids)
  then show ?case by auto
next
  case (3 i m h r children rest d n ids)
  show ?case
  proof (cases "MAX_STATUS_COMPONENTS_PER_PROVIDER < n + 1 \<or> i \<in> ids")
    case True
    then show ?thesis by auto
  next
    case False
    then show ?thesis using 3 by (auto simp: result_simps)
  qed
qed

declare normalize_component_level.simps [simp del]

lemma normalize_components_iff:
  "normalize_components cs = Inr ds \<longleftrightarrow> components_admissible cs \<and> ds = canonical_components cs"
  using normalize_level_iff(1) [of 0 cs 1 "{}"]
  by (cases "cs = []") (auto simp: normalize_components_def result_simps components_admissible_def)

lemma components_mset:
  assumes "mset xs = mset ys"
  shows "mset (components_ids xs) = mset (components_ids ys)"
    "components_count xs = components_count ys" "components_depth xs = components_depth ys"
proof -
  have ids: "mset (components_ids xs) = sum_mset (image_mset (\<lambda>x. mset (component_ids x)) (mset xs))" for xs
    by (induction xs) auto
  have depth: "components_depth xs \<le> k \<longleftrightarrow> (\<forall>x\<in>set xs. component_depth x \<le> k)" for xs k
    by (induction xs) auto
  show "mset (components_ids xs) = mset (components_ids ys)" using assms by (simp add: ids)
  then show "components_count xs = components_count ys"
    by (metis length_components_ids(2) mset_eq_length)
  show "components_depth xs = components_depth ys"
    by (metis antisym depth mset_eq_setD [OF assms] order_refl)
qed

lemma components_admissible_mset:
  "mset xs = mset ys \<Longrightarrow> components_admissible xs = components_admissible ys"
  using components_mset [of xs ys] mset_eq_imp_distinct_iff [OF components_mset(1), of xs ys]
  by (simp add: components_admissible_def)

lemma canonical_component_measures:
  "mset (component_ids (canonical_component x)) = mset (component_ids x) \<and>
   component_depth (canonical_component x) = component_depth x"
proof (induction x)
  case (StatusComponent i n h r cs)
  let ?cs = "map canonical_component cs"
  have "mset (components_ids ?cs) = mset (components_ids cs) \<and>
      components_depth ?cs = components_depth cs"
    using StatusComponent by (induction cs) auto
  then show ?case using components_mset [of "canonical_components cs" ?cs] by simp
qed

lemma components_admissible_canonical:
  "components_admissible (canonical_components cs) \<longleftrightarrow> components_admissible cs"
proof -
  have ids: "mset (components_ids (map canonical_component cs)) = mset (components_ids cs)"
    by (induction cs) (simp_all add: canonical_component_measures)
  have depth: "components_depth (map canonical_component cs) = components_depth cs"
    by (induction cs) (simp_all add: canonical_component_measures)
  have "components_admissible (map canonical_component cs) \<longleftrightarrow> components_admissible cs"
    unfolding components_admissible_def
    by (metis depth ids length_components_ids(2) mset_eq_imp_distinct_iff mset_eq_length)
  then show ?thesis by (metis components_admissible_mset mset_sort_cmp)
qed

lemma canonical_component_idem: "canonical_component (canonical_component x) = canonical_component x"
proof (induction x)
  case (StatusComponent i n h r cs)
  have "map canonical_component (canonical_components cs) = canonical_components cs"
    using StatusComponent by (intro map_idI) auto
  then show ?case by (simp add: component.sort_cmp_idem)
qed

lemma canonical_components_idem: "canonical_components (canonical_components cs) = canonical_components cs"
proof -
  have "map canonical_component (canonical_components cs) = canonical_components cs"
    by (intro map_idI) (auto simp: canonical_component_idem)
  then show ?thesis by (simp add: component.sort_cmp_idem)
qed

definition provider_status_ok :: "provider_status \<Rightarrow> bool" where
  "provider_status_ok s \<longleftrightarrow>
     length (ps_incidents s) \<le> MAX_INCIDENTS_PER_PROVIDER \<and> distinct (map in_id (ps_incidents s)) \<and>
     sort_cmp incident_cmp (ps_incidents s) = ps_incidents s \<and>
     components_admissible (ps_components s) \<and> canonical_components (ps_components s) = ps_components s"

lemma with_components_Inr:
  "provider_status_with_components h d t is cs = Inr s \<longleftrightarrow>
     length is \<le> MAX_INCIDENTS_PER_PROVIDER \<and> distinct (map in_id is) \<and> components_admissible cs \<and>
     s = \<lparr>ps_health = h, ps_description = d, ps_checked_at = t,
          ps_incidents = sort_cmp incident_cmp is, ps_components = canonical_components cs\<rparr>"
  by (auto simp: provider_status_with_components_def result_simps normalize_components_iff)

lemma distinct_map_sort_cmp [simp]: "distinct (map f (sort_cmp c xs)) \<longleftrightarrow> distinct (map f xs)"
  by (simp add: sort_cmp_def)

lemma length_sort_cmp [simp]: "length (sort_cmp c xs) = length xs"
  by (simp add: sort_cmp_def)

lemma with_components_ok:
  "provider_status_with_components h d t is cs = Inr s \<Longrightarrow> provider_status_ok s"
  by (auto simp: with_components_Inr provider_status_ok_def incident.sort_cmp_idem
      components_admissible_canonical canonical_components_idem)

lemma provider_status_deserialize_ident:
  "provider_status_ok s \<Longrightarrow> provider_status_deserialize s = Inr s"
  by (cases s) (auto simp: provider_status_deserialize_def with_components_Inr provider_status_ok_def)

lemma status_redaction_ok [wf_intros]: "provider_status_ok (status_without_personal_information s)"
  by (simp add: provider_status_ok_def status_without_personal_information_def
      components_admissible_def sort_cmp_def)

text \<open>
  the recursive component check accepts a feed exactly when it is at most four levels deep,
  has at most sixty-four components and no repeated identifier anywhere in it, and then returns the
  feed with every level in canonical order; a status is built exactly when additionally its
  incidents are few enough with distinct identifiers.
\<close>

theorem provider_status_accepts:
  "(normalize_components cs = Inr ds \<longleftrightarrow>
      components_depth cs \<le> 4 \<and> components_count cs \<le> 64 \<and> distinct (components_ids cs) \<and>
      ds = canonical_components cs) \<and>
   ((\<exists>s. provider_status_with_components h d t is cs = Inr s) \<longleftrightarrow>
      length is \<le> 64 \<and> distinct (map in_id is) \<and>
      components_depth cs \<le> 4 \<and> components_count cs \<le> 64 \<and> distinct (components_ids cs))"
  by (simp add: normalize_components_iff with_components_Inr components_admissible_def limit_defs)

text \<open>
  A status is canonical: it does not depend on the order in which incidents and top-level
  components were reported, and re-reading a status returns it unchanged.
\<close>

theorem provider_status_canonical:
  assumes "mset is = mset is'" "mset cs = mset cs'"
    and "provider_status_with_components h d t is cs = Inr s"
  shows "provider_status_with_components h d t is' cs' = Inr s \<and> provider_status_deserialize s = Inr s"
proof
  have "sort_cmp incident_cmp is = sort_cmp incident_cmp is'"
    using assms(1) by (rule incident.sort_cmp_canonical)
  moreover have "canonical_components cs = canonical_components cs'"
    using assms(2) by (intro component.sort_cmp_canonical) simp
  moreover have "length is = length is'" using assms(1) by (rule mset_eq_length)
  moreover have "distinct (map in_id is) = distinct (map in_id is')"
    using assms(1) by (intro mset_eq_imp_distinct_iff) simp
  ultimately show "provider_status_with_components h d t is' cs' = Inr s"
    using assms(3) components_admissible_mset [OF assms(2)] by (simp add: with_components_Inr)
  show "provider_status_deserialize s = Inr s"
    using with_components_ok [OF assms(3)] by (rule provider_status_deserialize_ident)
qed

theorem provider_status_canonical_witness:
  "let a = StatusComponent (lit ''a'') (lit ''A'') Degraded (lit ''x'') [];
       b = StatusComponent (lit ''b'') (lit ''B'') Operational (lit ''y'') []
   in provider_status_with_components Degraded None None [] [b, a] =
        provider_status_with_components Degraded None None [] [a, b] \<and>
      (\<exists>s. provider_status_with_components Degraded None None [] [a, b] = Inr s)"
proof -
  let ?a = "StatusComponent (lit ''a'') (lit ''A'') Degraded (lit ''x'') []"
  let ?b = "StatusComponent (lit ''b'') (lit ''B'') Operational (lit ''y'') []"
  have "components_admissible [?a, ?b]"
    by (simp add: components_admissible_def limit_defs)
  then obtain s where s: "provider_status_with_components Degraded None None [] [?a, ?b] = Inr s"
    by (simp add: with_components_Inr)
  then show ?thesis
    using provider_status_canonical [of "[]" "[]" "[?a, ?b]" "[?b, ?a]" Degraded None None s]
    by (simp add: Let_def add_mset_commute)
qed

end
