(* ===== verification/Sample_Details.thy ===== *)
theory Sample_Details
  imports Cost_Usage Provider_Status
begin

text \<open>
  The parts of a usage sample defined in \<open>crates/domain/src/snapshot.rs\<close> and the identity record of
  \<open>identity.rs\<close>: detail rows, charts and sections, cost summaries, reset credits and their
  inventory, and provider extensions.
\<close>

section \<open>Errors and checks\<close>

definition MAX_EXTRA_WINDOWS :: nat where [limit_defs]: "MAX_EXTRA_WINDOWS = 16"
definition MAX_DETAIL_SECTIONS :: nat where [limit_defs]: "MAX_DETAIL_SECTIONS = 8"
definition MAX_DETAIL_ROWS :: nat where [limit_defs]: "MAX_DETAIL_ROWS = 24"
definition MAX_CHART_POINTS :: nat where [limit_defs]: "MAX_CHART_POINTS = 120"
definition MAX_PROVENANCE_ENTRIES :: nat where [limit_defs]: "MAX_PROVENANCE_ENTRIES = 16"
definition MAX_RESET_CREDITS :: nat where [limit_defs]: "MAX_RESET_CREDITS = 64"
definition MAX_PROVIDER_EXTENSIONS :: nat where [limit_defs]: "MAX_PROVIDER_EXTENSIONS = 8"
definition MAX_SNAPSHOTS_PER_ENVELOPE :: nat where [limit_defs]: "MAX_SNAPSHOTS_PER_ENVELOPE = 256"
definition MAX_REPORTED_AVAILABLE_RESET_CREDITS :: nat where
  [limit_defs]: "MAX_REPORTED_AVAILABLE_RESET_CREDITS = 4096"

datatype snapshot_error =
    ScopeMismatch | NoLastKnownGood | LimitExceeded string nat | Duplicate string | InvalidPeriod
  | IncompletePeriod | InvalidResetCreditTimeline | InvalidResetCreditState
  | ReportedResetCreditCountTooLarge | StaleBeforeFetch | ErrorRequiresStaleSnapshot
  | SnapshotInvalidText bounded_text_error

definition snapshot_check_limit :: "string \<Rightarrow> nat \<Rightarrow> nat \<Rightarrow> (unit, snapshot_error) result" where
  "snapshot_check_limit field actual maximum =
     (if actual > maximum then Inl (LimitExceeded field maximum) else Inr ())"

definition snapshot_ensure_unique :: "str list \<Rightarrow> string \<Rightarrow> (unit, snapshot_error) result" where
  "snapshot_ensure_unique values field =
     (if all_new {} values then Inr () else Inl (Duplicate field))"

definition snapshot_text :: "nat \<Rightarrow> str \<Rightarrow> (str, snapshot_error) result" where
  "snapshot_text mx v = map_err SnapshotInvalidText (bounded_text_new mx v)"

lemma snapshot_check_Inr [result_simps]:
  "snapshot_check_limit f n mx = Inr u \<longleftrightarrow> n \<le> mx"
  "snapshot_ensure_unique vs f = Inr u \<longleftrightarrow> distinct vs"
  "snapshot_text mx v = Inr t \<longleftrightarrow> bounded_text_new mx v = Inr t"
  by (auto simp: snapshot_check_limit_def snapshot_ensure_unique_def snapshot_text_def result_simps)

lemma snapshot_text_ident: "bounded_text_ok mx v \<Longrightarrow> snapshot_text mx v = Inr v"
  by (simp add: result_simps bounded_text_new_ident)

lemma snapshot_option_ident:
  "is_none_or (bounded_text_ok mx) v \<Longrightarrow> try_option (snapshot_text mx) v = Inr v"
  by (cases v) (simp_all add: snapshot_text_ident)

lemma snapshot_option_ok:
  "try_option (snapshot_text mx) v = Inr w \<Longrightarrow> is_none_or (bounded_text_ok mx) w"
  by (auto simp: result_simps dest: bounded_text_new_ok)

section \<open>Details\<close>

datatype data_confidence = Exact | Estimated | PercentOnly | UnknownConfidence
datatype detail_sensitivity = PublicDetail | PersonalDetail
datatype detail_chart_kind = Bars | LineChart

record detail_row =
  dr_label :: str
  dr_value :: str
  dr_secondary_value :: "str option"
  dr_sensitivity :: detail_sensitivity

record detail_chart_point =
  dp_label :: str
  dp_value :: f64

record detail_chart =
  dc_kind :: detail_chart_kind
  dc_title :: "str option"
  dc_unit :: "str option"
  dc_points :: "detail_chart_point list"

record detail_section =
  ds_title :: "str option"
  ds_rows :: "detail_row list"
  ds_chart :: "detail_chart option"

record chart_point =
  cp_at :: timestamp
  cp_value :: exact_decimal

record provenance =
  pv_source :: str
  pv_strategy :: str

definition detail_row_new ::
    "str \<Rightarrow> str \<Rightarrow> str option \<Rightarrow> detail_sensitivity \<Rightarrow> (detail_row, snapshot_error) result" where
  "detail_row_new label value secondary_value sensitivity =
     and_then (snapshot_text 120 label) (\<lambda>label.
     and_then (snapshot_text 120 value) (\<lambda>value.
     and_then (try_option (snapshot_text 120) secondary_value) (\<lambda>secondary_value.
     Inr \<lparr>dr_label = label, dr_value = value, dr_secondary_value = secondary_value,
          dr_sensitivity = sensitivity\<rparr>)))"

definition detail_chart_point_new :: "str \<Rightarrow> f64 \<Rightarrow> (detail_chart_point, snapshot_error) result" where
  "detail_chart_point_new label value =
     map_ok (\<lambda>label. \<lparr>dp_label = label, dp_value = value\<rparr>) (snapshot_text 120 label)"

definition detail_chart_new ::
    "detail_chart_kind \<Rightarrow> str option \<Rightarrow> str option \<Rightarrow> detail_chart_point list \<Rightarrow>
     (detail_chart, snapshot_error) result" where
  "detail_chart_new kind title unit points =
     and_then (snapshot_check_limit ''detail chart points'' (length points) MAX_CHART_POINTS) (\<lambda>_.
     and_then (try_option (snapshot_text 120) title) (\<lambda>title.
     and_then (try_option (snapshot_text 120) unit) (\<lambda>unit.
     Inr \<lparr>dc_kind = kind, dc_title = title, dc_unit = unit, dc_points = points\<rparr>)))"

definition detail_section_new ::
    "str option \<Rightarrow> detail_row list \<Rightarrow> detail_chart option \<Rightarrow> (detail_section, snapshot_error) result" where
  "detail_section_new title rows chart =
     and_then (snapshot_check_limit ''detail section rows'' (length rows) MAX_DETAIL_ROWS) (\<lambda>_.
     and_then (try_option (snapshot_text 120) title) (\<lambda>title.
     Inr \<lparr>ds_title = title, ds_rows = rows, ds_chart = chart\<rparr>))"

definition provenance_new :: "str \<Rightarrow> str \<Rightarrow> (provenance, snapshot_error) result" where
  "provenance_new source strategy =
     and_then (snapshot_text 120 source) (\<lambda>source.
     and_then (snapshot_text 120 strategy) (\<lambda>strategy.
     Inr \<lparr>pv_source = source, pv_strategy = strategy\<rparr>))"

section \<open>Cost summaries\<close>

record cost_summary =
  cy_used :: cost_amount
  cy_limit :: exact_decimal
  cy_period :: "str option"
  cy_resets_at :: "timestamp option"
  cy_next_regen_amount :: "exact_decimal option"
  cy_personal_used :: "exact_decimal option"
  cy_balance :: "exact_decimal option"
  cy_updated_at :: timestamp
  cy_period_start :: "timestamp option"
  cy_period_end :: "timestamp option"
  cy_provenance :: cost_provenance

text \<open>The eleven arguments of the constructor are the fields, before validation.\<close>

definition cost_summary_new :: "cost_summary \<Rightarrow> (cost_summary, snapshot_error) result" where
  "cost_summary_new a =
     (case (cy_period_start a, cy_period_end a) of
       (Some s, Some e) \<Rightarrow>
         (if e \<le> s then Inl InvalidPeriod
          else map_ok (\<lambda>p. a\<lparr>cy_period := p\<rparr>) (try_option (snapshot_text 120) (cy_period a)))
     | (Some _, None) \<Rightarrow> Inl IncompletePeriod
     | (None, Some _) \<Rightarrow> Inl IncompletePeriod
     | (None, None) \<Rightarrow> map_ok (\<lambda>p. a\<lparr>cy_period := p\<rparr>) (try_option (snapshot_text 120) (cy_period a)))"

definition cost_summary_redacted :: "cost_summary \<Rightarrow> cost_summary" where
  "cost_summary_redacted c =
     c\<lparr>cy_used := cost_amount_without_personal_information (cy_used c), cy_period := None,
       cy_personal_used := None\<rparr>"

definition cost_summary_ok :: "cost_summary \<Rightarrow> bool" where
  "cost_summary_ok c \<longleftrightarrow>
     cost_amount_ok (cy_used c) \<and> is_none_or (bounded_text_ok 120) (cy_period c) \<and>
     (case (cy_period_start c, cy_period_end c) of
       (Some s, Some e) \<Rightarrow> s < e | (None, None) \<Rightarrow> True | _ \<Rightarrow> False)"

lemma cost_summary_new_ident: "cost_summary_ok c \<Longrightarrow> cost_summary_new c = Inr c"
  by (auto simp: cost_summary_ok_def cost_summary_new_def snapshot_option_ident split: option.splits)

lemma cost_summary_redacted_ok [wf_intros]: "cost_summary_ok c \<Longrightarrow> cost_summary_ok (cost_summary_redacted c)"
  by (auto simp: cost_summary_ok_def cost_summary_redacted_def cost_amount_redaction_ok
      split: option.splits)

section \<open>Reset credits\<close>

datatype reset_credit_status = Available | Redeeming | Redeemed | Expired | UnknownStatus str

datatype reset_status_error =
    StatusSurroundingWhitespace | StatusReserved str | StatusInvalidText bounded_text_error

definition reserved_statuses :: "str list" where
  "reserved_statuses = [lit ''available'', lit ''redeeming'', lit ''redeemed'', lit ''expired'']"

definition unknown_status_new :: "str \<Rightarrow> (str, reset_status_error) result" where
  "unknown_status_new v =
     (if v \<noteq> trim v then Inl StatusSurroundingWhitespace
      else if v \<in> set reserved_statuses then Inl (StatusReserved v)
      else map_err StatusInvalidText (bounded_text_new 32 v))"

fun reset_status_serialize :: "reset_credit_status \<Rightarrow> str" where
  "reset_status_serialize Available = lit ''available''"
| "reset_status_serialize Redeeming = lit ''redeeming''"
| "reset_status_serialize Redeemed = lit ''redeemed''"
| "reset_status_serialize Expired = lit ''expired''"
| "reset_status_serialize (UnknownStatus v) = v"

definition reset_status_deserialize :: "str \<Rightarrow> (reset_credit_status, reset_status_error) result" where
  "reset_status_deserialize v =
     (if v \<noteq> trim v then Inl StatusSurroundingWhitespace
      else if v = lit ''available'' then Inr Available
      else if v = lit ''redeeming'' then Inr Redeeming
      else if v = lit ''redeemed'' then Inr Redeemed
      else if v = lit ''expired'' then Inr Expired
      else map_ok UnknownStatus (unknown_status_new v))"

fun reset_status_redacted :: "reset_credit_status \<Rightarrow> reset_credit_status" where
  "reset_status_redacted (UnknownStatus _) = UnknownStatus (lit ''unknown'')"
| "reset_status_redacted s = s"

record reset_credit =
  rc_scope :: account_scope
  rc_id :: str
  rc_reset_type :: str
  rc_status :: reset_credit_status
  rc_granted_at :: timestamp
  rc_expires_at :: "timestamp option"
  rc_redeem_started_at :: "timestamp option"
  rc_redeemed_at :: "timestamp option"
  rc_title :: "str option"
  rc_description :: "str option"

definition reset_timeline_invalid :: "reset_credit \<Rightarrow> bool" where
  "reset_timeline_invalid a \<longleftrightarrow>
     is_some_and (\<lambda>v. v \<le> rc_granted_at a) (rc_expires_at a) \<or>
     is_some_and (\<lambda>v. v < rc_granted_at a) (rc_redeem_started_at a) \<or>
     is_some_and (\<lambda>v. v < (case rc_redeem_started_at a of None \<Rightarrow> rc_granted_at a | Some t \<Rightarrow> t))
       (rc_redeemed_at a) \<or>
     is_some_and (\<lambda>expiry. is_some_and (\<lambda>started. started \<ge> expiry) (rc_redeem_started_at a) \<or>
       is_some_and (\<lambda>redeemed. redeemed > expiry) (rc_redeemed_at a)) (rc_expires_at a)"

definition reset_status_consistent :: "reset_credit \<Rightarrow> bool" where
  "reset_status_consistent a =
     (case rc_status a of
       Available \<Rightarrow> rc_redeem_started_at a = None \<and> rc_redeemed_at a = None
     | Redeeming \<Rightarrow> rc_redeem_started_at a \<noteq> None \<and> rc_redeemed_at a = None
     | Redeemed \<Rightarrow> rc_redeem_started_at a \<noteq> None \<and> rc_redeemed_at a \<noteq> None
     | Expired \<Rightarrow> rc_redeemed_at a = None
     | UnknownStatus _ \<Rightarrow> True)"

definition reset_credit_from_parts :: "reset_credit \<Rightarrow> (reset_credit, snapshot_error) result" where
  "reset_credit_from_parts a =
     (if reset_timeline_invalid a then Inl InvalidResetCreditTimeline
      else if \<not> reset_status_consistent a then Inl InvalidResetCreditState
      else
        and_then (snapshot_text 64 (rc_reset_type a)) (\<lambda>reset_type.
        and_then (try_option (snapshot_text 120) (rc_title a)) (\<lambda>title.
        and_then (try_option (snapshot_text 120) (rc_description a)) (\<lambda>description.
        Inr (a\<lparr>rc_reset_type := reset_type, rc_title := title, rc_description := description\<rparr>)))))"

text \<open>A provider credit takes its identifier from the keyed digest of the provider's own one.\<close>

definition reset_credit_from_provider ::
    "hmac_fn \<Rightarrow> nat list \<Rightarrow> str \<Rightarrow> reset_credit \<Rightarrow> (reset_credit, snapshot_error) result" where
  "reset_credit_from_provider hmac privacy_key raw_provider_id a =
     and_then (snapshot_text 512 raw_provider_id) (\<lambda>raw_provider_id.
     reset_credit_from_parts (a\<lparr>rc_id :=
       opaque_record_id_derive hmac privacy_key (rc_scope a) ResetCreditKind [as_bytes raw_provider_id]\<rparr>))"

definition reset_is_available_at :: "reset_credit \<Rightarrow> timestamp \<Rightarrow> bool" where
  "reset_is_available_at c now \<longleftrightarrow>
     rc_status c = Available \<and> is_none_or (\<lambda>expires_at. expires_at > now) (rc_expires_at c)"

definition reset_sort_key :: "reset_credit \<Rightarrow> bool \<times> timestamp option \<times> str" where
  "reset_sort_key c = (rc_expires_at c = None, rc_expires_at c, rc_id c)"

definition reset_credit_redacted ::
    "hmac_fn \<Rightarrow> reset_credit \<Rightarrow> account_scope \<Rightarrow> nat \<Rightarrow> reset_credit" where
  "reset_credit_redacted hmac c s ordinal =
     c\<lparr>rc_scope := s, rc_id := opaque_record_id_public_ordinal hmac ResetCreditKind ordinal,
       rc_reset_type := lit ''reset'', rc_status := reset_status_redacted (rc_status c),
       rc_title := None, rc_description := None\<rparr>"

record reset_credits_snapshot =
  rs_scope :: account_scope
  rs_credits :: "reset_credit list"
  rs_reported_available_count :: nat
  rs_updated_at :: timestamp

definition reset_credits_new ::
    "account_scope \<Rightarrow> reset_credit list \<Rightarrow> nat \<Rightarrow> timestamp \<Rightarrow>
     (reset_credits_snapshot, snapshot_error) result" where
  "reset_credits_new s credits reported updated_at =
     and_then (snapshot_check_limit ''reset credits'' (length credits) MAX_RESET_CREDITS) (\<lambda>_.
     if reported > MAX_REPORTED_AVAILABLE_RESET_CREDITS then Inl ReportedResetCreditCountTooLarge
     else if list_ex (\<lambda>c. rc_scope c \<noteq> s) credits then Inl ScopeMismatch
     else if \<not> all_new {} (map rc_id credits) then Inl (Duplicate ''reset credit id'')
     else Inr \<lparr>rs_scope = s, rs_credits = sort_key reset_sort_key credits,
               rs_reported_available_count = reported, rs_updated_at = updated_at\<rparr>)"

definition available_credits_at :: "reset_credits_snapshot \<Rightarrow> timestamp \<Rightarrow> reset_credit list" where
  "available_credits_at r now = filter (\<lambda>c. reset_is_available_at c now) (rs_credits r)"

definition reported_count_matches :: "reset_credits_snapshot \<Rightarrow> timestamp \<Rightarrow> bool" where
  "reported_count_matches r now \<longleftrightarrow>
     rs_reported_available_count r = length (available_credits_at r now)"

definition reset_credits_redacted ::
    "hmac_fn \<Rightarrow> reset_credits_snapshot \<Rightarrow> account_scope \<Rightarrow> reset_credits_snapshot" where
  "reset_credits_redacted hmac r s =
     \<lparr>rs_scope = s,
      rs_credits = enumerate_map (\<lambda>c ordinal. reset_credit_redacted hmac c s ordinal) (rs_credits r),
      rs_reported_available_count = rs_reported_available_count r, rs_updated_at = rs_updated_at r\<rparr>"

section \<open>Extensions and identity\<close>

datatype provider_extension_kind =
    OpenAiApiUsage | MistralUsage | OpenCodeGoUsage | DeepSeekUsage | CommandCodeMarkers

fun extension_rank :: "provider_extension_kind \<Rightarrow> nat" where
  "extension_rank OpenAiApiUsage = 0"
| "extension_rank MistralUsage = 1"
| "extension_rank OpenCodeGoUsage = 2"
| "extension_rank DeepSeekUsage = 3"
| "extension_rank CommandCodeMarkers = 4"

lemma extension_rank_inject [simp]: "extension_rank j = extension_rank k \<longleftrightarrow> j = k"
  by (cases j; cases k) simp_all

datatype extension_value =
    ExtText str | ExtDecimal exact_decimal | ExtBoolean bool | ExtTimestamp timestamp

record extension_fact =
  ef_key :: str
  ef_label :: str
  ef_value :: extension_value
  ef_sensitivity :: detail_sensitivity

definition extension_fact_new ::
    "str \<Rightarrow> str \<Rightarrow> extension_value \<Rightarrow> detail_sensitivity \<Rightarrow> (extension_fact, snapshot_error) result" where
  "extension_fact_new key label value sensitivity =
     and_then (snapshot_text 64 key) (\<lambda>key.
     and_then (snapshot_text 120 label) (\<lambda>label.
     Inr \<lparr>ef_key = key, ef_label = label, ef_value = value, ef_sensitivity = sensitivity\<rparr>))"

record provider_extension =
  ex_kind :: provider_extension_kind
  ex_facts :: "extension_fact list"
  ex_sections :: "detail_section list"

definition provider_extension_new ::
    "provider_extension_kind \<Rightarrow> extension_fact list \<Rightarrow> detail_section list \<Rightarrow>
     (provider_extension, snapshot_error) result" where
  "provider_extension_new kind facts sections =
     and_then (snapshot_check_limit ''extension facts'' (length facts) 64) (\<lambda>_.
     and_then (snapshot_check_limit ''extension sections'' (length sections) MAX_DETAIL_SECTIONS) (\<lambda>_.
     let facts = sort_key ef_key facts in
     and_then (snapshot_ensure_unique (map ef_key facts) ''extension fact key'') (\<lambda>_.
     Inr \<lparr>ex_kind = kind, ex_facts = facts, ex_sections = sections\<rparr>)))"

record identity_snapshot =
  id_scope :: account_scope
  id_provider_account_id :: "str option"
  id_email :: "str option"
  id_organization :: "str option"
  id_account_label :: "str option"
  id_plan :: "str option"
  id_login_method :: "str option"

definition identity_redacted_for_scope :: "account_scope \<Rightarrow> identity_snapshot" where
  "identity_redacted_for_scope s =
     \<lparr>id_scope = s, id_provider_account_id = None, id_email = None, id_organization = None,
      id_account_label = None, id_plan = None, id_login_method = None\<rparr>"

section \<open>Reset-credit lemmas\<close>

fun reset_status_ok :: "reset_credit_status \<Rightarrow> bool" where
  "reset_status_ok (UnknownStatus v) \<longleftrightarrow> bounded_text_ok 32 v \<and> v \<notin> set reserved_statuses"
| "reset_status_ok _ = True"

lemma reserved_trim: "v \<in> set reserved_statuses \<Longrightarrow> trim v = v"
  by (auto simp: reserved_statuses_def trim_fixed_iff) (simp_all add: lit_def is_whitespace_def)

lemma unknown_status_new_Inr:
  "unknown_status_new v = Inr w \<longleftrightarrow> bounded_text_ok 32 v \<and> v \<notin> set reserved_statuses \<and> w = v"
proof (cases "v = trim v \<and> v \<notin> set reserved_statuses")
  case True
  then show ?thesis
    by (auto simp: unknown_status_new_def result_simps bounded_text_new_ident dest: bounded_text_new_ok)
next
  case False
  then show ?thesis by (auto simp: unknown_status_new_def bounded_text_ok_def split: if_splits)
qed

lemma reset_status_deserialize_Inr:
  "reset_status_deserialize v = Inr s \<longleftrightarrow> reset_status_ok s \<and> v = reset_status_serialize s"
proof (cases "v \<in> set reserved_statuses")
  case True
  then have t: "trim v = v" by (rule reserved_trim)
  from True consider "v = lit ''available''" | "v = lit ''redeeming''" | "v = lit ''redeemed''"
    | "v = lit ''expired''" by (auto simp: reserved_statuses_def)
  then show ?thesis using t
    by cases (cases s; auto simp: reset_status_deserialize_def reserved_statuses_def)+
next
  case False
  then show ?thesis
    by (cases s) (auto simp: reset_status_deserialize_def reserved_statuses_def result_simps
        unknown_status_new_Inr bounded_text_ok_def)
qed

definition reset_credit_ok :: "reset_credit \<Rightarrow> bool" where
  "reset_credit_ok c \<longleftrightarrow>
     \<not> reset_timeline_invalid c \<and> reset_status_consistent c \<and> reset_status_ok (rc_status c) \<and>
     bounded_text_ok 64 (rc_reset_type c) \<and> is_none_or (bounded_text_ok 120) (rc_title c) \<and>
     is_none_or (bounded_text_ok 120) (rc_description c)"

lemma reset_credit_from_parts_ident: "reset_credit_ok c \<Longrightarrow> reset_credit_from_parts c = Inr c"
  by (simp add: reset_credit_ok_def reset_credit_from_parts_def snapshot_text_ident
      snapshot_option_ident)

lemma reset_credit_redacted_ok [wf_intros]:
  assumes "reset_credit_ok c"
  shows "reset_credit_ok (reset_credit_redacted hmac c s k)"
proof -
  have texts: "bounded_text_ok 64 (lit ''reset'')" "bounded_text_ok 32 (lit ''unknown'')"
    by (rule bounded_text_lit; simp add: lit_def)+
  have "reset_timeline_invalid (reset_credit_redacted hmac c s k) = reset_timeline_invalid c"
    by (cases "rc_redeem_started_at c") (simp_all add: reset_timeline_invalid_def reset_credit_redacted_def)
  moreover have "reset_status_consistent (reset_credit_redacted hmac c s k) = reset_status_consistent c"
    by (cases "rc_status c") (simp_all add: reset_status_consistent_def reset_credit_redacted_def)
  moreover have "reset_status_ok (rc_status (reset_credit_redacted hmac c s k))"
    using texts by (cases "rc_status c") (simp_all add: reset_credit_redacted_def reserved_statuses_def)
  ultimately show ?thesis using assms texts
    by (simp add: reset_credit_ok_def reset_credit_redacted_def)
qed

text \<open>
  the life cycle of a reset credit that was accepted is coherent: it is granted before it
  expires, redemption starts no earlier than the grant and strictly before the expiry, completes no
  earlier than it started and no later than the expiry; an available credit has not been touched,
  a redeeming one has started only, a redeemed one has started and finished, an expired one never
  finished; and nothing else is required of the times.
\<close>

theorem reset_credit_lifecycle:
  "(\<exists>c. reset_credit_from_parts a = Inr c) \<longleftrightarrow>
     is_none_or (\<lambda>e. rc_granted_at a < e) (rc_expires_at a) \<and>
     is_none_or (\<lambda>s. rc_granted_at a \<le> s \<and> is_none_or (\<lambda>e. s < e) (rc_expires_at a)) (rc_redeem_started_at a) \<and>
     is_none_or (\<lambda>r. (case rc_redeem_started_at a of None \<Rightarrow> rc_granted_at a \<le> r | Some s \<Rightarrow> s \<le> r) \<and>
       is_none_or (\<lambda>e. r \<le> e) (rc_expires_at a)) (rc_redeemed_at a) \<and>
     (rc_status a = Available \<longrightarrow> rc_redeem_started_at a = None \<and> rc_redeemed_at a = None) \<and>
     (rc_status a = Redeeming \<longrightarrow> rc_redeem_started_at a \<noteq> None \<and> rc_redeemed_at a = None) \<and>
     (rc_status a = Redeemed \<longrightarrow> rc_redeem_started_at a \<noteq> None \<and> rc_redeemed_at a \<noteq> None) \<and>
     (rc_status a = Expired \<longrightarrow> rc_redeemed_at a = None) \<and>
     (\<exists>t. bounded_text_new 64 (rc_reset_type a) = Inr t) \<and>
     is_none_or (\<lambda>v. \<exists>t. bounded_text_new 120 v = Inr t) (rc_title a) \<and>
     is_none_or (\<lambda>v. \<exists>t. bounded_text_new 120 v = Inr t) (rc_description a)"
proof -
  have timeline: "\<not> reset_timeline_invalid a \<longleftrightarrow>
     is_none_or (\<lambda>e. rc_granted_at a < e) (rc_expires_at a) \<and>
     is_none_or (\<lambda>s. rc_granted_at a \<le> s \<and> is_none_or (\<lambda>e. s < e) (rc_expires_at a)) (rc_redeem_started_at a) \<and>
     is_none_or (\<lambda>r. (case rc_redeem_started_at a of None \<Rightarrow> rc_granted_at a \<le> r | Some s \<Rightarrow> s \<le> r) \<and>
       is_none_or (\<lambda>e. r \<le> e) (rc_expires_at a)) (rc_redeemed_at a)"
    by (cases "rc_expires_at a"; cases "rc_redeem_started_at a"; cases "rc_redeemed_at a")
      (auto simp: reset_timeline_invalid_def)
  have texts: "(\<exists>c. reset_credit_from_parts a = Inr c) \<longleftrightarrow>
     \<not> reset_timeline_invalid a \<and> reset_status_consistent a \<and>
     (\<exists>t. bounded_text_new 64 (rc_reset_type a) = Inr t) \<and>
     is_none_or (\<lambda>v. \<exists>t. bounded_text_new 120 v = Inr t) (rc_title a) \<and>
     is_none_or (\<lambda>v. \<exists>t. bounded_text_new 120 v = Inr t) (rc_description a)"
    by (cases "rc_title a"; cases "rc_description a")
      (auto simp: reset_credit_from_parts_def result_simps)
  show ?thesis unfolding texts timeline
    by (cases "rc_status a") (simp_all add: reset_status_consistent_def)
qed

theorem reset_credit_lifecycle_witness:
  "let a = \<lparr>rc_scope = AccountScope Codex (lit ''default'') (lit ''me''), rc_id = lit ''x'',
            rc_reset_type = lit ''weekly'', rc_status = Redeemed, rc_granted_at = 10,
            rc_expires_at = Some 40, rc_redeem_started_at = Some 20, rc_redeemed_at = Some 40,
            rc_title = None, rc_description = None\<rparr>
   in \<exists>c. reset_credit_from_parts a = Inr c"
proof -
  have "bounded_text_new 64 (lit ''weekly'') = Inr (lit ''weekly'')"
    by (rule bounded_text_new_ident, rule bounded_text_lit) (simp_all add: lit_def)
  then show ?thesis unfolding Let_def reset_credit_lifecycle by simp
qed

definition expires_no_later :: "reset_credit \<Rightarrow> reset_credit \<Rightarrow> bool" where
  "expires_no_later x y =
     (case (rc_expires_at x, rc_expires_at y) of
       (Some a, Some b) \<Rightarrow> a \<le> b | (None, Some _) \<Rightarrow> False | _ \<Rightarrow> True)"

lemma reset_key_order: "reset_sort_key x \<le> reset_sort_key y \<Longrightarrow> expires_no_later x y"
  by (cases "rc_expires_at x"; cases "rc_expires_at y")
    (auto simp: reset_sort_key_def expires_no_later_def)

lemma reset_credits_new_Inr:
  "reset_credits_new s cs n t = Inr r \<longleftrightarrow>
     length cs \<le> MAX_RESET_CREDITS \<and> n \<le> MAX_REPORTED_AVAILABLE_RESET_CREDITS \<and>
     (\<forall>c\<in>set cs. rc_scope c = s) \<and> distinct (map rc_id cs) \<and>
     r = \<lparr>rs_scope = s, rs_credits = sort_key reset_sort_key cs, rs_reported_available_count = n,
          rs_updated_at = t\<rparr>"
  by (auto simp: reset_credits_new_def result_simps list_ex_iff split: if_splits)

text \<open>
  The credits an inventory offers at a given time are exactly the available, unexpired ones it
  was given, soonest expiry first and never-expiring ones last, so the first offered credit is the
  one that would lapse first.
\<close>

theorem available_credits_soonest_first:
  assumes "reset_credits_new s cs n t = Inr r"
  shows "set (available_credits_at r now) =
      {c \<in> set cs. rc_status c = Available \<and> is_none_or (\<lambda>e. now < e) (rc_expires_at c)} \<and>
    sorted_wrt expires_no_later (available_credits_at r now)"
proof
  have r: "rs_credits r = sort_key reset_sort_key cs" using assms by (auto simp: reset_credits_new_Inr)
  then show "set (available_credits_at r now) =
      {c \<in> set cs. rc_status c = Available \<and> is_none_or (\<lambda>e. now < e) (rc_expires_at c)}"
    by (auto simp: available_credits_at_def reset_is_available_at_def)
  have "sorted_wrt (\<lambda>x y. reset_sort_key x \<le> reset_sort_key y) (available_credits_at r now)"
    unfolding available_credits_at_def r
    by (intro sorted_wrt_filter, rule sorted_map [THEN iffD1], rule sorted_sort_key)
  then show "sorted_wrt expires_no_later (available_credits_at r now)"
    by (rule sorted_wrt_mono_rel [rotated]) (rule reset_key_order)
qed

theorem available_credits_soonest_first_witness:
  "let s = AccountScope Codex (lit ''default'') (lit ''me'');
       c = \<lambda>i e. \<lparr>rc_scope = s, rc_id = [i], rc_reset_type = lit ''weekly'', rc_status = Available,
            rc_granted_at = 1, rc_expires_at = e, rc_redeem_started_at = None, rc_redeemed_at = None,
            rc_title = None, rc_description = None\<rparr>
   in \<exists>r. reset_credits_new s [c 1 None, c 2 (Some 50), c 3 (Some 5)] 2 7 = Inr r \<and>
        set (available_credits_at r 10) = {c 1 None, c 2 (Some 50)}"
proof -
  let ?s = "AccountScope Codex (lit ''default'') (lit ''me'')"
  let ?c = "\<lambda>i e. \<lparr>rc_scope = ?s, rc_id = [i], rc_reset_type = lit ''weekly'', rc_status = Available,
            rc_granted_at = 1, rc_expires_at = e, rc_redeem_started_at = None, rc_redeemed_at = None,
            rc_title = None, rc_description = None\<rparr>"
  let ?cs = "[?c 1 None, ?c 2 (Some 50), ?c 3 (Some 5)]"
  obtain r where r: "reset_credits_new ?s ?cs 2 7 = Inr r"
    by (simp add: reset_credits_new_Inr limit_defs)
  from conjunct1 [OF available_credits_soonest_first [OF r, of 10]]
  have "set (available_credits_at r 10) = set (filter (\<lambda>c. rc_status c = Available \<and>
      is_none_or (\<lambda>e. 10 < e) (rc_expires_at c)) ?cs)" by (simp only: set_filter)
  then have "set (available_credits_at r 10) = {?c 1 None, ?c 2 (Some 50)}" by simp
  with r show ?thesis unfolding Let_def by blast
qed

end
