(* ===== verification/Classified_Error.thy ===== *)
theory Classified_Error
  imports Domain_Values
begin

text \<open>
  Classified provider errors (\<open>crates/domain/src/error.rs\<close>): code, message, retry eligibility and
  authentication action are functions of the error kind; a retry delay may be attached to
  automatically retryable kinds only.
\<close>

datatype error_kind =
    MissingCredential | AuthenticationExpired | PermissionDenied | RateLimited
  | ProviderUnavailable | Network | Parse | Api

datatype retry_eligibility = Automatic | ManualRetry | NeverRetry

datatype auth_implication = NoAuthAction | ConfigureCredential | Reauthenticate | AuthPermissionDenied

record classified_error =
  ce_kind :: error_kind
  ce_code :: str
  ce_message :: str
  ce_retry :: retry_eligibility
  ce_auth_implication :: auth_implication
  ce_retry_after :: "nat option"

definition MAX_ERROR_CODE_BYTES :: nat where [limit_defs]: "MAX_ERROR_CODE_BYTES = 128"
definition MAX_ERROR_MESSAGE_BYTES :: nat where [limit_defs]: "MAX_ERROR_MESSAGE_BYTES = 512"

fun error_semantics :: "error_kind \<Rightarrow> retry_eligibility \<times> auth_implication" where
  "error_semantics MissingCredential = (ManualRetry, ConfigureCredential)"
| "error_semantics AuthenticationExpired = (ManualRetry, Reauthenticate)"
| "error_semantics PermissionDenied = (ManualRetry, AuthPermissionDenied)"
| "error_semantics RateLimited = (Automatic, NoAuthAction)"
| "error_semantics ProviderUnavailable = (Automatic, NoAuthAction)"
| "error_semantics Network = (Automatic, NoAuthAction)"
| "error_semantics Api = (Automatic, NoAuthAction)"
| "error_semantics Parse = (NeverRetry, NoAuthAction)"

fun public_message :: "error_kind \<Rightarrow> str" where
  "public_message MissingCredential = lit ''Configure credentials for this provider.''"
| "public_message AuthenticationExpired = lit ''Sign in again to continue.''"
| "public_message PermissionDenied = lit ''This account does not have permission for this provider.''"
| "public_message RateLimited = lit ''The provider asked us to slow down.''"
| "public_message ProviderUnavailable = lit ''The provider is currently unavailable.''"
| "public_message Network = lit ''The provider could not be reached.''"
| "public_message Parse = lit ''The provider returned an unsupported response.''"
| "public_message Api = lit ''The provider returned an unexpected response.''"

fun public_code :: "error_kind \<Rightarrow> str" where
  "public_code MissingCredential = lit ''auth.missing''"
| "public_code AuthenticationExpired = lit ''auth.expired''"
| "public_code PermissionDenied = lit ''auth.permission_denied''"
| "public_code RateLimited = lit ''provider.rate_limited''"
| "public_code ProviderUnavailable = lit ''provider.unavailable''"
| "public_code Network = lit ''provider.network''"
| "public_code Parse = lit ''provider.parse''"
| "public_code Api = lit ''provider.api''"

text \<open>
  The fixed texts are passed through the bounded-text constructor, which is expected to accept
  them; \<open>public_code_bounded\<close> and \<open>public_message_bounded\<close> below show that it does, and it returns an accepted trimmed text unchanged, so the stored
  texts are the fixed ones and the expectation never panics.
\<close>

definition classified_error_from_kind :: "error_kind \<Rightarrow> nat option \<Rightarrow> classified_error" where
  "classified_error_from_kind kind retry_after =
     \<lparr>ce_kind = kind, ce_code = public_code kind, ce_message = public_message kind,
      ce_retry = fst (error_semantics kind), ce_auth_implication = snd (error_semantics kind),
      ce_retry_after = retry_after\<rparr>"

definition classified_error_new :: "error_kind \<Rightarrow> classified_error" where
  "classified_error_new kind = classified_error_from_kind kind None"

datatype classified_error_validation_error = RetryAfterNotAutomatic error_kind

definition with_retry_after ::
    "classified_error \<Rightarrow> nat \<Rightarrow> (classified_error, classified_error_validation_error) result" where
  "with_retry_after e d =
     (if ce_retry e \<noteq> Automatic then Inl (RetryAfterNotAutomatic (ce_kind e))
      else Inr (e\<lparr>ce_retry_after := Some d\<rparr>))"

definition error_public_projection :: "classified_error \<Rightarrow> classified_error" where
  "error_public_projection e = e"

text \<open>
  Decoding receives the six wire fields and rebuilds the error from its kind, rejecting a wire
  value whose derived fields disagree. The wire record has the same fields as the error.
\<close>

datatype decode_error = DerivedFieldsMismatch | RetryAfterOnNonAutomatic

definition classified_error_decode :: "classified_error \<Rightarrow> (classified_error, decode_error) result" where
  "classified_error_decode wire =
     (let decoded = classified_error_from_kind (ce_kind wire) (ce_retry_after wire) in
      if ce_code decoded \<noteq> ce_code wire \<or> ce_message decoded \<noteq> ce_message wire \<or>
         ce_retry decoded \<noteq> ce_retry wire \<or> ce_auth_implication decoded \<noteq> ce_auth_implication wire
      then Inl DerivedFieldsMismatch
      else if ce_retry_after decoded \<noteq> None \<and> ce_retry decoded \<noteq> Automatic
      then Inl RetryAfterOnNonAutomatic
      else Inr decoded)"

definition classified_error_ok :: "classified_error \<Rightarrow> bool" where
  "classified_error_ok e \<longleftrightarrow>
     e = classified_error_from_kind (ce_kind e) (ce_retry_after e) \<and>
     (ce_retry_after e \<noteq> None \<longrightarrow> ce_retry e = Automatic)"

lemma public_code_bounded: "bounded_text_ok MAX_ERROR_CODE_BYTES (public_code k)"
  by (cases k; simp only: public_code.simps; rule bounded_text_lit;
      simp add: lit_def MAX_ERROR_CODE_BYTES_def)

lemma public_message_bounded: "bounded_text_ok MAX_ERROR_MESSAGE_BYTES (public_message k)"
  by (cases k; simp only: public_message.simps; rule bounded_text_lit;
      simp add: lit_def MAX_ERROR_MESSAGE_BYTES_def)

lemma from_kind_simps [simp]:
  "ce_kind (classified_error_from_kind k r) = k"
  "ce_retry (classified_error_from_kind k r) = fst (error_semantics k)"
  "ce_retry_after (classified_error_from_kind k r) = r"
  by (simp_all add: classified_error_from_kind_def)

lemma classified_error_new_simps [simp]:
  "ce_kind (classified_error_new k) = k"
  "ce_retry (classified_error_new k) = fst (error_semantics k)"
  "ce_retry_after (classified_error_new k) = None"
  by (simp_all add: classified_error_new_def)

lemma classified_error_new_ok [wf_intros]: "classified_error_ok (classified_error_new k)"
  by (simp add: classified_error_ok_def classified_error_new_def)

lemma with_retry_after_ok:
  "classified_error_ok e \<Longrightarrow> with_retry_after e d = Inr e' \<Longrightarrow> classified_error_ok e'"
  by (cases e) (auto simp: with_retry_after_def classified_error_ok_def classified_error_from_kind_def
      split: if_splits)

lemma ce_retry_kind: "classified_error_ok e \<Longrightarrow> ce_retry e = fst (error_semantics (ce_kind e))"
  by (metis classified_error_ok_def from_kind_simps(2))

text \<open>
  Decoding accepts exactly the well-formed errors and returns them unchanged, so an encoded
  error decodes to itself and no payload can claim recovery semantics, code or message that differ
  from those of its kind, or a retry delay for a kind that is not retried automatically. The fixed
  texts of every kind pass the bounded-text contract.
\<close>

theorem classified_error_decode_exact:
  "(classified_error_decode w = Inr e \<longleftrightarrow> classified_error_ok w \<and> e = w) \<and>
   bounded_text_ok MAX_ERROR_CODE_BYTES (public_code k) \<and>
   bounded_text_ok MAX_ERROR_MESSAGE_BYTES (public_message k)"
proof (intro conjI)
  show "classified_error_decode w = Inr e \<longleftrightarrow> classified_error_ok w \<and> e = w"
    by (cases w) (auto simp: classified_error_decode_def classified_error_ok_def
        classified_error_from_kind_def Let_def)
qed (simp_all add: public_code_bounded public_message_bounded)

end
