(* ===== verification/Snapshot.thy ===== *)
theory Snapshot
  imports Sample_Details Classified_Error
begin

text \<open>
  Usage samples, provider snapshots and the versioned envelope (\<open>crates/domain/src/snapshot.rs\<close>),
  and the policy that decides which surface receives which view (\<open>privacy.rs\<close>).
\<close>

section \<open>Usage samples\<close>

record usage_sample =
  us_scope :: account_scope
  us_identity :: identity_snapshot
  us_fetched_at :: timestamp
  us_primary :: "rate_window option"
  us_secondary :: "rate_window option"
  us_tertiary :: "rate_window option"
  us_extra_windows :: "named_rate_window list"
  us_credits :: "credits_snapshot option"
  us_balance :: "money option"
  us_cost :: "cost_summary option"
  us_cost_usage :: "cost_usage option"
  us_subscription_renews_at :: "timestamp option"
  us_subscription_expires_at :: "timestamp option"
  us_reset_credits :: "reset_credits_snapshot option"
  us_detail_sections :: "detail_section list"
  us_extensions :: "provider_extension list"
  us_chart_points :: "chart_point list"
  us_provenance :: "provenance list"
  us_confidence :: data_confidence
  us_status :: provider_status

abbreviation extension_key :: "provider_extension \<Rightarrow> nat" where
  "extension_key e \<equiv> extension_rank (ex_kind e)"

text \<open>
  The nineteen arguments are the fields of the record; the cost history is not an argument and
  starts absent.
\<close>

definition usage_sample_new :: "usage_sample \<Rightarrow> (usage_sample, snapshot_error) result" where
  "usage_sample_new a =
     (if id_scope (us_identity a) \<noteq> us_scope a \<or>
         is_some_and (\<lambda>c. cs_scope c \<noteq> us_scope a) (us_credits a) \<or>
         is_some_and (\<lambda>i. rs_scope i \<noteq> us_scope a) (us_reset_credits a)
      then Inl ScopeMismatch
      else
        and_then (snapshot_check_limit ''extra windows'' (length (us_extra_windows a)) MAX_EXTRA_WINDOWS) (\<lambda>_.
        and_then (snapshot_check_limit ''detail sections'' (length (us_detail_sections a)) MAX_DETAIL_SECTIONS) (\<lambda>_.
        and_then (snapshot_check_limit ''chart points'' (length (us_chart_points a)) MAX_CHART_POINTS) (\<lambda>_.
        and_then (snapshot_check_limit ''provenance'' (length (us_provenance a)) MAX_PROVENANCE_ENTRIES) (\<lambda>_.
        and_then (snapshot_check_limit ''provider extensions'' (length (us_extensions a)) MAX_PROVIDER_EXTENSIONS) (\<lambda>_.
        let extra_windows = sort_key nw_id (us_extra_windows a) in
        and_then (snapshot_ensure_unique (map nw_id extra_windows) ''extra window id'') (\<lambda>_.
        let extensions = sort_key extension_key (us_extensions a) in
        if adjacent_equal ex_kind extensions then Inl (Duplicate ''provider extension kind'')
        else
        let chart_points = sort_key cp_at (us_chart_points a) in
        if adjacent_equal cp_at chart_points then Inl (Duplicate ''chart timestamp'')
        else Inr (a\<lparr>us_extra_windows := extra_windows, us_cost_usage := None,
                    us_extensions := extensions, us_chart_points := chart_points\<rparr>))))))))"

definition without_cost_usage :: "usage_sample \<Rightarrow> usage_sample" where
  "without_cost_usage s = s\<lparr>us_cost_usage := None\<rparr>"

definition with_cost_usage :: "usage_sample \<Rightarrow> cost_usage \<Rightarrow> usage_sample" where
  "with_cost_usage s u = s\<lparr>us_cost_usage := Some u\<rparr>"

definition with_reset_credits ::
    "usage_sample \<Rightarrow> reset_credits_snapshot \<Rightarrow> (usage_sample, snapshot_error) result" where
  "with_reset_credits s inventory =
     (if rs_scope inventory \<noteq> us_scope s then Inl ScopeMismatch
      else Inr (s\<lparr>us_reset_credits := Some inventory\<rparr>))"

definition available_reset_credits :: "usage_sample \<Rightarrow> timestamp \<Rightarrow> reset_credit list" where
  "available_reset_credits s now =
     (case us_reset_credits s of None \<Rightarrow> [] | Some i \<Rightarrow> available_credits_at i now)"

definition usage_sample_deserialize :: "usage_sample \<Rightarrow> (usage_sample, snapshot_error) result" where
  "usage_sample_deserialize r =
     map_ok (\<lambda>sample. case us_cost_usage r of Some u \<Rightarrow> with_cost_usage sample u | None \<Rightarrow> sample)
       (usage_sample_new r)"

definition backfilling_reset_times ::
    "usage_sample \<Rightarrow> usage_sample \<Rightarrow> timestamp \<Rightarrow> (usage_sample, snapshot_error) result" where
  "backfilling_reset_times s cached now =
     (if us_scope s \<noteq> us_scope cached then Inl ScopeMismatch
      else Inr (s\<lparr>
        us_primary := map_option (\<lambda>w. backfilling_reset_time w (us_primary cached) now) (us_primary s),
        us_secondary := map_option (\<lambda>w. backfilling_reset_time w (us_secondary cached) now) (us_secondary s),
        us_tertiary := map_option (\<lambda>w. backfilling_reset_time w (us_tertiary cached) now) (us_tertiary s),
        us_extra_windows := map (\<lambda>fresh.
          let cached_window = map_option nw_window
                (find (\<lambda>candidate. nw_id candidate = nw_id fresh) (us_extra_windows cached))
          in named_rate_window_new (nw_id fresh) (nw_title fresh)
               (backfilling_reset_time (nw_window fresh) cached_window now)) (us_extra_windows s)\<rparr>))"

definition usage_sample_redacted :: "hmac_fn \<Rightarrow> usage_sample \<Rightarrow> account_scope \<Rightarrow> usage_sample" where
  "usage_sample_redacted hmac s scope =
     \<lparr>us_scope = scope, us_identity = identity_redacted_for_scope scope,
      us_fetched_at = us_fetched_at s,
      us_primary = map_option window_without_personal_information (us_primary s),
      us_secondary = map_option window_without_personal_information (us_secondary s),
      us_tertiary = map_option window_without_personal_information (us_tertiary s),
      us_extra_windows = named_public_projection (us_extra_windows s),
      us_credits = map_option (\<lambda>c. credits_without_personal_information c scope) (us_credits s),
      us_balance = us_balance s,
      us_cost = map_option cost_summary_redacted (us_cost s),
      us_cost_usage = map_option cost_usage_redacted (us_cost_usage s),
      us_subscription_renews_at = us_subscription_renews_at s,
      us_subscription_expires_at = us_subscription_expires_at s,
      us_reset_credits = map_option (\<lambda>i. reset_credits_redacted hmac i scope) (us_reset_credits s),
      us_detail_sections = [], us_extensions = [], us_chart_points = us_chart_points s,
      us_provenance = [], us_confidence = us_confidence s,
      us_status = status_without_personal_information (us_status s)\<rparr>"

section \<open>Provider snapshots\<close>

datatype local_history_scope = AccountHistory | MachineHistory
datatype local_history_state = Scanning | HistoryReady | HistoryEmpty | HistoryFailed

record local_history_snapshot =
  lh_scope :: local_history_scope
  lh_state :: local_history_state
  lh_data :: "cost_usage option"

record loading_snapshot =
  lo_local_history :: "local_history_snapshot option"
  lo_scope :: account_scope

record ready_snapshot =
  rd_local_history :: "local_history_snapshot option"
  rd_last_known_good :: usage_sample
  rd_freshness :: freshness
  rd_refresh :: refresh_phase
  rd_error :: "classified_error option"

record unavailable_snapshot =
  un_local_history :: "local_history_snapshot option"
  un_scope :: account_scope
  un_error :: classified_error

datatype provider_snapshot =
  Loading loading_snapshot | Ready ready_snapshot | Unavailable unavailable_snapshot

fun snapshot_local_history :: "provider_snapshot \<Rightarrow> local_history_snapshot option" where
  "snapshot_local_history (Loading s) = lo_local_history s"
| "snapshot_local_history (Ready s) = rd_local_history s"
| "snapshot_local_history (Unavailable s) = un_local_history s"

fun with_local_history :: "provider_snapshot \<Rightarrow> local_history_snapshot option \<Rightarrow> provider_snapshot" where
  "with_local_history (Loading s) h = Loading (s\<lparr>lo_local_history := h\<rparr>)"
| "with_local_history (Ready s) h = Ready (s\<lparr>rd_local_history := h\<rparr>)"
| "with_local_history (Unavailable s) h = Unavailable (s\<lparr>un_local_history := h\<rparr>)"

definition snapshot_loading :: "account_scope \<Rightarrow> provider_snapshot" where
  "snapshot_loading scope = Loading \<lparr>lo_local_history = None, lo_scope = scope\<rparr>"

definition snapshot_ready ::
    "usage_sample \<Rightarrow> freshness \<Rightarrow> refresh_phase \<Rightarrow> classified_error option \<Rightarrow>
     (provider_snapshot, snapshot_error) result" where
  "snapshot_ready last_known_good freshness refresh error =
     (if (case freshness of Stale since \<Rightarrow> since < us_fetched_at last_known_good | _ \<Rightarrow> False)
      then Inl StaleBeforeFetch
      else if error \<noteq> None \<and> \<not> (case freshness of Stale _ \<Rightarrow> True | _ \<Rightarrow> False)
      then Inl ErrorRequiresStaleSnapshot
      else Inr (Ready \<lparr>rd_local_history = None, rd_last_known_good = last_known_good,
                       rd_freshness = freshness, rd_refresh = refresh, rd_error = error\<rparr>))"

definition snapshot_unavailable :: "account_scope \<Rightarrow> classified_error \<Rightarrow> provider_snapshot" where
  "snapshot_unavailable scope error =
     Unavailable \<lparr>un_local_history = None, un_scope = scope, un_error = error\<rparr>"

fun snapshot_scope :: "provider_snapshot \<Rightarrow> account_scope" where
  "snapshot_scope (Loading s) = lo_scope s"
| "snapshot_scope (Ready s) = us_scope (rd_last_known_good s)"
| "snapshot_scope (Unavailable s) = un_scope s"

fun snapshot_last_known_good :: "provider_snapshot \<Rightarrow> usage_sample option" where
  "snapshot_last_known_good (Ready s) = Some (rd_last_known_good s)"
| "snapshot_last_known_good _ = None"

fun snapshot_error_of :: "provider_snapshot \<Rightarrow> classified_error option" where
  "snapshot_error_of (Ready s) = rd_error s"
| "snapshot_error_of (Unavailable s) = Some (un_error s)"
| "snapshot_error_of (Loading _) = None"

fun snapshot_freshness :: "provider_snapshot \<Rightarrow> freshness option" where
  "snapshot_freshness (Ready s) = Some (rd_freshness s)"
| "snapshot_freshness _ = None"

fun snapshot_refresh_phase :: "provider_snapshot \<Rightarrow> refresh_phase option" where
  "snapshot_refresh_phase (Ready s) = Some (rd_refresh s)"
| "snapshot_refresh_phase _ = None"

definition with_error_overlay ::
    "provider_snapshot \<Rightarrow> account_scope \<Rightarrow> classified_error \<Rightarrow> timestamp \<Rightarrow>
     (provider_snapshot, snapshot_error) result" where
  "with_error_overlay p scope error stale_since =
     (case p of
       Ready s \<Rightarrow>
         (if us_scope (rd_last_known_good s) \<noteq> scope then Inl ScopeMismatch
          else snapshot_ready (rd_last_known_good s) (Stale stale_since) Idle (Some error))
     | _ \<Rightarrow> Inl NoLastKnownGood)"

definition local_history_redacted :: "local_history_snapshot \<Rightarrow> local_history_snapshot" where
  "local_history_redacted h =
     \<lparr>lh_scope = lh_scope h, lh_state = lh_state h, lh_data = map_option cost_usage_redacted (lh_data h)\<rparr>"

text \<open>\<open>None\<close> is the panic of a failed expectation.\<close>

definition snapshot_redacted :: "hmac_fn \<Rightarrow> nat list \<Rightarrow> provider_snapshot \<Rightarrow> provider_snapshot option" where
  "snapshot_redacted hmac privacy_key p =
     Option.bind (scope_public_projection hmac privacy_key (snapshot_scope p)) (\<lambda>scope.
     Option.bind
       (case p of
         Loading _ \<Rightarrow> Some (snapshot_loading scope)
       | Ready s \<Rightarrow>
           (case snapshot_ready (usage_sample_redacted hmac (rd_last_known_good s) scope)
                   (rd_freshness s) (rd_refresh s) (map_option error_public_projection (rd_error s)) of
             Inr q \<Rightarrow> Some q | Inl _ \<Rightarrow> None)
       | Unavailable s \<Rightarrow> Some (snapshot_unavailable scope (error_public_projection (un_error s))))
       (\<lambda>projected.
         Some (with_local_history projected
           (map_option local_history_redacted (snapshot_local_history p)))))"

definition snapshot_deserialize :: "provider_snapshot \<Rightarrow> (provider_snapshot, snapshot_error) result" where
  "snapshot_deserialize r =
     (case r of
       Loading s \<Rightarrow> Inr (with_local_history (snapshot_loading (lo_scope s)) (lo_local_history s))
     | Ready s \<Rightarrow>
         map_ok (\<lambda>p. with_local_history p (rd_local_history s))
           (snapshot_ready (rd_last_known_good s) (rd_freshness s) (rd_refresh s) (rd_error s))
     | Unavailable s \<Rightarrow>
         Inr (with_local_history (snapshot_unavailable (un_scope s) (un_error s)) (un_local_history s)))"

section \<open>Envelopes\<close>

record snapshot_envelope =
  en_generated_at :: timestamp
  en_snapshots :: "provider_snapshot list"

definition envelope_new ::
    "timestamp \<Rightarrow> provider_snapshot list \<Rightarrow> (snapshot_envelope, snapshot_error) result" where
  "envelope_new generated_at snapshots =
     and_then (snapshot_check_limit ''snapshots'' (length snapshots) MAX_SNAPSHOTS_PER_ENVELOPE) (\<lambda>_.
     let snapshots = sort_key snapshot_scope snapshots in
     if adjacent_equal snapshot_scope snapshots then Inl (Duplicate ''account scope'')
     else Inr \<lparr>en_generated_at = generated_at, en_snapshots = snapshots\<rparr>)"

fun all_some :: "'a option list \<Rightarrow> 'a list option" where
  "all_some [] = Some []"
| "all_some (x # xs) = Option.bind x (\<lambda>y. Option.bind (all_some xs) (\<lambda>ys. Some (y # ys)))"

definition envelope_redacted :: "hmac_fn \<Rightarrow> nat list \<Rightarrow> snapshot_envelope \<Rightarrow> snapshot_envelope option" where
  "envelope_redacted hmac privacy_key e =
     map_option (\<lambda>ss. \<lparr>en_generated_at = en_generated_at e, en_snapshots = ss\<rparr>)
       (all_some (map (snapshot_redacted hmac privacy_key) (en_snapshots e)))"

section \<open>Privacy policy\<close>

datatype privacy_policy = ShowPersonalInfo | HidePersonalInfo

datatype privacy_surface = Ui | Notification | Hook | Cli | Server | Export | Diagnostics | FleetSync

datatype surface_envelope = Trusted snapshot_envelope | Projected snapshot_envelope

fun is_always_public :: "privacy_surface \<Rightarrow> bool" where
  "is_always_public Export = True"
| "is_always_public Diagnostics = True"
| "is_always_public FleetSync = True"
| "is_always_public _ = False"

definition envelope_project ::
    "hmac_fn \<Rightarrow> snapshot_envelope \<Rightarrow> privacy_policy \<Rightarrow> privacy_surface \<Rightarrow> nat list \<Rightarrow>
     surface_envelope option" where
  "envelope_project hmac e policy surface privacy_key =
     (if policy = HidePersonalInfo \<or> is_always_public surface
      then map_option Projected (envelope_redacted hmac privacy_key e)
      else Some (Trusted e))"

fun surface_project ::
    "hmac_fn \<Rightarrow> surface_envelope \<Rightarrow> privacy_policy \<Rightarrow> privacy_surface \<Rightarrow> nat list \<Rightarrow>
     surface_envelope option" where
  "surface_project hmac (Projected e) policy surface privacy_key = Some (Projected e)"
| "surface_project hmac (Trusted e) policy surface privacy_key =
     envelope_project hmac e policy surface privacy_key"

section \<open>Well-formed samples\<close>

text \<open>A sample that reports nothing but its account and fetch time.\<close>

definition minimal_sample :: "account_scope \<Rightarrow> timestamp \<Rightarrow> usage_sample" where
  "minimal_sample scope t =
     \<lparr>us_scope = scope, us_identity = identity_redacted_for_scope scope, us_fetched_at = t,
      us_primary = None, us_secondary = None, us_tertiary = None, us_extra_windows = [],
      us_credits = None, us_balance = None, us_cost = None, us_cost_usage = None,
      us_subscription_renews_at = None, us_subscription_expires_at = None, us_reset_credits = None,
      us_detail_sections = [], us_extensions = [], us_chart_points = [], us_provenance = [],
      us_confidence = Exact,
      us_status = \<lparr>ps_health = Operational, ps_description = None, ps_checked_at = None,
                   ps_incidents = [], ps_components = []\<rparr>\<rparr>"

definition usage_sample_ok :: "usage_sample \<Rightarrow> bool" where
  "usage_sample_ok s \<longleftrightarrow>
     id_scope (us_identity s) = us_scope s \<and>
     is_none_or (\<lambda>c. cs_scope c = us_scope s) (us_credits s) \<and>
     is_none_or (\<lambda>i. rs_scope i = us_scope s) (us_reset_credits s) \<and>
     keyed_unique nw_id MAX_EXTRA_WINDOWS (us_extra_windows s) \<and>
     length (us_detail_sections s) \<le> MAX_DETAIL_SECTIONS \<and>
     keyed_unique cp_at MAX_CHART_POINTS (us_chart_points s) \<and>
     length (us_provenance s) \<le> MAX_PROVENANCE_ENTRIES \<and>
     keyed_unique extension_key MAX_PROVIDER_EXTENSIONS (us_extensions s)"

lemma adjacent_kind: "adjacent_equal ex_kind xs = adjacent_equal extension_key xs"
proof -
  have "adjacent_equal f xs = adjacent_equal extension_key xs" if "f = ex_kind" for f
    using that by (induction f xs rule: adjacent_equal.induct) simp_all
  then show ?thesis by simp
qed

lemma usage_sample_new_Inr:
  "usage_sample_new a = Inr s \<longleftrightarrow>
     id_scope (us_identity a) = us_scope a \<and>
     is_none_or (\<lambda>c. cs_scope c = us_scope a) (us_credits a) \<and>
     is_none_or (\<lambda>i. rs_scope i = us_scope a) (us_reset_credits a) \<and>
     length (us_extra_windows a) \<le> MAX_EXTRA_WINDOWS \<and> distinct (map nw_id (us_extra_windows a)) \<and>
     length (us_detail_sections a) \<le> MAX_DETAIL_SECTIONS \<and>
     length (us_chart_points a) \<le> MAX_CHART_POINTS \<and> distinct (map cp_at (us_chart_points a)) \<and>
     length (us_provenance a) \<le> MAX_PROVENANCE_ENTRIES \<and>
     length (us_extensions a) \<le> MAX_PROVIDER_EXTENSIONS \<and>
     distinct (map extension_key (us_extensions a)) \<and>
     s = a\<lparr>us_extra_windows := sort_key nw_id (us_extra_windows a), us_cost_usage := None,
           us_extensions := sort_key extension_key (us_extensions a),
           us_chart_points := sort_key cp_at (us_chart_points a)\<rparr>"
proof -
  have none: "is_some_and (\<lambda>x. f x \<noteq> y) m \<longleftrightarrow> \<not> is_none_or (\<lambda>x. f x = y) m" for f y and m :: "'b option"
    by (cases m) auto
  show ?thesis
    unfolding usage_sample_new_def adjacent_kind none Let_def
    by (auto simp: result_simps split: if_splits)
qed

lemma usage_sample_deserialize_ok:
  "usage_sample_deserialize a = Inr s \<Longrightarrow> usage_sample_ok s"
  by (auto simp: usage_sample_deserialize_def result_simps usage_sample_new_Inr usage_sample_ok_def
      keyed_unique_def with_cost_usage_def split: option.splits)

lemma usage_sample_deserialize_ident: "usage_sample_ok s \<Longrightarrow> usage_sample_deserialize s = Inr s"
  by (auto simp: usage_sample_deserialize_def result_simps usage_sample_new_Inr usage_sample_ok_def
      keyed_unique_def with_cost_usage_def sort_key_sorted_id split: option.splits)

lemma usage_sample_new_ok: "usage_sample_new a = Inr s \<Longrightarrow> usage_sample_ok s"
  by (auto simp: usage_sample_new_Inr usage_sample_ok_def keyed_unique_def)

text \<open>
  a sample that decodes belongs to one account throughout (identity, credits and reset
  credits), holds the windows, extensions and chart points it was given in strictly ascending
  order of identifier, kind and time, keeps everything else, and re-encodes to the same sample.
\<close>

theorem usage_sample_canonical:
  assumes "usage_sample_deserialize a = Inr s"
  shows "id_scope (us_identity s) = us_scope s \<and>
    is_none_or (\<lambda>c. cs_scope c = us_scope s) (us_credits s) \<and>
    is_none_or (\<lambda>i. rs_scope i = us_scope s) (us_reset_credits s) \<and>
    mset (us_extra_windows s) = mset (us_extra_windows a) \<and>
    mset (us_extensions s) = mset (us_extensions a) \<and>
    mset (us_chart_points s) = mset (us_chart_points a) \<and>
    sorted_wrt (<) (map nw_id (us_extra_windows s)) \<and>
    sorted_wrt (<) (map extension_key (us_extensions s)) \<and>
    sorted_wrt (<) (map cp_at (us_chart_points s)) \<and>
    s = a\<lparr>us_extra_windows := us_extra_windows s, us_extensions := us_extensions s,
          us_chart_points := us_chart_points s\<rparr> \<and>
    usage_sample_deserialize s = Inr s"
proof -
  have ok: "usage_sample_ok s" using assms by (rule usage_sample_deserialize_ok)
  have a: "s = a\<lparr>us_extra_windows := sort_key nw_id (us_extra_windows a),
      us_extensions := sort_key extension_key (us_extensions a),
      us_chart_points := sort_key cp_at (us_chart_points a)\<rparr>"
    using assms by (auto simp: usage_sample_deserialize_def result_simps usage_sample_new_Inr
        with_cost_usage_def split: option.splits)
  have "us_extra_windows s = sort_key nw_id (us_extra_windows a)"
    "us_extensions s = sort_key extension_key (us_extensions a)"
    "us_chart_points s = sort_key cp_at (us_chart_points a)"
    using a by (cases a, simp)+
  with a ok usage_sample_deserialize_ident [OF ok] show ?thesis
    by (simp add: usage_sample_ok_def keyed_unique_def strict_sorted_iff)
qed

lemma minimal_sample_ok: "usage_sample_ok (minimal_sample scope t)"
  by (simp add: minimal_sample_def usage_sample_ok_def keyed_unique_def identity_redacted_for_scope_def)

theorem usage_sample_canonical_witness:
  "let s = (minimal_sample (AccountScope Codex (lit ''default'') (lit ''me'')) 5)
         \<lparr>us_chart_points := [\<lparr>cp_at = 9, cp_value = 1\<rparr>, \<lparr>cp_at = 3, cp_value = 2\<rparr>]\<rparr>
   in \<exists>r. usage_sample_deserialize s = Inr r \<and> sorted_wrt (<) (map cp_at (us_chart_points r)) \<and>
        usage_sample_deserialize r = Inr r"
proof -
  let ?s = "(minimal_sample (AccountScope Codex (lit ''default'') (lit ''me'')) 5)
         \<lparr>us_chart_points := [\<lparr>cp_at = 9, cp_value = 1\<rparr>, \<lparr>cp_at = 3, cp_value = 2\<rparr>]\<rparr>"
  obtain r where r: "usage_sample_deserialize ?s = Inr r"
    by (simp add: usage_sample_deserialize_def result_simps usage_sample_new_Inr minimal_sample_def
        identity_redacted_for_scope_def limit_defs)
  from usage_sample_canonical [OF r] have "sorted_wrt (<) (map cp_at (us_chart_points r))"
    "usage_sample_deserialize r = Inr r" by blast+
  with r show ?thesis unfolding Let_def by blast
qed

lemma backfill_sample_Inr:
  "backfilling_reset_times s c now = Inr r \<Longrightarrow> usage_sample_ok s \<Longrightarrow> usage_sample_ok r"
  by (auto simp: backfilling_reset_times_def usage_sample_ok_def keyed_unique_def o_def Let_def
      named_rate_window_new_def split: if_splits)

lemma find_distinct_key:
  "distinct (map f xs) \<Longrightarrow> c \<in> set xs \<Longrightarrow> find (\<lambda>d. f d = f c) xs = Some c"
  by (induction xs) force+

lemma backfill_extra_windows:
  assumes "backfilling_reset_times s cached now = Inr r"
  shows "map nw_id (us_extra_windows r) = map nw_id (us_extra_windows s)"
    and "map nw_title (us_extra_windows r) = map nw_title (us_extra_windows s)"
    and "i < length (us_extra_windows s) \<Longrightarrow> nw_window (us_extra_windows r ! i) =
      backfilling_reset_time (nw_window (us_extra_windows s ! i)) (map_option nw_window
        (find (\<lambda>d. nw_id d = nw_id (us_extra_windows s ! i)) (us_extra_windows cached))) now"
  using assms
  by (auto simp: backfilling_reset_times_def Let_def named_rate_window_new_def o_def split: if_splits)

definition same_but_lanes :: "usage_sample \<Rightarrow> usage_sample \<Rightarrow> bool" where
  "same_but_lanes r s \<longleftrightarrow>
     r = s\<lparr>us_primary := us_primary r, us_secondary := us_secondary r, us_tertiary := us_tertiary r,
           us_extra_windows := us_extra_windows r\<rparr>"

lemma backfill_same_but_lanes:
  "backfilling_reset_times s cached now = Inr r \<Longrightarrow> same_but_lanes r s"
  by (cases s) (auto simp: backfilling_reset_times_def same_but_lanes_def split: if_splits)

text \<open>
  backfilling works across one exact account scope only. It changes nothing but the quota
  lanes, keeps the identifiers and titles of named lanes and fills each of them from the cached
  lane with the same identifier, whatever its position; the result is again a well-formed sample.
\<close>

theorem sample_backfill_correct:
  assumes "usage_sample_ok s" and "usage_sample_ok cached"
  shows "if us_scope s \<noteq> us_scope cached then backfilling_reset_times s cached now = Inl ScopeMismatch
    else \<exists>r. backfilling_reset_times s cached now = Inr r \<and> usage_sample_ok r \<and> same_but_lanes r s \<and>
      us_primary r = map_option (\<lambda>w. backfilling_reset_time w (us_primary cached) now) (us_primary s) \<and>
      map nw_id (us_extra_windows r) = map nw_id (us_extra_windows s) \<and>
      map nw_title (us_extra_windows r) = map nw_title (us_extra_windows s) \<and>
      (\<forall>i<length (us_extra_windows s). \<forall>c\<in>set (us_extra_windows cached).
         nw_id c = nw_id (us_extra_windows s ! i) \<longrightarrow>
         nw_window (us_extra_windows r ! i)
           = backfilling_reset_time (nw_window (us_extra_windows s ! i)) (Some (nw_window c)) now)"
proof (cases "us_scope s = us_scope cached")
  case True
  then obtain r where r: "backfilling_reset_times s cached now = Inr r"
    by (simp add: backfilling_reset_times_def)
  have unique: "distinct (map nw_id (us_extra_windows cached))"
    using assms(2) by (simp add: usage_sample_ok_def keyed_unique_def)
  have extra: "nw_window (us_extra_windows r ! i)
      = backfilling_reset_time (nw_window (us_extra_windows s ! i)) (Some (nw_window c)) now"
    if "i < length (us_extra_windows s)" "c \<in> set (us_extra_windows cached)"
      "nw_id c = nw_id (us_extra_windows s ! i)" for i c
    using backfill_extra_windows(3) [OF r that(1)] find_distinct_key [OF unique that(2)] that(3)
    by simp
  have "us_primary r = map_option (\<lambda>w. backfilling_reset_time w (us_primary cached) now) (us_primary s)"
    using r True by (auto simp: backfilling_reset_times_def)
  then show ?thesis
    using True r extra backfill_sample_Inr [OF r assms(1)] backfill_same_but_lanes [OF r]
      backfill_extra_windows(1,2) [OF r] by auto
qed (simp add: backfilling_reset_times_def)

theorem sample_backfill_correct_witness:
  "let a = AccountScope Codex (lit ''default'') (lit ''me'');
       w = \<lambda>r. \<lparr>rw_usage = Known (F64 62), rw_duration = None, rw_resets_at = r,
             rw_reset_description = None, rw_next_regen_percent = None, rw_synthetic_placeholder = False\<rparr>;
       s = (minimal_sample a 5)\<lparr>us_primary := Some (w None)\<rparr>;
       c = (minimal_sample a 1)\<lparr>us_primary := Some (w (Some 100))\<rparr>
   in \<exists>r. backfilling_reset_times s c 10 = Inr r \<and>
        us_primary r = Some (backfilling_reset_time (w None) (Some (w (Some 100))) 10)"
proof -
  let ?a = "AccountScope Codex (lit ''default'') (lit ''me'')"
  let ?w = "\<lambda>r. \<lparr>rw_usage = Known (F64 62), rw_duration = None, rw_resets_at = r,
             rw_reset_description = None, rw_next_regen_percent = None, rw_synthetic_placeholder = False\<rparr>"
  let ?s = "(minimal_sample ?a 5)\<lparr>us_primary := Some (?w None)\<rparr>"
  let ?c = "(minimal_sample ?a 1)\<lparr>us_primary := Some (?w (Some 100))\<rparr>"
  have ok: "usage_sample_ok ?s" "usage_sample_ok ?c"
    using minimal_sample_ok [of ?a] by (simp_all add: usage_sample_ok_def)
  have "us_scope ?s = us_scope ?c" "us_primary ?s = Some (?w None)" "us_primary ?c = Some (?w (Some 100))"
    by (simp_all add: minimal_sample_def)
  with sample_backfill_correct [OF ok, of 10]
  show ?thesis unfolding Let_def by (metis option.simps(9))
qed

section \<open>Snapshot states\<close>

definition ready_ok :: "ready_snapshot \<Rightarrow> bool" where
  "ready_ok s \<longleftrightarrow>
     (case rd_freshness s of Stale t \<Rightarrow> us_fetched_at (rd_last_known_good s) \<le> t | _ \<Rightarrow> rd_error s = None)"

fun snapshot_ok :: "provider_snapshot \<Rightarrow> bool" where
  "snapshot_ok (Ready s) = ready_ok s"
| "snapshot_ok _ = True"

lemma snapshot_ready_Inr:
  "snapshot_ready s f r e = Inr p \<longleftrightarrow>
     (case f of Stale t \<Rightarrow> us_fetched_at s \<le> t | _ \<Rightarrow> e = None) \<and>
     p = Ready \<lparr>rd_local_history = None, rd_last_known_good = s, rd_freshness = f, rd_refresh = r,
                rd_error = e\<rparr>"
  by (auto simp: snapshot_ready_def split: freshness.splits)

lemma snapshot_ready_ok: "snapshot_ready s f r e = Inr p \<Longrightarrow> snapshot_ok p"
  by (auto simp: snapshot_ready_Inr ready_ok_def split: freshness.splits)

lemma with_local_history_simps [simp]:
  "snapshot_scope (with_local_history p h) = snapshot_scope p"
  "snapshot_last_known_good (with_local_history p h) = snapshot_last_known_good p"
  "snapshot_error_of (with_local_history p h) = snapshot_error_of p"
  "snapshot_freshness (with_local_history p h) = snapshot_freshness p"
  "snapshot_refresh_phase (with_local_history p h) = snapshot_refresh_phase p"
  "snapshot_local_history (with_local_history p h) = h"
  by (cases p; simp)+

lemma ready_ok_history [simp]: "ready_ok (s\<lparr>rd_local_history := h\<rparr>) = ready_ok s"
  by (cases "rd_freshness s") (simp_all add: ready_ok_def)

lemma snapshot_ok_history [simp]: "snapshot_ok (with_local_history p h) = snapshot_ok p"
  by (cases p) simp_all

lemma snapshot_loading_simps [simp]:
  "snapshot_scope (snapshot_loading s) = s" "snapshot_last_known_good (snapshot_loading s) = None"
  "snapshot_error_of (snapshot_loading s) = None" "snapshot_ok (snapshot_loading s)"
  "snapshot_local_history (snapshot_loading s) = None"
  by (simp_all add: snapshot_loading_def)

lemma snapshot_unavailable_simps [simp]:
  "snapshot_scope (snapshot_unavailable s e) = s"
  "snapshot_last_known_good (snapshot_unavailable s e) = None"
  "snapshot_error_of (snapshot_unavailable s e) = Some e" "snapshot_ok (snapshot_unavailable s e)"
  "snapshot_local_history (snapshot_unavailable s e) = None"
  by (simp_all add: snapshot_unavailable_def)

lemma snapshot_ready_facts:
  "snapshot_ready s f r e = Inr p \<Longrightarrow>
     snapshot_scope p = us_scope s \<and> snapshot_last_known_good p = Some s \<and> snapshot_error_of p = e \<and>
     snapshot_freshness p = Some f \<and> snapshot_refresh_phase p = Some r \<and> snapshot_local_history p = None"
  by (auto simp: snapshot_ready_Inr)

text \<open>
  an error never destroys the last good reading: overlaying an error on a ready snapshot of
  the same scope, at a time not before the reading was fetched, yields a ready snapshot with the
  very same reading, marked stale since that time and carrying the error; any other overlay is
  refused with the reason. Every snapshot so built is well formed (an error only beside stale
  data, staleness never before the fetch).
\<close>

theorem error_overlay_preserves_reading:
  "with_error_overlay p scope e t =
     (case snapshot_last_known_good p of
       None \<Rightarrow> Inl NoLastKnownGood
     | Some s \<Rightarrow>
         if us_scope s \<noteq> scope then Inl ScopeMismatch
         else if t < us_fetched_at s then Inl StaleBeforeFetch
         else Inr (Ready \<lparr>rd_local_history = None, rd_last_known_good = s, rd_freshness = Stale t,
                          rd_refresh = Idle, rd_error = Some e\<rparr>)) \<and>
   (\<forall>q. with_error_overlay p scope e t = Inr q \<longrightarrow>
      snapshot_ok q \<and> snapshot_last_known_good q = snapshot_last_known_good p \<and>
      snapshot_error_of q = Some e \<and> snapshot_freshness q = Some (Stale t))"
  by (cases p) (auto simp: with_error_overlay_def snapshot_ready_def ready_ok_def)

theorem error_overlay_preserves_reading_witness:
  "let s = minimal_sample (AccountScope Codex (lit ''default'') (lit ''me'')) 5;
       p = Ready \<lparr>rd_local_history = None, rd_last_known_good = s, rd_freshness = Fresh,
                  rd_refresh = Idle, rd_error = None\<rparr>
   in \<exists>q. with_error_overlay p (us_scope s) (classified_error_new Network) 9 = Inr q \<and>
        snapshot_last_known_good q = Some s"
  unfolding Let_def
  using error_overlay_preserves_reading
    [of "Ready \<lparr>rd_local_history = None,
           rd_last_known_good = minimal_sample (AccountScope Codex (lit ''default'') (lit ''me'')) 5,
           rd_freshness = Fresh, rd_refresh = Idle, rd_error = None\<rparr>"
      "us_scope (minimal_sample (AccountScope Codex (lit ''default'') (lit ''me'')) 5)"
      "classified_error_new Network" 9]
  by (simp add: minimal_sample_def)

section \<open>What redaction hides\<close>

text \<open>
  \<open>disguise\<close> replaces everything personal in a sample: the identity, reset texts, lane
  identifiers and titles, credit events, amounts spent personally, budget labels, labels in the
  cost history, reset-credit texts and identifiers, details, extensions, provenance, and the texts,
  incidents and components of the status. \<open>f\<close> and \<open>h\<close> are arbitrary replacements for texts and
  optional texts, \<open>o\<close> an arbitrary sample other values are taken from.
\<close>

definition mask_window :: "(str option \<Rightarrow> str option) \<Rightarrow> rate_window \<Rightarrow> rate_window" where
  "mask_window h w = w\<lparr>rw_reset_description := h (rw_reset_description w)\<rparr>"

definition mask_named :: "(str \<Rightarrow> str) \<Rightarrow> (str option \<Rightarrow> str option) \<Rightarrow> named_rate_window \<Rightarrow> named_rate_window" where
  "mask_named f h n = \<lparr>nw_id = f (nw_id n), nw_title = f (nw_title n), nw_window = mask_window h (nw_window n)\<rparr>"

definition mask_credits :: "(str \<Rightarrow> str) \<Rightarrow> credit_event list \<Rightarrow> credits_snapshot \<Rightarrow> credits_snapshot" where
  "mask_credits f evs c = c\<lparr>cs_events := evs,
     cs_limit := map_option (\<lambda>l. l\<lparr>cl_title := f (cl_title l)\<rparr>) (cs_limit c)\<rparr>"

fun mask_unit :: "(str \<Rightarrow> str) \<Rightarrow> cost_unit \<Rightarrow> cost_unit" where
  "mask_unit f (Currency c) = Currency c"
| "mask_unit f (ProviderUnit u) = ProviderUnit (f u)"

definition mask_cost ::
    "(str \<Rightarrow> str) \<Rightarrow> (str option \<Rightarrow> str option) \<Rightarrow> exact_decimal option \<Rightarrow> cost_summary \<Rightarrow> cost_summary" where
  "mask_cost f h personal c = c\<lparr>cy_used := (cy_used c)\<lparr>ca_unit := mask_unit f (ca_unit (cy_used c))\<rparr>,
     cy_period := h (cy_period c), cy_personal_used := personal\<rparr>"

fun mask_reset_status :: "(str \<Rightarrow> str) \<Rightarrow> reset_credit_status \<Rightarrow> reset_credit_status" where
  "mask_reset_status f (UnknownStatus v) = UnknownStatus (f v)"
| "mask_reset_status f s = s"

definition mask_reset :: "(str \<Rightarrow> str) \<Rightarrow> (str option \<Rightarrow> str option) \<Rightarrow> reset_credit \<Rightarrow> reset_credit" where
  "mask_reset f h c = c\<lparr>rc_id := f (rc_id c), rc_reset_type := f (rc_reset_type c),
     rc_status := mask_reset_status f (rc_status c), rc_title := h (rc_title c),
     rc_description := h (rc_description c)\<rparr>"

definition mask_resets ::
    "(str \<Rightarrow> str) \<Rightarrow> (str option \<Rightarrow> str option) \<Rightarrow> reset_credits_snapshot \<Rightarrow> reset_credits_snapshot" where
  "mask_resets f h r = r\<lparr>rs_credits := map (mask_reset f h) (rs_credits r)\<rparr>"

definition mask_status :: "provider_status \<Rightarrow> provider_status \<Rightarrow> provider_status" where
  "mask_status other s = s\<lparr>ps_description := ps_description other,
     ps_incidents := ps_incidents other, ps_components := ps_components other\<rparr>"

definition disguise ::
    "(str \<Rightarrow> str) \<Rightarrow> (str option \<Rightarrow> str option) \<Rightarrow> credit_event list \<Rightarrow> exact_decimal option \<Rightarrow>
     usage_sample \<Rightarrow> usage_sample \<Rightarrow> usage_sample" where
  "disguise f h evs personal other s = s\<lparr>
     us_identity := us_identity other,
     us_primary := map_option (mask_window h) (us_primary s),
     us_secondary := map_option (mask_window h) (us_secondary s),
     us_tertiary := map_option (mask_window h) (us_tertiary s),
     us_extra_windows := map (mask_named f h) (us_extra_windows s),
     us_credits := map_option (mask_credits f evs) (us_credits s),
     us_cost := map_option (mask_cost f h personal) (us_cost s),
     us_cost_usage := map_option (relabel_cost_usage f) (us_cost_usage s),
     us_reset_credits := map_option (mask_resets f h) (us_reset_credits s),
     us_detail_sections := us_detail_sections other, us_extensions := us_extensions other,
     us_provenance := us_provenance other, us_status := mask_status (us_status other) (us_status s)\<rparr>"

lemma named_projection_enumerate:
  "named_public_projection ws = enumerate_map named_without_personal_information ws"
  by (simp add: named_public_projection_def enumerate_map_def)

lemma mask_window_redacted [simp]:
  "window_without_personal_information (mask_window h w) = window_without_personal_information w"
  by (simp add: window_without_personal_information_def mask_window_def)

lemma mask_named_redacted [simp]:
  "named_without_personal_information (mask_named f h n) k = named_without_personal_information n k"
  by (simp add: named_without_personal_information_def mask_named_def Let_def)

lemma mask_credits_redacted [simp]:
  "credits_without_personal_information (mask_credits f evs c) s = credits_without_personal_information c s"
  by (cases "cs_limit c") (simp_all add: credits_without_personal_information_def mask_credits_def
      credit_limit_public_projection_def)

lemma mask_cost_redacted [simp]: "cost_summary_redacted (mask_cost f h p c) = cost_summary_redacted c"
  by (cases "ca_unit (cy_used c)") (simp_all add: cost_summary_redacted_def mask_cost_def
      cost_amount_without_personal_information_def)

lemma mask_reset_redacted [simp]:
  "reset_credit_redacted hmac (mask_reset f h c) s k = reset_credit_redacted hmac c s k"
  by (cases "rc_status c") (simp_all add: reset_credit_redacted_def mask_reset_def)

lemma mask_resets_redacted [simp]:
  "reset_credits_redacted hmac (mask_resets f h r) s = reset_credits_redacted hmac r s"
  by (simp add: reset_credits_redacted_def mask_resets_def enumerate_map_map)

lemma mask_status_redacted [simp]:
  "status_without_personal_information (mask_status o' s) = status_without_personal_information s"
  by (simp add: status_without_personal_information_def mask_status_def)

lemma relabel_cost_usage_redacted [simp]:
  "cost_usage_redacted (relabel_cost_usage f u) = cost_usage_redacted u"
  by (simp add: cost_usage_redacted_def relabel_cost_usage_def enumerate_map_map o_def
      split: cost_unit.splits)

text \<open>
  C38: the redacted form of a sample is the same however its personal content is replaced, so it
  carries none of it, and the redacted sample has an empty identity of the public scope, no details,
  extensions or provenance.
\<close>

theorem sample_redaction_independent:
  "usage_sample_redacted hmac (disguise f h evs personal other s) scope =
     usage_sample_redacted hmac s scope \<and>
   us_identity (usage_sample_redacted hmac s scope) = identity_redacted_for_scope scope \<and>
   us_detail_sections (usage_sample_redacted hmac s scope) = [] \<and>
   us_extensions (usage_sample_redacted hmac s scope) = [] \<and>
   us_provenance (usage_sample_redacted hmac s scope) = [] \<and>
   us_fetched_at (usage_sample_redacted hmac s scope) = us_fetched_at s"
  unfolding usage_sample_redacted_def disguise_def named_projection_enumerate
  by (simp add: option.map_comp o_def enumerate_map_map)

text \<open>The snapshot a public surface shows for a scope alias.\<close>

definition public_form :: "hmac_fn \<Rightarrow> account_scope \<Rightarrow> provider_snapshot \<Rightarrow> provider_snapshot" where
  "public_form hmac t p =
     with_local_history
       (case p of
         Loading _ \<Rightarrow> snapshot_loading t
       | Ready s \<Rightarrow> Ready \<lparr>rd_local_history = None,
           rd_last_known_good = usage_sample_redacted hmac (rd_last_known_good s) t,
           rd_freshness = rd_freshness s, rd_refresh = rd_refresh s, rd_error = rd_error s\<rparr>
       | Unavailable s \<Rightarrow> snapshot_unavailable t (un_error s))
       (map_option local_history_redacted (snapshot_local_history p))"

lemma redacted_sample_simps [simp]:
  "us_scope (usage_sample_redacted hmac s t) = t"
  "us_fetched_at (usage_sample_redacted hmac s t) = us_fetched_at s"
  by (simp_all add: usage_sample_redacted_def)

lemma public_form_simps [simp]:
  "snapshot_scope (public_form hmac t p) = t"
  "snapshot_freshness (public_form hmac t p) = snapshot_freshness p"
  "snapshot_refresh_phase (public_form hmac t p) = snapshot_refresh_phase p"
  "snapshot_error_of (public_form hmac t p) = snapshot_error_of p"
  "snapshot_last_known_good (public_form hmac t p) =
     map_option (\<lambda>s. usage_sample_redacted hmac s t) (snapshot_last_known_good p)"
  "snapshot_local_history (public_form hmac t p) =
     map_option local_history_redacted (snapshot_local_history p)"
  by (cases p; simp add: public_form_def snapshot_loading_def snapshot_unavailable_def)+

lemma public_form_ok: "snapshot_ok p \<Longrightarrow> snapshot_ok (public_form hmac t p)"
  by (cases p) (simp_all add: public_form_def ready_ok_def split: freshness.splits)

lemma snapshot_redacted_eq:
  assumes "snapshot_ok p"
  shows "snapshot_redacted hmac key p =
    map_option (\<lambda>t. public_form hmac t p) (scope_public_projection hmac key (snapshot_scope p))"
proof (cases p)
  case (Ready s)
  have "snapshot_ready (usage_sample_redacted hmac (rd_last_known_good s) t) (rd_freshness s)
      (rd_refresh s) (map_option error_public_projection (rd_error s)) =
    Inr (Snapshot.Ready \<lparr>rd_local_history = None,
      rd_last_known_good = usage_sample_redacted hmac (rd_last_known_good s) t,
      rd_freshness = rd_freshness s, rd_refresh = rd_refresh s, rd_error = rd_error s\<rparr>)" for t
    using assms Ready
    by (cases "rd_freshness s"; cases "rd_error s")
      (auto simp: snapshot_ready_def ready_ok_def error_public_projection_def)
  then show ?thesis
    using Ready by (cases "scope_public_projection hmac key (snapshot_scope p)")
      (simp_all add: snapshot_redacted_def public_form_def)
qed (cases "scope_public_projection hmac key (snapshot_scope p)";
    simp add: snapshot_redacted_def public_form_def error_public_projection_def)+

text \<open>
  redaction for a public surface never panics: every well-formed snapshot has a redacted form,
  again well formed, with a valid scope of the same provider, the same state, freshness, refresh
  phase and error, and the redacted reading and local history.
\<close>

theorem snapshot_redaction_total:
  assumes "hmac_digest_ok hmac" and "snapshot_ok p"
  shows "\<exists>q. snapshot_redacted hmac key p = Some q \<and> snapshot_ok q \<and> scope_ok (snapshot_scope q) \<and>
    sc_provider (snapshot_scope q) = sc_provider (snapshot_scope p) \<and>
    snapshot_freshness q = snapshot_freshness p \<and> snapshot_refresh_phase q = snapshot_refresh_phase p \<and>
    snapshot_error_of q = snapshot_error_of p \<and>
    snapshot_last_known_good q =
      map_option (\<lambda>s. usage_sample_redacted hmac s (snapshot_scope q)) (snapshot_last_known_good p) \<and>
    snapshot_local_history q = map_option local_history_redacted (snapshot_local_history p)"
proof -
  obtain t where "scope_public_projection hmac key (snapshot_scope p) = Some t" "scope_ok t"
    "sc_provider t = sc_provider (snapshot_scope p)"
    using scope_public_projection_total [OF assms(1)] by blast
  then show ?thesis
    using snapshot_redacted_eq [OF assms(2)] public_form_ok [OF assms(2)] by simp
qed

theorem snapshot_redaction_total_witness:
  "\<exists>q. snapshot_redacted (\<lambda>k m. replicate 32 7) (replicate 32 1)
      (snapshot_unavailable (AccountScope Claude (lit ''default'') (lit ''me'')) (classified_error_new Api)) = Some q \<and>
     snapshot_error_of q = Some (classified_error_new Api)"
  using snapshot_redaction_total [of "\<lambda>k m. replicate 32 7"
      "snapshot_unavailable (AccountScope Claude (lit ''default'') (lit ''me'')) (classified_error_new Api)"
      "replicate 32 1"]
  by (auto simp: hmac_digest_ok_def)

lemma envelope_new_Inr:
  "envelope_new t ps = Inr e \<longleftrightarrow>
     length ps \<le> MAX_SNAPSHOTS_PER_ENVELOPE \<and> distinct (map snapshot_scope ps) \<and>
     e = \<lparr>en_generated_at = t, en_snapshots = sort_key snapshot_scope ps\<rparr>"
  by (auto simp: envelope_new_def result_simps Let_def split: if_splits)

lemma all_some_map: "all_some (map f xs) = Some ys \<longleftrightarrow> list_all2 (\<lambda>x y. f x = Some y) xs ys"
  by (induction xs arbitrary: ys) (auto simp: bind_eq_Some_conv list_all2_Cons1)

lemma all_some_total: "(\<And>x. x \<in> set xs \<Longrightarrow> \<exists>y. f x = Some y) \<Longrightarrow> \<exists>ys. all_some (map f xs) = Some ys"
  by (induction xs) fastforce+

lemma envelope_redacted_total:
  assumes "hmac_digest_ok hmac" "\<forall>p\<in>set (en_snapshots e). snapshot_ok p"
  shows "\<exists>r. envelope_redacted hmac key e = Some r"
proof -
  have "\<exists>q. snapshot_redacted hmac key p = Some q" if "p \<in> set (en_snapshots e)" for p
    using assms that scope_public_projection_total [OF assms(1), of key "snapshot_scope p"]
    by (auto simp: snapshot_redacted_eq)
  then show ?thesis
    using all_some_total [of "en_snapshots e" "snapshot_redacted hmac key"]
    by (auto simp: envelope_redacted_def)
qed



end
