(* ===== verification/Snapshot_Store.thy ===== *)
theory Snapshot_Store
  imports Ordered_Map Snapshot
begin

text \<open>
  The actor-owned snapshot store (\<open>crates/runtime/src/snapshot_store.rs\<close>): one provider snapshot
  per registered account scope and the publication readers see. The watch channel holds exactly
  one value, the latest publication, so the channel is a field of the store. A transition returns
  the store and whether it published; on an error the store is unchanged.
\<close>

section \<open>State and transitions\<close>

record published_snapshot =
  pb_sequence :: nat
  pb_envelope :: snapshot_envelope

datatype snapshot_store_error =
    DuplicateScope | UnknownScope | StoreScopeMismatch | SequenceExhausted
  | SnapshotInvariant snapshot_error

record snapshot_store =
  st_snapshots :: "(account_scope, provider_snapshot) btree_map"
  st_sequence :: nat
  st_publication :: published_snapshot

definition build_envelope ::
    "(account_scope, provider_snapshot) btree_map \<Rightarrow> timestamp \<Rightarrow> (snapshot_envelope, snapshot_error) result" where
  "build_envelope snapshots generated_at = envelope_new generated_at (bt_values snapshots)"

fun insert_loading ::
    "account_scope list \<Rightarrow> (account_scope, provider_snapshot) btree_map \<Rightarrow>
     ((account_scope, provider_snapshot) btree_map, snapshot_store_error) result" where
  "insert_loading [] snapshots = Inr snapshots"
| "insert_loading (scope # scopes) snapshots =
     (if bt_contains snapshots scope then Inl DuplicateScope
      else insert_loading scopes (bt_insert scope (snapshot_loading scope) snapshots))"

fun restore_retained ::
    "provider_snapshot list \<Rightarrow> timestamp \<Rightarrow> (account_scope, provider_snapshot) btree_map \<Rightarrow>
     ((account_scope, provider_snapshot) btree_map, snapshot_store_error) result" where
  "restore_retained [] generated_at snapshots = Inr snapshots"
| "restore_retained (snapshot # retained) generated_at snapshots =
     (let scope = snapshot_scope snapshot in
      case snapshot_last_known_good snapshot of
        None \<Rightarrow> restore_retained retained generated_at snapshots
      | Some sample \<Rightarrow>
          if \<not> bt_contains snapshots scope then restore_retained retained generated_at snapshots
          else let stale_since = max generated_at (us_fetched_at sample) in
            and_then (map_err SnapshotInvariant (snapshot_ready sample (Stale stale_since) Idle None)) (\<lambda>restored.
            restore_retained retained generated_at (bt_insert scope restored snapshots)))"

definition store_new_with_retained ::
    "account_scope list \<Rightarrow> provider_snapshot list \<Rightarrow> timestamp \<Rightarrow> (snapshot_store, snapshot_store_error) result" where
  "store_new_with_retained scopes retained generated_at =
     and_then (insert_loading scopes bt_empty) (\<lambda>snapshots.
     and_then (restore_retained retained generated_at snapshots) (\<lambda>snapshots.
     and_then (map_err SnapshotInvariant (build_envelope snapshots generated_at)) (\<lambda>envelope.
     Inr \<lparr>st_snapshots = snapshots, st_sequence = 1,
          st_publication = \<lparr>pb_sequence = 1, pb_envelope = envelope\<rparr>\<rparr>)))"

definition store_new ::
    "account_scope list \<Rightarrow> timestamp \<Rightarrow> (snapshot_store, snapshot_store_error) result" where
  "store_new scopes generated_at = store_new_with_retained scopes [] generated_at"

definition store_snapshot :: "snapshot_store \<Rightarrow> account_scope \<Rightarrow> provider_snapshot option" where
  "store_snapshot st scope = bt_get (st_snapshots st) scope"

definition require_scope ::
    "snapshot_store \<Rightarrow> account_scope \<Rightarrow> (provider_snapshot, snapshot_store_error) result" where
  "require_scope st scope = ok_or UnknownScope (bt_get (st_snapshots st) scope)"

definition publish_change ::
    "snapshot_store \<Rightarrow> account_scope \<Rightarrow> provider_snapshot \<Rightarrow> timestamp \<Rightarrow>
     (snapshot_store \<times> bool, snapshot_store_error) result" where
  "publish_change st scope next generated_at =
     and_then (require_scope st scope) (\<lambda>current.
     let next = (if snapshot_local_history next = None
                 then with_local_history next (snapshot_local_history current) else next) in
     if current = next then Inr (st, False)
     else
       and_then (ok_or SequenceExhausted (checked_add u64_max (st_sequence st) 1)) (\<lambda>next_sequence.
       let next_snapshots = bt_insert scope next (st_snapshots st) in
       and_then (map_err SnapshotInvariant (build_envelope next_snapshots generated_at)) (\<lambda>envelope.
       Inr (\<lparr>st_snapshots = next_snapshots, st_sequence = next_sequence,
             st_publication = \<lparr>pb_sequence = next_sequence, pb_envelope = envelope\<rparr>\<rparr>, True))))"

definition set_ready_refresh_phase ::
    "snapshot_store \<Rightarrow> account_scope \<Rightarrow> refresh_phase \<Rightarrow> timestamp \<Rightarrow>
     (snapshot_store \<times> bool, snapshot_store_error) result" where
  "set_ready_refresh_phase st scope phase generated_at =
     and_then (require_scope st scope) (\<lambda>current.
     case snapshot_last_known_good current of
       None \<Rightarrow> Inr (st, False)
     | Some sample \<Rightarrow>
         (case snapshot_freshness current of
           None \<Rightarrow> Inr (st, False)
         | Some freshness \<Rightarrow>
             and_then (map_err SnapshotInvariant
               (snapshot_ready sample freshness phase (snapshot_error_of current))) (\<lambda>next.
             publish_change st scope next generated_at)))"

definition mark_scheduled ::
    "snapshot_store \<Rightarrow> account_scope \<Rightarrow> timestamp \<Rightarrow> timestamp \<Rightarrow>
     (snapshot_store \<times> bool, snapshot_store_error) result" where
  "mark_scheduled st scope due generated_at = set_ready_refresh_phase st scope (Scheduled due) generated_at"

definition mark_refreshing ::
    "snapshot_store \<Rightarrow> account_scope \<Rightarrow> timestamp \<Rightarrow> timestamp \<Rightarrow>
     (snapshot_store \<times> bool, snapshot_store_error) result" where
  "mark_refreshing st scope started_at generated_at =
     set_ready_refresh_phase st scope (Refreshing started_at) generated_at"

text \<open>The history decides the cost data of the sample beside it.\<close>

definition attach_history :: "local_history_snapshot \<Rightarrow> usage_sample \<Rightarrow> usage_sample" where
  "attach_history history sample =
     (case lh_data history of
       Some data \<Rightarrow> with_cost_usage sample data
     | None \<Rightarrow> without_cost_usage sample)"

definition apply_success ::
    "snapshot_store \<Rightarrow> account_scope \<Rightarrow> usage_sample \<Rightarrow> timestamp \<Rightarrow>
     (snapshot_store \<times> bool, snapshot_store_error) result" where
  "apply_success st scope sample generated_at =
     and_then (require_scope st scope) (\<lambda>_.
     if us_scope sample \<noteq> scope then Inl StoreScopeMismatch
     else
       and_then (case Option.bind (bt_get (st_snapshots st) scope) snapshot_last_known_good of
           Some cached \<Rightarrow> map_err SnapshotInvariant (backfilling_reset_times sample cached generated_at)
         | None \<Rightarrow> Inr sample) (\<lambda>sample.
       let sample = (case Option.bind (bt_get (st_snapshots st) scope) snapshot_local_history of
           Some history \<Rightarrow> attach_history history sample
         | None \<Rightarrow> sample) in
       and_then (map_err SnapshotInvariant (snapshot_ready sample Fresh Idle None)) (\<lambda>next.
       publish_change st scope next generated_at)))"

definition apply_failure ::
    "snapshot_store \<Rightarrow> account_scope \<Rightarrow> classified_error \<Rightarrow> timestamp \<Rightarrow>
     (snapshot_store \<times> bool, snapshot_store_error) result" where
  "apply_failure st scope error generated_at =
     and_then (require_scope st scope) (\<lambda>current.
     and_then
       (if ce_retry error = Automatic
        then (case snapshot_last_known_good current of
            Some last_known_good \<Rightarrow>
              let stale_since = max generated_at (us_fetched_at last_known_good) in
              map_err SnapshotInvariant (with_error_overlay current scope error stale_since)
          | None \<Rightarrow> Inr (snapshot_unavailable scope error))
        else Inr (snapshot_unavailable scope error)) (\<lambda>next.
     publish_change st scope next generated_at))"

text \<open>
  The freshness and phase of a snapshot with a reading are expected to be present; both are, by
  the definition of the projections, so the model matches on them.
\<close>

definition apply_local_history ::
    "snapshot_store \<Rightarrow> account_scope \<Rightarrow> local_history_snapshot \<Rightarrow> timestamp \<Rightarrow>
     (snapshot_store \<times> bool, snapshot_store_error) result" where
  "apply_local_history st scope history generated_at =
     and_then (require_scope st scope) (\<lambda>current.
     and_then
       (case current of
         Ready s \<Rightarrow> map_err SnapshotInvariant
           (snapshot_ready (attach_history history (rd_last_known_good s))
              (rd_freshness s) (rd_refresh s) (rd_error s))
       | _ \<Rightarrow> Inr current) (\<lambda>next.
     publish_change st scope (with_local_history next (Some history)) generated_at))"

definition mark_history_state ::
    "snapshot_store \<Rightarrow> account_scope \<Rightarrow> local_history_state \<Rightarrow> timestamp \<Rightarrow>
     (snapshot_store, snapshot_store_error) result" where
  "mark_history_state st scope state generated_at =
     and_then (require_scope st scope) (\<lambda>current.
     case snapshot_local_history current of
       None \<Rightarrow> Inr st
     | Some history \<Rightarrow>
         map_ok fst (apply_local_history st scope (history\<lparr>lh_state := state\<rparr>) generated_at))"

definition apply_cost_usage ::
    "snapshot_store \<Rightarrow> account_scope \<Rightarrow> timestamp \<Rightarrow> cost_usage \<Rightarrow> timestamp \<Rightarrow>
     (snapshot_store \<times> bool, snapshot_store_error) result" where
  "apply_cost_usage st scope base_fetched_at usage generated_at =
     and_then (require_scope st scope) (\<lambda>current.
     case current of
       Ready s \<Rightarrow>
         if us_fetched_at (rd_last_known_good s) \<noteq> base_fetched_at then Inr (st, False)
         else
           and_then (map_err SnapshotInvariant
             (snapshot_ready (with_cost_usage (rd_last_known_good s) usage)
                (rd_freshness s) (rd_refresh s) (rd_error s))) (\<lambda>next.
           publish_change st scope next generated_at)
     | _ \<Rightarrow> Inr (st, False))"

section \<open>The store invariant\<close>

text \<open>
  Every snapshot is filed under its own scope and is well formed, the sequence number fits its
  width, and the publication is the envelope of exactly the current snapshots in scope order under
  the current sequence number.
\<close>

definition filed_ok :: "(account_scope, provider_snapshot) btree_map \<Rightarrow> bool" where
  "filed_ok m \<longleftrightarrow> (\<forall>k p. bt_get m k = Some p \<longrightarrow> snapshot_scope p = k \<and> snapshot_ok p)"

definition store_ok :: "snapshot_store \<Rightarrow> bool" where
  "store_ok st \<longleftrightarrow>
     filed_ok (st_snapshots st) \<and> bt_len (st_snapshots st) \<le> MAX_SNAPSHOTS_PER_ENVELOPE \<and>
     1 \<le> st_sequence st \<and> st_sequence st \<le> u64_max \<and>
     pb_sequence (st_publication st) = st_sequence st \<and>
     en_snapshots (pb_envelope (st_publication st)) = bt_values (st_snapshots st)"

lemma filed_scopes: "filed_ok m \<Longrightarrow> map snapshot_scope (bt_values m) = bt_keys m"
proof -
  assume filed: "filed_ok m"
  have "snapshot_scope (the (bt_get m k)) = k" if "k \<in> set (bt_keys m)" for k
    using that filed by (auto simp: set_bt_keys bt_contains_def filed_ok_def)
  then show ?thesis by (simp add: bt_values_keys comp_def map_idI)
qed

lemma build_envelope_filed:
  assumes "filed_ok m"
  shows "build_envelope m t =
    (if bt_len m \<le> MAX_SNAPSHOTS_PER_ENVELOPE then Inr \<lparr>en_generated_at = t, en_snapshots = bt_values m\<rparr>
     else Inl (LimitExceeded ''snapshots'' MAX_SNAPSHOTS_PER_ENVELOPE))"
proof -
  have len: "length (bt_values m) = bt_len m" by (simp add: bt_values_def bt_len_def)
  have "sorted (map snapshot_scope (bt_values m))" "distinct (map snapshot_scope (bt_values m))"
    using filed_scopes [OF assms] bt_keys_sorted [of m] by (simp_all add: strict_sorted_imp_sorted)
  then show ?thesis
    by (cases "bt_len m \<le> MAX_SNAPSHOTS_PER_ENVELOPE")
      (simp_all add: build_envelope_def envelope_new_Inr len sort_key_sorted_id,
        simp add: envelope_new_def len snapshot_check_limit_def)
qed

lemma filed_insert:
  "filed_ok m \<Longrightarrow> snapshot_scope p = k \<Longrightarrow> snapshot_ok p \<Longrightarrow> filed_ok (bt_insert k p m)"
  by (auto simp: filed_ok_def)

text \<open>The first publication of a set of snapshots.\<close>

definition store_of :: "(account_scope, provider_snapshot) btree_map \<Rightarrow> timestamp \<Rightarrow> snapshot_store" where
  "store_of m t = \<lparr>st_snapshots = m, st_sequence = 1,
     st_publication = \<lparr>pb_sequence = 1, pb_envelope = \<lparr>en_generated_at = t, en_snapshots = bt_values m\<rparr>\<rparr>\<rparr>"

lemma store_of_simps [simp]: "st_snapshots (store_of m t) = m" "st_sequence (store_of m t) = 1"
  by (simp_all add: store_of_def)

lemma store_of_ok: "filed_ok m \<Longrightarrow> bt_len m \<le> MAX_SNAPSHOTS_PER_ENVELOPE \<Longrightarrow> store_ok (store_of m t)"
  by (simp add: store_ok_def store_of_def u64_max_def)

lemma filed_empty [simp]: "filed_ok bt_empty"
  by (simp add: filed_ok_def)

lemma one_scope_ok:
  "snapshot_ok p \<Longrightarrow> store_ok (store_of (bt_insert (snapshot_scope p) p bt_empty) t)"
  by (intro store_of_ok filed_insert) (simp_all add: bt_len_insert limit_defs)

section \<open>The shared contract of the transitions\<close>

text \<open>What a publication does to the snapshot of its scope: a local history is never dropped.\<close>

definition keep_history :: "provider_snapshot \<Rightarrow> provider_snapshot \<Rightarrow> provider_snapshot" where
  "keep_history current next =
     (if snapshot_local_history next = None then with_local_history next (snapshot_local_history current)
      else next)"

lemma keep_history_simps [simp]:
  "snapshot_scope (keep_history p q) = snapshot_scope q"
  "snapshot_last_known_good (keep_history p q) = snapshot_last_known_good q"
  "snapshot_error_of (keep_history p q) = snapshot_error_of q"
  "snapshot_freshness (keep_history p q) = snapshot_freshness q"
  "snapshot_refresh_phase (keep_history p q) = snapshot_refresh_phase q"
  "snapshot_ok (keep_history p q) = snapshot_ok q"
  "snapshot_local_history (keep_history p q) =
     opt_or (snapshot_local_history q) (snapshot_local_history p)"
  by (cases "snapshot_local_history q"; simp add: keep_history_def opt_or_def)+

lemma keep_history_self [simp]: "keep_history p p = p"
  by (cases p) (simp_all add: keep_history_def)

text \<open>
  \<open>store_moves st scope f r\<close>: the outcome \<open>r\<close> of a transition on a known scope replaces the
  snapshot of that scope by its image under \<open>f\<close> and touches no other. It publishes, under the next
  sequence number, exactly when that changes something, and fails only when the sequence number is
  at its limit.
\<close>

definition store_moves ::
    "snapshot_store \<Rightarrow> account_scope \<Rightarrow> (provider_snapshot \<Rightarrow> provider_snapshot) \<Rightarrow> timestamp \<Rightarrow>
     (snapshot_store \<times> bool, snapshot_store_error) result \<Rightarrow> bool" where
  "store_moves st scope f t r \<longleftrightarrow>
     (\<exists>p. bt_get (st_snapshots st) scope = Some p \<and>
       (if f p = p then r = Inr (st, False)
        else if st_sequence st = u64_max then r = Inl SequenceExhausted
        else \<exists>st'. r = Inr (st', True) \<and> store_ok st' \<and> st_sequence st' = st_sequence st + 1 \<and>
               st_snapshots st' = bt_insert scope (f p) (st_snapshots st) \<and>
               en_generated_at (pb_envelope (st_publication st')) = t))"

lemma publish_change_moves:
  assumes "store_ok st" "bt_get (st_snapshots st) scope = Some p"
    and "snapshot_scope q = scope" "snapshot_ok q"
  shows "store_moves st scope (\<lambda>p. keep_history p q) t (publish_change st scope q t)"
proof -
  let ?q = "keep_history p q"
  have filed: "filed_ok (bt_insert scope ?q (st_snapshots st))"
    using assms by (intro filed_insert) (auto simp: store_ok_def)
  have len: "bt_len (bt_insert scope ?q (st_snapshots st)) = bt_len (st_snapshots st)"
    using assms(2) by (simp add: bt_len_insert bt_contains_def)
  have "publish_change st scope q t =
      (if p = ?q then Inr (st, False)
       else and_then (ok_or SequenceExhausted (checked_add u64_max (st_sequence st) 1)) (\<lambda>n.
         and_then (map_err SnapshotInvariant (build_envelope (bt_insert scope ?q (st_snapshots st)) t))
           (\<lambda>e. Inr (\<lparr>st_snapshots = bt_insert scope ?q (st_snapshots st), st_sequence = n,
                      st_publication = \<lparr>pb_sequence = n, pb_envelope = e\<rparr>\<rparr>, True))))"
    using assms(2) by (simp add: publish_change_def require_scope_def keep_history_def Let_def)
  then show ?thesis
    using assms(1,2) len
    by (auto simp: store_moves_def build_envelope_filed [OF filed] filed store_ok_def checked_add_def)
qed

text \<open>
  A store transition on a known scope: it computes the next snapshot from the current one, or
  leaves the store alone.
\<close>

locale store_transition =
  fixes run :: "snapshot_store \<Rightarrow> account_scope \<Rightarrow> timestamp \<Rightarrow>
      (snapshot_store \<times> bool, snapshot_store_error) result"
    and step :: "account_scope \<Rightarrow> timestamp \<Rightarrow> provider_snapshot \<Rightarrow> provider_snapshot"
    and admissible :: "account_scope \<Rightarrow> bool"
  assumes unknown: "bt_get (st_snapshots st) scope = None \<Longrightarrow> run st scope t = Inl UnknownScope"
    and moves: "store_ok st \<Longrightarrow> admissible scope \<Longrightarrow> bt_get (st_snapshots st) scope = Some p \<Longrightarrow>
      store_moves st scope (step scope t) t (run st scope t)"
begin

lemma fails_only_exhausted:
  assumes "store_ok st" "admissible scope" "bt_get (st_snapshots st) scope = Some p"
    and "run st scope t = Inl e"
  shows "e = SequenceExhausted \<and> st_sequence st = u64_max"
  using moves [OF assms(1-3), of t] assms(4) by (auto simp: store_moves_def split: if_splits)

lemma total_below_limit:
  assumes "store_ok st" "admissible scope" "bt_get (st_snapshots st) scope = Some p"
    and "st_sequence st < u64_max"
  shows "\<exists>st' b. run st scope t = Inr (st', b)"
  using fails_only_exhausted [OF assms(1-3)] assms(4) by (cases "run st scope t") fastforce+

lemma refines:
  assumes "store_ok st" "admissible scope" "run st scope t = Inr (st', b)"
  obtains p where "bt_get (st_snapshots st) scope = Some p" "store_ok st'"
    "bt_get (st_snapshots st') = (bt_get (st_snapshots st))(scope \<mapsto> step scope t p)"
    "b \<longleftrightarrow> step scope t p \<noteq> p" "st_sequence st' = st_sequence st + (if b then 1 else 0)"
    "\<not> b \<Longrightarrow> st' = st"
proof (cases "bt_get (st_snapshots st) scope")
  case None
  with unknown assms(3) show ?thesis by simp
next
  case (Some p)
  from moves [OF assms(1,2) Some, of t] Some assms(1,3) show ?thesis
    by (intro that [of p]) (auto simp: store_moves_def fun_eq_iff split: if_splits)
qed

lemma keeps_scopes:
  "store_ok st \<Longrightarrow> admissible scope \<Longrightarrow> run st scope t = Inr (st', b) \<Longrightarrow>
     bt_contains (st_snapshots st') k = bt_contains (st_snapshots st) k"
  by (erule (2) refines) (auto simp: bt_contains_def)

end

text \<open>
  The functional content of the transitions: the snapshot that replaces the current one.
\<close>

definition phase_step :: "refresh_phase \<Rightarrow> provider_snapshot \<Rightarrow> provider_snapshot" where
  "phase_step phase p = (case p of Ready s \<Rightarrow> Ready (s\<lparr>rd_refresh := phase\<rparr>) | _ \<Rightarrow> p)"

definition success_sample :: "usage_sample \<Rightarrow> timestamp \<Rightarrow> provider_snapshot \<Rightarrow> usage_sample" where
  "success_sample sample t p =
     (let filled = (case snapshot_last_known_good p of
          Some cached \<Rightarrow> (case backfilling_reset_times sample cached t of Inr r \<Rightarrow> r | Inl _ \<Rightarrow> sample)
        | None \<Rightarrow> sample)
      in case snapshot_local_history p of Some history \<Rightarrow> attach_history history filled | None \<Rightarrow> filled)"

definition success_step :: "usage_sample \<Rightarrow> timestamp \<Rightarrow> provider_snapshot \<Rightarrow> provider_snapshot" where
  "success_step sample t p =
     Ready \<lparr>rd_local_history = snapshot_local_history p, rd_last_known_good = success_sample sample t p,
            rd_freshness = Fresh, rd_refresh = Idle, rd_error = None\<rparr>"

definition failure_step ::
    "classified_error \<Rightarrow> account_scope \<Rightarrow> timestamp \<Rightarrow> provider_snapshot \<Rightarrow> provider_snapshot" where
  "failure_step error scope t p =
     (case snapshot_last_known_good p of
       Some sample \<Rightarrow>
         if ce_retry error = Automatic
         then Ready \<lparr>rd_local_history = snapshot_local_history p, rd_last_known_good = sample,
                     rd_freshness = Stale (max t (us_fetched_at sample)), rd_refresh = Idle,
                     rd_error = Some error\<rparr>
         else with_local_history (snapshot_unavailable scope error) (snapshot_local_history p)
     | None \<Rightarrow> with_local_history (snapshot_unavailable scope error) (snapshot_local_history p))"

definition history_step :: "local_history_snapshot \<Rightarrow> provider_snapshot \<Rightarrow> provider_snapshot" where
  "history_step history p =
     with_local_history
       (case p of Ready s \<Rightarrow> Ready (s\<lparr>rd_last_known_good := attach_history history (rd_last_known_good s)\<rparr>)
        | _ \<Rightarrow> p) (Some history)"

definition history_state_step :: "local_history_state \<Rightarrow> provider_snapshot \<Rightarrow> provider_snapshot" where
  "history_state_step state p =
     (case snapshot_local_history p of None \<Rightarrow> p | Some h \<Rightarrow> history_step (h\<lparr>lh_state := state\<rparr>) p)"

definition cost_step :: "timestamp \<Rightarrow> cost_usage \<Rightarrow> provider_snapshot \<Rightarrow> provider_snapshot" where
  "cost_step base usage p =
     (case p of
       Ready s \<Rightarrow> if us_fetched_at (rd_last_known_good s) = base
                  then Ready (s\<lparr>rd_last_known_good := with_cost_usage (rd_last_known_good s) usage\<rparr>) else p
     | _ \<Rightarrow> p)"

section \<open>The transitions meet the contract\<close>

lemma store_moves_cong:
  "store_moves st scope f t r \<Longrightarrow> bt_get (st_snapshots st) scope = Some p \<Longrightarrow> f p = g p \<Longrightarrow>
     store_moves st scope g t r"
  by (auto simp: store_moves_def split: if_splits)

lemma store_moves_idle:
  "bt_get (st_snapshots st) scope = Some p \<Longrightarrow> f p = p \<Longrightarrow> store_moves st scope f t (Inr (st, False))"
  by (simp add: store_moves_def)

lemma store_ok_filed:
  "store_ok st \<Longrightarrow> bt_get (st_snapshots st) scope = Some p \<Longrightarrow> snapshot_scope p = scope \<and> snapshot_ok p"
  by (simp add: store_ok_def filed_ok_def)

text \<open>A publication that is the image of the current snapshot.\<close>

lemma publish_moves_to:
  assumes "store_ok st" "bt_get (st_snapshots st) scope = Some p"
    and "snapshot_scope q = scope" "snapshot_ok q" "f p = keep_history p q"
  shows "store_moves st scope f t (publish_change st scope q t)"
  using publish_change_moves [OF assms(1-4)] assms(2) by (rule store_moves_cong) (simp add: assms(5))

lemma ready_again:
  "ready_ok s \<Longrightarrow> us_fetched_at sample = us_fetched_at (rd_last_known_good s) \<Longrightarrow>
     snapshot_ready sample (rd_freshness s) phase (rd_error s) =
       Inr (Ready \<lparr>rd_local_history = None, rd_last_known_good = sample,
                   rd_freshness = rd_freshness s, rd_refresh = phase, rd_error = rd_error s\<rparr>)"
  by (auto simp: snapshot_ready_Inr ready_ok_def split: freshness.splits)

lemma attach_history_simps [simp]:
  "us_scope (attach_history h s) = us_scope s"
  "us_fetched_at (attach_history h s) = us_fetched_at s"
  "us_cost_usage (attach_history h s) = lh_data h"
  by (cases "lh_data h"; simp add: attach_history_def with_cost_usage_def without_cost_usage_def)+

lemma with_cost_usage_simps [simp]:
  "us_scope (with_cost_usage s u) = us_scope s"
  "us_fetched_at (with_cost_usage s u) = us_fetched_at s"
  by (simp_all add: with_cost_usage_def)

interpretation phase: store_transition
    "\<lambda>st scope t. set_ready_refresh_phase st scope phase t" "\<lambda>scope t. phase_step phase" "\<lambda>scope. True"
  for phase
proof
  fix st scope t p
  assume st: "store_ok st" and p: "bt_get (st_snapshots st) scope = Some p"
  note ok = store_ok_filed [OF st p]
  show "store_moves st scope (phase_step phase) t (set_ready_refresh_phase st scope phase t)"
  proof (cases p)
    case (Ready s)
    let ?q = "Snapshot.Ready \<lparr>rd_local_history = None, rd_last_known_good = rd_last_known_good s,
        rd_freshness = rd_freshness s, rd_refresh = phase, rd_error = rd_error s\<rparr>"
    have "store_moves st scope (phase_step phase) t (publish_change st scope ?q t)"
      using st p by (rule publish_moves_to)
        (use ok Ready in \<open>auto simp: phase_step_def keep_history_def ready_ok_def split: freshness.splits\<close>)
    with ok Ready p show ?thesis
      by (simp add: set_ready_refresh_phase_def require_scope_def ready_again)
  qed (use p in \<open>auto simp: set_ready_refresh_phase_def require_scope_def phase_step_def
      intro: store_moves_idle\<close>)
qed (simp add: set_ready_refresh_phase_def require_scope_def)

interpretation success: store_transition
    "\<lambda>st scope t. apply_success st scope sample t" "\<lambda>scope t. success_step sample t"
    "\<lambda>scope. us_scope sample = scope"
  for sample
proof
  fix st scope t p
  assume st: "store_ok st" and sc: "us_scope sample = scope"
    and p: "bt_get (st_snapshots st) scope = Some p"
  note ok = store_ok_filed [OF st p]
  have cached: "us_scope c = scope" if "snapshot_last_known_good p = Some c" for c
    using that ok by (cases p) auto
  let ?s = "success_sample sample t p"
  let ?q = "Ready \<lparr>rd_local_history = None, rd_last_known_good = ?s,
      rd_freshness = Fresh, rd_refresh = Idle, rd_error = None\<rparr>"
  have scope: "us_scope ?s = scope"
    using sc by (auto simp: success_sample_def Let_def backfilling_reset_times_def split: option.splits)
  have "apply_success st scope sample t = publish_change st scope ?q t"
    using sc cached p by (auto simp: apply_success_def require_scope_def snapshot_ready_def
        success_sample_def Let_def backfilling_reset_times_def split: option.splits)
  moreover have "store_moves st scope (success_step sample t) t (publish_change st scope ?q t)"
    using st p by (rule publish_moves_to)
      (use scope in \<open>auto simp: success_step_def keep_history_def ready_ok_def\<close>)
  ultimately show "store_moves st scope (success_step sample t) t (apply_success st scope sample t)"
    by simp
qed (simp add: apply_success_def require_scope_def)

interpretation failure: store_transition
    "\<lambda>st scope t. apply_failure st scope error t" "\<lambda>scope t. failure_step error scope t" "\<lambda>scope. True"
  for error
proof
  fix st scope t p
  assume st: "store_ok st" and p: "bt_get (st_snapshots st) scope = Some p"
  note ok = store_ok_filed [OF st p]
  show "store_moves st scope (failure_step error scope t) t (apply_failure st scope error t)"
  proof (cases "ce_retry error = Automatic \<and> (\<exists>c. snapshot_last_known_good p = Some c)")
    case True
    then obtain s where s: "p = Ready s" by (cases p) auto
    let ?q = "Ready \<lparr>rd_local_history = None, rd_last_known_good = rd_last_known_good s,
        rd_freshness = Stale (max t (us_fetched_at (rd_last_known_good s))), rd_refresh = Idle,
        rd_error = Some error\<rparr>"
    have "store_moves st scope (failure_step error scope t) t (publish_change st scope ?q t)"
      using st p by (rule publish_moves_to)
        (use ok s True in \<open>auto simp: failure_step_def keep_history_def ready_ok_def\<close>)
    with ok s True p show ?thesis
      by (simp add: apply_failure_def require_scope_def with_error_overlay_def snapshot_ready_def Let_def)
  next
    case False
    let ?q = "snapshot_unavailable scope error"
    have "store_moves st scope (failure_step error scope t) t (publish_change st scope ?q t)"
      using st p by (rule publish_moves_to)
        (use False in \<open>auto simp: failure_step_def keep_history_def split: option.splits\<close>)
    with False p show ?thesis
      by (auto simp: apply_failure_def require_scope_def split: option.splits)
  qed
qed (simp add: apply_failure_def require_scope_def)

interpretation history: store_transition
    "\<lambda>st scope t. apply_local_history st scope history t" "\<lambda>scope t. history_step history" "\<lambda>scope. True"
  for history
proof
  fix st scope t p
  assume st: "store_ok st" and p: "bt_get (st_snapshots st) scope = Some p"
  note ok = store_ok_filed [OF st p]
  let ?n = "case p of
      Ready s \<Rightarrow> Snapshot.Ready \<lparr>rd_local_history = None,
        rd_last_known_good = attach_history history (rd_last_known_good s),
        rd_freshness = rd_freshness s, rd_refresh = rd_refresh s, rd_error = rd_error s\<rparr>
    | _ \<Rightarrow> p"
  have "apply_local_history st scope history t =
      publish_change st scope (with_local_history ?n (Some history)) t"
    using ok p by (cases p) (simp_all add: apply_local_history_def require_scope_def ready_again)
  moreover have "store_moves st scope (history_step history) t
      (publish_change st scope (with_local_history ?n (Some history)) t)"
    using st p by (rule publish_moves_to)
      (use ok in \<open>auto simp: history_step_def keep_history_def ready_ok_def
        split: provider_snapshot.splits freshness.splits\<close>)
  ultimately show "store_moves st scope (history_step history) t (apply_local_history st scope history t)"
    by simp
qed (simp add: apply_local_history_def require_scope_def)

interpretation history_state: store_transition
    "\<lambda>st scope t. map_ok (\<lambda>st'. (st', st' \<noteq> st)) (mark_history_state st scope state t)"
    "\<lambda>scope t. history_state_step state" "\<lambda>scope. True"
  for state
proof
  fix st scope t p
  assume st: "store_ok st" and p: "bt_get (st_snapshots st) scope = Some p"
  show "store_moves st scope (history_state_step state) t
      (map_ok (\<lambda>st'. (st', st' \<noteq> st)) (mark_history_state st scope state t))"
  proof (cases "snapshot_local_history p")
    case None
    with p show ?thesis
      by (auto simp: mark_history_state_def require_scope_def history_state_step_def
          intro: store_moves_idle)
  next
    case (Some h)
    have "store_moves st scope (history_step (h\<lparr>lh_state := state\<rparr>)) t
        (apply_local_history st scope (h\<lparr>lh_state := state\<rparr>) t)"
      using history.moves [OF st _ p] by simp
    with p Some show ?thesis
      by (auto simp: mark_history_state_def require_scope_def history_state_step_def store_moves_def
          split: if_splits)
  qed
qed (simp add: mark_history_state_def require_scope_def)

interpretation cost: store_transition
    "\<lambda>st scope t. apply_cost_usage st scope base usage t" "\<lambda>scope t. cost_step base usage" "\<lambda>scope. True"
  for base usage
proof
  fix st scope t p
  assume st: "store_ok st" and p: "bt_get (st_snapshots st) scope = Some p"
  note ok = store_ok_filed [OF st p]
  show "store_moves st scope (cost_step base usage) t (apply_cost_usage st scope base usage t)"
  proof (cases "\<exists>s. p = Ready s \<and> us_fetched_at (rd_last_known_good s) = base")
    case True
    then obtain s where s: "p = Ready s" "us_fetched_at (rd_last_known_good s) = base" by auto
    let ?q = "Ready \<lparr>rd_local_history = None,
        rd_last_known_good = with_cost_usage (rd_last_known_good s) usage,
        rd_freshness = rd_freshness s, rd_refresh = rd_refresh s, rd_error = rd_error s\<rparr>"
    have "store_moves st scope (cost_step base usage) t (publish_change st scope ?q t)"
      using st p by (rule publish_moves_to)
        (use ok s in \<open>auto simp: cost_step_def keep_history_def ready_ok_def split: freshness.splits\<close>)
    with ok s p show ?thesis
      by (simp add: apply_cost_usage_def require_scope_def ready_again)
  qed (use p in \<open>auto simp: apply_cost_usage_def require_scope_def cost_step_def
      intro: store_moves_idle split: provider_snapshot.splits\<close>)
qed (simp add: apply_cost_usage_def require_scope_def)

section \<open>Histories of transitions\<close>

text \<open>The calls the actor makes on its store, and their run in order.\<close>

datatype store_op =
    MarkScheduled account_scope timestamp | MarkRefreshing account_scope timestamp
  | ApplySuccess account_scope usage_sample | ApplyFailure account_scope classified_error
  | ApplyLocalHistory account_scope local_history_snapshot
  | MarkHistoryState account_scope local_history_state
  | ApplyCostUsage account_scope timestamp cost_usage

fun op_scope :: "store_op \<Rightarrow> account_scope" where
  "op_scope (MarkScheduled a _) = a"
| "op_scope (MarkRefreshing a _) = a"
| "op_scope (ApplySuccess a _) = a"
| "op_scope (ApplyFailure a _) = a"
| "op_scope (ApplyLocalHistory a _) = a"
| "op_scope (MarkHistoryState a _) = a"
| "op_scope (ApplyCostUsage a _ _) = a"

fun op_admissible :: "store_op \<Rightarrow> bool" where
  "op_admissible (ApplySuccess a sample) = (us_scope sample = a)"
| "op_admissible _ = True"

fun run_op :: "store_op \<Rightarrow> timestamp \<Rightarrow> snapshot_store \<Rightarrow> (snapshot_store, snapshot_store_error) result" where
  "run_op (MarkScheduled a due) t st = map_ok fst (mark_scheduled st a due t)"
| "run_op (MarkRefreshing a started) t st = map_ok fst (mark_refreshing st a started t)"
| "run_op (ApplySuccess a sample) t st = map_ok fst (apply_success st a sample t)"
| "run_op (ApplyFailure a error) t st = map_ok fst (apply_failure st a error t)"
| "run_op (ApplyLocalHistory a h) t st = map_ok fst (apply_local_history st a h t)"
| "run_op (MarkHistoryState a state) t st = mark_history_state st a state t"
| "run_op (ApplyCostUsage a base usage) t st = map_ok fst (apply_cost_usage st a base usage t)"

fun op_step :: "store_op \<Rightarrow> timestamp \<Rightarrow> provider_snapshot \<Rightarrow> provider_snapshot" where
  "op_step (MarkScheduled a due) t = phase_step (Scheduled due)"
| "op_step (MarkRefreshing a started) t = phase_step (Refreshing started)"
| "op_step (ApplySuccess a sample) t = success_step sample t"
| "op_step (ApplyFailure a error) t = failure_step error a t"
| "op_step (ApplyLocalHistory a h) t = history_step h"
| "op_step (MarkHistoryState a state) t = history_state_step state"
| "op_step (ApplyCostUsage a base usage) t = cost_step base usage"

fun run_ops ::
    "(store_op \<times> timestamp) list \<Rightarrow> snapshot_store \<Rightarrow> (snapshot_store, snapshot_store_error) result" where
  "run_ops [] st = Inr st"
| "run_ops ((p, t) # ops) st = and_then (run_op p t st) (run_ops ops)"

text \<open>The same history on the abstract state, a map from scopes to snapshots.\<close>

fun spec_ops ::
    "(store_op \<times> timestamp) list \<Rightarrow> (account_scope \<rightharpoonup> provider_snapshot) \<Rightarrow>
     (account_scope \<rightharpoonup> provider_snapshot)" where
  "spec_ops [] m = m"
| "spec_ops ((p, t) # ops) m = spec_ops ops (m(op_scope p := map_option (op_step p t) (m (op_scope p))))"

abbreviation store_abs :: "snapshot_store \<Rightarrow> account_scope \<rightharpoonup> provider_snapshot" where
  "store_abs st \<equiv> bt_get (st_snapshots st)"

text \<open>One call: what it does, and the only way it can fail.\<close>

lemma run_op_moves:
  assumes st: "store_ok st" and adm: "op_admissible p" and q: "store_abs st (op_scope p) = Some q"
  shows "\<exists>r. run_op p t st = map_ok fst r \<and> store_moves st (op_scope p) (op_step p t) t r"
proof (cases p)
  case (MarkScheduled a due)
  with q show ?thesis using phase.moves [OF st] by (auto simp: mark_scheduled_def)
next
  case (MarkRefreshing a started)
  with q show ?thesis using phase.moves [OF st] by (auto simp: mark_refreshing_def)
next
  case (ApplySuccess a sample)
  with q adm show ?thesis using success.moves [OF st] by auto
next
  case (ApplyFailure a error)
  with q show ?thesis using failure.moves [OF st] by auto
next
  case (ApplyLocalHistory a h)
  with q show ?thesis using history.moves [OF st] by auto
next
  case (MarkHistoryState a state)
  have "map_ok fst (map_ok (\<lambda>st'. (st', st' \<noteq> st)) r) = r" for r :: "(snapshot_store, snapshot_store_error) result"
    by (cases r) simp_all
  with MarkHistoryState q show ?thesis using history_state.moves [OF st] by (metis op_scope.simps(6) op_step.simps(6) run_op.simps(6) TrueI)
next
  case (ApplyCostUsage a base usage)
  with q show ?thesis using cost.moves [OF st] by auto
qed

lemma run_op_effect:
  assumes "store_ok st" "op_admissible p" "store_abs st (op_scope p) = Some q"
  shows "if op_step p t q \<noteq> q \<and> st_sequence st = u64_max then run_op p t st = Inl SequenceExhausted
    else \<exists>st'. run_op p t st = Inr st' \<and>
      (if op_step p t q = q then st' = st
       else store_ok st' \<and> st_sequence st' = st_sequence st + 1 \<and>
            st_snapshots st' = bt_insert (op_scope p) (op_step p t q) (st_snapshots st))"
  using run_op_moves [OF assms, of t] assms(3) by (auto simp: store_moves_def split: if_splits)

lemma run_op_unknown: "store_abs st (op_scope p) = None \<Longrightarrow> run_op p t st = Inl UnknownScope"
  by (cases p) (simp_all add: mark_scheduled_def mark_refreshing_def phase.unknown success.unknown
      failure.unknown history.unknown cost.unknown mark_history_state_def require_scope_def)

lemma run_op_refines:
  assumes "store_ok st" "op_admissible p" "run_op p t st = Inr st'"
  shows "store_ok st' \<and> (st' = st \<or> st_sequence st' = Suc (st_sequence st)) \<and>
    store_abs st' = (store_abs st)(op_scope p := map_option (op_step p t) (store_abs st (op_scope p)))"
proof (cases "store_abs st (op_scope p)")
  case None
  with run_op_unknown assms(3) show ?thesis by simp
next
  case (Some q)
  from run_op_effect [OF assms(1,2) Some, of t] assms(1,3) Some show ?thesis
    by (auto simp: fun_eq_iff split: if_splits)
qed

text \<open>
  C6: the store refines a map from scopes to snapshots. After any history of successful
  transitions, the stored snapshots are those obtained by applying the transitions' functions to
  the scopes they name, one after the other; the publication readers see holds exactly these
  snapshots, in scope order, under the store's sequence number; and the sequence number never
  decreases, staying equal only if nothing at all was published.
\<close>

theorem store_refines_map:
  assumes "store_ok st" and "\<forall>(p, t)\<in>set ops. op_admissible p" and "run_ops ops st = Inr st'"
  shows "store_abs st' = spec_ops ops (store_abs st) \<and>
    en_snapshots (pb_envelope (st_publication st')) = bt_values (st_snapshots st') \<and>
    pb_sequence (st_publication st') = st_sequence st' \<and>
    st_sequence st \<le> st_sequence st' \<and> (st_sequence st' = st_sequence st \<longrightarrow> st' = st) \<and> store_ok st'"
  using assms
proof (induction ops arbitrary: st)
  case Nil
  then show ?case by (simp add: store_ok_def)
next
  case (Cons e ops)
  obtain p t where e: "e = (p, t)" by force
  with Cons.prems(3) obtain s where s: "run_op p t st = Inr s" "run_ops ops s = Inr st'"
    by (auto simp: result_simps)
  have "op_admissible p" using Cons.prems(2) e by simp
  note one = run_op_refines [OF Cons.prems(1) this s(1)]
  then have "store_ok s" "\<forall>(p, t)\<in>set ops. op_admissible p" using Cons.prems(2) by auto
  note rest = Cons.IH [OF this s(2)]
  have "store_abs st' = spec_ops (e # ops) (store_abs st)"
    using one rest unfolding e spec_ops.simps by metis
  moreover have "st_sequence st \<le> st_sequence s" "st_sequence s = st_sequence st \<Longrightarrow> s = st"
    using one by auto
  with rest have "st_sequence st \<le> st_sequence st'" "st_sequence st' = st_sequence st \<Longrightarrow> st' = st"
    by (metis le_trans, metis le_antisym)
  ultimately show ?case using rest by blast
qed

theorem store_refines_map_witness:
  "let a = AccountScope Codex (lit ''default'') (lit ''me'');
       st = store_of (bt_insert a (snapshot_loading a) bt_empty) 3;
       ops = [(ApplySuccess a (minimal_sample a 5), 6), (ApplyFailure a (classified_error_new Network), 8)]
   in \<exists>st'. run_ops ops st = Inr st' \<and> store_abs st' = spec_ops ops (store_abs st)"
proof -
  let ?a = "AccountScope Codex (lit ''default'') (lit ''me'')"
  let ?st = "store_of (bt_insert ?a (snapshot_loading ?a) bt_empty) 3"
  let ?ops = "[(ApplySuccess ?a (minimal_sample ?a 5), 6), (ApplyFailure ?a (classified_error_new Network), 8)]"
  have ok: "store_ok ?st" using one_scope_ok [of "snapshot_loading ?a" 3] by simp
  have adm: "\<forall>(p, t)\<in>set ?ops. op_admissible p" by (simp add: minimal_sample_def)
  obtain s where s: "run_op (ApplySuccess ?a (minimal_sample ?a 5)) 6 ?st = Inr s"
    "store_ok s" "st_sequence s \<le> 2" "store_abs s ?a \<noteq> None"
    using run_op_effect [OF ok, of "ApplySuccess ?a (minimal_sample ?a 5)" "snapshot_loading ?a" 6]
    by (auto simp: minimal_sample_def u64_max_def success_step_def snapshot_loading_def)
  then obtain st' where "run_op (ApplyFailure ?a (classified_error_new Network)) 8 s = Inr st'"
    using run_op_effect [OF s(2), of "ApplyFailure ?a (classified_error_new Network)"]
    by (auto simp: u64_max_def split: if_splits)
  with s have run: "run_ops ?ops ?st = Inr st'" by simp
  from store_refines_map [OF ok adm run] run show ?thesis unfolding Let_def by blast
qed



section \<open>Construction\<close>

text \<open>The reading a retained list restores for a scope: the last one it holds.\<close>

fun retained_reading :: "provider_snapshot list \<Rightarrow> account_scope \<Rightarrow> usage_sample option" where
  "retained_reading [] scope = None"
| "retained_reading (p # ps) scope =
     opt_or (retained_reading ps scope)
       (if snapshot_scope p = scope then snapshot_last_known_good p else None)"

definition initial_snapshot :: "provider_snapshot list \<Rightarrow> timestamp \<Rightarrow> account_scope \<Rightarrow> provider_snapshot" where
  "initial_snapshot retained t scope =
     (case retained_reading retained scope of
       None \<Rightarrow> snapshot_loading scope
     | Some sample \<Rightarrow> Ready \<lparr>rd_local_history = None, rd_last_known_good = sample,
         rd_freshness = Stale (max t (us_fetched_at sample)), rd_refresh = Idle, rd_error = None\<rparr>)"

lemma insert_loading_result:
  "insert_loading scopes m =
     (if distinct scopes \<and> (\<forall>k\<in>set scopes. \<not> bt_contains m k)
      then Inr (fold (\<lambda>k. bt_insert k (snapshot_loading k)) scopes m) else Inl DuplicateScope)"
  by (induction scopes arbitrary: m) auto

lemma restore_retained_total:
  "\<exists>m'. restore_retained retained t m = Inr m' \<and>
     (\<forall>k. bt_get m' k = (case bt_get m k of
        None \<Rightarrow> None
      | Some p \<Rightarrow> Some (if retained_reading retained k = None then p else initial_snapshot retained t k)))"
proof (induction retained arbitrary: m)
  case (Cons r retained)
  let ?k = "snapshot_scope r"
  show ?case
  proof (cases "snapshot_last_known_good r = None \<or> \<not> bt_contains m ?k")
    case True
    then have skip: "restore_retained (r # retained) t m = restore_retained retained t m"
      by (auto simp: Let_def split: option.splits)
    have same: "retained_reading (r # retained) k = retained_reading retained k" if "bt_get m k = Some q" for k q
      using True that by (auto simp: bt_contains_def opt_or_def split: option.splits)
    then have "initial_snapshot (r # retained) t k = initial_snapshot retained t k" if "bt_get m k = Some q" for k q
      using that by (simp add: initial_snapshot_def del: retained_reading.simps)
    with same have "(case bt_get m k of None \<Rightarrow> None
        | Some p \<Rightarrow> Some (if retained_reading (r # retained) k = None then p else initial_snapshot (r # retained) t k))
      = (case bt_get m k of None \<Rightarrow> None
        | Some p \<Rightarrow> Some (if retained_reading retained k = None then p else initial_snapshot retained t k))" for k
      by (cases "bt_get m k") (simp_all del: retained_reading.simps)
    then show ?thesis
      unfolding skip using Cons.IH [of m] by simp
  next
    case False
    then obtain s where s: "snapshot_last_known_good r = Some s" by auto
    let ?q = "Ready \<lparr>rd_local_history = None, rd_last_known_good = s,
         rd_freshness = Stale (max t (us_fetched_at s)), rd_refresh = Idle, rd_error = None\<rparr>"
    have put: "restore_retained (r # retained) t m = restore_retained retained t (bt_insert ?k ?q m)"
      using False s by (simp add: Let_def snapshot_ready_def)
    have "(case bt_get (bt_insert ?k ?q m) k of None \<Rightarrow> None
        | Some p \<Rightarrow> Some (if retained_reading retained k = None then p else initial_snapshot retained t k))
      = (case bt_get m k of None \<Rightarrow> None
        | Some p \<Rightarrow> Some (if retained_reading (r # retained) k = None then p else initial_snapshot (r # retained) t k))" for k
      using False s
      by (cases "bt_get m k"; cases "retained_reading retained k"; cases "k = ?k")
        (simp_all add: initial_snapshot_def bt_contains_def)
    then show ?thesis
      unfolding put using Cons.IH [of "bt_insert ?k ?q m"] by simp
  qed
qed (simp add: option.case_eq_if)

lemma retained_reading_scope: "retained_reading retained k = Some s \<Longrightarrow> us_scope s = k"
proof (induction retained)
  case (Cons r retained)
  then show ?case by (cases r) (auto simp: opt_or_def split: option.splits if_splits)
qed simp

lemma store_new_eq:
  assumes "distinct scopes"
  obtains m where "filed_ok m" "bt_len m = length scopes"
    "bt_get m = (\<lambda>k. if k \<in> set scopes then Some (initial_snapshot retained t k) else None)"
    "store_new_with_retained scopes retained t =
      (if length scopes \<le> MAX_SNAPSHOTS_PER_ENVELOPE then Inr (store_of m t)
       else Inl (SnapshotInvariant (LimitExceeded ''snapshots'' MAX_SNAPSHOTS_PER_ENVELOPE)))"
proof -
  let ?m = "fold (\<lambda>k. bt_insert k (snapshot_loading k)) scopes bt_empty"
  have m: "bt_get ?m k = (if k \<in> set scopes then Some (snapshot_loading k) else None)" for k
    using bt.get_put_all [OF assms, of "\<lambda>k. snapshot_loading k" bt_empty k] by simp
  obtain m' where m': "restore_retained retained t ?m = Inr m'"
    and restored: "\<And>k. bt_get m' k = (case bt_get ?m k of
        None \<Rightarrow> None
      | Some p \<Rightarrow> Some (if retained_reading retained k = None then p else initial_snapshot retained t k))"
    using restore_retained_total [of retained t ?m] by blast
  have get: "bt_get m' k = (if k \<in> set scopes then Some (initial_snapshot retained t k) else None)" for k
    unfolding restored m by (simp add: initial_snapshot_def)
  have "{k. bt_contains m' k} = set scopes" by (auto simp: bt_contains_def get)
  then have len: "bt_len m' = length scopes" by (simp add: bt_len_card distinct_card assms)
  have filed: "filed_ok m'"
    using retained_reading_scope
    by (auto simp: filed_ok_def get initial_snapshot_def ready_ok_def split: if_splits option.splits)
  then have "store_new_with_retained scopes retained t =
      (if length scopes \<le> MAX_SNAPSHOTS_PER_ENVELOPE then Inr (store_of m' t)
       else Inl (SnapshotInvariant (LimitExceeded ''snapshots'' MAX_SNAPSHOTS_PER_ENVELOPE)))"
    using assms len by (simp add: store_new_with_retained_def insert_loading_result m'
        build_envelope_filed store_of_def)
  with that filed len get show ?thesis by (simp add: fun_eq_iff)
qed

lemma store_new_duplicate:
  "\<not> distinct scopes \<Longrightarrow> store_new_with_retained scopes retained t = Inl DuplicateScope"
  by (simp add: store_new_with_retained_def insert_loading_result)

text \<open>
  the initial store. Construction is refused exactly for a repeated scope or for more than
  256 scopes; otherwise the store satisfies its invariant under sequence number one and holds, for
  exactly the registered scopes, the loading state or the last retained reading of that same
  scope, marked stale no earlier than it was fetched and without its former error, phase and
  history.
\<close>

theorem store_construction:
  "case store_new_with_retained scopes retained t of
     Inl e \<Rightarrow> (e = DuplicateScope \<and> \<not> distinct scopes) \<or>
       (e = SnapshotInvariant (LimitExceeded ''snapshots'' MAX_SNAPSHOTS_PER_ENVELOPE) \<and>
        MAX_SNAPSHOTS_PER_ENVELOPE < length scopes)
   | Inr st \<Rightarrow> distinct scopes \<and> length scopes \<le> MAX_SNAPSHOTS_PER_ENVELOPE \<and>
       store_ok st \<and> st_sequence st = 1 \<and>
       store_abs st = (\<lambda>k. if k \<in> set scopes then Some (initial_snapshot retained t k) else None)"
proof (cases "distinct scopes")
  case True
  then obtain m where "filed_ok m" "bt_len m = length scopes"
    "bt_get m = (\<lambda>k. if k \<in> set scopes then Some (initial_snapshot retained t k) else None)"
    "store_new_with_retained scopes retained t =
      (if length scopes \<le> MAX_SNAPSHOTS_PER_ENVELOPE then Inr (store_of m t)
       else Inl (SnapshotInvariant (LimitExceeded ''snapshots'' MAX_SNAPSHOTS_PER_ENVELOPE)))"
    by (rule store_new_eq)
  with True show ?thesis by (auto simp: store_of_ok)
qed (simp add: store_new_duplicate)

section \<open>Success and failure\<close>

lemma attach_history_update: "attach_history h s = s\<lparr>us_cost_usage := lh_data h\<rparr>"
  by (cases "lh_data h") (simp_all add: attach_history_def with_cost_usage_def without_cost_usage_def)

lemma same_but_lanes_cost: "same_but_lanes r s \<Longrightarrow> us_cost_usage r = us_cost_usage s"
  unfolding same_but_lanes_def by (cases r; cases s) simp

lemma filled_sample:
  assumes "\<And>c. snapshot_last_known_good p = Some c \<Longrightarrow> us_scope c = us_scope sample"
  shows "\<exists>r. same_but_lanes r sample \<and>
    success_sample sample t p = (case snapshot_local_history p of
      Some h \<Rightarrow> r\<lparr>us_cost_usage := lh_data h\<rparr> | None \<Rightarrow> r) \<and>
    us_primary r = map_option (\<lambda>w. backfilling_reset_time w
      (Option.bind (snapshot_last_known_good p) us_primary) t) (us_primary sample)"
proof (cases "snapshot_last_known_good p")
  case None
  have "backfilling_reset_time w None t = w" for w by (simp add: backfilling_reset_time_def)
  with None show ?thesis
    by (intro exI [of _ sample]; cases "snapshot_local_history p")
      (simp_all add: same_but_lanes_def success_sample_def attach_history_update option.map_ident)
next
  case (Some c)
  have "us_scope sample = us_scope c" using assms [OF Some] by simp
  then obtain r where r: "backfilling_reset_times sample c t = Inr r"
    by (simp add: backfilling_reset_times_def)
  moreover have "us_primary r = map_option (\<lambda>w. backfilling_reset_time w (us_primary c) t) (us_primary sample)"
    using r \<open>us_scope sample = us_scope c\<close> by (auto simp: backfilling_reset_times_def)
  ultimately show ?thesis
    using Some backfill_same_but_lanes [OF r]
    by (intro exI [of _ r]; cases "snapshot_local_history p")
      (simp_all add: success_sample_def attach_history_update)
qed

text \<open>
  C7: a failed refresh. A transient error keeps the last good reading, the very same sample,
  marked stale since now or its fetch, whichever is later, and shows the error beside it. Any
  other error retires the reading, so data of a previous login never outlives it. Either way the
  local history stays and no other account is touched.
\<close>

theorem failure_overlays_or_retires:
  assumes "store_ok st" and "store_abs st scope = Some p" and "st_sequence st < u64_max"
  shows "\<exists>st' b q. apply_failure st scope error t = Inr (st', b) \<and> store_ok st' \<and>
    store_abs st' = (store_abs st)(scope \<mapsto> q) \<and> snapshot_error_of q = Some error \<and>
    snapshot_local_history q = snapshot_local_history p \<and>
    (case snapshot_last_known_good p of
      Some s \<Rightarrow> if ce_retry error = Automatic
        then snapshot_last_known_good q = Some s \<and>
             snapshot_freshness q = Some (Stale (max t (us_fetched_at s)))
        else snapshot_last_known_good q = None
    | None \<Rightarrow> snapshot_last_known_good q = None)"
proof -
  obtain st' b where run: "apply_failure st scope error t = Inr (st', b)"
    using failure.total_below_limit [OF assms(1) _ assms(2,3)] by blast
  obtain "store_ok st'" "store_abs st' = (store_abs st)(scope \<mapsto> failure_step error scope t p)"
    using failure.refines [OF assms(1) _ run] assms(2) by auto
  moreover have "snapshot_error_of (failure_step error scope t p) = Some error \<and>
      snapshot_local_history (failure_step error scope t p) = snapshot_local_history p"
    by (auto simp: failure_step_def split: option.splits)
  ultimately show ?thesis
    using run by (intro exI [of _ st'] exI [of _ b] exI [of _ "failure_step error scope t p"])
      (auto simp: failure_step_def split: option.splits)
qed

theorem failure_overlays_or_retires_witness:
  "let a = AccountScope Codex (lit ''default'') (lit ''me''); p = Ready \<lparr>rd_local_history = None, rd_last_known_good = minimal_sample a 5,
         rd_freshness = Fresh, rd_refresh = Idle, rd_error = None\<rparr>;
       st = store_of (bt_insert a p bt_empty) 6
   in \<exists>st' b q. apply_failure st a (classified_error_new AuthenticationExpired) 9 = Inr (st', b) \<and>
        store_abs st' a = Some q \<and> snapshot_last_known_good q = None"
proof -
  let ?a = "AccountScope Codex (lit ''default'') (lit ''me'')"
  let ?p = "Ready \<lparr>rd_local_history = None, rd_last_known_good = minimal_sample ?a 5,
         rd_freshness = Fresh, rd_refresh = Idle, rd_error = None\<rparr>"
  let ?st = "store_of (bt_insert ?a ?p bt_empty) 6"
  have sc: "snapshot_scope ?p = ?a" by (simp add: minimal_sample_def)
  have "store_ok ?st" using one_scope_ok [of ?p 6] unfolding sc by (simp add: ready_ok_def)
  moreover have "store_abs ?st ?a = Some ?p" "st_sequence ?st < u64_max" by (simp_all add: u64_max_def)
  ultimately show ?thesis
    using failure_overlays_or_retires [of ?st ?a ?p "classified_error_new AuthenticationExpired" 9]
    unfolding Let_def by (fastforce simp: classified_error_new_def classified_error_from_kind_def)
qed



end
