(* ===== verification/Scheduler.thy ===== *)
theory Scheduler
  imports Ordered_Map Domain_Values
begin

text \<open>
  The refresh scheduler (\<open>crates/runtime/src/scheduler.rs\<close>): cadences, reset boundaries projected
  from wall time to monotonic deadlines, and the triggers that become due. A clock reading is the
  paired wall and monotonic observation one operation works with.
\<close>

section \<open>Clock and deadlines\<close>

record clock_reading =
  wall_now :: timestamp
  monotonic_now :: instant

definition DEFAULT_NORMAL_CADENCE :: duration where "DEFAULT_NORMAL_CADENCE = from_mins 5"
definition DEFAULT_POPUP_CADENCE :: duration where "DEFAULT_POPUP_CADENCE = from_mins 2"
definition RESET_BOUNDARY_GRACE :: duration where "RESET_BOUNDARY_GRACE = from_secs 30"
definition RESET_BOUNDARY_MINIMUM_DELAY :: duration where "RESET_BOUNDARY_MINIMUM_DELAY = from_secs 5"

text \<open>
  Adding a duration to an instant saturates: when the sum is not representable a binary search over
  nanoseconds finds the largest representable one.
\<close>

function saturating_search :: "instant \<Rightarrow> nat \<Rightarrow> nat \<Rightarrow> instant \<Rightarrow> instant" where
  "saturating_search base lower upper best =
     (if lower \<le> upper then
        let middle = lower + (upper - lower) div 2 in
        case instant_checked_add base middle of
          Some candidate \<Rightarrow> saturating_search base (middle + 1) upper candidate
        | None \<Rightarrow> if middle = 0 then best else saturating_search base lower (middle - 1) best
      else best)"
  by pat_completeness auto
termination
  by (relation "measure (\<lambda>(base, lower, upper, best). upper + 1 - lower)") auto

declare saturating_search.simps [simp del]

definition saturating_instant_add :: "instant \<Rightarrow> duration \<Rightarrow> instant" where
  "saturating_instant_add base d =
     (case instant_checked_add base d of
       Some deadline \<Rightarrow> deadline
     | None \<Rightarrow> saturating_search base 0 d base)"

datatype schedule_error = WallDeltaOutOfRange

definition project_wall_deadline ::
    "timestamp \<Rightarrow> timestamp \<Rightarrow> instant \<Rightarrow> (instant, schedule_error) result" where
  "project_wall_deadline boundary wall mono_now =
     (if boundary \<le> wall then Inr mono_now
      else let delta = nat (boundary - wall) in
        if delta > duration_max then Inl WallDeltaOutOfRange
        else Inr (saturating_instant_add mono_now delta))"

definition reset_refresh_at :: "time_lib \<Rightarrow> timestamp \<Rightarrow> (timestamp, schedule_error) result" where
  "reset_refresh_at tlib boundary =
     ok_or WallDeltaOutOfRange
       (Option.bind (odt_checked_add tlib boundary (int RESET_BOUNDARY_GRACE)) (\<lambda>v.
          case timestamp_new tlib v of Inr t \<Rightarrow> Some t | Inl _ \<Rightarrow> None))"

definition project_reset_deadline ::
    "time_lib \<Rightarrow> timestamp \<Rightarrow> clock_reading \<Rightarrow> (instant, schedule_error) result" where
  "project_reset_deadline tlib boundary clock =
     and_then (reset_refresh_at tlib boundary) (\<lambda>refresh_at.
     and_then (project_wall_deadline refresh_at (wall_now clock) (monotonic_now clock)) (\<lambda>projected.
     Inr (max projected (saturating_instant_add (monotonic_now clock) RESET_BOUNDARY_MINIMUM_DELAY))))"

section \<open>Policy and state\<close>

record schedule_policy =
  normal_cadence :: duration
  popup_cadence :: duration

datatype cadence_kind = NormalCadence | PopupCadence
datatype schedule_policy_error = ZeroCadence cadence_kind | PopupNotShorter duration duration

definition validate_cadence :: "duration \<Rightarrow> cadence_kind \<Rightarrow> (unit, schedule_policy_error) result" where
  "validate_cadence d kind = (if d = 0 then Inl (ZeroCadence kind) else Inr ())"

definition schedule_policy_new :: "duration \<Rightarrow> duration \<Rightarrow> (schedule_policy, schedule_policy_error) result" where
  "schedule_policy_new normal popup =
     and_then (validate_cadence normal NormalCadence) (\<lambda>_.
     and_then (validate_cadence popup PopupCadence) (\<lambda>_.
     if popup \<ge> normal then Inl (PopupNotShorter normal popup)
     else Inr \<lparr>normal_cadence = normal, popup_cadence = popup\<rparr>))"

definition schedule_policy_default :: schedule_policy where
  "schedule_policy_default =
     \<lparr>normal_cadence = DEFAULT_NORMAL_CADENCE, popup_cadence = DEFAULT_POPUP_CADENCE\<rparr>"

datatype scheduled_refresh = Periodic | ResetBoundary account_scope timestamp

record reset_deadline =
  dl_boundary :: timestamp
  dl_due :: instant

record scheduler =
  sd_policy :: schedule_policy
  sd_normal_due :: instant
  sd_popup_due :: "instant option"
  sd_pending_resets :: "(account_scope, reset_deadline) btree_map"
  sd_last_fired_resets :: "(account_scope, timestamp) btree_map"

definition scheduler_new :: "schedule_policy \<Rightarrow> clock_reading \<Rightarrow> scheduler" where
  "scheduler_new policy clock =
     \<lparr>sd_policy = policy,
      sd_normal_due = saturating_instant_add (monotonic_now clock) (normal_cadence policy),
      sd_popup_due = None, sd_pending_resets = bt_empty, sd_last_fired_resets = bt_empty\<rparr>"

definition set_popup_open :: "scheduler \<Rightarrow> bool \<Rightarrow> clock_reading \<Rightarrow> scheduler \<times> bool" where
  "set_popup_open sd opened clock =
     (let was_open = sd_popup_due sd \<noteq> None;
          sd' = (if opened \<and> \<not> was_open
                 then sd\<lparr>sd_popup_due :=
                   Some (saturating_instant_add (monotonic_now clock) (popup_cadence (sd_policy sd)))\<rparr>
                 else if \<not> opened \<and> was_open then sd\<lparr>sd_popup_due := None\<rparr>
                 else sd)
      in (sd', was_open \<noteq> opened))"

definition schedule_reset ::
    "time_lib \<Rightarrow> scheduler \<Rightarrow> account_scope \<Rightarrow> timestamp \<Rightarrow> clock_reading \<Rightarrow>
     scheduler \<times> (bool, schedule_error) result" where
  "schedule_reset tlib sd scope boundary clock =
     (if is_some_and (\<lambda>last_fired. boundary \<le> last_fired) (bt_get (sd_last_fired_resets sd) scope) \<or>
         is_some_and (\<lambda>pending. dl_boundary pending = boundary) (bt_get (sd_pending_resets sd) scope)
      then (sd, Inr False)
      else case project_reset_deadline tlib boundary clock of
        Inl e \<Rightarrow> (sd, Inl e)
      | Inr due \<Rightarrow>
          (sd\<lparr>sd_pending_resets :=
             bt_insert scope \<lparr>dl_boundary = boundary, dl_due = due\<rparr> (sd_pending_resets sd)\<rparr>, Inr True))"

definition min_list_opt :: "'a::linorder list \<Rightarrow> 'a option" where
  "min_list_opt xs = (if xs = [] then None else Some (Min (set xs)))"

definition reconcile_reset_boundaries ::
    "time_lib \<Rightarrow> scheduler \<Rightarrow> account_scope \<Rightarrow> timestamp list \<Rightarrow> timestamp \<Rightarrow> clock_reading \<Rightarrow>
     scheduler \<times> (bool, schedule_error) result" where
  "reconcile_reset_boundaries tlib sd scope boundaries sample_fetched_at clock =
     (let last_fired = bt_get (sd_last_fired_resets sd) scope;
          next = min_list_opt
            (filter (\<lambda>boundary. case reset_refresh_at tlib boundary of
                 Inr refresh_at \<Rightarrow> sample_fetched_at < refresh_at | Inl _ \<Rightarrow> False)
              (filter (\<lambda>boundary. is_none_or (\<lambda>fired. boundary > fired) last_fired) boundaries)) in
      case next of
        None \<Rightarrow>
          (sd\<lparr>sd_pending_resets := bt_remove scope (sd_pending_resets sd)\<rparr>,
           Inr (bt_contains (sd_pending_resets sd) scope))
      | Some boundary \<Rightarrow>
          if is_some_and (\<lambda>pending. dl_boundary pending = boundary) (bt_get (sd_pending_resets sd) scope)
          then (sd, Inr False)
          else (case project_reset_deadline tlib boundary clock of
            Inl e \<Rightarrow> (sd, Inl e)
          | Inr due \<Rightarrow>
              (sd\<lparr>sd_pending_resets :=
                 bt_insert scope \<lparr>dl_boundary = boundary, dl_due = due\<rparr> (sd_pending_resets sd)\<rparr>, Inr True)))"

definition next_deadline :: "scheduler \<Rightarrow> instant option" where
  "next_deadline sd =
     (let periodic = (case sd_popup_due sd of
            None \<Rightarrow> sd_normal_due sd | Some popup \<Rightarrow> min (sd_normal_due sd) popup)
      in min_list_opt (periodic # map dl_due (bt_values (sd_pending_resets sd))))"

fun fire_resets ::
    "account_scope list \<Rightarrow> scheduler \<Rightarrow> scheduler \<times> scheduled_refresh list" where
  "fire_resets [] sd = (sd, [])"
| "fire_resets (scope # scopes) sd =
     (case bt_get (sd_pending_resets sd) scope of
       None \<Rightarrow> fire_resets scopes sd
     | Some reset \<Rightarrow>
         let (sd', refreshes) = fire_resets scopes
               (sd\<lparr>sd_pending_resets := bt_remove scope (sd_pending_resets sd),
                   sd_last_fired_resets := bt_insert scope (dl_boundary reset) (sd_last_fired_resets sd)\<rparr>)
         in (sd', ResetBoundary scope (dl_boundary reset) # refreshes))"

definition take_due :: "scheduler \<Rightarrow> clock_reading \<Rightarrow> scheduler \<times> scheduled_refresh list" where
  "take_due sd clock =
     (let now = monotonic_now clock;
          normal_due = (sd_normal_due sd \<le> now);
          popup_due = is_some_and (\<lambda>due. due \<le> now) (sd_popup_due sd);
          periodic = (if normal_due \<or> popup_due then [Periodic] else []);
          sd1 = (if normal_due
                 then sd\<lparr>sd_normal_due := saturating_instant_add now (normal_cadence (sd_policy sd))\<rparr>
                 else sd);
          sd2 = (if popup_due
                 then sd1\<lparr>sd_popup_due := Some (saturating_instant_add now (popup_cadence (sd_policy sd1)))\<rparr>
                 else sd1);
          due_scopes = map fst (filter (\<lambda>(_, reset). dl_due reset \<le> now) (bt_entries (sd_pending_resets sd2)));
          (sd3, resets) = fire_resets due_scopes sd2
      in (sd3, periodic @ resets))"

section \<open>Saturating addition\<close>

lemma saturating_search_eq:
  assumes "base \<le> instant_max" "lower \<le> instant_max - base + 1" "instant_max - base \<le> upper"
    and "best = (if lower = 0 then base else base + (lower - 1))"
  shows "saturating_search base lower upper best = instant_max"
  using assms(2-4)
proof (induction "upper + 1 - lower" arbitrary: lower upper best rule: less_induct)
  case less
  show ?case
  proof (cases "lower \<le> upper")
    case False
    then have "lower = instant_max - base + 1" using less.prems by simp
    moreover have "saturating_search base lower upper best = best"
      using False by (simp add: saturating_search.simps)
    ultimately show ?thesis using assms(1) less.prems by simp
  next
    case True
    define middle where "middle = lower + (upper - lower) div 2"
    have mid: "lower \<le> middle" "middle \<le> upper" using True by (simp_all add: middle_def)
    have step: "saturating_search base lower upper best =
        (if base + middle \<le> instant_max then saturating_search base (middle + 1) upper (base + middle)
         else if middle = 0 then best else saturating_search base lower (middle - 1) best)"
      using True
      by (simp add: saturating_search.simps [of base lower] instant_checked_add_def flip: middle_def)
    show ?thesis
    proof (cases "base + middle \<le> instant_max")
      case fits: True
      have "saturating_search base (middle + 1) upper (base + middle) = instant_max"
        by (rule less.hyps) (use mid fits less.prems in auto)
      with fits step show ?thesis by simp
    next
      case False
      then have pos: "middle \<noteq> 0" using assms(1) by auto
      have "saturating_search base lower (middle - 1) best = instant_max"
        by (rule less.hyps) (use mid False pos less.prems in auto)
      with False pos step show ?thesis by simp
    qed
  qed
qed

lemma saturating_instant_add_eq:
  "base \<le> instant_max \<Longrightarrow> saturating_instant_add base d = min (base + d) instant_max"
  by (auto simp: saturating_instant_add_def instant_checked_add_def saturating_search_eq)

text \<open>
  the saturating addition of the scheduler is the exact sum where an instant can hold it and
  the last representable instant otherwise; the binary search ends and never goes below the base.
\<close>

theorem saturating_instant_add_correct:
  assumes "base \<le> instant_max"
  shows "saturating_instant_add base d = min (base + d) instant_max \<and>
    base \<le> saturating_instant_add base d"
  using assms by (simp add: saturating_instant_add_eq)

theorem saturating_instant_add_correct_witness:
  "saturating_instant_add 5 7 = 12 \<and>
   saturating_instant_add (instant_max - 3) (from_secs 60) = instant_max"
proof -
  have mx: "5 \<le> instant_max" "5 + 7 \<le> instant_max" "instant_max - 3 \<le> instant_max"
    "instant_max \<le> instant_max - 3 + from_secs 60"
    by (simp_all add: instant_max_def nanos_per_sec_def from_secs_def)
  then show ?thesis
    using saturating_instant_add_correct [OF mx(1), of 7]
      saturating_instant_add_correct [OF mx(3), of "from_secs 60"] by simp
qed

section \<open>Projection of reset boundaries\<close>

lemma reset_refresh_at_Inr:
  "time_lib_ok tlib \<Longrightarrow> reset_refresh_at tlib b = Inr t \<Longrightarrow> t = b + int RESET_BOUNDARY_GRACE"
  by (auto simp: reset_refresh_at_def result_simps bind_eq_Some_conv timestamp_new_def time_lib_ok_def
      split: sum.splits if_splits)

lemma project_reset_deadline_Inr:
  assumes "time_lib_ok tlib" "monotonic_now clock \<le> instant_max"
    and "project_reset_deadline tlib b clock = Inr due"
  shows "due = min instant_max (monotonic_now clock +
      max RESET_BOUNDARY_MINIMUM_DELAY (nat (b + int RESET_BOUNDARY_GRACE - wall_now clock)))"
proof -
  from assms(3) obtain t p where t: "reset_refresh_at tlib b = Inr t"
    and p: "project_wall_deadline t (wall_now clock) (monotonic_now clock) = Inr p"
    and due: "due = max p (saturating_instant_add (monotonic_now clock) RESET_BOUNDARY_MINIMUM_DELAY)"
    by (auto simp: project_reset_deadline_def result_simps)
  have "p = min (monotonic_now clock + nat (t - wall_now clock)) instant_max"
    using p assms(2) by (auto simp: project_wall_deadline_def saturating_instant_add_eq Let_def split: if_splits)
  then show ?thesis
    using due reset_refresh_at_Inr [OF assms(1) t] assms(2)
    by (simp add: saturating_instant_add_eq min_def max_def)
qed

text \<open>
  a reset boundary is turned into a deadline at least five seconds ahead and, in wall time, no
  earlier than thirty seconds after the boundary: the delay is exactly the larger of the two, cut
  off only at the last representable instant.
\<close>

theorem reset_deadline_correct:
  assumes "time_lib_ok tlib" and "monotonic_now clock \<le> instant_max"
    and "project_reset_deadline tlib boundary clock = Inr due"
  shows "due = min instant_max (monotonic_now clock +
      max (5 * 10 ^ 9) (nat (boundary + 30 * 10 ^ 9 - wall_now clock)))"
  using project_reset_deadline_Inr [OF assms]
  by (simp add: RESET_BOUNDARY_MINIMUM_DELAY_def RESET_BOUNDARY_GRACE_def duration_defs)

theorem reset_deadline_correct_witness:
  "let tlib = \<lparr>odt_checked_add = \<lambda>t d. Some (t + d), odt_from_unix = \<lambda>s. Some (s * 1000000000),
              rfc3339_formats = \<lambda>t. t = 0 \<or> t = 100 + 30000000000, rfc3339_print = \<lambda>t. if t = 0 then [48] else [49],
              rfc3339_parse = \<lambda>s. if s = [48] then Some 0 else if s = [49] then Some (100 + 30000000000) else None\<rparr>;
       clock = \<lparr>wall_now = 50, monotonic_now = 1000\<rparr>
   in time_lib_ok tlib \<and> project_reset_deadline tlib 100 clock = Inr (1000 + 30000000050)"
proof -
  let ?lib = "\<lparr>odt_checked_add = \<lambda>t d. Some (t + d), odt_from_unix = \<lambda>s. Some (s * 1000000000),
              rfc3339_formats = \<lambda>t. t = 0 \<or> t = 100 + 30000000000, rfc3339_print = \<lambda>t. if t = 0 then [48] else [49],
              rfc3339_parse = \<lambda>s. if s = [48] then Some 0 else if s = [49] then Some (100 + 30000000000) else None\<rparr> :: time_lib"
  let ?clock = "\<lparr>wall_now = 50, monotonic_now = 1000\<rparr>"
  have lib: "time_lib_ok ?lib"
    by (auto simp: time_lib_ok_def nanos_per_sec_def trim_fixed_iff is_whitespace_def)
  have mx: "monotonic_now ?clock \<le> instant_max" by (simp add: instant_max_def nanos_per_sec_def)
  have "\<exists>due. project_reset_deadline ?lib 100 ?clock = Inr due"
    by (simp add: project_reset_deadline_def reset_refresh_at_def timestamp_new_def
        RESET_BOUNDARY_GRACE_def duration_defs project_wall_deadline_def duration_max_def u64_max_def)
  then obtain due where due: "project_reset_deadline ?lib 100 ?clock = Inr due" by blast
  with reset_deadline_correct [OF lib mx due] lib show ?thesis
    unfolding Let_def by (simp add: instant_max_def nanos_per_sec_def)
qed

section \<open>Firing\<close>

definition mark_fired :: "account_scope \<Rightarrow> scheduler \<Rightarrow> reset_deadline \<Rightarrow> scheduler" where
  "mark_fired scope sd reset =
     sd\<lparr>sd_pending_resets := bt_remove scope (sd_pending_resets sd),
        sd_last_fired_resets := bt_insert scope (dl_boundary reset) (sd_last_fired_resets sd)\<rparr>"

lemma mark_fired_simps [simp]:
  "sd_policy (mark_fired k sd r) = sd_policy sd" "sd_normal_due (mark_fired k sd r) = sd_normal_due sd"
  "sd_popup_due (mark_fired k sd r) = sd_popup_due sd"
  "bt_get (sd_pending_resets (mark_fired k sd r)) k' = (if k' = k then None else bt_get (sd_pending_resets sd) k')"
  "bt_get (sd_last_fired_resets (mark_fired k sd r)) k' =
     (if k' = k then Some (dl_boundary r) else bt_get (sd_last_fired_resets sd) k')"
  by (simp_all add: mark_fired_def)

lemma fire_resets_Cons:
  "fire_resets (k # ks) sd =
     (case bt_get (sd_pending_resets sd) k of
       None \<Rightarrow> fire_resets ks sd
     | Some r \<Rightarrow> (fst (fire_resets ks (mark_fired k sd r)),
                 ResetBoundary k (dl_boundary r) # snd (fire_resets ks (mark_fired k sd r))))"
  by (simp add: mark_fired_def Let_def split_beta split: option.splits)

lemma fire_resets_frame:
  "sd_policy (fst (fire_resets ks sd)) = sd_policy sd \<and>
   sd_normal_due (fst (fire_resets ks sd)) = sd_normal_due sd \<and>
   sd_popup_due (fst (fire_resets ks sd)) = sd_popup_due sd"
proof (induction ks arbitrary: sd)
  case (Cons k ks)
  then show ?case unfolding fire_resets_Cons by (cases "bt_get (sd_pending_resets sd) k") simp_all
qed simp

lemma fire_resets_pending:
  "bt_get (sd_pending_resets (fst (fire_resets ks sd))) k =
     (if k \<in> set ks then None else bt_get (sd_pending_resets sd) k)"
proof (induction ks arbitrary: sd)
  case (Cons k' ks)
  then show ?case unfolding fire_resets_Cons by (cases "bt_get (sd_pending_resets sd) k'") auto
qed simp

lemma fire_resets_last:
  "bt_get (sd_last_fired_resets (fst (fire_resets ks sd))) k =
     (if k \<in> set ks \<and> bt_get (sd_pending_resets sd) k \<noteq> None
      then Some (dl_boundary (the (bt_get (sd_pending_resets sd) k)))
      else bt_get (sd_last_fired_resets sd) k)"
proof (induction ks arbitrary: sd)
  case (Cons k' ks)
  then show ?case unfolding fire_resets_Cons by (cases "bt_get (sd_pending_resets sd) k'") auto
qed simp

lemmas fire_resets_state = fire_resets_frame fire_resets_pending fire_resets_last

lemma fire_resets_refreshes:
  "distinct ks \<Longrightarrow> \<forall>k\<in>set ks. bt_get (sd_pending_resets sd) k \<noteq> None \<Longrightarrow>
   snd (fire_resets ks sd) =
     map (\<lambda>k. ResetBoundary k (dl_boundary (the (bt_get (sd_pending_resets sd) k)))) ks"
proof (induction ks arbitrary: sd)
  case (Cons k ks)
  then obtain r where r: "bt_get (sd_pending_resets sd) k = Some r" by auto
  have "snd (fire_resets ks (mark_fired k sd r)) =
      map (\<lambda>k'. ResetBoundary k' (dl_boundary (the (bt_get (sd_pending_resets (mark_fired k sd r)) k')))) ks"
    by (rule Cons.IH) (use Cons.prems in auto)
  moreover have "map (\<lambda>k'. ResetBoundary k' (dl_boundary (the (bt_get (sd_pending_resets (mark_fired k sd r)) k')))) ks
      = map (\<lambda>k'. ResetBoundary k' (dl_boundary (the (bt_get (sd_pending_resets sd) k')))) ks"
    using Cons.prems by (intro map_cong) auto
  ultimately show ?case using r by (simp add: fire_resets_Cons del: fire_resets.simps)
qed simp

definition due_resets :: "scheduler \<Rightarrow> instant \<Rightarrow> account_scope list" where
  "due_resets sd now = map fst (filter (\<lambda>(_, reset). dl_due reset \<le> now) (bt_entries (sd_pending_resets sd)))"

lemma due_resets_distinct [simp]: "distinct (due_resets sd now)"
  using bt_keys_distinct [of "sd_pending_resets sd"]
  unfolding due_resets_def bt_keys_def by (rule distinct_map_filter)

lemma set_due_resets:
  "k \<in> set (due_resets sd now) \<longleftrightarrow> (\<exists>r. bt_get (sd_pending_resets sd) k = Some r \<and> dl_due r \<le> now)"
  by (force simp: due_resets_def bt_get_entry)

text \<open>The two phases of taking due triggers: re-anchoring the cadences, then firing resets.\<close>

definition reanchored :: "scheduler \<Rightarrow> instant \<Rightarrow> scheduler" where
  "reanchored sd now = sd\<lparr>
     sd_normal_due := (if sd_normal_due sd \<le> now
       then saturating_instant_add now (normal_cadence (sd_policy sd)) else sd_normal_due sd),
     sd_popup_due := (if is_some_and (\<lambda>due. due \<le> now) (sd_popup_due sd)
       then Some (saturating_instant_add now (popup_cadence (sd_policy sd))) else sd_popup_due sd)\<rparr>"

lemma take_due_phases:
  "take_due sd clock =
     (let (sd', rs) = fire_resets (due_resets sd (monotonic_now clock)) (reanchored sd (monotonic_now clock))
      in (sd', (if sd_normal_due sd \<le> monotonic_now clock \<or>
                   is_some_and (\<lambda>due. due \<le> monotonic_now clock) (sd_popup_due sd)
                then [Periodic] else []) @ rs))"
  by (simp add: take_due_def reanchored_def due_resets_def Let_def)

lemma reanchored_simps [simp]:
  "sd_pending_resets (reanchored sd now) = sd_pending_resets sd"
  "sd_last_fired_resets (reanchored sd now) = sd_last_fired_resets sd"
  "sd_policy (reanchored sd now) = sd_policy sd"
  by (simp_all add: reanchored_def)

lemma take_due_Pair:
  assumes "take_due sd clock = (sd', rs)"
  obtains fired where "fire_resets (due_resets sd (monotonic_now clock)) (reanchored sd (monotonic_now clock)) = (sd', fired)"
    "rs = (if sd_normal_due sd \<le> monotonic_now clock \<or>
             is_some_and (\<lambda>due. due \<le> monotonic_now clock) (sd_popup_due sd) then [Periodic] else []) @ fired"
    "fired = map (\<lambda>k. ResetBoundary k (dl_boundary (the (bt_get (sd_pending_resets sd) k))))
       (due_resets sd (monotonic_now clock))"
proof -
  obtain fired where f: "fire_resets (due_resets sd (monotonic_now clock)) (reanchored sd (monotonic_now clock)) = (sd', fired)"
    and rs: "rs = (if sd_normal_due sd \<le> monotonic_now clock \<or>
             is_some_and (\<lambda>due. due \<le> monotonic_now clock) (sd_popup_due sd) then [Periodic] else []) @ fired"
    using assms by (auto simp: take_due_phases split: prod.splits)
  have "\<forall>k\<in>set (due_resets sd (monotonic_now clock)). bt_get (sd_pending_resets sd) k \<noteq> None"
    by (auto simp: set_due_resets)
  with f have "fired = map (\<lambda>k. ResetBoundary k (dl_boundary (the (bt_get (sd_pending_resets sd) k))))
       (due_resets sd (monotonic_now clock))"
    using fire_resets_refreshes [of "due_resets sd (monotonic_now clock)" "reanchored sd (monotonic_now clock)"]
    by simp
  with f rs that show thesis by blast
qed

lemma next_deadline_eq:
  "next_deadline sd = Some (Min (insert (sd_normal_due sd) (set_option (sd_popup_due sd) \<union>
     dl_due ` set (bt_values (sd_pending_resets sd)))))"
proof -
  have three: "Min (insert (min a b) X) = Min (insert a (insert b X))" if "finite X" for a b :: nat and X
    using that by (cases "X = {}") (simp_all add: min.assoc)
  show ?thesis unfolding next_deadline_def min_list_opt_def
    by (cases "sd_popup_due sd") (simp_all add: three)
qed

lemma next_deadline_greater:
  "(\<exists>t. next_deadline sd = Some t \<and> now < t) \<longleftrightarrow>
     now < sd_normal_due sd \<and> is_none_or (\<lambda>p. now < p) (sd_popup_due sd) \<and>
     (\<forall>k r. bt_get (sd_pending_resets sd) k = Some r \<longrightarrow> now < dl_due r)"
proof -
  let ?S = "insert (sd_normal_due sd) (set_option (sd_popup_due sd) \<union>
     dl_due ` set (bt_values (sd_pending_resets sd)))"
  have "now < Min ?S \<longleftrightarrow> (\<forall>x\<in>?S. now < x)" by (rule Min_gr_iff) simp_all
  then show ?thesis
    unfolding next_deadline_eq by (cases "sd_popup_due sd") (auto simp: set_bt_values)
qed

text \<open>
  taking due triggers. The periodic trigger fires once however many cadence intervals were
  missed, every account whose reset deadline has passed fires exactly once, in scope order, and is
  recorded, nothing else fires; afterwards nothing is due, so a timer armed with the next deadline
  always sleeps and the loop never spins.
\<close>

theorem take_due_complete:
  assumes "take_due sd clock = (sd', rs)"
    and "monotonic_now clock < instant_max"
    and "0 < normal_cadence (sd_policy sd)" "0 < popup_cadence (sd_policy sd)"
  shows "rs = (if sd_normal_due sd \<le> monotonic_now clock \<or>
              is_some_and (\<lambda>due. due \<le> monotonic_now clock) (sd_popup_due sd) then [Periodic] else []) @
           map (\<lambda>k. ResetBoundary k (dl_boundary (the (bt_get (sd_pending_resets sd) k))))
             (due_resets sd (monotonic_now clock)) \<and>
    (\<forall>k. k \<in> set (due_resets sd (monotonic_now clock)) \<longrightarrow>
       bt_get (sd_pending_resets sd') k = None \<and>
       bt_get (sd_last_fired_resets sd') k = map_option dl_boundary (bt_get (sd_pending_resets sd) k)) \<and>
    (\<exists>t. next_deadline sd' = Some t \<and> monotonic_now clock < t)"
proof -
  let ?now = "monotonic_now clock"
  obtain fired where f: "fire_resets (due_resets sd ?now) (reanchored sd ?now) = (sd', fired)"
    and rs: "rs = (if sd_normal_due sd \<le> ?now \<or> is_some_and (\<lambda>due. due \<le> ?now) (sd_popup_due sd)
        then [Periodic] else []) @ fired"
    "fired = map (\<lambda>k. ResetBoundary k (dl_boundary (the (bt_get (sd_pending_resets sd) k)))) (due_resets sd ?now)"
    using assms(1) by (rule take_due_Pair)
  have sd': "sd' = fst (fire_resets (due_resets sd ?now) (reanchored sd ?now))" using f by simp
  note st = fire_resets_state [of "due_resets sd ?now" "reanchored sd ?now", folded sd']
  have later: "?now < saturating_instant_add ?now d" if "0 < d" for d
    using that assms(2) by (simp add: saturating_instant_add_eq)
  have "?now < sd_normal_due sd'" using st(1) later assms(3) by (simp add: reanchored_def)
  moreover have "is_none_or (\<lambda>p. ?now < p) (sd_popup_due sd')"
    using st(1) later assms(4) by (cases "sd_popup_due sd") (auto simp: reanchored_def)
  moreover have "?now < dl_due r" if "bt_get (sd_pending_resets sd') k = Some r" for k r
    using that st(2) [of k] set_due_resets [of k sd ?now] by (auto split: if_splits)
  ultimately have "\<exists>t. next_deadline sd' = Some t \<and> ?now < t" by (simp add: next_deadline_greater)
  moreover have "bt_get (sd_pending_resets sd') k = None \<and>
       bt_get (sd_last_fired_resets sd') k = map_option dl_boundary (bt_get (sd_pending_resets sd) k)"
    if "k \<in> set (due_resets sd ?now)" for k
    using that st(2,3) [of k] by (auto simp: set_due_resets)
  ultimately show ?thesis using rs by blast
qed

section \<open>Runs\<close>

text \<open>
  A run is a sequence of calls on one scheduler, whatever the clock shows; the boundaries that
  fired are collected in order.
\<close>

fun fired_boundaries :: "scheduled_refresh list \<Rightarrow> (account_scope \<times> timestamp) list" where
  "fired_boundaries [] = []"
| "fired_boundaries (Periodic # rs) = fired_boundaries rs"
| "fired_boundaries (ResetBoundary s b # rs) = (s, b) # fired_boundaries rs"

inductive scheduler_step ::
    "time_lib \<Rightarrow> scheduler \<Rightarrow> (account_scope \<times> timestamp) list \<Rightarrow> scheduler \<Rightarrow> bool" for tlib where
  step_popup: "set_popup_open sd opened clock = (sd', changed) \<Longrightarrow> scheduler_step tlib sd [] sd'"
| step_schedule: "schedule_reset tlib sd scope b clock = (sd', r) \<Longrightarrow> scheduler_step tlib sd [] sd'"
| step_reconcile: "reconcile_reset_boundaries tlib sd scope bs t clock = (sd', r) \<Longrightarrow>
    scheduler_step tlib sd [] sd'"
| step_take_due: "take_due sd clock = (sd', rs) \<Longrightarrow> scheduler_step tlib sd (fired_boundaries rs) sd'"

inductive scheduler_run ::
    "time_lib \<Rightarrow> scheduler \<Rightarrow> (account_scope \<times> timestamp) list \<Rightarrow> scheduler \<Rightarrow> bool" for tlib sd where
  run_start: "scheduler_run tlib sd [] sd"
| run_step: "scheduler_run tlib sd fired sd' \<Longrightarrow> scheduler_step tlib sd' new sd'' \<Longrightarrow>
    scheduler_run tlib sd (fired @ new) sd''"

definition unfired :: "scheduler \<Rightarrow> bool" where
  "unfired sd \<longleftrightarrow>
     (\<forall>k r f. bt_get (sd_pending_resets sd) k = Some r \<longrightarrow> bt_get (sd_last_fired_resets sd) k = Some f \<longrightarrow>
        f < dl_boundary r)"

lemma fired_boundaries_append [simp]:
  "fired_boundaries (xs @ ys) = fired_boundaries xs @ fired_boundaries ys"
  by (induction xs rule: fired_boundaries.induct) auto

lemma fired_boundaries_map [simp]:
  "fired_boundaries (map (\<lambda>k. ResetBoundary k (f k)) ks) = map (\<lambda>k. (k, f k)) ks"
  by (induction ks) auto

lemma unfired_insert:
  "unfired sd \<Longrightarrow> is_none_or (\<lambda>f. f < b) (bt_get (sd_last_fired_resets sd) k) \<Longrightarrow>
   unfired (sd\<lparr>sd_pending_resets := bt_insert k \<lparr>dl_boundary = b, dl_due = d\<rparr> (sd_pending_resets sd)\<rparr>)"
  by (auto simp: unfired_def)

lemma schedule_reset_keeps:
  "schedule_reset tlib sd k b clock = (sd', r) \<Longrightarrow> unfired sd \<Longrightarrow>
     unfired sd' \<and> sd_last_fired_resets sd' = sd_last_fired_resets sd"
  by (cases "bt_get (sd_last_fired_resets sd) k")
    (auto simp: schedule_reset_def unfired_insert split: if_splits sum.splits)

lemma reconcile_keeps:
  assumes "reconcile_reset_boundaries tlib sd k bs t clock = (sd', r)" "unfired sd"
  shows "unfired sd' \<and> sd_last_fired_resets sd' = sd_last_fired_resets sd"
proof -
  let ?bs = "filter (\<lambda>b. case reset_refresh_at tlib b of Inr u \<Rightarrow> t < u | Inl _ \<Rightarrow> False)
      (filter (\<lambda>b. is_none_or (\<lambda>f. f < b) (bt_get (sd_last_fired_resets sd) k)) bs)"
  show ?thesis
  proof (cases "min_list_opt ?bs")
    case None
    then have "sd' = sd\<lparr>sd_pending_resets := bt_remove k (sd_pending_resets sd)\<rparr>"
      using assms(1) by (simp add: reconcile_reset_boundaries_def Let_def)
    then show ?thesis using assms(2) by (auto simp: unfired_def)
  next
    case (Some b)
    then have "b \<in> set ?bs" by (auto simp: min_list_opt_def simp del: set_filter split: if_splits)
    then have "is_none_or (\<lambda>f. f < b) (bt_get (sd_last_fired_resets sd) k)" by simp
    then show ?thesis
      using assms Some
      by (auto simp: reconcile_reset_boundaries_def Let_def unfired_insert split: if_splits sum.splits)
  qed
qed

lemma take_due_keeps:
  assumes "take_due sd clock = (sd', rs)" "unfired sd"
  shows "unfired sd'"
    and "(k, b) \<in> set (fired_boundaries rs) \<Longrightarrow> bt_get (sd_last_fired_resets sd') k = Some b"
    and "(k, b) \<in> set (fired_boundaries rs) \<Longrightarrow> bt_get (sd_last_fired_resets sd) k = Some f \<Longrightarrow> f < b"
    and "distinct (map fst (fired_boundaries rs))"
    and "bt_get (sd_last_fired_resets sd) k = Some f \<Longrightarrow>
      \<exists>f'. bt_get (sd_last_fired_resets sd') k = Some f' \<and> f \<le> f'"
proof -
  let ?now = "monotonic_now clock"
  obtain fired where f: "fire_resets (due_resets sd ?now) (reanchored sd ?now) = (sd', fired)"
    and rs: "rs = (if sd_normal_due sd \<le> ?now \<or> is_some_and (\<lambda>due. due \<le> ?now) (sd_popup_due sd)
        then [Periodic] else []) @ fired"
    "fired = map (\<lambda>k. ResetBoundary k (dl_boundary (the (bt_get (sd_pending_resets sd) k)))) (due_resets sd ?now)"
    using assms(1) by (rule take_due_Pair)
  have sd': "sd' = fst (fire_resets (due_resets sd ?now) (reanchored sd ?now))" using f by simp
  note st = fire_resets_state [of "due_resets sd ?now" "reanchored sd ?now", folded sd']
  have fb: "fired_boundaries rs =
      map (\<lambda>k. (k, dl_boundary (the (bt_get (sd_pending_resets sd) k)))) (due_resets sd ?now)"
    using rs by simp
  show "unfired sd'"
    using assms(2) by (auto simp: unfired_def st split: if_splits)
  show "(k, b) \<in> set (fired_boundaries rs) \<Longrightarrow> bt_get (sd_last_fired_resets sd') k = Some b"
    by (auto simp: fb st set_due_resets)
  show "(k, b) \<in> set (fired_boundaries rs) \<Longrightarrow> bt_get (sd_last_fired_resets sd) k = Some f \<Longrightarrow> f < b"
    using assms(2) by (auto simp: fb set_due_resets unfired_def)
  show "distinct (map fst (fired_boundaries rs))" by (simp add: fb o_def)
  show "bt_get (sd_last_fired_resets sd) k = Some f \<Longrightarrow>
      \<exists>f'. bt_get (sd_last_fired_resets sd') k = Some f' \<and> f \<le> f'"
    using assms(2) by (auto simp: st unfired_def order.strict_implies_order)
qed

definition fired_of :: "account_scope \<Rightarrow> (account_scope \<times> timestamp) list \<Rightarrow> timestamp list" where
  "fired_of k fired = map snd (filter (\<lambda>p. fst p = k) fired)"

definition run_invariant :: "scheduler \<Rightarrow> (account_scope \<times> timestamp) list \<Rightarrow> bool" where
  "run_invariant sd fired \<longleftrightarrow> unfired sd \<and>
     (\<forall>k. sorted_wrt (<) (fired_of k fired) \<and>
       (\<forall>b\<in>set (fired_of k fired). \<exists>f. bt_get (sd_last_fired_resets sd) k = Some f \<and> b \<le> f))"

lemma fired_of_distinct:
  assumes "distinct (map fst new)"
  shows "fired_of k new = [] \<or> (\<exists>b. fired_of k new = [b] \<and> (k, b) \<in> set new)"
  using assms by (induction new) (force simp: fired_of_def filter_empty_conv)+

lemma run_invariant_take_due:
  assumes "run_invariant sd fired" "take_due sd clock = (sd', rs)"
  shows "run_invariant sd' (fired @ fired_boundaries rs)"
  unfolding run_invariant_def
proof (intro conjI allI)
  have unf: "unfired sd" using assms(1) by (simp add: run_invariant_def)
  note keeps = take_due_keeps [OF assms(2) unf]
  show "unfired sd'" by (rule keeps(1))
  fix k
  have split: "fired_of k (fired @ fired_boundaries rs) = fired_of k fired @ fired_of k (fired_boundaries rs)"
    by (simp add: fired_of_def)
  have old: "sorted_wrt (<) (fired_of k fired)"
    "\<forall>b\<in>set (fired_of k fired). \<exists>f. bt_get (sd_last_fired_resets sd) k = Some f \<and> b \<le> f"
    using assms(1) by (simp_all add: run_invariant_def)
  consider "fired_of k (fired_boundaries rs) = []"
    | b where "fired_of k (fired_boundaries rs) = [b]" "(k, b) \<in> set (fired_boundaries rs)"
    using fired_of_distinct [OF keeps(4)] by blast
  then show "sorted_wrt (<) (fired_of k (fired @ fired_boundaries rs))"
    using old keeps(3) unfolding split by cases (fastforce simp: sorted_wrt_append)+
  show "\<forall>b\<in>set (fired_of k (fired @ fired_boundaries rs)).
      \<exists>f. bt_get (sd_last_fired_resets sd') k = Some f \<and> b \<le> f"
    using old(2) keeps(2,5) unfolding split
    by (auto simp: fired_of_def) (meson order_trans)
qed

lemma scheduler_step_invariant:
  "scheduler_step tlib sd new sd' \<Longrightarrow> run_invariant sd fired \<Longrightarrow> run_invariant sd' (fired @ new)"
proof (induction rule: scheduler_step.induct)
  case (step_popup sd opened clock sd' changed)
  then have "sd_pending_resets sd' = sd_pending_resets sd \<and> sd_last_fired_resets sd' = sd_last_fired_resets sd"
    by (auto simp: set_popup_open_def Let_def split: if_splits)
  with step_popup show ?case by (simp add: run_invariant_def unfired_def)
next
  case (step_schedule sd scope b clock sd' r)
  then show ?case using schedule_reset_keeps by (auto simp: run_invariant_def)
next
  case (step_reconcile sd scope bs t clock sd' r)
  then show ?case using reconcile_keeps by (auto simp: run_invariant_def)
next
  case (step_take_due sd clock sd' rs)
  then show ?case by (simp add: run_invariant_take_due)
qed

text \<open>
  C39: over any run of a scheduler, with any clock and any boundaries reported, the boundaries that
  fire for an account are strictly increasing: no boundary ever fires twice and an older one never
  fires after a newer one.
\<close>

theorem reset_boundaries_fire_once:
  assumes "scheduler_run tlib (scheduler_new policy clock) fired sd"
  shows "sorted_wrt (<) (fired_of scope fired)"
proof -
  have "run_invariant sd fired" using assms
  proof (induction rule: scheduler_run.induct)
    case run_start
    then show ?case by (simp add: run_invariant_def unfired_def scheduler_new_def fired_of_def)
  next
    case (run_step fired sd' new sd'')
    then show ?case by (simp add: scheduler_step_invariant)
  qed
  then show ?thesis by (simp add: run_invariant_def)
qed

text \<open>A scheduler with one armed boundary, and what one look at the clock does to it.\<close>

definition armed_scheduler :: "account_scope \<Rightarrow> timestamp \<Rightarrow> instant \<Rightarrow> scheduler" where
  "armed_scheduler k b due =
     \<lparr>sd_policy = schedule_policy_default, sd_normal_due = due + 1, sd_popup_due = None,
      sd_pending_resets = bt_insert k \<lparr>dl_boundary = b, dl_due = due\<rparr> bt_empty,
      sd_last_fired_resets = bt_empty\<rparr>"

lemma distinct_singleton: "distinct xs \<Longrightarrow> set xs = {k} \<Longrightarrow> xs = [k]"
proof (cases xs)
  case (Cons x ys)
  assume "distinct xs" "set xs = {k}"
  with Cons have "x = k" "set ys \<subseteq> {k}" "k \<notin> set ys" by auto
  then have "ys = []" by (cases ys) auto
  with Cons \<open>x = k\<close> show ?thesis by simp
qed simp

lemma armed_due: "due_resets (armed_scheduler k b due) due = [k]"
proof -
  have "set (due_resets (armed_scheduler k b due) due) = {k}"
    by (auto simp: set_due_resets armed_scheduler_def split: if_splits)
  then show ?thesis by (intro distinct_singleton) simp_all
qed

theorem take_due_complete_witness:
  "let k = AccountScope Codex (lit ''default'') (lit ''me'') in
   \<exists>sd'. take_due (armed_scheduler k 77 1000) \<lparr>wall_now = 0, monotonic_now = 1000\<rparr> =
       (sd', [ResetBoundary k 77]) \<and>
     (\<exists>t. next_deadline sd' = Some t \<and> 1000 < t)"
proof -
  let ?k = "AccountScope Codex (lit ''default'') (lit ''me'')"
  let ?sd = "armed_scheduler ?k 77 1000" and ?c = "\<lparr>wall_now = 0, monotonic_now = 1000\<rparr>"
  obtain sd' rs where run: "take_due ?sd ?c = (sd', rs)" by (cases "take_due ?sd ?c")
  have pre: "monotonic_now ?c < instant_max" "0 < normal_cadence (sd_policy ?sd)"
    "0 < popup_cadence (sd_policy ?sd)"
    by (simp_all add: instant_max_def nanos_per_sec_def armed_scheduler_def schedule_policy_default_def
        DEFAULT_NORMAL_CADENCE_def DEFAULT_POPUP_CADENCE_def duration_defs)
  note facts = take_due_complete [OF run pre]
  then have "rs = [ResetBoundary ?k 77]"
    using armed_due [of ?k 77 1000] by (simp add: armed_scheduler_def)
  with run facts show ?thesis unfolding Let_def by auto
qed

theorem reset_boundaries_fire_once_witness:
  "\<exists>fired sd. scheduler_run (\<lparr>odt_checked_add = \<lambda>t d. Some (t + d), odt_from_unix = \<lambda>s. None,
       rfc3339_formats = \<lambda>t. True, rfc3339_print = \<lambda>t. [], rfc3339_parse = \<lambda>s. None\<rparr>)
     (scheduler_new schedule_policy_default \<lparr>wall_now = 0, monotonic_now = 0\<rparr>) fired sd \<and>
     fired_of (AccountScope Codex (lit ''default'') (lit ''me'')) fired = [77] \<and>
     sorted_wrt (<) (fired_of (AccountScope Codex (lit ''default'') (lit ''me'')) fired)"
proof -
  let ?lib = "\<lparr>odt_checked_add = \<lambda>t d. Some (t + d), odt_from_unix = \<lambda>s. None,
       rfc3339_formats = \<lambda>t. True, rfc3339_print = \<lambda>t. [], rfc3339_parse = \<lambda>s. None\<rparr>"
  let ?k = "AccountScope Codex (lit ''default'') (lit ''me'')"
  let ?c = "\<lparr>wall_now = 0, monotonic_now = 0\<rparr>"
  let ?sd = "scheduler_new schedule_policy_default ?c"
  obtain sd1 r where s1: "schedule_reset ?lib ?sd ?k 77 ?c = (sd1, r)"
    by (cases "schedule_reset ?lib ?sd ?k 77 ?c")
  obtain due where sd1: "sd1 = ?sd\<lparr>sd_pending_resets :=
      bt_insert ?k \<lparr>dl_boundary = 77, dl_due = due\<rparr> bt_empty\<rparr>"
    using s1 by (auto simp: schedule_reset_def scheduler_new_def project_reset_deadline_def
        reset_refresh_at_def timestamp_new_def project_wall_deadline_def RESET_BOUNDARY_GRACE_def
        duration_defs duration_max_def u64_max_def)
  let ?now = "\<lparr>wall_now = 0, monotonic_now = due\<rparr>"
  obtain sd2 rs where s2: "take_due sd1 ?now = (sd2, rs)" by (cases "take_due sd1 ?now")
  have "set (due_resets sd1 due) = {?k}"
    by (auto simp: set_due_resets sd1 split: if_splits)
  then have due: "due_resets sd1 due = [?k]"
    by (intro distinct_singleton) simp_all
  have fired: "fired_boundaries rs = [(?k, 77)]"
  proof -
    from s2 obtain f where "fired_boundaries rs = fired_boundaries f"
      "f = map (\<lambda>k. ResetBoundary k (dl_boundary (the (bt_get (sd_pending_resets sd1) k)))) (due_resets sd1 due)"
      by (elim take_due_Pair) simp
    then show ?thesis unfolding due by (simp add: sd1)
  qed
  have "scheduler_run ?lib ?sd ([] @ [] @ fired_boundaries rs) sd2"
    unfolding append_assoc [symmetric]
    by (rule run_step, rule run_step, rule run_start, rule step_schedule [OF s1], rule step_take_due [OF s2])
  then have run: "scheduler_run ?lib ?sd [(?k, 77)] sd2" by (simp add: fired)
  have "fired_of ?k [(?k, 77)] = [77]" by (simp add: fired_of_def)
  with run reset_boundaries_fire_once [OF run, of ?k] show ?thesis by blast
qed

definition live_boundaries ::
    "time_lib \<Rightarrow> scheduler \<Rightarrow> account_scope \<Rightarrow> timestamp list \<Rightarrow> timestamp \<Rightarrow> timestamp set" where
  "live_boundaries tlib sd scope bs t =
     {b \<in> set bs. is_none_or (\<lambda>f. f < b) (bt_get (sd_last_fired_resets sd) scope) \<and>
        (\<exists>u. reset_refresh_at tlib b = Inr u \<and> t < u)}"

text \<open>
  reconciling an account with its latest sample arms exactly the earliest boundary that has
  not fired and whose refresh time is later than the sample, cancels the account's deadline when
  there is none, and touches no other account and no record of fired boundaries.
\<close>

theorem reconcile_arms_earliest:
  assumes "reconcile_reset_boundaries tlib sd scope bs t clock = (sd', Inr changed)"
  shows "map_option dl_boundary (bt_get (sd_pending_resets sd') scope) =
      (if live_boundaries tlib sd scope bs t = {} then None
       else Some (Min (live_boundaries tlib sd scope bs t))) \<and>
    (\<forall>k. k \<noteq> scope \<longrightarrow> bt_get (sd_pending_resets sd') k = bt_get (sd_pending_resets sd) k) \<and>
    sd_last_fired_resets sd' = sd_last_fired_resets sd"
proof -
  let ?bs = "filter (\<lambda>b. case reset_refresh_at tlib b of Inr u \<Rightarrow> t < u | Inl _ \<Rightarrow> False)
      (filter (\<lambda>b. is_none_or (\<lambda>f. f < b) (bt_get (sd_last_fired_resets sd) scope)) bs)"
  have live: "live_boundaries tlib sd scope bs t = set ?bs"
    by (auto simp: live_boundaries_def split: sum.split_asm)
  show ?thesis
  proof (cases "?bs = []")
    case True
    then have "sd' = sd\<lparr>sd_pending_resets := bt_remove scope (sd_pending_resets sd)\<rparr>"
      using assms by (simp add: reconcile_reset_boundaries_def Let_def min_list_opt_def)
    then show ?thesis using True unfolding live by (simp del: set_filter filter_filter)
  next
    case False
    then have "min_list_opt ?bs = Some (Min (set ?bs))" by (simp add: min_list_opt_def del: set_filter)
    then show ?thesis
      using assms False unfolding live
      by (auto simp: reconcile_reset_boundaries_def Let_def is_some_and_iff simp del: set_filter
          split: if_splits sum.splits option.splits)
  qed
qed

theorem reconcile_arms_earliest_witness:
  "let tlib = \<lparr>odt_checked_add = \<lambda>t d. Some (t + d), odt_from_unix = \<lambda>s. None,
       rfc3339_formats = \<lambda>t. True, rfc3339_print = \<lambda>t. [], rfc3339_parse = \<lambda>s. None\<rparr>;
       sd = scheduler_new schedule_policy_default \<lparr>wall_now = 0, monotonic_now = 0\<rparr>;
       k = AccountScope Codex (lit ''default'') (lit ''me'')
   in \<exists>sd' ch. reconcile_reset_boundaries tlib sd k [] 5 \<lparr>wall_now = 0, monotonic_now = 0\<rparr> = (sd', Inr ch) \<and>
        bt_get (sd_pending_resets sd') k = None"
proof -
  let ?lib = "\<lparr>odt_checked_add = \<lambda>t d. Some (t + d), odt_from_unix = \<lambda>s. None,
       rfc3339_formats = \<lambda>t. True, rfc3339_print = \<lambda>t. [], rfc3339_parse = \<lambda>s. None\<rparr>"
  let ?sd = "scheduler_new schedule_policy_default \<lparr>wall_now = 0, monotonic_now = 0\<rparr>"
  let ?k = "AccountScope Codex (lit ''default'') (lit ''me'')"
  have "\<exists>sd' ch. reconcile_reset_boundaries ?lib ?sd ?k [] 5 \<lparr>wall_now = 0, monotonic_now = 0\<rparr> = (sd', Inr ch)"
    by (simp add: reconcile_reset_boundaries_def min_list_opt_def)
  then obtain sd' ch where r: "reconcile_reset_boundaries ?lib ?sd ?k [] 5
      \<lparr>wall_now = 0, monotonic_now = 0\<rparr> = (sd', Inr ch)" by blast
  from reconcile_arms_earliest [OF r] have "bt_get (sd_pending_resets sd') ?k = None"
    by (simp add: live_boundaries_def)
  with r show ?thesis unfolding Let_def by blast
qed

end
