(* ===== verification/Runtime_Policy.thy ===== *)
theory Runtime_Policy
  imports Snapshot_Store Scheduler
begin

text \<open>
  The pure policies of the runtime actor (\<open>crates/runtime/src/actor.rs\<close>): limits and
  configuration, automatic intervals and back-off, the boundaries a sample announces and the
  decision to refresh when the menu opens; and the commands and events of
  \<open>command.rs\<close> and \<open>event.rs\<close>.
\<close>

section \<open>Limits and configuration\<close>

definition DEFAULT_COMMAND_CAPACITY :: nat where [limit_defs]: "DEFAULT_COMMAND_CAPACITY = 32"
definition DEFAULT_PENDING_CAPACITY :: nat where [limit_defs]: "DEFAULT_PENDING_CAPACITY = 256"
definition DEFAULT_EVENT_CAPACITY :: nat where [limit_defs]: "DEFAULT_EVENT_CAPACITY = 64"
definition DEFAULT_MAX_IN_FLIGHT :: nat where [limit_defs]: "DEFAULT_MAX_IN_FLIGHT = 4"
definition DEFAULT_SHUTDOWN_GRACE :: duration where "DEFAULT_SHUTDOWN_GRACE = from_secs 2"
definition MAX_SHUTDOWN_GRACE :: duration where "MAX_SHUTDOWN_GRACE = from_secs 30"

record runtime_limits =
  li_command_capacity :: nat
  li_pending_capacity :: nat
  li_event_capacity :: nat
  li_max_in_flight :: nat

datatype runtime_config_error =
  ZeroLimit string | ZeroShutdownGrace | ShutdownGraceTooLong duration

definition nonzero :: "string \<Rightarrow> nat \<Rightarrow> (nat, runtime_config_error) result" where
  "nonzero name v = (if v = 0 then Inl (ZeroLimit name) else Inr v)"

definition runtime_limits_new ::
    "nat \<Rightarrow> nat \<Rightarrow> nat \<Rightarrow> nat \<Rightarrow> (runtime_limits, runtime_config_error) result" where
  "runtime_limits_new command_capacity pending_capacity event_capacity max_in_flight =
     and_then (nonzero ''command_capacity'' command_capacity) (\<lambda>c.
     and_then (nonzero ''pending_capacity'' pending_capacity) (\<lambda>p.
     and_then (nonzero ''event_capacity'' event_capacity) (\<lambda>e.
     and_then (nonzero ''max_in_flight'' max_in_flight) (\<lambda>m.
     Inr \<lparr>li_command_capacity = c, li_pending_capacity = p, li_event_capacity = e,
          li_max_in_flight = m\<rparr>))))"

definition runtime_limits_default :: runtime_limits where
  "runtime_limits_default =
     \<lparr>li_command_capacity = DEFAULT_COMMAND_CAPACITY, li_pending_capacity = DEFAULT_PENDING_CAPACITY,
      li_event_capacity = DEFAULT_EVENT_CAPACITY, li_max_in_flight = DEFAULT_MAX_IN_FLIGHT\<rparr>"

record runtime_config =
  cf_schedule :: schedule_policy
  cf_limits :: runtime_limits
  cf_shutdown_grace :: duration

definition runtime_config_new ::
    "schedule_policy \<Rightarrow> runtime_limits \<Rightarrow> duration \<Rightarrow> (runtime_config, runtime_config_error) result" where
  "runtime_config_new schedule limits shutdown_grace =
     (if shutdown_grace = 0 then Inl ZeroShutdownGrace
      else if shutdown_grace > MAX_SHUTDOWN_GRACE then Inl (ShutdownGraceTooLong MAX_SHUTDOWN_GRACE)
      else Inr \<lparr>cf_schedule = schedule, cf_limits = limits, cf_shutdown_grace = shutdown_grace\<rparr>)"

definition runtime_config_default :: runtime_config where
  "runtime_config_default =
     \<lparr>cf_schedule = schedule_policy_default, cf_limits = runtime_limits_default,
      cf_shutdown_grace = DEFAULT_SHUTDOWN_GRACE\<rparr>"

section \<open>Commands and events\<close>

datatype refresh_trigger = Manual | MenuOpen | PeriodicTick | AtResetBoundary timestamp

datatype refresh_admission = Started | Queued | Coalesced | UnknownRefreshScope

datatype reset_schedule_admission = Armed | Unchanged | UnknownResetScope

datatype runtime_command =
    RefreshCommand account_scope refresh_trigger
  | PopupOpen bool
  | ScheduleReset account_scope timestamp

datatype command_response =
    RefreshResponse refresh_admission
  | PopupResponse
  | ResetResponse "(reset_schedule_admission, schedule_error) result"

datatype runtime_event =
    RefreshStarted account_scope nat refresh_trigger
  | RequiredUsagePublished account_scope nat
  | RequiredUsageFailed account_scope nat classified_error
  | OptionalEnrichmentPublished account_scope nat
  | OptionalEnrichmentFailed account_scope nat classified_error
  | RefreshFinished account_scope nat

section \<open>Intervals and back-off\<close>

definition automatic_minimum_interval :: "provider_id \<Rightarrow> duration" where
  "automatic_minimum_interval provider =
     (if provider = Codex then from_mins 1
      else if provider = Grok then from_mins 5
      else from_mins 2)"

fun backoff_base :: "error_kind \<Rightarrow> duration option" where
  "backoff_base RateLimited = Some (from_mins 5)"
| "backoff_base ProviderUnavailable = Some (from_secs 60)"
| "backoff_base Network = Some (from_secs 60)"
| "backoff_base Api = Some (from_secs 60)"
| "backoff_base MissingCredential = None"
| "backoff_base AuthenticationExpired = None"
| "backoff_base PermissionDenied = None"
| "backoff_base Parse = None"

definition automatic_backoff_delay :: "classified_error \<Rightarrow> nat \<Rightarrow> duration option" where
  "automatic_backoff_delay error failures =
     (case backoff_base (ce_kind error) of
       None \<Rightarrow> None
     | Some base \<Rightarrow>
         let multiplier = 2 ^ min (failures - 1) 5;
             exponential = min (duration_saturating_mul base multiplier) (from_hours 1);
             requested = map_option from_secs (ce_retry_after error)
         in Some (case requested of None \<Rightarrow> exponential | Some v \<Rightarrow> max v exponential))"

text \<open>
  Adding a duration to an instant panics when the sum is not representable; \<open>None\<close> is that panic.
\<close>

fun retained_backoff_from ::
    "provider_snapshot list \<Rightarrow> timestamp \<Rightarrow> instant \<Rightarrow>
     (account_scope, instant) btree_map \<times> (account_scope, nat) btree_map \<Rightarrow>
     ((account_scope, instant) btree_map \<times> (account_scope, nat) btree_map) option" where
  "retained_backoff_from [] wall mono_now maps = Some maps"
| "retained_backoff_from (p # ps) wall mono_now (cooldowns, failures) =
     (case (snapshot_error_of p, snapshot_freshness p) of
       (Some error, Some (Stale since)) \<Rightarrow>
         (case automatic_backoff_delay error 1 of
           None \<Rightarrow> retained_backoff_from ps wall mono_now (cooldowns, failures)
         | Some delay \<Rightarrow>
             let elapsed = (if since \<ge> wall then 0 else nat (wall - since));
                 remaining = delay - elapsed in
             if remaining = 0 then retained_backoff_from ps wall mono_now (cooldowns, failures)
             else
               Option.bind (instant_checked_add mono_now remaining) (\<lambda>until.
               let scope = snapshot_scope p;
                   until = (case bt_get cooldowns scope of None \<Rightarrow> until | Some c \<Rightarrow> max c until) in
               retained_backoff_from ps wall mono_now
                 (bt_insert scope until cooldowns, bt_insert scope 1 failures)))
     | _ \<Rightarrow> retained_backoff_from ps wall mono_now (cooldowns, failures))"

definition retained_automatic_backoff ::
    "provider_snapshot list \<Rightarrow> timestamp \<Rightarrow> instant \<Rightarrow>
     ((account_scope, instant) btree_map \<times> (account_scope, nat) btree_map) option" where
  "retained_automatic_backoff retained wall mono_now =
     retained_backoff_from retained wall mono_now (bt_empty, bt_empty)"

section \<open>Menu-open refreshes and announced boundaries\<close>

definition needs_menu_open_refresh :: "provider_snapshot \<Rightarrow> bool" where
  "needs_menu_open_refresh p =
     (case snapshot_error_of p of
       Some error \<Rightarrow> ce_retry error = Automatic
     | None \<Rightarrow> snapshot_last_known_good p = None \<or> snapshot_freshness p \<noteq> Some Fresh)"

definition usage_reset_boundaries :: "usage_sample \<Rightarrow> timestamp list" where
  "usage_reset_boundaries sample =
     List.map_filter rw_resets_at
       (List.map_filter id [us_primary sample, us_secondary sample, us_tertiary sample] @
        map nw_window (us_extra_windows sample))"

section \<open>Correctness of the back-off\<close>

text \<open>
  C35: the automatic back-off. A delay is chosen exactly for the errors that are retried
  automatically. It is at least what the provider asked for and at least a minute, at most an hour
  unless the provider asked for more, and never shrinks when another failure follows; from the
  sixth failure on it is constant.
\<close>

theorem backoff_delay_correct:
  assumes "e = classified_error_from_kind k retry_after"
  shows "case automatic_backoff_delay e n of
      None \<Rightarrow> ce_retry e \<noteq> Automatic
    | Some d \<Rightarrow> ce_retry e = Automatic \<and> from_secs 60 \<le> d \<and>
        is_none_or (\<lambda>r. from_secs r \<le> d) retry_after \<and>
        d \<le> max (from_hours 1) (case retry_after of None \<Rightarrow> 0 | Some r \<Rightarrow> from_secs r) \<and>
        (\<exists>d'. automatic_backoff_delay e (n + 1) = Some d' \<and> d \<le> d' \<and> (6 \<le> n \<longrightarrow> d' = d))"
proof -
  define grow where "grow b m = min (duration_saturating_mul b (2 ^ min (m - 1) 5)) (from_hours 1)" for b m
  have "2 ^ min (n - 1) 5 \<le> (2::nat) ^ min (n + 1 - 1) 5" by (intro power_increasing) auto
  from mult_le_mono2 [OF this] have up: "grow b n \<le> grow b (n + 1)" for b
    unfolding grow_def duration_saturating_mul_def by (intro min.mono) simp_all
  have flat: "grow b (n + 1) = grow b n" if "6 \<le> n" for b
    using that by (simp add: grow_def min_absorb2)
  have low: "from_secs 60 \<le> grow b n" if "backoff_base k = Some b" for b
  proof -
    have b: "from_secs 60 \<le> b" "b \<le> duration_max"
      using that by (cases k; simp add: duration_defs limit_defs u64_max_def)+
    have "b * 1 \<le> b * 2 ^ min (n - 1) 5" by (rule mult_le_mono2) simp
    with b(1) have "from_secs 60 \<le> b * 2 ^ min (n - 1) 5" by linarith
    moreover have "from_secs 60 \<le> from_hours 1" by (simp add: duration_defs)
    ultimately show ?thesis using b by (auto simp: grow_def duration_saturating_mul_def)
  qed
  have high: "grow b n \<le> from_hours 1" for b by (simp add: grow_def)
  have delay: "automatic_backoff_delay e m = map_option (\<lambda>b.
      case retry_after of None \<Rightarrow> grow b m | Some r \<Rightarrow> max (from_secs r) (grow b m)) (backoff_base k)" for m
    using assms by (auto simp: automatic_backoff_delay_def classified_error_from_kind_def grow_def Let_def
        split: option.splits)
  have retry: "ce_retry e = Automatic \<longleftrightarrow> backoff_base k \<noteq> None"
    using assms by (cases k) (simp_all add: classified_error_from_kind_def)
  show ?thesis
  proof (cases "backoff_base k")
    case (Some b)
    with up [of b] flat [of b] low [of b] high [of b] retry show ?thesis
      unfolding delay by (cases retry_after) (auto simp: le_max_iff_disj)
  qed (simp add: delay retry)
qed

theorem backoff_delay_correct_witness:
  "automatic_backoff_delay (classified_error_from_kind RateLimited (Some 7200)) 3 = Some (from_secs 7200) \<and>
   from_secs 60 \<le> from_secs 7200"
proof -
  have d: "automatic_backoff_delay (classified_error_from_kind RateLimited (Some 7200)) 3 = Some (from_secs 7200)"
    by (simp add: automatic_backoff_delay_def classified_error_from_kind_def Let_def
        duration_saturating_mul_def duration_defs limit_defs u64_max_def)
  with backoff_delay_correct [OF refl, of RateLimited "Some 7200" 3] show ?thesis by simp
qed

section \<open>Correctness of the restored back-off\<close>

text \<open>
  The wall-clock instant a retained snapshot asks not to be refreshed before: when its error began
  plus the first back-off.
\<close>

definition retained_until :: "timestamp \<Rightarrow> provider_snapshot \<Rightarrow> timestamp option" where
  "retained_until wall p =
     (case (snapshot_error_of p, snapshot_freshness p) of
       (Some error, Some (Stale since)) \<Rightarrow>
         map_option (\<lambda>d. min since wall + int d) (automatic_backoff_delay error 1)
     | _ \<Rightarrow> None)"

lemma remaining_until:
  "(d::nat) - (if s \<ge> (w::int) then 0 else nat (w - s)) = nat (min s w + int d - w)"
  by (auto simp: min_def)

text \<open>The monotonic instants the retained snapshots of a scope ask for, in their order.\<close>

definition retained_instants ::
    "timestamp \<Rightarrow> instant \<Rightarrow> provider_snapshot list \<Rightarrow> account_scope \<Rightarrow> instant list" where
  "retained_instants wall now_i retained scope =
     List.map_filter (\<lambda>p. if snapshot_scope p \<noteq> scope then None else
       (case retained_until wall p of
         None \<Rightarrow> None | Some u \<Rightarrow> if u \<le> wall then None else Some (now_i + nat (u - wall)))) retained"

definition later :: "instant \<Rightarrow> instant option \<Rightarrow> instant option" where
  "later x m = Some (case m of None \<Rightarrow> x | Some y \<Rightarrow> max y x)"

lemma retained_backoff_step:
  "retained_backoff_from (p # ps) wall now_i (c, f) =
     (case retained_until wall p of
       None \<Rightarrow> retained_backoff_from ps wall now_i (c, f)
     | Some u \<Rightarrow>
         if u \<le> wall then retained_backoff_from ps wall now_i (c, f)
         else if instant_max < now_i + nat (u - wall) then None
         else retained_backoff_from ps wall now_i
           (bt_insert (snapshot_scope p)
              (the (later (now_i + nat (u - wall)) (bt_get c (snapshot_scope p)))) c,
            bt_insert (snapshot_scope p) 1 f))"
proof -
  have zero: "nat (min s w + int d - w) = 0 \<longleftrightarrow> min s w + int d \<le> w" for s w d by simp
  show ?thesis
    unfolding retained_backoff_from.simps remaining_until Let_def zero retained_until_def later_def
    by (auto simp: instant_checked_add_def split: option.splits freshness.splits)
qed

lemma retained_backoff_from_spec:
  assumes "retained_backoff_from retained wall now_i (c, f) = Some (c', f')"
  shows "bt_get c' k = fold later (retained_instants wall now_i retained k) (bt_get c k) \<and>
    bt_get f' k = (if retained_instants wall now_i retained k = [] then bt_get f k else Some 1)"
  using assms
proof (induction retained arbitrary: c f)
  case (Cons p ps)
  show ?case
  proof (cases "\<exists>u. retained_until wall p = Some u \<and> wall < u")
    case True
    then obtain u where u: "retained_until wall p = Some u" "wall < u" by auto
    with Cons.prems have "retained_backoff_from ps wall now_i
           (bt_insert (snapshot_scope p)
              (the (later (now_i + nat (u - wall)) (bt_get c (snapshot_scope p)))) c,
            bt_insert (snapshot_scope p) 1 f) = Some (c', f')"
      unfolding retained_backoff_step by (simp split: if_splits)
    from Cons.IH [OF this] u show ?thesis
      by (simp add: retained_instants_def List.map_filter_simps later_def)
  next
    case False
    then have "retained_backoff_from ps wall now_i (c, f) = Some (c', f')"
      using Cons.prems unfolding retained_backoff_step by (auto split: option.splits if_splits)
    with Cons.IH False show ?thesis
      by (auto simp: retained_instants_def List.map_filter_simps split: option.splits)
  qed
qed (simp add: retained_instants_def List.map_filter_simps)

lemma fold_later_Max: "fold later xs (Some x) = Some (Max (insert x (set xs)))"
proof (induction xs arbitrary: x)
  case (Cons y ys)
  have "Max (insert (max x y) (set ys)) = Max (insert x (insert y (set ys)))"
    by (cases "ys = []") (simp_all add: max.assoc max.left_commute)
  with Cons show ?case by (simp add: later_def)
qed simp

text \<open>
  back-off survives a restart exactly. An account whose retained snapshots show a stale
  automatic error is held back until the latest of the instants they ask for, the start of the
  error plus the first back-off translated to the monotonic clock; one whose back-off is already
  over, or that shows no such error, is not held back at all.
\<close>

theorem retained_backoff_exact:
  assumes "retained_automatic_backoff retained wall now_i = Some (cooldowns, failures)"
  shows "bt_get cooldowns k =
      (if retained_instants wall now_i retained k = [] then None
       else Some (Max (set (retained_instants wall now_i retained k)))) \<and>
    bt_get failures k = (if retained_instants wall now_i retained k = [] then None else Some 1)"
proof -
  from retained_backoff_from_spec [OF assms [unfolded retained_automatic_backoff_def], of k]
  show ?thesis
    by (cases "retained_instants wall now_i retained k") (simp_all add: fold_later_Max, simp add: later_def fold_later_Max)
qed

theorem retained_backoff_exact_witness:
  "let a = AccountScope Claude (lit ''default'') (lit ''me'');
       s = 1000000000;
       p = Ready \<lparr>rd_local_history = None, rd_last_known_good = minimal_sample a 0,
             rd_freshness = Stale (10 * s), rd_refresh = Idle, rd_error = Some (classified_error_new Network)\<rparr>
   in \<exists>c f. retained_automatic_backoff [p] (30 * s) 7 = Some (c, f) \<and>
        bt_get c a = Some (7 + from_secs 40) \<and> bt_get f a = Some 1"
proof -
  let ?a = "AccountScope Claude (lit ''default'') (lit ''me'')"
  let ?s = "1000000000 :: int"
  let ?p = "Ready \<lparr>rd_local_history = None, rd_last_known_good = minimal_sample ?a 0,
             rd_freshness = Stale (10 * ?s), rd_refresh = Idle, rd_error = Some (classified_error_new Network)\<rparr>"
  have delay: "automatic_backoff_delay (classified_error_new Network) 1 = Some (from_secs 60)"
    by (simp add: automatic_backoff_delay_def classified_error_new_def classified_error_from_kind_def
        duration_saturating_mul_def duration_defs limit_defs u64_max_def)
  have until: "retained_until (30 * ?s) ?p = Some (70 * ?s)"
    using delay by (simp add: retained_until_def duration_defs)
  have scope: "snapshot_scope ?p = ?a" by (simp add: minimal_sample_def)
  have "retained_automatic_backoff [?p] (30 * ?s) 7 \<noteq> None"
    unfolding retained_automatic_backoff_def retained_backoff_step until by (simp add: limit_defs)
  then obtain c f where r: "retained_automatic_backoff [?p] (30 * ?s) 7 = Some (c, f)" by fastforce
  have "retained_instants (30 * ?s) 7 [?p] ?a = [7 + from_secs 40]"
    unfolding retained_instants_def map_filter_simps scope until by (simp add: duration_defs)
  with retained_backoff_exact [OF r, of ?a] r show ?thesis unfolding Let_def by simp
qed

end
