(* ===== verification/Runtime_Actor.thy ===== *)
theory Runtime_Actor
  imports Runtime_Policy
begin

text \<open>
  The single-owner runtime actor (\<open>crates/runtime/src/actor.rs\<close>): admission of refreshes, the
  bounded set of active required work and the queue behind it, optional enrichment, back-off and
  the handlers of worker results, commands and timer expiry.

  A refresh source is code behind a trait; what the actor itself reads of it is whether it has a
  local history, so a source is that optional history scope, and the fetches it performs are the
  results workers deliver. A worker is what its closure captured: the scope, the generation and
  the request. Task identifiers are drawn from a counter, since the executor guarantees only that
  live tasks have distinct ones. Each handler reads the clock as one pair of readings. The
  broadcast channel is the list of events sent. Handlers return the actor, or the way it stopped: a
  fault, which ends the loop, or a panic.
\<close>

section \<open>State\<close>

datatype runtime_fault = StoreFault snapshot_store_error | GenerationExhausted

datatype actor_panic = InstantOverflow | MissingSource

datatype actor_stop = Faulted runtime_fault | Panicked actor_panic

datatype worker =
    RequiredWorker account_scope nat refresh_trigger
  | OptionalWorker account_scope nat timestamp "usage_sample option" bool

datatype work_metadata = RequiredWork account_scope nat | OptionalWork account_scope nat

record optional_work =
  ow_generation :: nat
  ow_abort :: nat

record runtime_actor =
  ra_config :: runtime_config
  ra_scheduler :: scheduler
  ra_sources :: "(account_scope, local_history_scope option) btree_map"
  ra_store :: snapshot_store
  ra_commands_open :: bool
  ra_events :: "runtime_event list"
  ra_workers :: "(nat, worker) btree_map"
  ra_next_task :: nat
  ra_aborted :: "nat list"
  ra_work_metadata :: "(nat, work_metadata) btree_map"
  ra_active_required :: "(account_scope, nat) btree_map"
  ra_active_optional :: "(account_scope, optional_work) btree_map"
  ra_pending :: "(account_scope \<times> refresh_trigger) list"
  ra_pending_scopes :: "account_scope set"
  ra_generations :: "(account_scope, nat) btree_map"
  ra_automatic_cooldowns :: "(account_scope, instant) btree_map"
  ra_automatic_failures :: "(account_scope, nat) btree_map"
  ra_automatic_last_attempts :: "(account_scope, instant) btree_map"

type_synonym 'a outcome = "('a, actor_stop) result"

section \<open>Elementary operations\<close>

definition call_store ::
    "runtime_actor \<Rightarrow> (snapshot_store \<times> bool, snapshot_store_error) result \<Rightarrow> (runtime_actor \<times> bool) outcome" where
  "call_store a r =
     map_err (\<lambda>e. Faulted (StoreFault e)) (map_ok (\<lambda>(st, changed). (a\<lparr>ra_store := st\<rparr>, changed)) r)"

definition call_history ::
    "runtime_actor \<Rightarrow> (snapshot_store, snapshot_store_error) result \<Rightarrow> runtime_actor outcome" where
  "call_history a r = map_err (\<lambda>e. Faulted (StoreFault e)) (map_ok (\<lambda>st. a\<lparr>ra_store := st\<rparr>) r)"

definition emit :: "runtime_actor \<Rightarrow> runtime_event \<Rightarrow> runtime_actor" where
  "emit a event = a\<lparr>ra_events := ra_events a @ [event]\<rparr>"

definition source_of :: "runtime_actor \<Rightarrow> account_scope \<Rightarrow> local_history_scope option outcome" where
  "source_of a scope = ok_or (Panicked MissingSource) (bt_get (ra_sources a) scope)"

definition instant_plus :: "instant \<Rightarrow> duration \<Rightarrow> instant outcome" where
  "instant_plus t d = ok_or (Panicked InstantOverflow) (instant_checked_add t d)"

definition next_generation :: "runtime_actor \<Rightarrow> account_scope \<Rightarrow> (runtime_actor \<times> nat) outcome" where
  "next_generation a scope =
     (let current = (case bt_get (ra_generations a) scope of None \<Rightarrow> 0 | Some g \<Rightarrow> g) in
      and_then (ok_or (Faulted GenerationExhausted) (checked_add u64_max current 1)) (\<lambda>next.
      Inr (a\<lparr>ra_generations := bt_insert scope next (ra_generations a)\<rparr>, next)))"

definition cancel_optional :: "runtime_actor \<Rightarrow> account_scope \<Rightarrow> runtime_actor" where
  "cancel_optional a scope =
     (case bt_get (ra_active_optional a) scope of
       None \<Rightarrow> a
     | Some optional \<Rightarrow>
         a\<lparr>ra_active_optional := bt_remove scope (ra_active_optional a),
           ra_aborted := ow_abort optional # ra_aborted a\<rparr>)"

definition required_is_current :: "runtime_actor \<Rightarrow> account_scope \<Rightarrow> nat \<Rightarrow> bool" where
  "required_is_current a scope generation \<longleftrightarrow> bt_get (ra_active_required a) scope = Some generation"

definition optional_is_current :: "runtime_actor \<Rightarrow> account_scope \<Rightarrow> nat \<Rightarrow> bool" where
  "optional_is_current a scope generation \<longleftrightarrow>
     is_some_and (\<lambda>work. ow_generation work = generation) (bt_get (ra_active_optional a) scope)"

fun metadata_of :: "worker \<Rightarrow> work_metadata" where
  "metadata_of (RequiredWorker scope generation _) = RequiredWork scope generation"
| "metadata_of (OptionalWorker scope generation _ _ _) = OptionalWork scope generation"

text \<open>Spawning a worker and recording its metadata under the new task's identifier.\<close>

definition spawn_worker :: "runtime_actor \<Rightarrow> worker \<Rightarrow> runtime_actor" where
  "spawn_worker a w =
     a\<lparr>ra_workers := bt_insert (ra_next_task a) w (ra_workers a),
       ra_work_metadata := bt_insert (ra_next_task a) (metadata_of w) (ra_work_metadata a),
       ra_next_task := ra_next_task a + 1\<rparr>"

definition spawn_optional ::
    "runtime_actor \<Rightarrow> account_scope \<Rightarrow> nat \<Rightarrow> usage_sample option \<Rightarrow> timestamp \<Rightarrow> bool \<Rightarrow>
     runtime_actor outcome" where
  "spawn_optional a scope generation sample base_fetched_at manual =
     (let a = cancel_optional a scope in
      and_then (source_of a scope) (\<lambda>_.
      let task = ra_next_task a;
          a = spawn_worker a (OptionalWorker scope generation base_fetched_at sample manual) in
      Inr (a\<lparr>ra_active_optional :=
        bt_insert scope \<lparr>ow_generation = generation, ow_abort = task\<rparr> (ra_active_optional a)\<rparr>)))"

section \<open>Starting and admitting refreshes\<close>

definition start_history_only ::
    "runtime_actor \<Rightarrow> account_scope \<Rightarrow> refresh_trigger \<Rightarrow> clock_reading \<Rightarrow> runtime_actor outcome" where
  "start_history_only a scope trigger clock =
     and_then (source_of a scope) (\<lambda>history.
     if history = None \<or> bt_contains (ra_active_optional a) scope then Inr a
     else
       and_then (next_generation a scope) (\<lambda>(a, generation).
       let at_wall = wall_now clock in
       and_then (call_history a (mark_history_state (ra_store a) scope Scanning at_wall)) (\<lambda>a.
       spawn_optional a scope generation None at_wall (trigger = Manual))))"

text \<open>
  The second half of starting required work, once the generation is drawn and the store marked:
  the slot is taken, the worker spawned, the history scanned beside it and the start announced.
\<close>

definition launch_required ::
    "runtime_actor \<Rightarrow> account_scope \<Rightarrow> local_history_scope option \<Rightarrow> nat \<Rightarrow> refresh_trigger \<Rightarrow> timestamp \<Rightarrow>
     runtime_actor outcome" where
  "launch_required a scope history generation trigger generated_at =
     (let a = a\<lparr>ra_active_required := bt_insert scope generation (ra_active_required a)\<rparr>;
          a = spawn_worker a (RequiredWorker scope generation trigger) in
      and_then
        (if history \<noteq> None \<and> \<not> bt_contains (ra_active_optional a) scope
         then and_then (call_history a (mark_history_state (ra_store a) scope Scanning generated_at)) (\<lambda>a.
              spawn_optional a scope generation None generated_at (trigger = Manual))
         else Inr a) (\<lambda>a.
      Inr (emit a (RefreshStarted scope generation trigger))))"

definition start_required ::
    "runtime_actor \<Rightarrow> account_scope \<Rightarrow> refresh_trigger \<Rightarrow> clock_reading \<Rightarrow> runtime_actor outcome" where
  "start_required a scope trigger clock =
     (let a = a\<lparr>ra_automatic_last_attempts :=
            bt_insert scope (monotonic_now clock) (ra_automatic_last_attempts a)\<rparr> in
      and_then (source_of a scope) (\<lambda>history.
      let a = (if history = None \<or> trigger = Manual then cancel_optional a scope else a) in
      and_then (next_generation a scope) (\<lambda>(a, generation).
      let generated_at = wall_now clock in
      and_then (call_store a (mark_refreshing (ra_store a) scope generated_at generated_at)) (\<lambda>(a, _).
      launch_required a scope history generation trigger generated_at))))"

definition in_cooldown :: "runtime_actor \<Rightarrow> account_scope \<Rightarrow> instant \<Rightarrow> bool" where
  "in_cooldown a scope now \<longleftrightarrow>
     is_some_and (\<lambda>until. until > now) (bt_get (ra_automatic_cooldowns a) scope)"

text \<open>Whether the minimum automatic interval since the last attempt is still running.\<close>

definition attempted_recently :: "runtime_actor \<Rightarrow> account_scope \<Rightarrow> instant \<Rightarrow> bool outcome" where
  "attempted_recently a scope now =
     (case bt_get (ra_automatic_last_attempts a) scope of
       None \<Rightarrow> Inr False
     | Some last_attempt \<Rightarrow>
         map_ok (\<lambda>until. until > now)
           (instant_plus last_attempt (automatic_minimum_interval (sc_provider scope))))"

definition admit_refresh ::
    "runtime_actor \<Rightarrow> account_scope \<Rightarrow> refresh_trigger \<Rightarrow> clock_reading \<Rightarrow>
     (runtime_actor \<times> refresh_admission) outcome" where
  "admit_refresh a scope trigger clock =
     (if \<not> bt_contains (ra_sources a) scope then Inr (a, UnknownRefreshScope)
      else if bt_contains (ra_active_required a) scope \<or> scope \<in> ra_pending_scopes a
      then Inr (a, Coalesced)
      else if trigger \<noteq> Manual \<and> in_cooldown a scope (monotonic_now clock)
      then map_ok (\<lambda>a. (a, Coalesced)) (start_history_only a scope trigger clock)
      else
        and_then (if trigger = PeriodicTick then attempted_recently a scope (monotonic_now clock) else Inr False)
          (\<lambda>recent.
        if recent then map_ok (\<lambda>a. (a, Coalesced)) (start_history_only a scope trigger clock)
        else if bt_len (ra_active_required a) < li_max_in_flight (cf_limits (ra_config a))
        then map_ok (\<lambda>a. (a, Started)) (start_required a scope trigger clock)
        else
          let scheduled_at = wall_now clock in
          and_then (call_store a (mark_scheduled (ra_store a) scope scheduled_at scheduled_at)) (\<lambda>(a, _).
          Inr (a\<lparr>ra_pending_scopes := insert scope (ra_pending_scopes a),
                 ra_pending := ra_pending a @ [(scope, trigger)]\<rparr>, Queued))))"

fun admit_all ::
    "account_scope list \<Rightarrow> refresh_trigger \<Rightarrow> clock_reading \<Rightarrow> runtime_actor \<Rightarrow> runtime_actor outcome" where
  "admit_all [] trigger clock a = Inr a"
| "admit_all (scope # scopes) trigger clock a =
     and_then (admit_refresh a scope trigger clock) (\<lambda>(a, _). admit_all scopes trigger clock a)"

section \<open>Commands and the timer\<close>

definition handle_command ::
    "time_lib \<Rightarrow> runtime_actor \<Rightarrow> runtime_command \<Rightarrow> clock_reading \<Rightarrow>
     (runtime_actor \<times> command_response) outcome" where
  "handle_command tlib a command clock =
     (case command of
       RefreshCommand scope trigger \<Rightarrow>
         and_then (admit_refresh a scope trigger clock) (\<lambda>(a, admission).
         Inr (a, RefreshResponse admission))
     | PopupOpen opened \<Rightarrow>
         let (scheduler, transitioned) = set_popup_open (ra_scheduler a) opened clock;
             a = a\<lparr>ra_scheduler := scheduler\<rparr> in
         and_then
           (if transitioned \<and> opened
            then admit_all
              (filter (\<lambda>scope. is_some_and needs_menu_open_refresh (store_snapshot (ra_store a) scope))
                (bt_keys (ra_sources a))) MenuOpen clock a
            else Inr a) (\<lambda>a.
         Inr (a, PopupResponse))
     | ScheduleReset scope boundary \<Rightarrow>
         if \<not> bt_contains (ra_sources a) scope then Inr (a, ResetResponse (Inr UnknownResetScope))
         else
           let (scheduler, r) = schedule_reset tlib (ra_scheduler a) scope boundary clock;
               a = a\<lparr>ra_scheduler := scheduler\<rparr>;
               response = map_ok (\<lambda>changed. if changed then Armed else Unchanged) r in
           and_then
             (if response = Inr Armed
              then map_ok fst (call_store a (mark_scheduled (ra_store a) scope boundary (wall_now clock)))
              else Inr a) (\<lambda>a.
           Inr (a, ResetResponse response)))"

fun admit_due ::
    "scheduled_refresh list \<Rightarrow> clock_reading \<Rightarrow> runtime_actor \<Rightarrow> runtime_actor outcome" where
  "admit_due [] clock a = Inr a"
| "admit_due (Periodic # due) clock a =
     and_then (admit_all (bt_keys (ra_sources a)) PeriodicTick clock a) (admit_due due clock)"
| "admit_due (ResetBoundary scope boundary # due) clock a =
     and_then (admit_refresh a scope (AtResetBoundary boundary) clock) (\<lambda>(a, _). admit_due due clock a)"

definition handle_schedule_due :: "runtime_actor \<Rightarrow> clock_reading \<Rightarrow> runtime_actor outcome" where
  "handle_schedule_due a clock =
     (let (scheduler, due) = take_due (ra_scheduler a) clock in
      admit_due due clock (a\<lparr>ra_scheduler := scheduler\<rparr>))"

section \<open>Worker results\<close>

definition reconcile_boundaries :: "time_lib \<Rightarrow> runtime_actor \<Rightarrow> account_scope \<Rightarrow> timestamp list \<Rightarrow>
    timestamp \<Rightarrow> clock_reading \<Rightarrow> runtime_actor" where
  "reconcile_boundaries tlib a scope boundaries fetched_at clock =
     a\<lparr>ra_scheduler := fst (reconcile_reset_boundaries tlib (ra_scheduler a) scope boundaries fetched_at clock)\<rparr>"

definition clear_reset_boundary :: "time_lib \<Rightarrow> runtime_actor \<Rightarrow> account_scope \<Rightarrow> clock_reading \<Rightarrow> runtime_actor" where
  "clear_reset_boundary tlib a scope clock = reconcile_boundaries tlib a scope [] (wall_now clock) clock"

definition actor_reconcile_reset_boundaries ::
    "time_lib \<Rightarrow> runtime_actor \<Rightarrow> account_scope \<Rightarrow> clock_reading \<Rightarrow> runtime_actor" where
  "actor_reconcile_reset_boundaries tlib a scope clock =
     (case Option.bind (store_snapshot (ra_store a) scope) snapshot_last_known_good of
       None \<Rightarrow> clear_reset_boundary tlib a scope clock
     | Some sample \<Rightarrow>
         reconcile_boundaries tlib a scope (usage_reset_boundaries sample) (us_fetched_at sample) clock)"

definition record_automatic_backoff ::
    "runtime_actor \<Rightarrow> account_scope \<Rightarrow> classified_error \<Rightarrow> clock_reading \<Rightarrow> runtime_actor outcome" where
  "record_automatic_backoff a scope error clock =
     (let failures = (case bt_get (ra_automatic_failures a) scope of
            None \<Rightarrow> 1 | Some v \<Rightarrow> min (saturating_add u8_max v 1) 6);
          a = a\<lparr>ra_automatic_failures := bt_insert scope failures (ra_automatic_failures a)\<rparr> in
      case automatic_backoff_delay error failures of
        None \<Rightarrow> Inr (a\<lparr>ra_automatic_failures := bt_remove scope (ra_automatic_failures a),
                        ra_automatic_cooldowns := bt_remove scope (ra_automatic_cooldowns a)\<rparr>)
      | Some delay \<Rightarrow>
          and_then (instant_plus (monotonic_now clock) delay) (\<lambda>until.
          Inr (a\<lparr>ra_automatic_cooldowns := bt_insert scope until (ra_automatic_cooldowns a)\<rparr>)))"

definition publish_required_failure ::
    "runtime_actor \<Rightarrow> account_scope \<Rightarrow> nat \<Rightarrow> classified_error \<Rightarrow> clock_reading \<Rightarrow> runtime_actor outcome" where
  "publish_required_failure a scope generation error clock =
     and_then (call_store a (apply_failure (ra_store a) scope error (wall_now clock))) (\<lambda>(a, _).
     Inr (emit a (RequiredUsageFailed scope generation error)))"

text \<open>
  The loop that fills free slots pops the queue from the front; the queue is the first argument,
  since starting a refresh leaves the rest of the queue alone.
\<close>

fun fill_slots ::
    "(account_scope \<times> refresh_trigger) list \<Rightarrow> clock_reading \<Rightarrow> runtime_actor \<Rightarrow> runtime_actor outcome" where
  "fill_slots [] clock a = Inr a"
| "fill_slots ((scope, trigger) # rest) clock a =
     (if bt_len (ra_active_required a) < li_max_in_flight (cf_limits (ra_config a))
      then and_then (start_required
             (a\<lparr>ra_pending := rest, ra_pending_scopes := ra_pending_scopes a - {scope}\<rparr>) scope trigger clock)
             (fill_slots rest clock)
      else Inr a)"

definition fill_required_slots :: "runtime_actor \<Rightarrow> clock_reading \<Rightarrow> runtime_actor outcome" where
  "fill_required_slots a clock = fill_slots (ra_pending a) clock a"

definition finish_required ::
    "runtime_actor \<Rightarrow> account_scope \<Rightarrow> nat \<Rightarrow> clock_reading \<Rightarrow> runtime_actor outcome" where
  "finish_required a scope generation clock =
     (if required_is_current a scope generation
      then
        let a = a\<lparr>ra_active_required := bt_remove scope (ra_active_required a)\<rparr>;
            a = emit a (RefreshFinished scope generation) in
        fill_required_slots a clock
      else Inr a)"

definition handle_required ::
    "time_lib \<Rightarrow> runtime_actor \<Rightarrow> account_scope \<Rightarrow> nat \<Rightarrow> (usage_sample, classified_error) result \<Rightarrow>
     clock_reading \<Rightarrow> runtime_actor outcome" where
  "handle_required tlib a scope generation outcome clock =
     (if \<not> required_is_current a scope generation then Inr a
      else case outcome of
        Inr sample \<Rightarrow>
          if us_scope sample = scope
          then
            let a = a\<lparr>ra_automatic_cooldowns := bt_remove scope (ra_automatic_cooldowns a),
                       ra_automatic_failures := bt_remove scope (ra_automatic_failures a)\<rparr> in
            and_then (call_store a (apply_success (ra_store a) scope sample (wall_now clock))) (\<lambda>(a, _).
            let a = actor_reconcile_reset_boundaries tlib a scope clock;
                a = emit a (RequiredUsagePublished scope generation) in
            and_then (finish_required a scope generation clock) (\<lambda>a.
            and_then (source_of a scope) (\<lambda>history.
            if history = None
            then spawn_optional a scope generation (Some sample) (us_fetched_at sample) False
            else Inr a)))
          else
            and_then (publish_required_failure a scope generation (classified_error_new Parse) clock) (\<lambda>a.
            finish_required a scope generation clock)
      | Inl error \<Rightarrow>
          and_then (record_automatic_backoff a scope error clock) (\<lambda>a.
          let a = (if ce_retry error \<noteq> Automatic then clear_reset_boundary tlib a scope clock else a) in
          and_then (publish_required_failure a scope generation error clock) (\<lambda>a.
          finish_required a scope generation clock)))"

definition handle_optional ::
    "runtime_actor \<Rightarrow> account_scope \<Rightarrow> nat \<Rightarrow> timestamp \<Rightarrow> (cost_usage option, classified_error) result \<Rightarrow>
     clock_reading \<Rightarrow> runtime_actor outcome" where
  "handle_optional a scope generation base_fetched_at outcome clock =
     (if \<not> optional_is_current a scope generation then Inr a
      else
        let a = a\<lparr>ra_active_optional := bt_remove scope (ra_active_optional a)\<rparr>;
            generated_at = wall_now clock in
        and_then (source_of a scope) (\<lambda>history.
        case history of
          Some history_scope \<Rightarrow>
            (case outcome of
              Inr data \<Rightarrow>
                and_then (call_store a (apply_local_history (ra_store a) scope
                    \<lparr>lh_scope = history_scope,
                     lh_state = (if data \<noteq> None then HistoryReady else HistoryEmpty),
                     lh_data = data\<rparr> generated_at)) (\<lambda>(a, _).
                Inr (emit a (OptionalEnrichmentPublished scope generation)))
            | Inl error \<Rightarrow>
                and_then (call_history a (mark_history_state (ra_store a) scope HistoryFailed generated_at)) (\<lambda>a.
                Inr (emit a (OptionalEnrichmentFailed scope generation error))))
        | None \<Rightarrow>
            (case outcome of
              Inr (Some usage) \<Rightarrow>
                and_then (call_store a (apply_cost_usage (ra_store a) scope base_fetched_at usage generated_at))
                  (\<lambda>(a, changed).
                Inr (if changed then emit a (OptionalEnrichmentPublished scope generation) else a))
            | Inr None \<Rightarrow> Inr a
            | Inl error \<Rightarrow> Inr (emit a (OptionalEnrichmentFailed scope generation error)))))"

definition handle_abnormal_worker ::
    "runtime_actor \<Rightarrow> work_metadata option \<Rightarrow> bool \<Rightarrow> clock_reading \<Rightarrow> runtime_actor outcome" where
  "handle_abnormal_worker a metadata cancelled clock =
     (case metadata of
       None \<Rightarrow> Inr a
     | Some (RequiredWork scope generation) \<Rightarrow>
         if required_is_current a scope generation
         then
           let classified = classified_error_new ProviderUnavailable in
           and_then (record_automatic_backoff a scope classified clock) (\<lambda>a.
           and_then (publish_required_failure a scope generation classified clock) (\<lambda>a.
           finish_required a scope generation clock))
         else Inr a
     | Some (OptionalWork scope generation) \<Rightarrow>
         if optional_is_current a scope generation
         then
           let a = a\<lparr>ra_active_optional := bt_remove scope (ra_active_optional a)\<rparr> in
           and_then (call_history a (mark_history_state (ra_store a) scope HistoryFailed (wall_now clock))) (\<lambda>a.
           Inr (if cancelled then a
                else emit a (OptionalEnrichmentFailed scope generation (classified_error_new ProviderUnavailable))))
         else Inr a)"

datatype worker_exit =
    RequiredExit account_scope nat "(usage_sample, classified_error) result"
  | OptionalExit account_scope nat timestamp "(cost_usage option, classified_error) result"

text \<open>
  What joining a task delivers: its identifier with the value it returned, or a join error, which
  says whether the task was cancelled or panicked.
\<close>

datatype joined = Joined nat worker_exit | JoinFailed nat bool

definition handle_worker_result ::
    "time_lib \<Rightarrow> runtime_actor \<Rightarrow> joined \<Rightarrow> clock_reading \<Rightarrow> runtime_actor outcome" where
  "handle_worker_result tlib a j clock =
     (case j of
       Joined task exit \<Rightarrow>
         let a = a\<lparr>ra_work_metadata := bt_remove task (ra_work_metadata a)\<rparr> in
         (case exit of
           RequiredExit scope generation outcome \<Rightarrow> handle_required tlib a scope generation outcome clock
         | OptionalExit scope generation base_fetched_at outcome \<Rightarrow>
             handle_optional a scope generation base_fetched_at outcome clock)
     | JoinFailed task cancelled \<Rightarrow>
         let metadata = bt_get (ra_work_metadata a) task;
             a = a\<lparr>ra_work_metadata := bt_remove task (ra_work_metadata a)\<rparr> in
         handle_abnormal_worker a metadata cancelled clock)"

section \<open>Construction and the loop\<close>

datatype runtime_build_error =
  DuplicateSource | TooManySources nat nat | BuildSnapshot snapshot_store_error | BuildPanicked

fun insert_sources ::
    "(account_scope \<times> local_history_scope option) list \<Rightarrow> (account_scope, local_history_scope option) btree_map \<Rightarrow>
     ((account_scope, local_history_scope option) btree_map, runtime_build_error) result" where
  "insert_sources [] sources = Inr sources"
| "insert_sources ((scope, source) # registrations) sources =
     (if bt_contains sources scope then Inl DuplicateSource
      else insert_sources registrations (bt_insert scope source sources))"

fun start_histories ::
    "(account_scope \<times> local_history_scope option) list \<Rightarrow> timestamp \<Rightarrow> snapshot_store \<Rightarrow>
     (snapshot_store, snapshot_store_error) result" where
  "start_histories [] wall st = Inr st"
| "start_histories ((scope, None) # sources) wall st = start_histories sources wall st"
| "start_histories ((scope, Some history_scope) # sources) wall st =
     and_then (apply_local_history st scope
       \<lparr>lh_scope = history_scope, lh_state = Scanning, lh_data = None\<rparr> wall) (\<lambda>(st, _).
     start_histories sources wall st)"

definition actor_new_with_retained ::
    "runtime_config \<Rightarrow> clock_reading \<Rightarrow> (account_scope \<times> local_history_scope option) list \<Rightarrow>
     provider_snapshot list \<Rightarrow> (runtime_actor, runtime_build_error) result" where
  "actor_new_with_retained config clock registrations retained =
     and_then (insert_sources registrations bt_empty) (\<lambda>sources.
     if bt_len sources > li_pending_capacity (cf_limits config)
     then Inl (TooManySources (bt_len sources) (li_pending_capacity (cf_limits config)))
     else
       and_then (ok_or BuildPanicked (retained_automatic_backoff retained (wall_now clock) (monotonic_now clock)))
         (\<lambda>(cooldowns, failures).
       and_then (map_err BuildSnapshot (store_new_with_retained (bt_keys sources) retained (wall_now clock))) (\<lambda>st.
       and_then (map_err BuildSnapshot (start_histories (bt_entries sources) (wall_now clock) st)) (\<lambda>st.
       Inr \<lparr>ra_config = config, ra_scheduler = scheduler_new (cf_schedule config) clock,
            ra_sources = sources, ra_store = st, ra_commands_open = True, ra_events = [],
            ra_workers = bt_empty, ra_next_task = 0, ra_aborted = [], ra_work_metadata = bt_empty,
            ra_active_required = bt_empty, ra_active_optional = bt_empty, ra_pending = [],
            ra_pending_scopes = {}, ra_generations = bt_empty, ra_automatic_cooldowns = cooldowns,
            ra_automatic_failures = failures, ra_automatic_last_attempts = bt_empty\<rparr>))))"

definition actor_new ::
    "runtime_config \<Rightarrow> clock_reading \<Rightarrow> (account_scope \<times> local_history_scope option) list \<Rightarrow>
     (runtime_actor, runtime_build_error) result" where
  "actor_new config clock registrations = actor_new_with_retained config clock registrations []"

text \<open>
  One turn of the loop on an input other than shutdown. The join set forgets a task when it yields
  its result.
\<close>

datatype actor_input = WorkerInput joined | CommandInput "runtime_command option" | ScheduleDue

fun joined_task :: "joined \<Rightarrow> nat" where
  "joined_task (Joined task _) = task"
| "joined_task (JoinFailed task _) = task"

definition actor_turn ::
    "time_lib \<Rightarrow> runtime_actor \<Rightarrow> actor_input \<Rightarrow> clock_reading \<Rightarrow> runtime_actor outcome" where
  "actor_turn tlib a input clock =
     (case input of
       WorkerInput j \<Rightarrow>
         handle_worker_result tlib (a\<lparr>ra_workers := bt_remove (joined_task j) (ra_workers a)\<rparr>) j clock
     | CommandInput (Some command) \<Rightarrow> map_ok fst (handle_command tlib a command clock)
     | CommandInput None \<Rightarrow> Inr (a\<lparr>ra_commands_open := False\<rparr>)
     | ScheduleDue \<Rightarrow> handle_schedule_due a clock)"

text \<open>
  The inputs that can arrive: a task that runs, with the scope, generation and time its closure
  captured, a command while the channel is open, or the timer.
\<close>

fun exit_matches :: "worker \<Rightarrow> joined \<Rightarrow> bool" where
  "exit_matches (RequiredWorker scope generation _) (Joined _ (RequiredExit scope' generation' _)) \<longleftrightarrow>
     scope' = scope \<and> generation' = generation"
| "exit_matches (OptionalWorker scope generation base _ _) (Joined _ (OptionalExit scope' generation' base' _)) \<longleftrightarrow>
     scope' = scope \<and> generation' = generation \<and> base' = base"
| "exit_matches _ (JoinFailed _ _) \<longleftrightarrow> True"
| "exit_matches _ _ \<longleftrightarrow> False"

fun input_enabled :: "runtime_actor \<Rightarrow> actor_input \<Rightarrow> bool" where
  "input_enabled a (WorkerInput j) \<longleftrightarrow>
     is_some_and (\<lambda>w. exit_matches w j) (bt_get (ra_workers a) (joined_task j))"
| "input_enabled a (CommandInput _) \<longleftrightarrow> ra_commands_open a"
| "input_enabled a ScheduleDue \<longleftrightarrow> True"

inductive actor_reachable :: "time_lib \<Rightarrow> runtime_actor \<Rightarrow> bool" for tlib where
  init: "actor_new_with_retained config clock registrations retained = Inr a \<Longrightarrow>
    0 < li_max_in_flight (cf_limits config) \<Longrightarrow> actor_reachable tlib a"
| turn: "actor_reachable tlib a \<Longrightarrow> input_enabled a input \<Longrightarrow> actor_turn tlib a input clock = Inr a' \<Longrightarrow>
    actor_reachable tlib a'"

end
