(* ===== verification/Actor_Invariant.thy ===== *)
theory Actor_Invariant
  imports Runtime_Actor
begin

text \<open>
  The invariant of the runtime actor and its preservation by every handler, in the style of a
  program logic: \<open>ensures r P\<close> says that an operation returns a value satisfying \<open>P\<close> or stops for
  one of the three reasons that no input can avoid, an exhausted 64-bit counter or an
  unrepresentable instant.
\<close>

section \<open>Outcomes\<close>

fun benign :: "actor_stop \<Rightarrow> bool" where
  "benign (Faulted (StoreFault SequenceExhausted)) = True"
| "benign (Faulted GenerationExhausted) = True"
| "benign (Panicked InstantOverflow) = True"
| "benign _ = False"

definition ensures :: "'a outcome \<Rightarrow> ('a \<Rightarrow> bool) \<Rightarrow> bool" where
  "ensures r P \<longleftrightarrow> (case r of Inl e \<Rightarrow> benign e | Inr x \<Rightarrow> P x)"

lemma ensures_Inr [simp]: "ensures (Inr x) P = P x"
  by (simp add: ensures_def)

lemma ensures_and_then:
  "ensures r Q \<Longrightarrow> (\<And>x. Q x \<Longrightarrow> ensures (f x) P) \<Longrightarrow> ensures (and_then r f) P"
  by (cases r) (auto simp: ensures_def)

lemma ensures_map_ok: "ensures r (\<lambda>x. P (f x)) \<Longrightarrow> ensures (map_ok f r) P"
  by (cases r) (auto simp: ensures_def)

lemma ensures_weaken: "ensures r Q \<Longrightarrow> (\<And>x. Q x \<Longrightarrow> P x) \<Longrightarrow> ensures r P"
  by (cases r) (auto simp: ensures_def)

lemma ensures_instant: "ensures (instant_plus t d) (\<lambda>u. u = t + d)"
  by (simp add: instant_plus_def instant_checked_add_def ensures_def)

section \<open>The store and the history of each account\<close>

text \<open>
  Where the source keeps a local history, the snapshot carries one of that kind and the cost data
  of the reading are those of the history; where it does not, the snapshot carries none.
\<close>

definition snapshot_history_ok :: "local_history_scope option \<Rightarrow> provider_snapshot \<Rightarrow> bool" where
  "snapshot_history_ok source p \<longleftrightarrow>
     (case source of
       None \<Rightarrow> snapshot_local_history p = None
     | Some kind \<Rightarrow> (\<exists>h. snapshot_local_history p = Some h \<and> lh_scope h = kind \<and>
         is_none_or (\<lambda>s. us_cost_usage s = lh_data h) (snapshot_last_known_good p)))"

fun op_fits :: "local_history_scope option \<Rightarrow> store_op \<Rightarrow> bool" where
  "op_fits source (ApplyLocalHistory _ h) \<longleftrightarrow> source = Some (lh_scope h)"
| "op_fits source (ApplyCostUsage _ _ _) \<longleftrightarrow> source = None"
| "op_fits source _ \<longleftrightarrow> True"

lemma with_cost_usage_cost [simp]: "us_cost_usage (with_cost_usage s u) = Some u"
  by (simp add: with_cost_usage_def)

lemma success_sample_cost:
  "snapshot_local_history p = Some h \<Longrightarrow> us_cost_usage (success_sample sample t p) = lh_data h"
  by (simp add: success_sample_def Let_def)

lemma op_step_history:
  assumes "snapshot_history_ok source q" "op_fits source p"
  shows "snapshot_history_ok source (op_step p t q)"
  using assms
proof (cases p)
  case (ApplySuccess a sample)
  with assms show ?thesis
    by (auto simp: snapshot_history_ok_def success_step_def success_sample_cost split: option.splits)
qed (cases q; auto simp: snapshot_history_ok_def phase_step_def failure_step_def history_step_def
    history_state_step_def cost_step_def split: option.splits)+

definition store_matches :: "runtime_actor \<Rightarrow> bool" where
  "store_matches a \<longleftrightarrow> store_ok (ra_store a) \<and>
     (\<forall>k. bt_contains (st_snapshots (ra_store a)) k = bt_contains (ra_sources a) k) \<and>
     (\<forall>k source p. bt_get (ra_sources a) k = Some source \<longrightarrow> store_abs (ra_store a) k = Some p \<longrightarrow>
        snapshot_history_ok source p)"

lemma store_op_matches:
  assumes a: "store_matches a" and known: "bt_contains (ra_sources a) (op_scope p)"
    and adm: "op_admissible p" and fits: "\<And>s. bt_get (ra_sources a) (op_scope p) = Some s \<Longrightarrow> op_fits s p"
  shows "ensures (map_err (\<lambda>e. Faulted (StoreFault e)) (run_op p t (ra_store a)))
    (\<lambda>st. store_matches (a\<lparr>ra_store := st\<rparr>) \<and>
      store_abs st = (store_abs (ra_store a))(op_scope p := map_option (op_step p t) (store_abs (ra_store a) (op_scope p))))"
proof (cases "run_op p t (ra_store a)")
  case (Inl e)
  obtain q where q: "store_abs (ra_store a) (op_scope p) = Some q"
    using a known unfolding store_matches_def bt_contains_def by (metis option.exhaust)
  have "store_ok (ra_store a)" using a by (simp add: store_matches_def)
  from run_op_effect [OF this adm q, of t] Inl show ?thesis
    by (auto simp: ensures_def split: if_splits)
next
  case (Inr st)
  have ok: "store_ok (ra_store a)" using a by (simp add: store_matches_def)
  note r = run_op_refines [OF ok adm Inr]
  have dom: "bt_contains (st_snapshots st) k = bt_contains (st_snapshots (ra_store a)) k" for k
    using r by (simp add: bt_contains_def)
  have "snapshot_history_ok s q" if "bt_get (ra_sources a) k = Some s" "store_abs st k = Some q" for k s q
    using that a r fits op_step_history by (auto simp: store_matches_def split: if_splits)
  with a r dom show ?thesis by (simp add: Inr store_matches_def)
qed

lemma ensures_call_store:
  assumes "ensures (map_err (\<lambda>e. Faulted (StoreFault e)) (map_ok fst r)) P"
  shows "ensures (call_store a r) (\<lambda>(a', b). \<exists>st. a' = a\<lparr>ra_store := st\<rparr> \<and> P st)"
  using assms by (cases r) (auto simp: call_store_def ensures_def)

lemma ensures_call_history:
  assumes "ensures (map_err (\<lambda>e. Faulted (StoreFault e)) r) P"
  shows "ensures (call_history a r) (\<lambda>a'. \<exists>st. a' = a\<lparr>ra_store := st\<rparr> \<and> P st)"
  using assms by (cases r) (auto simp: call_history_def ensures_def)

section \<open>Slots, queue, workers and events\<close>

definition max_slots :: "runtime_actor \<Rightarrow> nat" where
  "max_slots a = li_max_in_flight (cf_limits (ra_config a))"

definition slots_ok :: "runtime_actor \<Rightarrow> bool" where
  "slots_ok a \<longleftrightarrow>
     bt_len (ra_active_required a) \<le> max_slots a \<and>
     bt_len (ra_sources a) \<le> li_pending_capacity (cf_limits (ra_config a)) \<and>
     distinct (map fst (ra_pending a)) \<and> ra_pending_scopes a = fst ` set (ra_pending a) \<and>
     (\<forall>k\<in>ra_pending_scopes a. bt_contains (ra_sources a) k \<and> \<not> bt_contains (ra_active_required a) k) \<and>
     (\<forall>k. bt_contains (ra_active_required a) k \<longrightarrow> bt_contains (ra_sources a) k) \<and>
     (\<forall>k. bt_contains (ra_active_optional a) k \<longrightarrow> bt_contains (ra_sources a) k)"

definition runs :: "(nat, worker) btree_map \<Rightarrow> account_scope \<Rightarrow> nat \<Rightarrow> bool" where
  "runs ws k g \<longleftrightarrow> (\<exists>i t. bt_get ws i = Some (RequiredWorker k g t))"

definition one_each :: "(nat, worker) btree_map \<Rightarrow> bool" where
  "one_each ws \<longleftrightarrow> (\<forall>i j k g h t u. bt_get ws i = Some (RequiredWorker k g t) \<longrightarrow>
     bt_get ws j = Some (RequiredWorker k h u) \<longrightarrow> i = j)"

lemma runs_insert:
  "bt_get ws i = None \<Longrightarrow> runs (bt_insert i w ws) k g \<longleftrightarrow> runs ws k g \<or> (\<exists>t. w = RequiredWorker k g t)"
  unfolding runs_def by (auto; metis option.distinct(1))

lemma runs_remove:
  assumes "one_each ws"
  shows "runs (bt_remove i ws) k g \<longleftrightarrow> runs ws k g \<and> (\<forall>t. bt_get ws i \<noteq> Some (RequiredWorker k g t))"
  using assms unfolding runs_def one_each_def by (auto; metis)

lemma one_each_remove: "one_each ws \<Longrightarrow> one_each (bt_remove i ws)"
  unfolding one_each_def by (simp split: if_splits)

lemma one_each_insert:
  assumes "one_each ws" "\<And>k g t h. w = RequiredWorker k g t \<Longrightarrow> \<not> runs ws k h"
  shows "one_each (bt_insert i w ws)"
  using assms unfolding one_each_def runs_def by (auto split: if_splits)

text \<open>
  The required workers that run are one for each active scope, except the one in \<open>hole\<close>, whose
  worker has just been joined.
\<close>

definition workers_ok :: "account_scope option \<Rightarrow> runtime_actor \<Rightarrow> bool" where
  "workers_ok hole a \<longleftrightarrow>
     (\<forall>i. bt_contains (ra_workers a) i \<longrightarrow> i < ra_next_task a) \<and>
     (\<forall>i. bt_get (ra_work_metadata a) i = map_option metadata_of (bt_get (ra_workers a) i)) \<and>
     (\<forall>k g. runs (ra_workers a) k g \<longleftrightarrow> bt_get (ra_active_required a) k = Some g \<and> hole \<noteq> Some k) \<and>
     one_each (ra_workers a)"

fun started_of :: "runtime_event \<Rightarrow> (account_scope \<times> nat) option" where
  "started_of (RefreshStarted k g _) = Some (k, g)"
| "started_of _ = None"

fun finished_of :: "runtime_event \<Rightarrow> (account_scope \<times> nat) option" where
  "finished_of (RefreshFinished k g) = Some (k, g)"
| "finished_of _ = None"

definition started :: "runtime_actor \<Rightarrow> (account_scope \<times> nat) list" where
  "started a = List.map_filter started_of (ra_events a)"

definition finished :: "runtime_actor \<Rightarrow> (account_scope \<times> nat) list" where
  "finished a = List.map_filter finished_of (ra_events a)"

text \<open>\<open>due\<close> holds the started generations whose event is still to be sent.\<close>

definition events_ok :: "(account_scope \<times> nat) list \<Rightarrow> runtime_actor \<Rightarrow> bool" where
  "events_ok due a \<longleftrightarrow>
     distinct (started a @ due) \<and> distinct (finished a) \<and> set (finished a) \<subseteq> set (started a) \<and>
     (\<forall>k g. bt_get (ra_active_required a) k = Some g \<longleftrightarrow> (k, g) \<in> set (started a @ due) - set (finished a)) \<and>
     (\<forall>k g. (k, g) \<in> set (started a @ due) \<longrightarrow> is_some_and (\<lambda>n. g \<le> n) (bt_get (ra_generations a) k))"

definition core :: "account_scope option \<Rightarrow> (account_scope \<times> nat) list \<Rightarrow> runtime_actor \<Rightarrow> bool" where
  "core hole due a \<longleftrightarrow> store_matches a \<and> slots_ok a \<and> workers_ok hole a \<and> events_ok due a"

text \<open>The invariant between turns; in addition, nothing waits while a slot is free.\<close>

definition actor_ok :: "runtime_actor \<Rightarrow> bool" where
  "actor_ok a \<longleftrightarrow> core None [] a \<and> 0 < max_slots a \<and>
     (ra_pending a \<noteq> [] \<longrightarrow> bt_len (ra_active_required a) = max_slots a)"

lemma emit_logs [simp]:
  "started (emit a e) = started a @ (case started_of e of None \<Rightarrow> [] | Some p \<Rightarrow> [p])"
  "finished (emit a e) = finished a @ (case finished_of e of None \<Rightarrow> [] | Some p \<Rightarrow> [p])"
  by (simp_all add: started_def finished_def emit_def List.map_filter_def split: option.splits)

section \<open>Frames\<close>

text \<open>What the elementary operations leave alone.\<close>

lemma emit_frame [simp]:
  "ra_config (emit a e) = ra_config a" "ra_scheduler (emit a e) = ra_scheduler a"
  "ra_sources (emit a e) = ra_sources a" "ra_store (emit a e) = ra_store a"
  "ra_workers (emit a e) = ra_workers a" "ra_next_task (emit a e) = ra_next_task a"
  "ra_work_metadata (emit a e) = ra_work_metadata a"
  "ra_active_required (emit a e) = ra_active_required a"
  "ra_active_optional (emit a e) = ra_active_optional a" "ra_pending (emit a e) = ra_pending a"
  "ra_pending_scopes (emit a e) = ra_pending_scopes a" "ra_generations (emit a e) = ra_generations a"
  "ra_automatic_cooldowns (emit a e) = ra_automatic_cooldowns a"
  "ra_automatic_failures (emit a e) = ra_automatic_failures a"
  by (simp_all add: emit_def)

lemma emit_events [simp]: "ra_events (emit a e) = ra_events a @ [e]"
  by (simp add: emit_def)

lemma spawn_worker_frame [simp]:
  "ra_config (spawn_worker a w) = ra_config a" "ra_scheduler (spawn_worker a w) = ra_scheduler a"
  "ra_sources (spawn_worker a w) = ra_sources a" "ra_store (spawn_worker a w) = ra_store a"
  "ra_events (spawn_worker a w) = ra_events a"
  "ra_active_required (spawn_worker a w) = ra_active_required a"
  "ra_active_optional (spawn_worker a w) = ra_active_optional a"
  "ra_pending (spawn_worker a w) = ra_pending a"
  "ra_pending_scopes (spawn_worker a w) = ra_pending_scopes a"
  "ra_generations (spawn_worker a w) = ra_generations a"
  by (simp_all add: spawn_worker_def)

lemma cancel_optional_frame [simp]:
  "ra_config (cancel_optional a k) = ra_config a" "ra_scheduler (cancel_optional a k) = ra_scheduler a"
  "ra_sources (cancel_optional a k) = ra_sources a" "ra_store (cancel_optional a k) = ra_store a"
  "ra_events (cancel_optional a k) = ra_events a" "ra_workers (cancel_optional a k) = ra_workers a"
  "ra_next_task (cancel_optional a k) = ra_next_task a"
  "ra_work_metadata (cancel_optional a k) = ra_work_metadata a"
  "ra_active_required (cancel_optional a k) = ra_active_required a"
  "ra_pending (cancel_optional a k) = ra_pending a"
  "ra_pending_scopes (cancel_optional a k) = ra_pending_scopes a"
  "ra_generations (cancel_optional a k) = ra_generations a"
  "bt_contains (ra_active_optional (cancel_optional a k)) j \<longleftrightarrow> bt_contains (ra_active_optional a) j \<and> j \<noteq> k"
  by (auto simp: cancel_optional_def bt_contains_def split: option.splits)

text \<open>The two actors agree on everything the slots, the queue and the event log are made of.\<close>

definition same_work :: "runtime_actor \<Rightarrow> runtime_actor \<Rightarrow> bool" where
  "same_work a' a \<longleftrightarrow>
     ra_config a' = ra_config a \<and> ra_sources a' = ra_sources a \<and>
     ra_active_required a' = ra_active_required a \<and> ra_pending a' = ra_pending a \<and>
     ra_pending_scopes a' = ra_pending_scopes a \<and> ra_events a' = ra_events a"

lemma same_work_refl [simp]: "same_work a a"
  by (simp add: same_work_def)

lemma same_work_trans: "same_work c b \<Longrightarrow> same_work b a \<Longrightarrow> same_work c a"
  by (simp add: same_work_def)

lemmas core_parts = core_def slots_ok_def max_slots_def workers_ok_def events_ok_def store_matches_def
  started_def finished_def

lemma core_frame [simp]:
  "core h d (a\<lparr>ra_scheduler := sd\<rparr>) = core h d a"
  "core h d (a\<lparr>ra_commands_open := b\<rparr>) = core h d a"
  "core h d (a\<lparr>ra_automatic_cooldowns := c\<rparr>) = core h d a"
  "core h d (a\<lparr>ra_automatic_failures := f\<rparr>) = core h d a"
  "core h d (a\<lparr>ra_automatic_last_attempts := l\<rparr>) = core h d a"
  by (simp_all add: core_parts)

lemma core_emit:
  "started_of e = None \<Longrightarrow> finished_of e = None \<Longrightarrow> core h d (emit a e) = core h d a"
  by (simp add: core_def slots_ok_def max_slots_def workers_ok_def events_ok_def store_matches_def)

lemma core_store: "core h d a \<Longrightarrow> store_matches (a\<lparr>ra_store := st\<rparr>) \<Longrightarrow> core h d (a\<lparr>ra_store := st\<rparr>)"
  by (simp add: core_def slots_ok_def max_slots_def workers_ok_def events_ok_def started_def finished_def)

lemma core_cancel_optional: "core h d a \<Longrightarrow> core h d (cancel_optional a k)"
  by (simp add: core_parts)

lemma core_drop_optional: "core h d a \<Longrightarrow> core h d (a\<lparr>ra_active_optional := bt_remove k (ra_active_optional a)\<rparr>)"
  by (simp add: core_parts)

lemma source_known: "bt_contains (ra_sources a) k \<Longrightarrow> \<exists>s. source_of a k = Inr s \<and> bt_get (ra_sources a) k = Some s"
  by (auto simp: source_of_def bt_contains_def)

lemma fresh_task: "workers_ok h a \<Longrightarrow> bt_get (ra_workers a) (ra_next_task a) = None"
  by (auto simp: workers_ok_def bt_contains_def)

lemma workers_spawn_optional:
  "workers_ok h a \<Longrightarrow> workers_ok h (spawn_worker a (OptionalWorker k g b s m))"
  using fresh_task [of h a]
  by (auto simp: workers_ok_def spawn_worker_def less_Suc_eq runs_insert intro: one_each_insert)

lemma workers_spawn_required:
  assumes "workers_ok None a" "\<not> bt_contains (ra_active_required a) k"
  shows "workers_ok None (spawn_worker (a\<lparr>ra_active_required := bt_insert k g (ra_active_required a)\<rparr>)
    (RequiredWorker k g t))"
  using assms fresh_task [OF assms(1)]
  by (auto simp: workers_ok_def spawn_worker_def less_Suc_eq runs_insert bt_contains_def
      intro!: one_each_insert)

lemma spawn_optional_ensures:
  assumes "core h d a" "bt_contains (ra_sources a) k"
  shows "ensures (spawn_optional a k g s b m) (\<lambda>a'. core h d a' \<and> same_work a' a \<and>
    ra_store a' = ra_store a \<and> ra_scheduler a' = ra_scheduler a)"
proof -
  let ?w = "OptionalWorker k g b s m"
  have "workers_ok h (spawn_worker (cancel_optional a k) ?w)"
    using core_cancel_optional [OF assms(1)] by (intro workers_spawn_optional) (simp add: core_def)
  then have "core h d ((spawn_worker (cancel_optional a k) ?w)\<lparr>ra_active_optional := bt_insert k
      \<lparr>ow_generation = g, ow_abort = ra_next_task (cancel_optional a k)\<rparr>
      (ra_active_optional (cancel_optional a k))\<rparr>)"
    using core_cancel_optional [OF assms(1), of k] assms(2) by (auto simp: core_parts)
  with source_known [OF assms(2)] show ?thesis
    by (auto simp: spawn_optional_def Let_def source_of_def same_work_def)
qed

lemma next_generation_ensures:
  "ensures (next_generation a k) (\<lambda>(a', g). a' = a\<lparr>ra_generations := bt_insert k g (ra_generations a)\<rparr> \<and>
     is_none_or (\<lambda>n. n < g) (bt_get (ra_generations a) k))"
  by (auto simp: next_generation_def Let_def ensures_def checked_add_def split: option.splits)

lemma core_generation:
  assumes "core h d a" "is_none_or (\<lambda>n. n < g) (bt_get (ra_generations a) k)"
  shows "core h d (a\<lparr>ra_generations := bt_insert k g (ra_generations a)\<rparr>)"
proof -
  have "is_some_and (\<lambda>n. g' \<le> n) (if k' = k then Some g else bt_get (ra_generations a) k')"
    if "is_some_and (\<lambda>n. g' \<le> n) (bt_get (ra_generations a) k')" for k' g'
    using that assms(2) by (cases "bt_get (ra_generations a) k") auto
  with assms(1) show ?thesis by (simp add: core_parts)
qed

section \<open>Starting work\<close>

lemma history_call_ensures:
  assumes "core h d a" "bt_contains (ra_sources a) k"
  shows "ensures (call_history a (mark_history_state (ra_store a) k state t))
    (\<lambda>a'. \<exists>st. a' = a\<lparr>ra_store := st\<rparr> \<and> core h d a')"
proof -
  have "ensures (call_history a (run_op (MarkHistoryState k state) t (ra_store a)))
      (\<lambda>a'. \<exists>st. a' = a\<lparr>ra_store := st\<rparr> \<and> store_matches (a\<lparr>ra_store := st\<rparr>) \<and>
        store_abs st = (store_abs (ra_store a))(k := map_option (op_step (MarkHistoryState k state) t) (store_abs (ra_store a) k)))"
    using assms store_op_matches [of a "MarkHistoryState k state" t]
    by (intro ensures_call_history) (simp add: core_def)
  then show ?thesis unfolding run_op.simps by (rule ensures_weaken) (auto intro: core_store [OF assms(1)])
qed

lemma store_call_ensures:
  assumes a: "core h d a" and k: "bt_contains (ra_sources a) (op_scope p)" and adm: "op_admissible p"
    and fits: "\<And>s. bt_get (ra_sources a) (op_scope p) = Some s \<Longrightarrow> op_fits s p"
    and run: "run_op p t (ra_store a) = map_ok fst r"
  shows "ensures (call_store a r) (\<lambda>(a', b). \<exists>st. a' = a\<lparr>ra_store := st\<rparr> \<and> core h d a' \<and>
    store_abs st = (store_abs (ra_store a))(op_scope p := map_option (op_step p t) (store_abs (ra_store a) (op_scope p))))"
proof -
  have "ensures (call_store a r) (\<lambda>(a', b). \<exists>st. a' = a\<lparr>ra_store := st\<rparr> \<and>
    store_matches (a\<lparr>ra_store := st\<rparr>) \<and>
    store_abs st = (store_abs (ra_store a))(op_scope p := map_option (op_step p t) (store_abs (ra_store a) (op_scope p))))"
    using a store_op_matches [OF _ k adm fits, of t] unfolding run core_def
    by (intro ensures_call_store) simp
  then show ?thesis by (rule ensures_weaken) (auto intro: core_store [OF a])
qed

lemma store_call_core:
  assumes "core h d a" "bt_contains (ra_sources a) (op_scope p)" "op_admissible p"
    and "\<And>s. bt_get (ra_sources a) (op_scope p) = Some s \<Longrightarrow> op_fits s p"
    and "run_op p t (ra_store a) = map_ok fst r"
  shows "ensures (call_store a r) (\<lambda>(a', b). \<exists>st. a' = a\<lparr>ra_store := st\<rparr> \<and> core h d a')"
  by (rule ensures_weaken [OF store_call_ensures [OF assms]]) (simp only: split_beta, blast)

lemma mark_call_core:
  assumes "core h d a" "bt_contains (ra_sources a) k"
  shows "ensures (call_store a (mark_scheduled (ra_store a) k due t))
      (\<lambda>(a', b). \<exists>st. a' = a\<lparr>ra_store := st\<rparr> \<and> core h d a')"
    and "ensures (call_store a (mark_refreshing (ra_store a) k due t))
      (\<lambda>(a', b). \<exists>st. a' = a\<lparr>ra_store := st\<rparr> \<and> core h d a')"
proof -
  show "ensures (call_store a (mark_scheduled (ra_store a) k due t))
      (\<lambda>(a', b). \<exists>st. a' = a\<lparr>ra_store := st\<rparr> \<and> core h d a')"
    by (rule store_call_core [where p = "MarkScheduled k due"]) (use assms in simp_all)
  show "ensures (call_store a (mark_refreshing (ra_store a) k due t))
      (\<lambda>(a', b). \<exists>st. a' = a\<lparr>ra_store := st\<rparr> \<and> core h d a')"
    by (rule store_call_core [where p = "MarkRefreshing k due"]) (use assms in simp_all)
qed

lemma start_history_only_ensures:
  assumes "core h d a" "bt_contains (ra_sources a) k"
  shows "ensures (start_history_only a k trigger clock) (\<lambda>a'. core h d a' \<and> same_work a' a)"
proof -
  obtain s where s: "source_of a k = Inr s" using source_known [OF assms(2)] by auto
  show ?thesis
  proof (cases "s = None \<or> bt_contains (ra_active_optional a) k")
    case False
    have "ensures (and_then (next_generation a k) (\<lambda>(a, generation).
       and_then (call_history a (mark_history_state (ra_store a) k Scanning (wall_now clock))) (\<lambda>a.
       spawn_optional a k generation None (wall_now clock) (trigger = Manual))))
      (\<lambda>a'. core h d a' \<and> same_work a' a)"
    proof (rule ensures_and_then [OF next_generation_ensures], clarify, rule ensures_and_then)
      fix b g
      assume "is_none_or (\<lambda>n. n < g) (bt_get (ra_generations a) k)"
      from core_generation [OF assms(1) this] assms(2)
      show "ensures (call_history (a\<lparr>ra_generations := bt_insert k g (ra_generations a)\<rparr>)
        (mark_history_state (ra_store (a\<lparr>ra_generations := bt_insert k g (ra_generations a)\<rparr>)) k Scanning (wall_now clock)))
        (\<lambda>a'. core h d a' \<and> same_work a' a \<and> bt_contains (ra_sources a') k)"
        by (intro ensures_weaken [OF history_call_ensures]) (auto simp: same_work_def)
    next
      fix g b
      assume "core h d b \<and> same_work b a \<and> bt_contains (ra_sources b) k"
      then show "ensures (spawn_optional b k g None (wall_now clock) (trigger = Manual)) (\<lambda>a'. core h d a' \<and> same_work a' a)"
        by (intro ensures_weaken [OF spawn_optional_ensures]) (auto intro: same_work_trans)
    qed
    with False s show ?thesis by (auto simp: start_history_only_def Let_def)
  qed (use s assms in \<open>simp add: start_history_only_def\<close>)
qed

text \<open>The actor right after a required worker was spawned, before its start is announced.\<close>

lemma core_spawn_required:
  assumes a: "core None [] a" and g: "is_none_or (\<lambda>n. n < g) old" "bt_get (ra_generations a) k = Some g"
    and old: "\<And>g'. (k, g') \<in> set (started a) \<Longrightarrow> is_some_and (\<lambda>n. g' \<le> n) old"
    and k: "bt_contains (ra_sources a) k" "\<not> bt_contains (ra_active_required a) k"
      "k \<notin> ra_pending_scopes a" "bt_len (ra_active_required a) < max_slots a"
  shows "core None [(k, g)] (spawn_worker (a\<lparr>ra_active_required := bt_insert k g (ra_active_required a)\<rparr>)
    (RequiredWorker k g t))" (is "core None _ ?b")
proof -
  have "(k, g) \<notin> set (started a)"
    using old [of g] g(1) by (cases old) auto
  moreover have "(k, g') \<notin> set (started a) - set (finished a)" for g'
    using a k(2) by (auto simp: core_def events_ok_def bt_contains_def)
  ultimately have "events_ok [(k, g)] ?b"
    using a g(2) k(2) unfolding core_def events_ok_def
    by (auto simp: started_def finished_def bt_contains_def)
  moreover have "slots_ok ?b"
    using a k by (auto simp: core_def slots_ok_def max_slots_def bt_len_insert)
  moreover have "workers_ok None ?b"
    using a k(2) by (intro workers_spawn_required) (simp_all add: core_def)
  ultimately show ?thesis
    using a by (simp add: core_def store_matches_def)
qed

lemma core_announce: "core h [(k, g)] a \<Longrightarrow> core h [] (emit a (RefreshStarted k g t))"
  by (auto simp: core_def slots_ok_def max_slots_def workers_ok_def events_ok_def store_matches_def)

definition started_in :: "account_scope \<Rightarrow> refresh_trigger \<Rightarrow> runtime_actor \<Rightarrow> runtime_actor \<Rightarrow> bool" where
  "started_in k t a a' \<longleftrightarrow>
     ra_config a' = ra_config a \<and> ra_sources a' = ra_sources a \<and> ra_pending a' = ra_pending a \<and>
     ra_pending_scopes a' = ra_pending_scopes a \<and>
     (\<exists>g. ra_active_required a' = bt_insert k g (ra_active_required a) \<and>
        ra_events a' = ra_events a @ [RefreshStarted k g t])"

lemma launch_ensures:
  assumes c: "core None [] c" and g: "is_none_or (\<lambda>n. n < g) old" "bt_get (ra_generations c) k = Some g"
    and old: "\<And>g'. (k, g') \<in> set (started c) \<Longrightarrow> is_some_and (\<lambda>n. g' \<le> n) old"
    and k: "bt_contains (ra_sources c) k" "\<not> bt_contains (ra_active_required c) k"
      "k \<notin> ra_pending_scopes c" "bt_len (ra_active_required c) < max_slots c"
  shows "ensures (launch_required c k s g trigger t) (\<lambda>a'. core None [] a' \<and> started_in k trigger c a')"
proof -
  let ?b = "spawn_worker (c\<lparr>ra_active_required := bt_insert k g (ra_active_required c)\<rparr>) (RequiredWorker k g trigger)"
  let ?Q = "\<lambda>b. core None [(k, g)] b \<and> same_work b ?b"
  have b: "core None [(k, g)] ?b" by (rule core_spawn_required [OF c g old k])
  have "ensures (and_then (call_history ?b (mark_history_state (ra_store ?b) k Scanning t)) (\<lambda>a.
      spawn_optional a k g None t (trigger = Manual))) ?Q"
  proof (rule ensures_and_then)
    show "ensures (call_history ?b (mark_history_state (ra_store ?b) k Scanning t))
        (\<lambda>a. ?Q a \<and> bt_contains (ra_sources a) k)"
      using k(1) by (intro ensures_weaken [OF history_call_ensures [OF b]]) (auto simp: same_work_def)
  next
    fix a assume "?Q a \<and> bt_contains (ra_sources a) k"
    then show "ensures (spawn_optional a k g None t (trigger = Manual)) ?Q"
      by (intro ensures_weaken [OF spawn_optional_ensures]) (auto intro: same_work_trans)
  qed
  moreover have "?Q ?b" using b by simp
  moreover have "core None [] (emit a (RefreshStarted k g trigger)) \<and>
      started_in k trigger c (emit a (RefreshStarted k g trigger))" if "?Q a" for a
    using that by (auto intro: core_announce simp: started_in_def same_work_def)
  ultimately show ?thesis
    unfolding launch_required_def Let_def by (intro ensures_and_then [where Q = ?Q]) auto
qed

lemma start_required_ensures:
  assumes core: "core None [] a" and k: "bt_contains (ra_sources a) k"
    "\<not> bt_contains (ra_active_required a) k" "k \<notin> ra_pending_scopes a"
    "bt_len (ra_active_required a) < max_slots a"
  shows "ensures (start_required a k trigger clock) (\<lambda>a'. core None [] a' \<and> started_in k trigger a a')"
proof -
  let ?a = "a\<lparr>ra_automatic_last_attempts := bt_insert k (monotonic_now clock) (ra_automatic_last_attempts a)\<rparr>"
  let ?t = "wall_now clock"
  obtain s where s: "source_of ?a k = Inr s" using source_known [of ?a k] k(1) by auto
  define b where "b = (if s = None \<or> trigger = Manual then cancel_optional ?a k else ?a)"
  have b: "core None [] b" "same_work b a" "ra_generations b = ra_generations a"
    using core by (auto simp: b_def same_work_def intro: core_cancel_optional)
  let ?old = "bt_get (ra_generations a) k"
  define Q where "Q g c \<longleftrightarrow> core None [] c \<and> same_work c a \<and> is_none_or (\<lambda>n. n < g) ?old \<and>
      bt_get (ra_generations c) k = Some g" for g c
  have "Q g (b\<lparr>ra_generations := bt_insert k g (ra_generations b)\<rparr>)"
    if "is_none_or (\<lambda>n. n < g) (bt_get (ra_generations b) k)" for g
    using core_generation [OF b(1) that] b that by (simp add: Q_def same_work_def)
  then have gen: "ensures (next_generation b k) (\<lambda>(c, g). Q g c)"
    by (intro ensures_weaken [OF next_generation_ensures]) auto
  have mark: "ensures (call_store c (mark_refreshing (ra_store c) k ?t ?t)) (\<lambda>(c, _). Q g c)" if "Q g c" for c g
  proof -
    have c: "core None [] c" using that by (simp add: Q_def)
    have "bt_contains (ra_sources c) k" using that k(1) by (simp add: Q_def same_work_def)
    moreover have "Q g (c\<lparr>ra_store := st\<rparr>)" if "core None [] (c\<lparr>ra_store := st\<rparr>)" for st
      using that \<open>Q g c\<close> by (simp add: Q_def same_work_def)
    ultimately show ?thesis
      by (intro ensures_weaken [OF mark_call_core(2) [OF c]]) auto
  qed
  have launch: "ensures (launch_required c k s g trigger ?t) (\<lambda>a'. core None [] a' \<and> started_in k trigger a a')"
    if "Q g c" for c g
  proof -
    have "is_some_and (\<lambda>n. g' \<le> n) ?old" if "(k, g') \<in> set (started c)" for g'
      using that core \<open>Q g c\<close> by (auto simp: core_def events_ok_def Q_def same_work_def started_def)
    then have "ensures (launch_required c k s g trigger ?t) (\<lambda>a'. core None [] a' \<and> started_in k trigger c a')"
      using that k by (intro launch_ensures [where old = ?old]) (auto simp: Q_def same_work_def max_slots_def)
    then show ?thesis
      by (rule ensures_weaken) (use that in \<open>auto simp: Q_def same_work_def started_in_def\<close>)
  qed
  have "start_required a k trigger clock = and_then (next_generation b k) (\<lambda>(c, g).
      and_then (call_store c (mark_refreshing (ra_store c) k ?t ?t)) (\<lambda>(c, _). launch_required c k s g trigger ?t))"
    by (simp add: start_required_def Let_def s b_def)
  also have "ensures \<dots> (\<lambda>a'. core None [] a' \<and> started_in k trigger a a')"
    using mark launch by (intro ensures_and_then [OF gen]) (auto intro!: ensures_and_then)
  finally show ?thesis .
qed

section \<open>Admission\<close>

lemma actor_okD: "actor_ok a \<Longrightarrow> core None [] a"
  by (simp add: actor_ok_def)

lemma actor_ok_same_work: "actor_ok a \<Longrightarrow> core None [] a' \<Longrightarrow> same_work a' a \<Longrightarrow> actor_ok a'"
  by (simp add: actor_ok_def same_work_def max_slots_def)

lemma core_queue:
  assumes "core None [] a" "bt_contains (ra_sources a) k" "\<not> bt_contains (ra_active_required a) k"
    "k \<notin> ra_pending_scopes a"
  shows "core None [] (a\<lparr>ra_pending_scopes := insert k (ra_pending_scopes a),
    ra_pending := ra_pending a @ [(k, t)]\<rparr>)"
proof -
  have "slots_ok a" "workers_ok None a" "events_ok [] a" "store_matches a"
    using assms(1) by (simp_all add: core_def)
  with assms(2-4) show ?thesis
    by (auto simp: core_def slots_ok_def max_slots_def workers_ok_def events_ok_def store_matches_def
        started_def finished_def)
qed

lemma attempted_recently_ensures: "ensures (attempted_recently a k now) (\<lambda>_. True)"
  unfolding attempted_recently_def
  by (cases "bt_get (ra_automatic_last_attempts a) k")
    (auto intro!: ensures_map_ok ensures_weaken [OF ensures_instant])

text \<open>What an admission may do to the slots and the queue.\<close>

definition admitted ::
    "runtime_actor \<Rightarrow> account_scope \<Rightarrow> refresh_trigger \<Rightarrow> runtime_actor \<Rightarrow> refresh_admission \<Rightarrow> bool" where
  "admitted a k t a' admission \<longleftrightarrow>
     (case admission of
       UnknownRefreshScope \<Rightarrow> a' = a \<and> \<not> bt_contains (ra_sources a) k
     | Coalesced \<Rightarrow> same_work a' a \<and> bt_contains (ra_sources a) k
     | Started \<Rightarrow> started_in k t a a' \<and> bt_contains (ra_sources a) k \<and>
         \<not> bt_contains (ra_active_required a) k \<and> k \<notin> ra_pending_scopes a \<and>
         bt_len (ra_active_required a) < max_slots a
     | Queued \<Rightarrow> bt_contains (ra_sources a) k \<and>
         \<not> bt_contains (ra_active_required a) k \<and> k \<notin> ra_pending_scopes a \<and>
         bt_len (ra_active_required a) = max_slots a \<and>
         ra_active_required a' = ra_active_required a \<and> ra_pending a' = ra_pending a @ [(k, t)] \<and>
         ra_events a' = ra_events a \<and> ra_config a' = ra_config a \<and> ra_sources a' = ra_sources a)"

lemma queue_ensures:
  assumes ok: "actor_ok a" and k: "bt_contains (ra_sources a) k" "\<not> bt_contains (ra_active_required a) k"
    "k \<notin> ra_pending_scopes a" "\<not> bt_len (ra_active_required a) < max_slots a"
  shows "ensures (and_then (call_store a (mark_scheduled (ra_store a) k t t)) (\<lambda>(a, _).
          Inr (a\<lparr>ra_pending_scopes := insert k (ra_pending_scopes a),
                 ra_pending := ra_pending a @ [(k, trigger)]\<rparr>, Queued)))
    (\<lambda>(a', admission). actor_ok a' \<and> admitted a k trigger a' admission)"
proof -
  have full: "bt_len (ra_active_required a) = max_slots a"
    using ok k(4) by (simp add: actor_ok_def core_def slots_ok_def)
  have "actor_ok b \<and> admitted a k trigger b Queued"
    if st: "core None [] (a\<lparr>ra_store := st\<rparr>)"
      and b: "b = a\<lparr>ra_store := st, ra_pending_scopes := insert k (ra_pending_scopes a),
        ra_pending := ra_pending a @ [(k, trigger)]\<rparr>" for st b
    using core_queue [OF st, of k trigger] k full ok
    by (simp add: b actor_ok_def admitted_def max_slots_def)
  then show ?thesis
    by (intro ensures_and_then [OF mark_call_core(1) [OF actor_okD [OF ok] k(1)]]) auto
qed

lemma history_admission_ensures:
  assumes "actor_ok a" "bt_contains (ra_sources a) k"
  shows "ensures (map_ok (\<lambda>a. (a, Coalesced)) (start_history_only a k trigger clock))
    (\<lambda>(a', admission). actor_ok a' \<and> admitted a k trigger a' admission)"
  by (rule ensures_map_ok, rule ensures_weaken [OF start_history_only_ensures [OF actor_okD [OF assms(1)] assms(2)]])
    (auto simp: admitted_def assms intro: actor_ok_same_work [OF assms(1)])

lemma start_admission_ensures:
  assumes ok: "actor_ok a" and k: "bt_contains (ra_sources a) k" "\<not> bt_contains (ra_active_required a) k"
    "k \<notin> ra_pending_scopes a" "bt_len (ra_active_required a) < max_slots a"
  shows "ensures (map_ok (\<lambda>a. (a, Started)) (start_required a k trigger clock))
    (\<lambda>(a', admission). actor_ok a' \<and> admitted a k trigger a' admission)"
proof (rule ensures_map_ok, rule ensures_weaken [OF start_required_ensures [OF actor_okD [OF ok] k]])
  fix a' assume a': "core None [] a' \<and> started_in k trigger a a'"
  have "ra_pending a = []" using ok k(4) by (auto simp: actor_ok_def)
  with a' ok have "actor_ok a'" by (auto simp: actor_ok_def started_in_def max_slots_def)
  with a' k show "case (a', Started) of (a', admission) \<Rightarrow> actor_ok a' \<and> admitted a k trigger a' admission"
    by (simp add: admitted_def)
qed

lemma admit_refresh_ensures:
  assumes "actor_ok a"
  shows "ensures (admit_refresh a k trigger clock)
    (\<lambda>(a', admission). actor_ok a' \<and> admitted a k trigger a' admission)"
proof (cases "bt_contains (ra_sources a) k \<and> \<not> bt_contains (ra_active_required a) k \<and> k \<notin> ra_pending_scopes a")
  case False
  with assms show ?thesis by (auto simp: admit_refresh_def admitted_def)
next
  case True
  note start = start_admission_ensures [OF assms] history_admission_ensures [OF assms] queue_ensures [OF assms]
  show ?thesis
  proof (cases "trigger \<noteq> Manual \<and> in_cooldown a k (monotonic_now clock)")
    case False
    have "ensures (and_then (if trigger = PeriodicTick then attempted_recently a k (monotonic_now clock) else Inr False)
          (\<lambda>recent.
        if recent then map_ok (\<lambda>a. (a, Coalesced)) (start_history_only a k trigger clock)
        else if bt_len (ra_active_required a) < max_slots a
        then map_ok (\<lambda>a. (a, Started)) (start_required a k trigger clock)
        else and_then (call_store a (mark_scheduled (ra_store a) k (wall_now clock) (wall_now clock))) (\<lambda>(a, _).
          Inr (a\<lparr>ra_pending_scopes := insert k (ra_pending_scopes a),
                 ra_pending := ra_pending a @ [(k, trigger)]\<rparr>, Queued))))
      (\<lambda>(a', admission). actor_ok a' \<and> admitted a k trigger a' admission)"
      by (rule ensures_and_then [where Q = "\<lambda>_. True"])
        (use True start attempted_recently_ensures in auto)
    moreover have "\<not> (trigger \<noteq> Manual \<and> in_cooldown a k (monotonic_now clock))" by (fact False)
    ultimately show ?thesis
      using True unfolding admit_refresh_def max_slots_def Let_def by (simp only: simp_thms if_False)
  qed (use True start in \<open>auto simp: admit_refresh_def\<close>)
qed

lemma actor_ok_frame [simp]:
  "actor_ok (a\<lparr>ra_scheduler := sd\<rparr>) = actor_ok a"
  "actor_ok (a\<lparr>ra_commands_open := b\<rparr>) = actor_ok a"
  by (simp_all add: actor_ok_def max_slots_def)

lemma admit_all_ensures: "actor_ok a \<Longrightarrow> ensures (admit_all scopes trigger clock a) actor_ok"
  by (induction scopes arbitrary: a) (auto intro!: ensures_and_then [OF admit_refresh_ensures])

lemma admit_due_ensures: "actor_ok a \<Longrightarrow> ensures (admit_due due clock a) actor_ok"
proof (induction due arbitrary: a)
  case (Cons d due)
  then show ?case
    by (cases d) (auto intro!: ensures_and_then [OF admit_refresh_ensures] ensures_and_then [OF admit_all_ensures])
qed simp

lemma handle_schedule_due_ensures: "actor_ok a \<Longrightarrow> ensures (handle_schedule_due a clock) actor_ok"
  by (simp add: handle_schedule_due_def admit_due_ensures split: prod.splits)

lemma mark_scheduled_ok:
  assumes "actor_ok a" "bt_contains (ra_sources a) k" and st: "st = ra_store a"
  shows "ensures (map_ok fst (call_store a (mark_scheduled st k due t))) actor_ok"
  unfolding st
proof (rule ensures_map_ok, rule ensures_weaken [OF mark_call_core(1) [OF actor_okD [OF assms(1)] assms(2)]])
  have "actor_ok (a\<lparr>ra_store := st\<rparr>)" if "core None [] (a\<lparr>ra_store := st\<rparr>)" for st
    using that by (intro actor_ok_same_work [OF assms(1)]) (auto simp: same_work_def)
  then show "actor_ok (fst x)" if "case x of (a', b) \<Rightarrow> \<exists>st. a' = a\<lparr>ra_store := st\<rparr> \<and> core None [] a'" for x
    using that by auto
qed

lemma handle_command_ensures: "actor_ok a \<Longrightarrow> ensures (handle_command tlib a command clock) (\<lambda>(a', _). actor_ok a')"
proof (cases command)
  case (RefreshCommand k trigger)
  assume "actor_ok a"
  with RefreshCommand show ?thesis
    by (auto simp: handle_command_def intro!: ensures_and_then [OF admit_refresh_ensures])
next
  case (PopupOpen opened)
  assume "actor_ok a"
  with PopupOpen show ?thesis
    by (auto simp: handle_command_def Let_def split: prod.splits intro!: ensures_and_then [OF admit_all_ensures])
next
  case (ScheduleReset k boundary)
  assume "actor_ok a"
  with ScheduleReset show ?thesis
    by (auto simp: handle_command_def Let_def split: prod.splits intro!: ensures_and_then [OF mark_scheduled_ok])
qed

section \<open>Finishing work\<close>

lemma core_unqueue:
  assumes "core h d a" "ra_pending a = (k, t) # rest"
  shows "core h d (a\<lparr>ra_pending := rest, ra_pending_scopes := ra_pending_scopes a - {k}\<rparr>) \<and>
    bt_contains (ra_sources a) k \<and> \<not> bt_contains (ra_active_required a) k"
proof -
  have parts: "slots_ok a" "workers_ok h a" "events_ok d a" "store_matches a"
    using assms(1) by (simp_all add: core_def)
  from parts(1) assms(2) have "slots_ok (a\<lparr>ra_pending := rest, ra_pending_scopes := ra_pending_scopes a - {k}\<rparr>)"
    by (auto simp: slots_ok_def max_slots_def)
  with parts assms(2) show ?thesis
    by (auto simp: core_def workers_ok_def events_ok_def store_matches_def started_def finished_def slots_ok_def)
qed

text \<open>Filling the free slots: the queue is served from its front until it is empty or every slot is taken.\<close>

definition filled :: "runtime_actor \<Rightarrow> runtime_actor \<Rightarrow> bool" where
  "filled a a' \<longleftrightarrow> ra_config a' = ra_config a \<and> ra_sources a' = ra_sources a \<and>
     (\<exists>n\<le>length (ra_pending a). ra_pending a' = drop n (ra_pending a) \<and>
       (\<forall>k. bt_contains (ra_active_required a') k \<longleftrightarrow>
          bt_contains (ra_active_required a) k \<or> k \<in> fst ` set (take n (ra_pending a))) \<and>
       n = min (length (ra_pending a)) (max_slots a - bt_len (ra_active_required a)))"

lemma fill_slots_ensures:
  assumes "core None [] a" "ra_pending a = queue"
  shows "ensures (fill_slots queue clock a) (\<lambda>a'. core None [] a' \<and> filled a a' \<and>
    (ra_pending a' \<noteq> [] \<longrightarrow> bt_len (ra_active_required a') = max_slots a'))"
  using assms
proof (induction queue arbitrary: a)
  case Nil
  then show ?case by (auto simp: filled_def)
next
  case (Cons e rest)
  obtain k t where e: "e = (k, t)" by force
  show ?case
  proof (cases "bt_len (ra_active_required a) < max_slots a")
    case False
    with Cons.prems show ?thesis
      by (auto simp: e max_slots_def filled_def core_def slots_ok_def)
  next
    case True
    let ?b = "a\<lparr>ra_pending := rest, ra_pending_scopes := ra_pending_scopes a - {k}\<rparr>"
    note b = core_unqueue [OF Cons.prems(1) Cons.prems(2) [unfolded e]]
    have "ensures (start_required ?b k t clock) (\<lambda>c. core None [] c \<and> started_in k t ?b c)"
      using b True by (intro start_required_ensures) (auto simp: max_slots_def)
    moreover have "ensures (fill_slots rest clock c) (\<lambda>a'. core None [] a' \<and> filled a a' \<and>
        (ra_pending a' \<noteq> [] \<longrightarrow> bt_len (ra_active_required a') = max_slots a'))"
      if c: "core None [] c \<and> started_in k t ?b c" for c
    proof (rule ensures_weaken [OF Cons.IH])
      show "core None [] c" "ra_pending c = rest" using c by (auto simp: started_in_def)
      fix a'
      assume a': "core None [] a' \<and> filled c a' \<and> (ra_pending a' \<noteq> [] \<longrightarrow> bt_len (ra_active_required a') = max_slots a')"
      obtain g where g: "ra_active_required c = bt_insert k g (ra_active_required a)"
        using c by (auto simp: started_in_def)
      with b have len: "bt_len (ra_active_required c) = Suc (bt_len (ra_active_required a))"
        by (simp only: bt_len_insert if_False)
      obtain n where n: "n \<le> length rest" "ra_pending a' = drop n rest"
        "\<forall>j. bt_contains (ra_active_required a') j \<longleftrightarrow> bt_contains (ra_active_required c) j \<or> j \<in> fst ` set (take n rest)"
        "n = min (length rest) (max_slots c - bt_len (ra_active_required c))"
        using a' c by (auto simp: filled_def started_in_def)
      have same: "ra_config c = ra_config a" "ra_sources c = ra_sources a" "ra_config a' = ra_config c"
        "ra_sources a' = ra_sources c" using a' c by (auto simp: filled_def started_in_def)
      have queue: "ra_pending a = (k, t) # rest" using Cons.prems(2) e by simp
      have active: "bt_contains (ra_active_required c) j \<longleftrightarrow> j = k \<or> bt_contains (ra_active_required a) j" for j
        unfolding g by simp
      have suc: "Suc n = min (length ((k, t) # rest)) (max_slots a - bt_len (ra_active_required a))"
        using n(4) len True same by (simp add: max_slots_def)
      have all: "\<forall>j. bt_contains (ra_active_required a') j \<longleftrightarrow>
          bt_contains (ra_active_required a) j \<or> j \<in> fst ` set (take (Suc n) ((k, t) # rest))"
        using n(3) active by auto
      have "filled a a'"
        unfolding filled_def queue
        by (intro conjI exI [of _ "Suc n"] suc all) (use same n(1,2) in simp_all)
      with a' show "core None [] a' \<and> filled a a' \<and> (ra_pending a' \<noteq> [] \<longrightarrow> bt_len (ra_active_required a') = max_slots a')"
        by simp
    qed
    ultimately show ?thesis
      using True by (simp add: e max_slots_def) (rule ensures_and_then)
  qed
qed

text \<open>A joined required worker leaves its slot open for the queue.\<close>

lemma core_release:
  assumes "core (Some k) [] a" "bt_get (ra_active_required a) k = Some g"
  shows "core None [] (emit (a\<lparr>ra_active_required := bt_remove k (ra_active_required a)\<rparr>) (RefreshFinished k g))"
    (is "core None [] ?b")
proof -
  have parts: "slots_ok a" "workers_ok (Some k) a" "events_ok [] a" "store_matches a"
    using assms(1) by (simp_all add: core_def)
  have contains: "bt_contains (ra_active_required a) k" using assms(2) by (simp add: bt_contains_def)
  have "slots_ok ?b" using parts(1) contains by (auto simp: slots_ok_def max_slots_def bt_len_remove)
  moreover have "workers_ok None ?b" using parts(2) by (auto simp: workers_ok_def)
  moreover have "events_ok [] ?b"
  proof -
    have active: "bt_get (ra_active_required a) j = Some g' \<longleftrightarrow> (j, g') \<in> set (started a) - set (finished a)" for j g'
      using parts(3) by (simp add: events_ok_def)
    have logs: "started ?b = started a" "finished ?b = finished a @ [(k, g)]"
      by (simp_all add: started_def finished_def List.map_filter_def)
    have kg: "(k, g) \<in> set (started a)" "(k, g) \<notin> set (finished a)"
      using active [of k g] assms(2) by simp_all
    have "bt_get (ra_active_required ?b) j = Some g' \<longleftrightarrow> (j, g') \<in> set (started a) - set (finished a @ [(k, g)])" for j g'
      using active [of j g'] assms(2) by auto
    with parts(3) kg show ?thesis
      unfolding events_ok_def logs by simp
  qed
  ultimately show ?thesis using parts(4) by (simp add: core_def store_matches_def)
qed

lemma finish_required_ensures:
  assumes a: "core (Some k) [] a" and g: "bt_get (ra_active_required a) k = Some g" and slots: "0 < max_slots a"
  shows "ensures (finish_required a k g clock) (\<lambda>a'. actor_ok a' \<and>
    filled (a\<lparr>ra_active_required := bt_remove k (ra_active_required a)\<rparr>) a')"
proof -
  let ?b = "emit (a\<lparr>ra_active_required := bt_remove k (ra_active_required a)\<rparr>) (RefreshFinished k g)"
  have "ensures (fill_slots (ra_pending ?b) clock ?b) (\<lambda>a'. core None [] a' \<and> filled ?b a' \<and>
      (ra_pending a' \<noteq> [] \<longrightarrow> bt_len (ra_active_required a') = max_slots a'))"
    using core_release [OF a g] by (rule fill_slots_ensures) simp
  then have "ensures (fill_slots (ra_pending ?b) clock ?b) (\<lambda>a'. actor_ok a' \<and>
    filled (a\<lparr>ra_active_required := bt_remove k (ra_active_required a)\<rparr>) a')"
    by (rule ensures_weaken) (use slots in \<open>auto simp: actor_ok_def filled_def max_slots_def\<close>)
  with g show ?thesis
    by (simp add: finish_required_def required_is_current_def fill_required_slots_def Let_def)
qed

lemma record_backoff_ensures:
  "ensures (record_automatic_backoff a k e clock) (\<lambda>a'.
     a' = a\<lparr>ra_automatic_failures := ra_automatic_failures a', ra_automatic_cooldowns := ra_automatic_cooldowns a'\<rparr> \<and>
     bt_get (ra_automatic_cooldowns a') k = map_option (\<lambda>d. monotonic_now clock + d) (automatic_backoff_delay e
       (case bt_get (ra_automatic_failures a) k of None \<Rightarrow> 1 | Some v \<Rightarrow> min (saturating_add u8_max v 1) 6)))"
  by (auto simp: record_automatic_backoff_def Let_def split: option.split
      intro!: ensures_and_then [OF ensures_instant])

end
