(* ===== verification/Actor_Handlers.thy ===== *)
theory Actor_Handlers
  imports Actor_Invariant
begin

text \<open>
  The handlers of worker results keep the actor's invariant, construction establishes it, and what
  follows for every reachable actor.
\<close>

section \<open>Results of required work\<close>

definition same_slots :: "runtime_actor \<Rightarrow> runtime_actor \<Rightarrow> bool" where
  "same_slots b a \<longleftrightarrow>
     ra_config b = ra_config a \<and> ra_sources b = ra_sources a \<and>
     ra_active_required b = ra_active_required a \<and> ra_pending b = ra_pending a"

abbreviation released :: "account_scope \<Rightarrow> runtime_actor \<Rightarrow> runtime_actor" where
  "released k a \<equiv> a\<lparr>ra_active_required := bt_remove k (ra_active_required a)\<rparr>"

lemma filled_same_slots: "same_slots b a \<Longrightarrow> filled (released k b) a' = filled (released k a) a'"
  by (simp add: same_slots_def filled_def max_slots_def)

lemma filled_same_work: "filled a b \<Longrightarrow> same_work c b \<Longrightarrow> filled a c"
  by (auto simp: filled_def same_work_def)

lemma same_slots_emit [simp]: "same_slots (emit a e) b = same_slots a b"
  by (simp add: same_slots_def)

lemma publish_failure_ensures:
  assumes "core h d a" "bt_contains (ra_sources a) k"
  shows "ensures (publish_required_failure a k g e clock) (\<lambda>a'. core h d a' \<and> same_slots a' a)"
proof -
  have call: "ensures (call_store a (apply_failure (ra_store a) k e (wall_now clock)))
      (\<lambda>(a', b). \<exists>st. a' = a\<lparr>ra_store := st\<rparr> \<and> core h d a')"
    by (rule store_call_core [where p = "ApplyFailure k e"]) (use assms in simp_all)
  show ?thesis
    unfolding publish_required_failure_def
    by (rule ensures_and_then [OF call]) (auto simp: core_emit same_slots_def)
qed

lemma reconcile_frame [simp]:
  "core h d (reconcile_boundaries tlib a k bs t clock) = core h d a"
  "same_slots (reconcile_boundaries tlib a k bs t clock) b = same_slots a b"
  by (simp_all add: reconcile_boundaries_def same_slots_def)

lemma actor_reconcile_frame [simp]:
  "core h d (actor_reconcile_reset_boundaries tlib a k clock) = core h d a"
  "same_slots (actor_reconcile_reset_boundaries tlib a k clock) b = same_slots a b"
  by (auto simp: actor_reconcile_reset_boundaries_def clear_reset_boundary_def split: option.splits)

text \<open>Closing a required result from a state that agrees on slots and queue.\<close>

lemma finish_from_ensures:
  assumes "core (Some k) [] b" "same_slots b a" "bt_get (ra_active_required a) k = Some g" "0 < max_slots a"
  shows "ensures (finish_required b k g clock) (\<lambda>a'. actor_ok a' \<and> filled (released k a) a')"
  using finish_required_ensures [OF assms(1), of g clock] assms(2-4)
  by (simp add: filled_same_slots [OF assms(2)]) (simp add: same_slots_def max_slots_def)

lemma failed_required_ensures:
  assumes b: "core (Some k) [] b" "same_slots b a" and k: "bt_contains (ra_sources a) k"
    "bt_get (ra_active_required a) k = Some g" "0 < max_slots a"
  shows "ensures (and_then (publish_required_failure b k g e clock) (\<lambda>a. finish_required a k g clock))
    (\<lambda>a'. actor_ok a' \<and> filled (released k a) a')"
proof (rule ensures_and_then)
  show "ensures (publish_required_failure b k g e clock) (\<lambda>c. core (Some k) [] c \<and> same_slots c a)"
    using b k by (intro ensures_weaken [OF publish_failure_ensures [OF b(1)]]) (auto simp: same_slots_def)
qed (use finish_from_ensures k in blast)

lemma backoff_then_failed_ensures:
  assumes a: "core (Some k) [] a" and k: "bt_contains (ra_sources a) k"
    "bt_get (ra_active_required a) k = Some g" "0 < max_slots a"
    and f: "\<And>b. core (Some k) [] b \<Longrightarrow> same_slots b a \<Longrightarrow> core (Some k) [] (f b) \<and> same_slots (f b) a"
  shows "ensures (and_then (record_automatic_backoff a k e clock) (\<lambda>a.
      and_then (publish_required_failure (f a) k g e clock) (\<lambda>a. finish_required a k g clock)))
    (\<lambda>a'. actor_ok a' \<and> filled (released k a) a')"
proof (rule ensures_and_then [OF record_backoff_ensures], elim conjE)
  fix b
  assume b: "b = a\<lparr>ra_automatic_failures := ra_automatic_failures b, ra_automatic_cooldowns := ra_automatic_cooldowns b\<rparr>"
  have "core (Some k) [] b" by (subst b) (simp add: a)
  moreover have "same_slots b a" by (subst b) (simp add: same_slots_def)
  ultimately show "ensures (and_then (publish_required_failure (f b) k g e clock) (\<lambda>a. finish_required a k g clock))
    (\<lambda>a'. actor_ok a' \<and> filled (released k a) a')"
    using f k by (intro failed_required_ensures) auto
qed

lemma successful_required_ensures:
  assumes a: "core (Some k) [] a" and k: "bt_contains (ra_sources a) k"
    "bt_get (ra_active_required a) k = Some g" "0 < max_slots a" and scope: "us_scope sample = k"
  shows "ensures (handle_required tlib a k g (Inr sample) clock) (\<lambda>a'. actor_ok a' \<and> filled (released k a) a')"
proof -
  define b where "b = a\<lparr>ra_automatic_cooldowns := bt_remove k (ra_automatic_cooldowns a),
      ra_automatic_failures := bt_remove k (ra_automatic_failures a)\<rparr>"
  have b: "core (Some k) [] b" "same_slots b a" using a by (simp_all add: b_def same_slots_def)
  let ?Q = "\<lambda>c. core (Some k) [] c \<and> same_slots c a"
  have "ensures (call_store b (apply_success (ra_store b) k sample (wall_now clock)))
      (\<lambda>(a', _). \<exists>st. a' = b\<lparr>ra_store := st\<rparr> \<and> core (Some k) [] a')"
    by (rule store_call_core [where p = "ApplySuccess k sample"])
      (use b k scope in \<open>simp_all add: same_slots_def\<close>)
  then have call: "ensures (call_store b (apply_success (ra_store b) k sample (wall_now clock))) (\<lambda>(c, _). ?Q c)"
    by (rule ensures_weaken) (use b(2) in \<open>auto simp: same_slots_def\<close>)
  let ?announce = "\<lambda>c. emit (actor_reconcile_reset_boundaries tlib c k clock) (RequiredUsagePublished k g)"
  have announce: "?Q (?announce c)" if "?Q c" for c
    using that by (simp add: core_emit)
  have optional: "ensures (and_then (source_of c k) (\<lambda>history.
      if history = None then spawn_optional c k g (Some sample) (us_fetched_at sample) False else Inr c))
      (\<lambda>a'. actor_ok a' \<and> filled (released k a) a')" if "actor_ok c \<and> filled (released k a) c" for c
  proof -
    have "bt_contains (ra_sources c) k" using that k(1) by (simp add: filled_def)
    moreover obtain s where "source_of c k = Inr s" using source_known [OF calculation] by auto
    ultimately show ?thesis
      using that by (auto intro!: ensures_weaken [OF spawn_optional_ensures]
          intro: actor_okD actor_ok_same_work filled_same_work)
  qed
  have "handle_required tlib a k g (Inr sample) clock =
      and_then (call_store b (apply_success (ra_store b) k sample (wall_now clock))) (\<lambda>(c, _).
      and_then (finish_required (?announce c) k g clock) (\<lambda>a.
      and_then (source_of a k) (\<lambda>history.
      if history = None then spawn_optional a k g (Some sample) (us_fetched_at sample) False else Inr a)))"
    using k(2) scope by (simp add: handle_required_def required_is_current_def Let_def b_def)
  also have "ensures \<dots> (\<lambda>a'. actor_ok a' \<and> filled (released k a) a')"
  proof (rule ensures_and_then [OF call], clarify)
    fix c assume "core (Some k) [] c" "same_slots c a"
    then have "?Q (?announce c)" by (intro announce) simp
    then have "ensures (finish_required (?announce c) k g clock) (\<lambda>a'. actor_ok a' \<and> filled (released k a) a')"
      using finish_from_ensures [OF _ _ k(2,3)] by blast
    then show "ensures (and_then (finish_required (?announce c) k g clock) (\<lambda>a.
      and_then (source_of a k) (\<lambda>history.
      if history = None then spawn_optional a k g (Some sample) (us_fetched_at sample) False else Inr a)))
      (\<lambda>a'. actor_ok a' \<and> filled (released k a) a')"
      by (rule ensures_and_then) (rule optional)
  qed
  finally show ?thesis .
qed

lemma handle_required_ensures:
  assumes a: "core (Some k) [] a" and k: "bt_contains (ra_sources a) k"
    "bt_get (ra_active_required a) k = Some g" "0 < max_slots a"
  shows "ensures (handle_required tlib a k g outcome clock) (\<lambda>a'. actor_ok a' \<and> filled (released k a) a')"
proof (cases outcome)
  case (Inr sample)
  show ?thesis
  proof (cases "us_scope sample = k")
    case False
    have "same_slots a a" by (simp add: same_slots_def)
    from failed_required_ensures [OF a this k] False k(2) Inr show ?thesis
      by (simp add: handle_required_def required_is_current_def)
  qed (use Inr successful_required_ensures [OF a k] in simp)
next
  case (Inl e)
  let ?f = "\<lambda>b. if ce_retry e \<noteq> Automatic then clear_reset_boundary tlib b k clock else b"
  have "ensures (and_then (record_automatic_backoff a k e clock) (\<lambda>a.
      and_then (publish_required_failure (?f a) k g e clock) (\<lambda>a. finish_required a k g clock)))
    (\<lambda>a'. actor_ok a' \<and> filled (released k a) a')"
    by (rule backoff_then_failed_ensures [OF a k]) (simp add: clear_reset_boundary_def)
  with Inl k(2) show ?thesis
    by (simp add: handle_required_def required_is_current_def Let_def)
qed

section \<open>Results of optional work and abnormal exits\<close>

text \<open>Results that leave slots, queue and the log of starts and finishes alone.\<close>

definition quiet :: "runtime_actor \<Rightarrow> runtime_actor \<Rightarrow> bool" where
  "quiet a' a \<longleftrightarrow> core None [] a' \<and> same_slots a' a"

lemma quiet_ok: "actor_ok a \<Longrightarrow> quiet a' a \<Longrightarrow> actor_ok a'"
  by (auto simp: quiet_def actor_ok_def same_slots_def max_slots_def)

lemma quiet_emit: "quiet a' a \<Longrightarrow> started_of e = None \<Longrightarrow> finished_of e = None \<Longrightarrow> quiet (emit a' e) a"
  by (simp add: quiet_def core_emit)

lemma quiet_call:
  assumes "quiet b a" "bt_contains (ra_sources a) (op_scope p)" "op_admissible p"
    and "\<And>s. bt_get (ra_sources a) (op_scope p) = Some s \<Longrightarrow> op_fits s p"
    and "run_op p t (ra_store b) = map_ok fst r"
  shows "ensures (call_store b r) (\<lambda>(a', _). quiet a' a)"
proof -
  have core: "core None [] b" and slots: "same_slots b a" using assms(1) by (simp_all add: quiet_def)
  have "ensures (call_store b r) (\<lambda>(a', _). \<exists>st. a' = b\<lparr>ra_store := st\<rparr> \<and> core None [] a')"
    by (rule store_call_core [OF core, where p = p and t = t])
      (use assms slots in \<open>simp_all add: same_slots_def\<close>)
  then show ?thesis
    by (rule ensures_weaken) (use slots in \<open>auto simp: quiet_def same_slots_def\<close>)
qed

lemma quiet_history:
  assumes "quiet b a" "bt_contains (ra_sources a) k"
  shows "ensures (call_history b (mark_history_state (ra_store b) k state t)) (\<lambda>a'. quiet a' a)"
proof -
  have core: "core None [] b" and slots: "same_slots b a" using assms(1) by (simp_all add: quiet_def)
  then have "ensures (call_history b (mark_history_state (ra_store b) k state t))
      (\<lambda>a'. \<exists>st. a' = b\<lparr>ra_store := st\<rparr> \<and> core None [] a')"
    using assms(2) by (intro history_call_ensures) (simp_all add: same_slots_def)
  then show ?thesis
    by (rule ensures_weaken) (use slots in \<open>auto simp: quiet_def same_slots_def\<close>)
qed

lemma quiet_drop:
  "actor_ok a \<Longrightarrow> quiet (a\<lparr>ra_active_optional := bt_remove k (ra_active_optional a)\<rparr>) a"
  using core_drop_optional [of None "[]" a k] by (simp add: quiet_def actor_ok_def same_slots_def)

lemma handle_optional_ensures:
  assumes ok: "actor_ok a"
  shows "ensures (handle_optional a k g base outcome clock) (\<lambda>a'. quiet a' a)"
proof (cases "optional_is_current a k g")
  case False
  with ok show ?thesis by (simp add: handle_optional_def quiet_def actor_ok_def same_slots_def)
next
  case True
  let ?b = "a\<lparr>ra_active_optional := bt_remove k (ra_active_optional a)\<rparr>"
  have k: "bt_contains (ra_sources a) k"
    using ok True by (auto simp: actor_ok_def core_def slots_ok_def optional_is_current_def bt_contains_def is_some_and_def
        split: option.splits)
  then obtain s where s: "source_of ?b k = Inr s" "bt_get (ra_sources a) k = Some s"
    using source_known [of ?b k] by auto
  note b = quiet_drop [OF ok, of k]
  show ?thesis
  proof (cases s)
    case (Some kind)
    have data: "ensures (call_store ?b (apply_local_history (ra_store ?b) k h t)) (\<lambda>(a', _). quiet a' a)"
      if "lh_scope h = kind" for h t
      by (rule quiet_call [OF b, where p = "ApplyLocalHistory k h"]) (use k s Some that in simp_all)
    show ?thesis
      using True s Some by (cases outcome)
        (auto simp: handle_optional_def Let_def intro!: ensures_and_then [OF data [simplified]]
          ensures_and_then [OF quiet_history [OF b k, simplified]] quiet_emit)
  next
    case None
    have cost: "ensures (call_store ?b (apply_cost_usage (ra_store ?b) k base u t)) (\<lambda>(a', _). quiet a' a)" for u t
      by (rule quiet_call [OF b, where p = "ApplyCostUsage k base u"]) (use k s None in simp_all)
    show ?thesis
    proof (cases outcome)
      case (Inl e)
      with True s None b show ?thesis by (simp add: handle_optional_def Let_def quiet_emit)
    next
      case (Inr m)
      with True s None b show ?thesis
        by (cases m) (auto simp: handle_optional_def Let_def intro!: ensures_and_then [OF cost [simplified]] quiet_emit)
    qed
  qed
qed

lemma abnormal_optional_ensures:
  assumes ok: "actor_ok a"
  shows "ensures (handle_abnormal_worker a (Some (OptionalWork k g)) cancelled clock) (\<lambda>a'. quiet a' a)"
proof (cases "optional_is_current a k g")
  case True
  have k: "bt_contains (ra_sources a) k"
    using ok True by (auto simp: actor_ok_def core_def slots_ok_def optional_is_current_def bt_contains_def is_some_and_def
        split: option.splits)
  note b = quiet_drop [OF ok, of k]
  from True show ?thesis
    by (auto simp: handle_abnormal_worker_def Let_def intro!: ensures_and_then [OF quiet_history [OF b k, simplified]] quiet_emit)
next
  case False
  with ok show ?thesis by (simp add: handle_abnormal_worker_def quiet_def actor_ok_def same_slots_def)
qed

lemma abnormal_required_ensures:
  assumes a: "core (Some k) [] a" and k: "bt_contains (ra_sources a) k"
    "bt_get (ra_active_required a) k = Some g" "0 < max_slots a"
  shows "ensures (handle_abnormal_worker a (Some (RequiredWork k g)) cancelled clock)
    (\<lambda>a'. actor_ok a' \<and> filled (released k a) a')"
proof -
  have "ensures (and_then (record_automatic_backoff a k (classified_error_new ProviderUnavailable) clock) (\<lambda>a.
      and_then (publish_required_failure (id a) k g (classified_error_new ProviderUnavailable) clock)
        (\<lambda>a. finish_required a k g clock)))
    (\<lambda>a'. actor_ok a' \<and> filled (released k a) a')"
    by (rule backoff_then_failed_ensures [OF a k]) simp
  with k(2) show ?thesis
    by (simp add: handle_abnormal_worker_def required_is_current_def Let_def)
qed

section \<open>Turns\<close>

abbreviation unjoined :: "nat \<Rightarrow> runtime_actor \<Rightarrow> runtime_actor" where
  "unjoined i a \<equiv> a\<lparr>ra_workers := bt_remove i (ra_workers a), ra_work_metadata := bt_remove i (ra_work_metadata a)\<rparr>"

lemma join_required:
  assumes "actor_ok a" "bt_get (ra_workers a) i = Some (RequiredWorker k g t)"
  shows "core (Some k) [] (unjoined i a) \<and> bt_get (ra_active_required a) k = Some g \<and> bt_contains (ra_sources a) k"
proof -
  have parts: "slots_ok a" "workers_ok None a" "events_ok [] a" "store_matches a"
    using assms(1) by (simp_all add: actor_ok_def core_def)
  have one: "one_each (ra_workers a)"
    and runs: "runs (ra_workers a) j h \<longleftrightarrow> bt_get (ra_active_required a) j = Some h" for j h
    using parts(2) by (simp_all add: workers_ok_def)
  have active: "bt_get (ra_active_required a) k = Some g"
    using assms(2) runs by (auto simp: runs_def)
  have left: "runs (bt_remove i (ra_workers a)) j h \<longleftrightarrow> bt_get (ra_active_required a) j = Some h \<and> k \<noteq> j" for j h
    using active assms(2) by (auto simp: runs_remove [OF one] runs)
  have "workers_ok (Some k) (unjoined i a)"
    using parts(2) left one_each_remove [OF one] by (simp add: workers_ok_def)
  moreover have "slots_ok (unjoined i a)" "events_ok [] (unjoined i a)" "store_matches (unjoined i a)"
    using parts by (simp_all add: slots_ok_def max_slots_def events_ok_def store_matches_def started_def finished_def)
  moreover have "bt_contains (ra_sources a) k"
    using parts(1) active by (auto simp: slots_ok_def bt_contains_def)
  ultimately show ?thesis using active by (simp add: core_def)
qed

lemma join_optional:
  assumes "actor_ok a" "bt_get (ra_workers a) i = Some (OptionalWorker k g b s m)"
  shows "actor_ok (unjoined i a)"
proof -
  have parts: "slots_ok a" "workers_ok None a" "events_ok [] a" "store_matches a"
    using assms(1) by (simp_all add: actor_ok_def core_def)
  have one: "one_each (ra_workers a)" using parts(2) by (simp add: workers_ok_def)
  have "workers_ok None (unjoined i a)"
    using parts(2) assms(2) one_each_remove [OF one] by (auto simp: workers_ok_def runs_remove [OF one])
  moreover have "slots_ok (unjoined i a)" "events_ok [] (unjoined i a)" "store_matches (unjoined i a)"
    using parts by (simp_all add: slots_ok_def max_slots_def events_ok_def store_matches_def started_def finished_def)
  ultimately show ?thesis using assms(1) by (simp add: core_def actor_ok_def max_slots_def)
qed

lemma metadata_known:
  "actor_ok a \<Longrightarrow> bt_get (ra_work_metadata a) i = map_option metadata_of (bt_get (ra_workers a) i)"
  by (simp add: actor_ok_def core_def workers_ok_def)

text \<open>A turn that joins a required worker releases its slot and serves the queue from the front.\<close>

lemma required_turn_ensures:
  assumes "actor_ok a" "bt_get (ra_workers a) (joined_task j) = Some (RequiredWorker k g t)"
    "exit_matches (RequiredWorker k g t) j"
  shows "ensures (actor_turn tlib a (WorkerInput j) clock) (\<lambda>a'. actor_ok a' \<and> filled (released k a) a')"
proof -
  let ?a = "unjoined (joined_task j) a"
  note known = join_required [OF assms(1,2)]
  have a: "core (Some k) [] ?a" "bt_contains (ra_sources ?a) k" "bt_get (ra_active_required ?a) k = Some g"
    "0 < max_slots ?a" using known assms(1) by (simp_all add: actor_ok_def max_slots_def)
  have same: "filled (released k ?a) a' = filled (released k a) a'" for a'
    by (rule filled_same_slots) (simp add: same_slots_def)
  show ?thesis
  proof (cases j)
    case (Joined i exit)
    then obtain outcome where "exit = RequiredExit k g outcome" using assms(3) by (cases exit) auto
    with Joined handle_required_ensures [OF a, of tlib outcome clock, unfolded same] show ?thesis
      by (simp add: actor_turn_def handle_worker_result_def)
  next
    case (JoinFailed i cancelled)
    with abnormal_required_ensures [OF a, of cancelled clock, unfolded same] metadata_known [OF assms(1), of i] assms(2)
    show ?thesis by (simp add: actor_turn_def handle_worker_result_def)
  qed
qed

lemma optional_turn_ensures:
  assumes "actor_ok a" "bt_get (ra_workers a) (joined_task j) = Some (OptionalWorker k g b s m)"
    "exit_matches (OptionalWorker k g b s m) j"
  shows "ensures (actor_turn tlib a (WorkerInput j) clock) (\<lambda>a'. actor_ok a' \<and> same_slots a' a)"
proof -
  let ?a = "unjoined (joined_task j) a"
  note ok = join_optional [OF assms(1,2)]
  have quiet: "actor_ok a' \<and> same_slots a' a" if "quiet a' ?a" for a'
    using quiet_ok [OF ok that] that by (simp add: quiet_def same_slots_def)
  show ?thesis
  proof (cases j)
    case (Joined i exit)
    then obtain outcome where "exit = OptionalExit k g b outcome" using assms(3) by (cases exit) auto
    with Joined ensures_weaken [OF handle_optional_ensures [OF ok, of k g b outcome clock] quiet] show ?thesis
      by (simp add: actor_turn_def handle_worker_result_def)
  next
    case (JoinFailed i cancelled)
    with ensures_weaken [OF abnormal_optional_ensures [OF ok, of k g cancelled clock] quiet]
      metadata_known [OF assms(1), of i] assms(2)
    show ?thesis by (simp add: actor_turn_def handle_worker_result_def)
  qed
qed

lemma actor_turn_ensures:
  assumes "actor_ok a" "input_enabled a input"
  shows "ensures (actor_turn tlib a input clock) actor_ok"
proof (cases input)
  case (WorkerInput j)
  with assms(2) obtain w where w: "bt_get (ra_workers a) (joined_task j) = Some w" "exit_matches w j"
    by (auto simp: is_some_and_def split: option.splits)
  show ?thesis
  proof (cases w)
    case RequiredWorker
    with w WorkerInput show ?thesis
      by (auto intro: ensures_weaken [OF required_turn_ensures [OF assms(1)]])
  next
    case OptionalWorker
    with w WorkerInput show ?thesis
      by (auto intro: ensures_weaken [OF optional_turn_ensures [OF assms(1)]])
  qed
next
  case (CommandInput c)
  with assms(1) show ?thesis
    by (cases c) (auto simp: actor_turn_def intro!: ensures_map_ok
        ensures_weaken [OF handle_command_ensures [OF assms(1)]])
next
  case ScheduleDue
  with assms(1) show ?thesis by (simp add: actor_turn_def handle_schedule_due_ensures)
qed

section \<open>Construction\<close>

lemma start_histories_spec:
  assumes "store_ok st" "distinct (map fst es)" "start_histories es wall st = Inr st'"
  shows "store_ok st' \<and> (\<forall>k. store_abs st' k = (case map_of es k of
      Some (Some kind) \<Rightarrow> map_option (history_step \<lparr>lh_scope = kind, lh_state = Scanning, lh_data = None\<rparr>) (store_abs st k)
    | _ \<Rightarrow> store_abs st k))"
  using assms
proof (induction es arbitrary: st)
  case (Cons e es)
  obtain k source where e: "e = (k, source)" by force
  have k: "map_of es k = None" using Cons.prems(2) e by (simp add: map_of_eq_None_iff)
  show ?case
  proof (cases source)
    case None
    with Cons.prems e Cons.IH [of st] k show ?thesis by (auto split: option.splits)
  next
    case (Some kind)
    let ?h = "\<lparr>lh_scope = kind, lh_state = Scanning, lh_data = None\<rparr>"
    from Cons.prems(3) e Some obtain s b where s: "apply_local_history st k ?h wall = Inr (s, b)"
      "start_histories es wall s = Inr st'" by (auto simp: result_simps)
    obtain p where p: "store_abs st k = Some p" "store_ok s" "store_abs s = (store_abs st)(k \<mapsto> history_step ?h p)"
      by (rule history.refines [OF Cons.prems(1) TrueI s(1)])
    have "distinct (map fst es)" using Cons.prems(2) by simp
    from Cons.IH [OF p(2) this s(2)] p e Some k show ?thesis by (auto split: option.splits)
  qed
qed simp

lemma history_step_ok: "lh_scope h = kind \<Longrightarrow> snapshot_history_ok (Some kind) (history_step h p)"
  by (cases p) (auto simp: snapshot_history_ok_def history_step_def)

lemma store_matches_new:
  assumes st: "store_new_with_retained (bt_keys sources) retained wall = Inr st"
    and hist: "start_histories (bt_entries sources) wall st = Inr st'" and a: "ra_sources a = sources" "ra_store a = st'"
  shows "store_matches a"
proof -
  obtain m where m: "filed_ok m" "bt_len m = length (bt_keys sources)"
    "bt_get m = (\<lambda>k. if k \<in> set (bt_keys sources) then Some (initial_snapshot retained wall k) else None)"
    "store_new_with_retained (bt_keys sources) retained wall =
      (if length (bt_keys sources) \<le> MAX_SNAPSHOTS_PER_ENVELOPE then Inr (store_of m wall)
       else Inl (SnapshotInvariant (LimitExceeded ''snapshots'' MAX_SNAPSHOTS_PER_ENVELOPE)))"
    by (rule store_new_eq [OF bt_keys_distinct])
  then have ok: "store_ok st" and abs: "store_abs st = bt_get m"
    using st by (auto simp: store_of_ok split: if_splits)
  have fresh: "snapshot_local_history (initial_snapshot retained wall k) = None" for k
    by (simp add: initial_snapshot_def split: option.splits)
  have distinct: "distinct (map fst (bt_entries sources))"
    using bt_keys_distinct [of sources] by (simp only: bt_keys_def)
  have get: "map_of (bt_entries sources) k = bt_get sources k" for k
    by (simp add: bt_get.rep_eq)
  note spec = start_histories_spec [OF ok distinct hist]
  have final: "store_abs st' k = (case bt_get sources k of
      None \<Rightarrow> None
    | Some None \<Rightarrow> Some (initial_snapshot retained wall k)
    | Some (Some kind) \<Rightarrow> Some (history_step \<lparr>lh_scope = kind, lh_state = Scanning, lh_data = None\<rparr> (initial_snapshot retained wall k)))" for k
    using spec by (auto simp: abs m(3) get set_bt_keys bt_contains_def split: option.splits)
  have "snapshot_history_ok source p" if "bt_get sources k = Some source" "store_abs st' k = Some p" for k source p
    using that final [of k] fresh [of k]
    by (cases source) (auto simp: snapshot_history_ok_def [of None] intro: history_step_ok)
  moreover have "bt_contains (st_snapshots st') k = bt_contains sources k" for k
    unfolding bt_contains_def final by (auto split: option.splits)
  ultimately show ?thesis using spec by (simp add: store_matches_def a)
qed

lemma actor_new_ok:
  assumes "actor_new_with_retained config clock registrations retained = Inr a" "0 < li_max_in_flight (cf_limits config)"
  shows "actor_ok a"
proof -
  have "store_matches a"
    using assms(1) by (auto simp: actor_new_with_retained_def result_simps split: if_splits intro!: store_matches_new)
  moreover have "slots_ok a \<and> workers_ok None a \<and> events_ok [] a \<and> 0 < max_slots a \<and> ra_pending a = []"
    using assms by (auto simp: actor_new_with_retained_def result_simps slots_ok_def workers_ok_def events_ok_def
        max_slots_def started_def finished_def runs_def one_each_def List.map_filter_simps split: if_splits)
  ultimately show ?thesis by (simp add: actor_ok_def core_def)
qed

lemma reachable_ok: "actor_reachable tlib a \<Longrightarrow> actor_ok a"
proof (induction rule: actor_reachable.induct)
  case (turn a input clock a')
  with actor_turn_ensures [of a input tlib clock] show ?case by simp
qed (rule actor_new_ok)

section \<open>What holds of every reachable actor\<close>

text \<open>
  C1: bounded, deduplicated, work-conserving refresh execution. In every reachable state at most
  the configured number of required refreshes is active, at most as many wait as may be registered,
  no account waits twice or waits while it is active, only registered accounts do either, and
  nobody waits while a slot is free.
\<close>

theorem actor_slots_invariant:
  assumes "actor_reachable tlib a"
  shows "bt_len (ra_active_required a) \<le> li_max_in_flight (cf_limits (ra_config a)) \<and>
    length (ra_pending a) \<le> li_pending_capacity (cf_limits (ra_config a)) \<and>
    distinct (map fst (ra_pending a)) \<and> ra_pending_scopes a = fst ` set (ra_pending a) \<and>
    (\<forall>k. \<not> (bt_contains (ra_active_required a) k \<and> k \<in> ra_pending_scopes a)) \<and>
    {k. bt_contains (ra_active_required a) k} \<union> ra_pending_scopes a \<subseteq> {k. bt_contains (ra_sources a) k} \<and>
    (ra_pending a = [] \<or> bt_len (ra_active_required a) = li_max_in_flight (cf_limits (ra_config a)))"
proof -
  have ok: "actor_ok a" using assms by (rule reachable_ok)
  then have slots: "slots_ok a" by (simp add: actor_ok_def core_def)
  have "length (ra_pending a) = card (fst ` set (ra_pending a))"
    using slots by (metis distinct_card length_map list.set_map slots_ok_def)
  also have "\<dots> \<le> card {k. bt_contains (ra_sources a) k}"
    using slots by (intro card_mono) (auto simp: slots_ok_def)
  also have "\<dots> \<le> li_pending_capacity (cf_limits (ra_config a))"
    using slots by (simp add: slots_ok_def bt_len_card)
  finally show ?thesis
    using ok slots by (auto simp: actor_ok_def slots_ok_def max_slots_def)
qed

text \<open>
  C2: the actor never faults on its own account. From a reachable state, a turn on any input that
  can arrive either succeeds or stops because a 64-bit sequence or generation counter is exhausted
  or an instant is beyond the clock's range; an unknown or mismatched scope, a refused snapshot or
  a missing source is never the reason.
\<close>

theorem actor_stops_only_exhausted:
  assumes "actor_reachable tlib a" and "input_enabled a input"
  shows "case actor_turn tlib a input clock of
      Inr a' \<Rightarrow> actor_reachable tlib a'
    | Inl e \<Rightarrow> e = Faulted (StoreFault SequenceExhausted) \<or> e = Faulted GenerationExhausted \<or>
        e = Panicked InstantOverflow"
proof (cases "actor_turn tlib a input clock")
  case (Inl e)
  with actor_turn_ensures [OF reachable_ok [OF assms(1)] assms(2), of tlib clock] show ?thesis
    by (auto simp: ensures_def elim: benign.elims)
qed (use assms actor_reachable.turn in auto)


text \<open>
  C4: the event log. No generation of an account is announced as started or as finished twice, a
  finish is announced only after its start, and the generations announced as started and not yet
  as finished are exactly the active ones.
\<close>

theorem actor_events_balanced:
  assumes "actor_reachable tlib a"
  shows "distinct (started a) \<and> distinct (finished a) \<and> set (finished a) \<subseteq> set (started a) \<and>
    {(k, g). bt_get (ra_active_required a) k = Some g} = set (started a) - set (finished a)"
  using reachable_ok [OF assms] by (auto simp: actor_ok_def core_def events_ok_def)

lemma history_ok_iff:
  "snapshot_history_ok source p \<longleftrightarrow>
     (case source of
       None \<Rightarrow> snapshot_local_history p = None
     | Some kind \<Rightarrow> (\<exists>h. snapshot_local_history p = Some h \<and> lh_scope h = kind \<and>
         (\<forall>s. snapshot_last_known_good p = Some s \<longrightarrow> us_cost_usage s = lh_data h)))"
  by (cases source; cases "snapshot_last_known_good p") (simp_all add: snapshot_history_ok_def)

text \<open>
  C10: what readers see. The publication of a reachable actor lists one well-formed snapshot for
  each registered account, in account order; where the source keeps a local history the snapshot
  carries one of that kind and the cost data of its reading are those of the history, and a
  source without one never shows any.
\<close>

theorem actor_publication_coherent:
  assumes "actor_reachable tlib a"
  shows "map snapshot_scope (en_snapshots (pb_envelope (st_publication (ra_store a)))) = bt_keys (ra_sources a) \<and>
    (\<forall>p source. p \<in> set (en_snapshots (pb_envelope (st_publication (ra_store a)))) \<and>
       bt_get (ra_sources a) (snapshot_scope p) = Some source \<longrightarrow>
       snapshot_ok p \<and>
       (case source of
         None \<Rightarrow> snapshot_local_history p = None
       | Some kind \<Rightarrow> (\<exists>h. snapshot_local_history p = Some h \<and> lh_scope h = kind \<and>
           (\<forall>s. snapshot_last_known_good p = Some s \<longrightarrow> us_cost_usage s = lh_data h))))"
proof -
  have m: "store_matches a" using reachable_ok [OF assms] by (simp add: actor_ok_def core_def)
  let ?st = "ra_store a"
  have filed: "filed_ok (st_snapshots ?st)" and pub: "en_snapshots (pb_envelope (st_publication ?st)) = bt_values (st_snapshots ?st)"
    using m by (simp_all add: store_matches_def store_ok_def)
  have keys: "bt_keys (st_snapshots ?st) = bt_keys (ra_sources a)"
    using m by (simp add: bt_keys_eq store_matches_def)
  have "snapshot_ok p \<and> snapshot_history_ok source p"
    if "p \<in> set (bt_values (st_snapshots ?st))" "bt_get (ra_sources a) (snapshot_scope p) = Some source" for p source
    using that m filed by (auto simp: set_bt_values store_matches_def filed_ok_def)
  then show ?thesis
    unfolding pub history_ok_iff [symmetric] filed_scopes [OF filed] keys by blast
qed

text \<open>
  C5: the queue is fair and never stalls. When a required worker is joined, normally, with an
  error or by a panic, and the actor goes on, its slot passes to the account waiting longest, and
  the rest of the queue keeps its order; so the account at the front of the queue starts at the
  next join, whichever worker it is.
\<close>

theorem actor_serves_queue_front:
  assumes "actor_reachable tlib a" and "bt_get (ra_workers a) (joined_task j) = Some (RequiredWorker k g t)"
    and "exit_matches (RequiredWorker k g t) j" and "ra_pending a = (q, u) # rest"
  shows "case actor_turn tlib a (WorkerInput j) clock of
      Inr a' \<Rightarrow> ra_pending a' = rest \<and>
        {x. bt_contains (ra_active_required a') x} = {x. bt_contains (ra_active_required a) x} - {k} \<union> {q}
    | Inl e \<Rightarrow> e = Faulted (StoreFault SequenceExhausted) \<or> e = Faulted GenerationExhausted \<or>
        e = Panicked InstantOverflow"
proof (cases "actor_turn tlib a (WorkerInput j) clock")
  case (Inl e)
  have ok: "actor_ok a" using assms(1) by (rule reachable_ok)
  with required_turn_ensures [OF ok assms(2,3), of tlib clock] Inl show ?thesis
    by (auto simp: ensures_def elim: benign.elims)
next
  case (Inr a')
  have ok: "actor_ok a" using assms(1) by (rule reachable_ok)
  have "filled (released k a) a'"
    using required_turn_ensures [OF ok assms(2,3), of tlib clock] Inr by simp
  moreover have "bt_contains (ra_active_required a) k"
    using join_required [OF ok assms(2)] by (simp add: bt_contains_def)
  moreover have "bt_len (ra_active_required a) = max_slots a" "0 < max_slots a"
    using ok assms(4) by (simp_all add: actor_ok_def)
  ultimately show ?thesis
    using assms(4) Inr by (auto simp: filled_def bt_len_remove max_slots_def)
qed

lemma cooldown_admission_ensures:
  assumes "actor_ok a" "trigger \<noteq> Manual" "in_cooldown a k (monotonic_now clock)"
  shows "ensures (admit_refresh a k trigger clock) (\<lambda>(a', admission).
    admission \<in> {Coalesced, UnknownRefreshScope} \<and> same_work a' a)"
proof (cases "bt_contains (ra_sources a) k \<and> \<not> bt_contains (ra_active_required a) k \<and> k \<notin> ra_pending_scopes a")
  case True
  then have "ensures (start_history_only a k trigger clock) (\<lambda>a'. core None [] a' \<and> same_work a' a)"
    by (intro start_history_only_ensures actor_okD [OF assms(1)]) simp
  then have "ensures (map_ok (\<lambda>a. (a, Coalesced)) (start_history_only a k trigger clock)) (\<lambda>(a', admission).
      admission \<in> {Coalesced, UnknownRefreshScope} \<and> same_work a' a)"
    by (intro ensures_map_ok) (erule ensures_weaken, auto)
  with True assms(2,3) show ?thesis by (simp add: admit_refresh_def)
qed (auto simp: admit_refresh_def)

text \<open>
  C9: back-off is respected. While the cool-down of an account runs, no refresh but a manual one
  of that account is started or queued: slots, queue and event log stay as they are, whatever the
  trigger; only a scan of its local history may begin.
\<close>

theorem cooldown_blocks_automatic:
  assumes "actor_reachable tlib a" and "trigger \<noteq> Manual" and "bt_get (ra_automatic_cooldowns a) k = Some until"
    and "monotonic_now clock < until"
  shows "case admit_refresh a k trigger clock of
      Inr (a', admission) \<Rightarrow> admission \<in> {Coalesced, UnknownRefreshScope} \<and>
        ra_active_required a' = ra_active_required a \<and> ra_pending a' = ra_pending a \<and> ra_events a' = ra_events a
    | Inl e \<Rightarrow> e = Faulted (StoreFault SequenceExhausted) \<or> e = Faulted GenerationExhausted \<or>
        e = Panicked InstantOverflow"
proof -
  have "in_cooldown a k (monotonic_now clock)" using assms(3,4) by (simp add: in_cooldown_def)
  from cooldown_admission_ensures [OF reachable_ok [OF assms(1)] assms(2) this] show ?thesis
    by (auto simp: ensures_def same_work_def elim: benign.elims split: sum.splits)
qed

section \<open>A run\<close>

text \<open>
  Two accounts and one slot: after a manual refresh of both, the first runs and the second waits.
\<close>

definition demo_config :: runtime_config where
  "demo_config = \<lparr>cf_schedule = schedule_policy_default,
     cf_limits = \<lparr>li_command_capacity = 4, li_pending_capacity = 8, li_event_capacity = 8, li_max_in_flight = 1\<rparr>,
     cf_shutdown_grace = DEFAULT_SHUTDOWN_GRACE\<rparr>"

definition demo_clock :: clock_reading where
  "demo_clock = \<lparr>wall_now = 0, monotonic_now = 0\<rparr>"

definition demo_first :: account_scope where
  "demo_first = AccountScope Codex (lit ''default'') (lit ''me'')"

definition demo_second :: account_scope where
  "demo_second = AccountScope Claude (lit ''default'') (lit ''me'')"

definition demo_time :: time_lib where
  "demo_time = \<lparr>odt_checked_add = (\<lambda>t d. Some (t + d)), odt_from_unix = (\<lambda>s. Some (s * int nanos_per_sec)),
     rfc3339_formats = (\<lambda>_. False), rfc3339_print = (\<lambda>_. []), rfc3339_parse = (\<lambda>_. None)\<rparr>"

lemma demo_distinct: "demo_first \<noteq> demo_second"
  by (simp add: demo_first_def demo_second_def)

lemma start_histories_none: "\<forall>e\<in>set es. snd e = None \<Longrightarrow> start_histories es wall st = Inr st"
  by (induction es wall st rule: start_histories.induct) auto

lemma demo_initial:
  obtains a where "actor_new_with_retained demo_config demo_clock [(demo_first, None), (demo_second, None)] [] = Inr a"
    "ra_config a = demo_config" "ra_commands_open a" "bt_get (ra_sources a) = [demo_first \<mapsto> None, demo_second \<mapsto> None]"
    "store_abs (ra_store a) demo_first = Some (snapshot_loading demo_first)"
    "store_abs (ra_store a) demo_second = Some (snapshot_loading demo_second)"
    "ra_workers a = bt_empty" "ra_next_task a = 0" "ra_active_required a = bt_empty"
    "ra_active_optional a = bt_empty" "ra_pending a = []" "ra_pending_scopes a = {}" "ra_generations a = bt_empty"
proof -
  let ?sources = "bt_insert demo_second None (bt_insert demo_first None bt_empty)
    :: (account_scope, local_history_scope option) btree_map"
  have keys: "set (bt_keys ?sources) = {demo_first, demo_second}" by (auto simp: set_bt_keys)
  have len: "bt_len ?sources = 2" using demo_distinct by (simp add: bt_len_insert)
  have "length (bt_keys ?sources) = 2" using len by (simp add: bt_keys_def bt_len_def)
  then obtain m where m: "bt_get m = (\<lambda>k. if k \<in> set (bt_keys ?sources) then Some (initial_snapshot [] 0 k) else None)"
    "store_new_with_retained (bt_keys ?sources) [] 0 = Inr (store_of m 0)"
    using store_new_eq [OF bt_keys_distinct [of ?sources], of "[]" 0] by (auto simp: limit_defs)
  have hist: "start_histories (bt_entries ?sources) 0 st = Inr st" for st
    by (intro start_histories_none) (auto simp: bt_get_entry [symmetric] split: if_splits)
  show ?thesis
    using len m hist keys demo_distinct
    by (intro that) (auto simp: actor_new_with_retained_def demo_config_def demo_clock_def
        retained_automatic_backoff_def initial_snapshot_def)
qed

lemma loading_phase:
  "store_abs st k = Some (snapshot_loading k) \<Longrightarrow> set_ready_refresh_phase st k phase t = Inr (st, False)"
  by (simp add: set_ready_refresh_phase_def require_scope_def)

lemma start_required_loading:
  assumes "bt_get (ra_sources a) k = Some None" "store_abs (ra_store a) k = Some (snapshot_loading k)"
    "bt_get (ra_generations a) k = None" "bt_get (ra_active_optional a) k = None"
  shows "\<exists>a'. start_required a k t clock = Inr a' \<and> ra_commands_open a' = ra_commands_open a \<and>
    ra_workers a' = bt_insert (ra_next_task a) (RequiredWorker k 1 t) (ra_workers a) \<and>
    ra_active_required a' = bt_insert k 1 (ra_active_required a) \<and> ra_store a' = ra_store a \<and>
    ra_config a' = ra_config a \<and> ra_sources a' = ra_sources a \<and> ra_pending a' = ra_pending a \<and>
    ra_pending_scopes a' = ra_pending_scopes a"
  using assms
  by (simp add: start_required_def Let_def source_of_def cancel_optional_def next_generation_def
      checked_add_def u64_max_def mark_refreshing_def loading_phase call_store_def launch_required_def
      spawn_worker_def emit_def)

lemma demo_waiting:
  obtains a where "actor_reachable demo_time a" "ra_pending a = [(demo_second, Manual)]"
    "bt_get (ra_workers a) 0 = Some (RequiredWorker demo_first 1 Manual)"
    "bt_get (ra_active_required a) demo_first = Some 1" "bt_len (ra_active_required a) = 1" "ra_config a = demo_config"
    "bt_get (ra_sources a) demo_first = Some None"
proof -
  obtain a where a: "actor_new_with_retained demo_config demo_clock [(demo_first, None), (demo_second, None)] [] = Inr a"
    "ra_config a = demo_config" "ra_commands_open a" "bt_get (ra_sources a) = [demo_first \<mapsto> None, demo_second \<mapsto> None]"
    "store_abs (ra_store a) demo_first = Some (snapshot_loading demo_first)"
    "store_abs (ra_store a) demo_second = Some (snapshot_loading demo_second)"
    "ra_workers a = bt_empty" "ra_next_task a = 0" "ra_active_required a = bt_empty"
    "ra_active_optional a = bt_empty" "ra_pending a = []" "ra_pending_scopes a = {}" "ra_generations a = bt_empty"
    by (rule demo_initial)
  have init: "actor_reachable demo_time a" using a(1) by (rule actor_reachable.init) (simp add: demo_config_def)
  obtain b where b: "start_required a demo_first Manual demo_clock = Inr b" "ra_commands_open b"
    "ra_workers b = bt_insert 0 (RequiredWorker demo_first 1 Manual) bt_empty"
    "ra_active_required b = bt_insert demo_first 1 bt_empty" "ra_store b = ra_store a"
    "ra_config b = demo_config" "ra_sources b = ra_sources a" "ra_pending b = []" "ra_pending_scopes b = {}"
    using start_required_loading [of a demo_first Manual demo_clock] a demo_distinct by auto
  have first: "actor_turn demo_time a (CommandInput (Some (RefreshCommand demo_first Manual))) demo_clock = Inr b"
    using a b(1) demo_distinct by (simp add: actor_turn_def handle_command_def admit_refresh_def bt_contains_def demo_config_def)
  have b_reach: "actor_reachable demo_time b"
    using init _ first by (rule actor_reachable.turn) (simp add: a(3))
  let ?c = "b\<lparr>ra_pending := [(demo_second, Manual)], ra_pending_scopes := {demo_second}\<rparr>"
  have second: "actor_turn demo_time b (CommandInput (Some (RefreshCommand demo_second Manual))) demo_clock = Inr ?c"
    using a b demo_distinct
    by (simp add: actor_turn_def handle_command_def admit_refresh_def bt_contains_def demo_config_def bt_len_insert
        mark_scheduled_def loading_phase call_store_def Let_def)
  have "actor_reachable demo_time ?c"
    using b_reach _ second by (rule actor_reachable.turn) (simp add: b(2))
  with b a demo_distinct show ?thesis by (intro that [of ?c]) (simp_all add: bt_len_insert bt_contains_def)
qed

theorem actor_slots_invariant_witness:
  "\<exists>a. actor_reachable demo_time a \<and> ra_pending a = [(demo_second, Manual)] \<and>
     bt_len (ra_active_required a) \<le> li_max_in_flight (cf_limits (ra_config a))"
proof -
  obtain a where a: "actor_reachable demo_time a" "ra_pending a = [(demo_second, Manual)]" by (rule demo_waiting)
  with actor_slots_invariant [OF a(1)] show ?thesis by blast
qed

theorem actor_stops_only_exhausted_witness:
  "\<exists>a. actor_reachable demo_time a \<and> ra_pending a = [(demo_second, Manual)] \<and>
     (case actor_turn demo_time a (WorkerInput (JoinFailed 0 True)) demo_clock of
        Inr a' \<Rightarrow> actor_reachable demo_time a'
      | Inl e \<Rightarrow> e = Faulted (StoreFault SequenceExhausted) \<or> e = Faulted GenerationExhausted \<or>
          e = Panicked InstantOverflow)"
proof -
  obtain a where a: "actor_reachable demo_time a" "ra_pending a = [(demo_second, Manual)]"
    "bt_get (ra_workers a) 0 = Some (RequiredWorker demo_first 1 Manual)" by (rule demo_waiting)
  have "input_enabled a (WorkerInput (JoinFailed 0 True))" using a(3) by simp
  from actor_stops_only_exhausted [OF a(1) this, of demo_clock] a show ?thesis by blast
qed


theorem actor_events_balanced_witness:
  "\<exists>a. actor_reachable demo_time a \<and> (demo_first, 1) \<in> set (started a) - set (finished a)"
proof -
  obtain a where a: "actor_reachable demo_time a" "bt_get (ra_active_required a) demo_first = Some 1" by (rule demo_waiting)
  with actor_events_balanced [OF a(1)] show ?thesis by blast
qed

theorem actor_publication_coherent_witness:
  "\<exists>a. actor_reachable demo_time a \<and> ra_pending a = [(demo_second, Manual)] \<and>
     map snapshot_scope (en_snapshots (pb_envelope (st_publication (ra_store a)))) = bt_keys (ra_sources a)"
proof -
  obtain a where a: "actor_reachable demo_time a" "ra_pending a = [(demo_second, Manual)]" by (rule demo_waiting)
  with actor_publication_coherent [OF a(1)] show ?thesis by blast
qed

theorem actor_serves_queue_front_witness:
  "\<exists>a. actor_reachable demo_time a \<and>
     (case actor_turn demo_time a (WorkerInput (JoinFailed 0 True)) demo_clock of
        Inr a' \<Rightarrow> ra_pending a' = [] \<and>
          {x. bt_contains (ra_active_required a') x} = {x. bt_contains (ra_active_required a) x} - {demo_first} \<union> {demo_second}
      | Inl e \<Rightarrow> e = Faulted (StoreFault SequenceExhausted) \<or> e = Faulted GenerationExhausted \<or>
          e = Panicked InstantOverflow)"
proof -
  obtain a where a: "actor_reachable demo_time a" "ra_pending a = [(demo_second, Manual)]"
    "bt_get (ra_workers a) 0 = Some (RequiredWorker demo_first 1 Manual)" by (rule demo_waiting)
  have "bt_get (ra_workers a) (joined_task (JoinFailed 0 True)) = Some (RequiredWorker demo_first 1 Manual)"
    "exit_matches (RequiredWorker demo_first 1 Manual) (JoinFailed 0 True)" using a(3) by simp_all
  from actor_serves_queue_front [OF a(1) this a(2), of demo_clock] a(1) show ?thesis by blast
qed

text \<open>The same account restored with a network error that began ten seconds ago.\<close>

definition demo_retained :: provider_snapshot where
  "demo_retained = Ready \<lparr>rd_local_history = None, rd_last_known_good = minimal_sample demo_first 0,
     rd_freshness = Stale 0, rd_refresh = Idle, rd_error = Some (classified_error_new Network)\<rparr>"

lemma demo_cooling:
  obtains a where "actor_reachable demo_time a" "bt_get (ra_automatic_cooldowns a) demo_first = Some (from_secs 60)"
    "bt_contains (ra_sources a) demo_first"
proof -
  let ?sources = "bt_insert demo_first None bt_empty :: (account_scope, local_history_scope option) btree_map"
  have "length (bt_keys ?sources) = 1" by (simp add: bt_keys_def bt_len_def [symmetric] bt_len_insert)
  then obtain m where m: "store_new_with_retained (bt_keys ?sources) [demo_retained] 0 = Inr (store_of m 0)"
    using store_new_eq [OF bt_keys_distinct [of ?sources], of "[demo_retained]" 0] by (auto simp: limit_defs)
  have hist: "start_histories (bt_entries ?sources) 0 st = Inr st" for st
    by (intro start_histories_none) (auto simp: bt_get_entry [symmetric] split: if_splits)
  have delay: "automatic_backoff_delay (classified_error_new Network) 1 = Some (from_secs 60)"
    by (simp add: automatic_backoff_delay_def classified_error_new_def classified_error_from_kind_def
        duration_saturating_mul_def duration_defs limit_defs u64_max_def)
  have scope: "snapshot_scope demo_retained = demo_first" by (simp add: demo_retained_def minimal_sample_def)
  have backoff: "retained_automatic_backoff [demo_retained] 0 0 =
      Some (bt_insert demo_first (from_secs 60) bt_empty, bt_insert demo_first 1 bt_empty)"
    using delay scope by (simp add: retained_automatic_backoff_def demo_retained_def instant_checked_add_def
        duration_defs limit_defs)
  have "\<exists>a. actor_new_with_retained demo_config demo_clock [(demo_first, None)] [demo_retained] = Inr a \<and>
      bt_get (ra_automatic_cooldowns a) demo_first = Some (from_secs 60) \<and> bt_contains (ra_sources a) demo_first"
    using m hist backoff by (simp add: actor_new_with_retained_def demo_config_def demo_clock_def bt_len_insert)
  then obtain a where a: "actor_new_with_retained demo_config demo_clock [(demo_first, None)] [demo_retained] = Inr a"
    "bt_get (ra_automatic_cooldowns a) demo_first = Some (from_secs 60)" "bt_contains (ra_sources a) demo_first" by blast
  from a(1) have "actor_reachable demo_time a" by (rule actor_reachable.init) (simp add: demo_config_def)
  with a that show ?thesis by blast
qed

theorem cooldown_blocks_automatic_witness:
  "\<exists>a. actor_reachable demo_time a \<and> bt_contains (ra_sources a) demo_first \<and>
     (case admit_refresh a demo_first PeriodicTick demo_clock of
        Inr (a', admission) \<Rightarrow> admission \<in> {Coalesced, UnknownRefreshScope} \<and>
          ra_active_required a' = ra_active_required a \<and> ra_pending a' = ra_pending a \<and> ra_events a' = ra_events a
      | Inl e \<Rightarrow> e = Faulted (StoreFault SequenceExhausted) \<or> e = Faulted GenerationExhausted \<or>
          e = Panicked InstantOverflow)"
proof -
  obtain a where a: "actor_reachable demo_time a" "bt_get (ra_automatic_cooldowns a) demo_first = Some (from_secs 60)"
    "bt_contains (ra_sources a) demo_first" by (rule demo_cooling)
  have "monotonic_now demo_clock < from_secs 60" by (simp add: demo_clock_def duration_defs)
  from cooldown_blocks_automatic [OF a(1) _ a(2) this, of PeriodicTick] a show ?thesis by blast
qed

end
