(* ===== verification/Shutdown.thy ===== *)
theory Shutdown
  imports Runtime_Actor
begin

text \<open>
  Bounded shutdown (\<open>crates/runtime/src/shutdown.rs\<close>) and the end of the actor's loop on a
  shutdown request (\<open>actor.rs\<close>, \<open>run\<close>).

  The executor decides how tasks end, so it is a parameter: \<open>completions\<close> lists, in the order
  they are joined, when a task's result becomes available and what it is, for the tasks that end on
  their own; \<open>after_abort\<close> lists the results joined once the remaining tasks were aborted. The
  wait for a result is the wait of a timeout, which looks at the result first: a result available
  at the deadline still counts.
\<close>

section \<open>The report\<close>

datatype join_outcome = TaskReturned | TaskCancelled | TaskPanicked

definition SHUTDOWN_MAX_GRACE :: duration where
  "SHUTDOWN_MAX_GRACE = from_hours 1"

record shutdown_report =
  sr_completed :: nat
  sr_cancelled :: nat
  sr_panicked :: nat
  sr_timed_out :: bool

definition shutdown_report_default :: shutdown_report where
  "shutdown_report_default = \<lparr>sr_completed = 0, sr_cancelled = 0, sr_panicked = 0, sr_timed_out = False\<rparr>"

definition report_total :: "shutdown_report \<Rightarrow> nat" where
  "report_total r = saturating_add usize_max (saturating_add usize_max (sr_completed r) (sr_cancelled r)) (sr_panicked r)"

fun report_record :: "shutdown_report \<Rightarrow> join_outcome \<Rightarrow> shutdown_report" where
  "report_record r TaskReturned = r\<lparr>sr_completed := saturating_add usize_max (sr_completed r) 1\<rparr>"
| "report_record r TaskCancelled = r\<lparr>sr_cancelled := saturating_add usize_max (sr_cancelled r) 1\<rparr>"
| "report_record r TaskPanicked = r\<lparr>sr_panicked := saturating_add usize_max (sr_panicked r) 1\<rparr>"

section \<open>Draining\<close>

definition drain_deadline :: "instant \<Rightarrow> duration \<Rightarrow> instant" where
  "drain_deadline started_at grace =
     (case instant_checked_add started_at (min grace SHUTDOWN_MAX_GRACE) of None \<Rightarrow> started_at | Some t \<Rightarrow> t)"

text \<open>
  The first loop, with the number of tasks in the join set; it returns the report and the number of
  tasks that are left.
\<close>

fun drain_grace ::
    "instant \<Rightarrow> nat \<Rightarrow> (instant \<times> join_outcome) list \<Rightarrow> shutdown_report \<Rightarrow> shutdown_report \<times> nat" where
  "drain_grace deadline 0 completions report = (report, 0)"
| "drain_grace deadline (Suc tasks) [] report = (report\<lparr>sr_timed_out := True\<rparr>, Suc tasks)"
| "drain_grace deadline (Suc tasks) ((available, outcome) # completions) report =
     (if available \<le> deadline then drain_grace deadline tasks completions (report_record report outcome)
      else (report\<lparr>sr_timed_out := True\<rparr>, Suc tasks))"

text \<open>The second loop waits without a deadline: with a task that never ends it does not return.\<close>

fun drain_aborted :: "nat \<Rightarrow> join_outcome list \<Rightarrow> shutdown_report \<Rightarrow> shutdown_report option" where
  "drain_aborted 0 after_abort report = Some report"
| "drain_aborted (Suc tasks) [] report = None"
| "drain_aborted (Suc tasks) (outcome # after_abort) report = drain_aborted tasks after_abort (report_record report outcome)"

definition cancel_and_drain ::
    "instant \<Rightarrow> duration \<Rightarrow> nat \<Rightarrow> (instant \<times> join_outcome) list \<Rightarrow> join_outcome list \<Rightarrow> shutdown_report option" where
  "cancel_and_drain started_at grace tasks completions after_abort =
     (let deadline = drain_deadline started_at grace;
          (report, left) = drain_grace deadline tasks completions shutdown_report_default in
      if sr_timed_out report then drain_aborted left after_abort report else Some report)"

section \<open>The end of the actor\<close>

record runtime_exit =
  re_shutdown :: shutdown_report
  re_fault :: "runtime_fault option"

text \<open>
  The loop on the inputs that arrive before the shutdown request, and the drain of the workers that
  are left then. A fault ends the loop in the middle of a handler; the drain that follows it is the
  same, but the number of workers at that point is not part of the handler's value, so a faulted
  run is the fault itself.
\<close>

fun actor_loop :: "time_lib \<Rightarrow> (actor_input \<times> clock_reading) list \<Rightarrow> runtime_actor \<Rightarrow> runtime_actor outcome" where
  "actor_loop tlib [] a = Inr a"
| "actor_loop tlib ((input, clock) # inputs) a =
     and_then (actor_turn tlib a input clock) (actor_loop tlib inputs)"

definition actor_run ::
    "time_lib \<Rightarrow> (actor_input \<times> clock_reading) list \<Rightarrow> runtime_actor \<Rightarrow> instant \<Rightarrow>
     (instant \<times> join_outcome) list \<Rightarrow> join_outcome list \<Rightarrow> runtime_exit option outcome" where
  "actor_run tlib inputs a started_at completions after_abort =
     map_ok (\<lambda>a. map_option (\<lambda>report. \<lparr>re_shutdown = report, re_fault = None\<rparr>)
         (cancel_and_drain started_at (cf_shutdown_grace (ra_config a)) (bt_len (ra_workers a)) completions after_abort))
       (actor_loop tlib inputs a)"

section \<open>What a drain reports\<close>

definition in_time :: "instant \<Rightarrow> nat \<Rightarrow> (instant \<times> join_outcome) list \<Rightarrow> join_outcome list" where
  "in_time deadline tasks completions = map snd (takeWhile (\<lambda>c. fst c \<le> deadline) (take tasks completions))"

definition tally :: "join_outcome list \<Rightarrow> shutdown_report \<Rightarrow> shutdown_report" where
  "tally os r = foldl report_record r os"

definition report_of :: "join_outcome list \<Rightarrow> bool \<Rightarrow> shutdown_report" where
  "report_of os late = \<lparr>sr_completed = min usize_max (count_list os TaskReturned),
     sr_cancelled = min usize_max (count_list os TaskCancelled),
     sr_panicked = min usize_max (count_list os TaskPanicked), sr_timed_out = late\<rparr>"

lemma report_record_timed_out [simp]: "sr_timed_out (report_record r x) = sr_timed_out r"
  by (cases x) simp_all

lemma report_record_late: "report_record (r\<lparr>sr_timed_out := b\<rparr>) x = (report_record r x)\<lparr>sr_timed_out := b\<rparr>"
  by (cases x) simp_all

lemma tally_late: "tally os (r\<lparr>sr_timed_out := b\<rparr>) = (tally os r)\<lparr>sr_timed_out := b\<rparr>"
  by (induction os arbitrary: r) (simp_all add: tally_def report_record_late)

lemma tally_append: "tally (xs @ ys) r = tally ys (tally xs r)"
  by (simp add: tally_def)

lemma record_report_of: "report_record (report_of os b) x = report_of (os @ [x]) b"
  by (cases x) (auto simp: report_of_def saturating_add_def)

lemma tally_report_of: "tally os (report_of done_before b) = report_of (done_before @ os) b"
  by (induction os arbitrary: done_before) (simp_all add: tally_def record_report_of)

lemma default_report_of: "shutdown_report_default = report_of [] False"
  by (simp add: shutdown_report_default_def report_of_def)

lemma late_report_of: "(report_of os b)\<lparr>sr_timed_out := c\<rparr> = report_of os c"
  by (simp add: report_of_def)

lemma drain_grace_tally:
  "drain_grace deadline tasks completions r =
     (let os = in_time deadline tasks completions; r' = tally os r; left = tasks - length os in
      (if left = 0 then r' else r'\<lparr>sr_timed_out := True\<rparr>, left))"
  by (induction deadline tasks completions r rule: drain_grace.induct)
    (simp_all add: in_time_def tally_def Let_def)

lemma drain_aborted_tally:
  "drain_aborted tasks after_abort r =
     (if tasks \<le> length after_abort then Some (tally (take tasks after_abort) r) else None)"
  by (induction tasks after_abort r rule: drain_aborted.induct) (simp_all add: tally_def)

lemma length_in_time: "length (in_time deadline tasks completions) \<le> tasks"
  using length_takeWhile_le [of "\<lambda>c. fst c \<le> deadline" "take tasks completions"] by (simp add: in_time_def)

lemma cancel_and_drain_eq:
  fixes started_at grace tasks and completions :: "(instant \<times> join_outcome) list"
  defines "os \<equiv> in_time (drain_deadline started_at grace) tasks completions"
  shows "cancel_and_drain started_at grace tasks completions after_abort =
    (if length os = tasks then Some (report_of os False)
     else if tasks \<le> length os + length after_abort
     then Some (report_of (os @ take (tasks - length os) after_abort) True)
     else None)"
proof -
  have le: "length os \<le> tasks" unfolding os_def by (rule length_in_time)
  have grace: "drain_grace (drain_deadline started_at grace) tasks completions shutdown_report_default =
      (report_of os (length os \<noteq> tasks), tasks - length os)"
    using le by (simp add: drain_grace_tally os_def [symmetric] Let_def default_report_of tally_report_of late_report_of)
  have late: "sr_timed_out (report_of os (length os \<noteq> tasks)) \<longleftrightarrow> length os \<noteq> tasks" by (simp add: report_of_def)
  show ?thesis
    using le by (simp add: cancel_and_drain_def Let_def grace late drain_aborted_tally tally_report_of le_diff_conv add.commute)
qed

lemma count_outcomes:
  "count_list os TaskReturned + count_list os TaskCancelled + count_list os TaskPanicked = length os"
proof (induction os)
  case (Cons x os)
  then show ?case by (cases x) simp_all
qed simp

lemma report_total_of: "report_total (report_of os b) = min usize_max (length os)"
  using count_outcomes [of os] by (auto simp: report_total_def report_of_def saturating_add_def)

lemma report_of_fields:
  "sr_completed (report_of os b) = min usize_max (count_list os TaskReturned)"
  "sr_cancelled (report_of os b) = min usize_max (count_list os TaskCancelled)"
  "sr_panicked (report_of os b) = min usize_max (count_list os TaskPanicked)"
  "sr_timed_out (report_of os b) = b"
  by (simp_all add: report_of_def)

lemma drain_deadline_bounds:
  "started_at \<le> drain_deadline started_at grace" "drain_deadline started_at grace \<le> started_at + from_hours 1"
  by (auto simp: drain_deadline_def SHUTDOWN_MAX_GRACE_def instant_checked_add_def split: option.splits)



end
