(* ===== verification/Notifications.thy ===== *)
theory Notifications
  imports Snapshot
begin

text \<open>
  Desktop notifications (\<open>crates/runtime/src/notifications.rs\<close>): identity labels, events, and
  the projection of an event to the payload a sink receives. A sink is code behind a trait and is a
  parameter of \<open>notify\<close>.
\<close>

section \<open>Labels and events\<close>

definition MAX_IDENTITY_LABEL_BYTES :: nat where [limit_defs]: "MAX_IDENTITY_LABEL_BYTES = 128"
definition MAX_NOTIFICATION_SUMMARY_BYTES :: nat where [limit_defs]: "MAX_NOTIFICATION_SUMMARY_BYTES = 128"
definition MAX_NOTIFICATION_BODY_BYTES :: nat where [limit_defs]: "MAX_NOTIFICATION_BODY_BYTES = 512"

datatype notification_validation_error = EmptyLabel | LabelTooLarge | LabelControlCharacter | InvalidPercentage

definition checked_label :: "str \<Rightarrow> (str, notification_validation_error) result" where
  "checked_label v =
     (if v = [] then Inl EmptyLabel
      else if str_len v > MAX_IDENTITY_LABEL_BYTES then Inl LabelTooLarge
      else if list_ex is_control v then Inl LabelControlCharacter
      else Inr v)"

record notification_identity =
  ni_provider :: str
  ni_account :: str

definition notification_identity_new ::
    "str \<Rightarrow> str \<Rightarrow> (notification_identity, notification_validation_error) result" where
  "notification_identity_new provider account =
     and_then (checked_label provider) (\<lambda>provider.
     and_then (checked_label account) (\<lambda>account.
     Inr \<lparr>ni_provider = provider, ni_account = account\<rparr>))"

datatype notification_event =
  RefreshFailed notification_identity | UsageThreshold nat notification_identity | UpdateAvailable

definition usage_threshold ::
    "nat \<Rightarrow> notification_identity \<Rightarrow> (notification_event, notification_validation_error) result" where
  "usage_threshold percent identity =
     (if percent > 100 then Inl InvalidPercentage else Inr (UsageThreshold percent identity))"

section \<open>Projection\<close>

record notification_payload =
  np_summary :: str
  np_body :: str
  np_icon :: str

fun event_text :: "notification_event \<Rightarrow> str \<times> str \<times> notification_identity option" where
  "event_text (RefreshFailed identity) =
     (lit ''AI usage refresh failed'', lit ''An AI usage account could not be refreshed.'', Some identity)"
| "event_text (UsageThreshold percent identity) =
     (lit ''AI usage limit'',
      lit ''An AI usage account has reached '' @ decimal percent @ lit ''% of its limit.'', Some identity)"
| "event_text UpdateAvailable =
     (lit ''omarchy-ai-bar update available'', lit ''A newer packaged version is available.'', None)"

definition notification_project :: "privacy_policy \<Rightarrow> notification_event \<Rightarrow> notification_payload" where
  "notification_project policy event =
     (let (summary, body, identity) = event_text event;
          body = (case identity of
            Some i \<Rightarrow> if policy = ShowPersonalInfo
              then body @ lit '' ('' @ ni_provider i @ lit '': '' @ ni_account i @ lit '')''
              else body
          | None \<Rightarrow> body) in
      \<lparr>np_summary = summary, np_body = body, np_icon = lit ''omarchy-ai-bar''\<rparr>)"

datatype notification_sink_error = SinkUnavailable | SinkDelivery

definition notify ::
    "(notification_payload \<Rightarrow> (unit, notification_sink_error) result) \<Rightarrow> privacy_policy \<Rightarrow> notification_event \<Rightarrow>
     (unit, notification_sink_error) result" where
  "notify send policy event = send (notification_project policy event)"

section \<open>Well-formed events\<close>

definition notice_label_ok :: "str \<Rightarrow> bool" where
  "notice_label_ok v \<longleftrightarrow> v \<noteq> [] \<and> str_len v \<le> MAX_IDENTITY_LABEL_BYTES \<and> (\<forall>c\<in>set v. \<not> is_control c)"

fun event_ok :: "notification_event \<Rightarrow> bool" where
  "event_ok (RefreshFailed i) \<longleftrightarrow> notice_label_ok (ni_provider i) \<and> notice_label_ok (ni_account i)"
| "event_ok (UsageThreshold percent i) \<longleftrightarrow> percent \<le> u8_max \<and> notice_label_ok (ni_provider i) \<and> notice_label_ok (ni_account i)"
| "event_ok UpdateAvailable \<longleftrightarrow> True"

lemma checked_label_Inr: "checked_label v = Inr w \<longleftrightarrow> w = v \<and> notice_label_ok v"
  by (auto simp: checked_label_def notice_label_ok_def list_ex_iff)

lemma notification_identity_new_Inr:
  "notification_identity_new p a = Inr i \<longleftrightarrow> i = \<lparr>ni_provider = p, ni_account = a\<rparr> \<and> notice_label_ok p \<and> notice_label_ok a"
  by (auto simp: notification_identity_new_def result_simps checked_label_Inr)

text \<open>The events two accounts produce for the same cause: equal up to whom they concern.\<close>

fun same_cause :: "notification_event \<Rightarrow> notification_event \<Rightarrow> bool" where
  "same_cause (RefreshFailed _) (RefreshFailed _) \<longleftrightarrow> True"
| "same_cause (UsageThreshold p _) (UsageThreshold q _) \<longleftrightarrow> p = q"
| "same_cause UpdateAvailable UpdateAvailable \<longleftrightarrow> True"
| "same_cause _ _ \<longleftrightarrow> False"

lemma str_len_append: "str_len (s @ t) = str_len s + str_len t"
  by (simp add: str_len_def as_bytes_def)

lemma str_len_ascii: "\<forall>c\<in>set s. c < 128 \<Longrightarrow> str_len s = length s"
  by (simp add: str_len_def as_bytes_ascii)

text \<open>Plain text prints on one line.\<close>

definition plain :: "str \<Rightarrow> bool" where
  "plain s \<longleftrightarrow> (\<forall>c\<in>set s. 32 \<le> c \<and> c < 127)"

lemma plain_append [simp]: "plain (s @ t) \<longleftrightarrow> plain s \<and> plain t"
  by (auto simp: plain_def)

lemma plain_decimal [simp]: "plain (decimal n)"
  using decimal_digits by (fastforce simp: plain_def is_ascii_digit_def)

lemma plain_len: "plain s \<Longrightarrow> str_len s = length s"
  by (intro str_len_ascii) (auto simp: plain_def)

lemma plain_no_control: "plain s \<Longrightarrow> c \<in> set s \<Longrightarrow> \<not> is_control c"
  by (auto simp: plain_def is_control_def)

lemma decimal_u8: "n \<le> u8_max \<Longrightarrow> length (decimal n) \<le> 3"
  by (rule length_decimal) (simp_all add: u8_max_def)

lemma event_text_plain:
  assumes "event_ok e" "event_text e = (summary, body, identity)"
  shows "plain summary \<and> plain body \<and> length summary \<le> 31 \<and> length body \<le> 51"
proof (cases e)
  case (RefreshFailed i)
  with assms(2) show ?thesis by (auto simp: plain_def lit_def)
next
  case (UsageThreshold p i)
  have "plain (lit ''An AI usage account has reached '')" "plain (lit ''% of its limit.'')" "plain (lit ''AI usage limit'')"
    by (simp_all add: plain_def lit_def)
  moreover have "length (decimal p) \<le> 3" using assms(1) UsageThreshold decimal_u8 by simp
  moreover have "length (lit ''An AI usage account has reached '') = 32" "length (lit ''% of its limit.'') = 15"
    "length (lit ''AI usage limit'') = 14" by (simp_all add: lit_def)
  ultimately show ?thesis using assms(2) UsageThreshold by auto
next
  case UpdateAvailable
  with assms(2) show ?thesis by (auto simp: plain_def lit_def)
qed

lemma personal_suffix_len:
  assumes "notice_label_ok p" "notice_label_ok a"
  shows "str_len (lit '' ('' @ p @ lit '': '' @ a @ lit '')'') \<le> 261"
proof -
  have "plain (lit '' ('')" "plain (lit '': '')" "plain (lit '')'')" by (simp_all add: plain_def lit_def)
  then show ?thesis using assms by (simp add: str_len_append plain_len notice_label_ok_def limit_defs) (simp add: lit_def)
qed

text \<open>
  what reaches the desktop. For an event over validated labels the summary stays within 128
  bytes and the body within 512 bytes and both are a single line, under either policy; when
  personal information is hidden, two events of the same cause give the same payload whoever they
  concern, and when it is shown the body ends with the provider and the account.
\<close>

theorem notification_projection_safe:
  assumes "event_ok e"
  shows "str_len (np_summary (notification_project policy e)) \<le> MAX_NOTIFICATION_SUMMARY_BYTES \<and>
    str_len (np_body (notification_project policy e)) \<le> MAX_NOTIFICATION_BODY_BYTES \<and>
    (\<forall>c\<in>set (np_summary (notification_project policy e)) \<union> set (np_body (notification_project policy e)). \<not> is_control c) \<and>
    (\<forall>e'. same_cause e e' \<longrightarrow> notification_project HidePersonalInfo e = notification_project HidePersonalInfo e') \<and>
    (\<forall>i. snd (snd (event_text e)) = Some i \<longrightarrow> np_body (notification_project ShowPersonalInfo e) =
      np_body (notification_project HidePersonalInfo e) @ lit '' ('' @ ni_provider i @ lit '': '' @ ni_account i @ lit '')'')"
proof -
  obtain summary body identity where t: "event_text e = (summary, body, identity)" by (cases "event_text e")
  note parts = event_text_plain [OF assms t]
  have labels: "notice_label_ok (ni_provider i) \<and> notice_label_ok (ni_account i)" if "identity = Some i" for i
    using assms t that by (cases e) auto
  have suffix: "plain (lit '' ('')" "plain (lit '': '')" "plain (lit '')'')" by (simp_all add: plain_def lit_def)
  have "str_len (np_summary (notification_project policy e)) \<le> MAX_NOTIFICATION_SUMMARY_BYTES"
    using parts by (simp add: notification_project_def t plain_len limit_defs)
  moreover have "str_len (np_body (notification_project policy e)) \<le> MAX_NOTIFICATION_BODY_BYTES"
    using parts personal_suffix_len labels
    by (fastforce simp: notification_project_def t plain_len limit_defs str_len_append split: option.splits)
  moreover have "\<forall>c\<in>set (np_summary (notification_project policy e)) \<union> set (np_body (notification_project policy e)). \<not> is_control c"
    using parts labels suffix
    by (auto simp: notification_project_def t notice_label_ok_def dest: plain_no_control split: option.splits if_splits)
  moreover have "notification_project HidePersonalInfo e = notification_project HidePersonalInfo e'" if "same_cause e e'" for e'
    using that by (cases e; cases e') (simp_all add: notification_project_def)
  moreover have "np_body (notification_project ShowPersonalInfo e) =
      np_body (notification_project HidePersonalInfo e) @ lit '' ('' @ ni_provider i @ lit '': '' @ ni_account i @ lit '')''"
    if "snd (snd (event_text e)) = Some i" for i
    using that by (simp add: notification_project_def t)
  ultimately show ?thesis by blast
qed

theorem notification_projection_safe_witness:
  "let i = \<lparr>ni_provider = lit ''Codex'', ni_account = lit ''me''\<rparr>; e = UsageThreshold 90 i in
     notification_identity_new (lit ''Codex'') (lit ''me'') = Inr i \<and>
     str_len (np_body (notification_project ShowPersonalInfo e)) \<le> MAX_NOTIFICATION_BODY_BYTES"
proof -
  have ok: "notice_label_ok (lit ''Codex'')" "notice_label_ok (lit ''me'')"
    by (simp_all add: notice_label_ok_def str_len_ascii lit_def is_control_def limit_defs)
  then have "event_ok (UsageThreshold 90 \<lparr>ni_provider = lit ''Codex'', ni_account = lit ''me''\<rparr>)"
    by (simp add: u8_max_def)
  from notification_projection_safe [OF this, of ShowPersonalInfo] ok show ?thesis
    unfolding Let_def notification_identity_new_Inr by blast
qed

end
