(* ===== verification/Ipc_Codec.thy ===== *)
theory Ipc_Codec
  imports Prelude
begin

text \<open>
  The newline-delimited JSON codec (\<open>crates/ipc/src/codec.rs\<close>): the size-capped encoder, the
  decoder of one record and the incremental decoder of a connection, which a violation poisons.

  Bytes are numbers. The JSON library is a parameter: \<open>to_writer\<close> gives, for a message, the pieces
  it writes in order and whether serialising it succeeds, and \<open>from_slice\<close> parses one value.
\<close>

section \<open>Encoding\<close>

type_synonym 'm json_writer = "'m \<Rightarrow> nat list list \<times> bool"
type_synonym 'm json_parser = "nat list \<Rightarrow> 'm option"

definition MAX_JSON_LINE_BYTES :: nat where [limit_defs]: "MAX_JSON_LINE_BYTES = 64 * 1024"
definition MAX_JSON_PAYLOAD_BYTES :: nat where [limit_defs]: "MAX_JSON_PAYLOAD_BYTES = MAX_JSON_LINE_BYTES - 1"

datatype json_line_error =
    LineTooLong | MalformedJson | NonCanonicalNewline | UnterminatedLine | MultipleFrames
  | Serialization | Poisoned

record capped_json_buffer =
  cb_bytes :: "nat list"
  cb_exceeded :: bool

definition capped_new :: capped_json_buffer where
  "capped_new = \<lparr>cb_bytes = [], cb_exceeded = False\<rparr>"

definition capped_write :: "capped_json_buffer \<Rightarrow> nat list \<Rightarrow> capped_json_buffer \<times> bool" where
  "capped_write w bytes =
     (if is_none_or (\<lambda>len. len > MAX_JSON_PAYLOAD_BYTES) (checked_add usize_max (length (cb_bytes w)) (length bytes))
      then (w\<lparr>cb_exceeded := True\<rparr>, False)
      else (w\<lparr>cb_bytes := cb_bytes w @ bytes\<rparr>, True))"

text \<open>The serialiser writes piece after piece and gives up at the first write that fails.\<close>

fun write_pieces :: "capped_json_buffer \<Rightarrow> nat list list \<Rightarrow> capped_json_buffer \<times> bool" where
  "write_pieces w [] = (w, True)"
| "write_pieces w (piece # pieces) =
     (case capped_write w piece of
       (w, True) \<Rightarrow> write_pieces w pieces
     | (w, False) \<Rightarrow> (w, False))"

definition encode_json_line :: "'m json_writer \<Rightarrow> 'm \<Rightarrow> (nat list, json_line_error) result" where
  "encode_json_line to_writer message =
     (let (pieces, serialized) = to_writer message;
          (writer, written) = write_pieces capped_new pieces in
      if cb_exceeded writer then Inl LineTooLong
      else if \<not> (written \<and> serialized) then Inl Serialization
      else Inr (cb_bytes writer @ [10]))"

section \<open>Decoding\<close>

definition decode_json_line :: "'m json_parser \<Rightarrow> nat list \<Rightarrow> ('m, json_line_error) result" where
  "decode_json_line from_slice frame =
     (if length frame > MAX_JSON_LINE_BYTES then Inl LineTooLong
      else if frame = [] \<or> last frame \<noteq> 10 then Inl UnterminatedLine
      else
        let payload = butlast frame in
        if payload \<noteq> [] \<and> last payload = 13 then Inl NonCanonicalNewline
        else if 10 \<in> set payload then Inl MultipleFrames
        else if payload = [] then Inl MalformedJson
        else ok_or MalformedJson (from_slice payload))"

record json_line_decoder =
  jd_buffer :: "nat list"
  jd_poisoned :: bool

definition decoder_new :: json_line_decoder where
  "decoder_new = \<lparr>jd_buffer = [], jd_poisoned = False\<rparr>"

definition decoder_reject :: "json_line_decoder \<Rightarrow> json_line_error \<Rightarrow> json_line_decoder \<times> ('r, json_line_error) result" where
  "decoder_reject d error = (d\<lparr>jd_buffer := [], jd_poisoned := True\<rparr>, Inl error)"

definition decoder_finish :: "json_line_decoder \<Rightarrow> json_line_decoder \<times> (unit, json_line_error) result" where
  "decoder_finish d =
     (if jd_poisoned d then (d, Inl Poisoned)
      else if jd_buffer d = [] then (d, Inr ())
      else decoder_reject d UnterminatedLine)"

fun feed_bytes ::
    "'m json_parser \<Rightarrow> nat list \<Rightarrow> 'm list \<Rightarrow> json_line_decoder \<Rightarrow> json_line_decoder \<times> ('m list, json_line_error) result" where
  "feed_bytes from_slice [] messages d = (d, Inr messages)"
| "feed_bytes from_slice (byte # chunk) messages d =
     (let buffer = jd_buffer d @ [byte] in
      if length buffer > MAX_JSON_LINE_BYTES then decoder_reject d LineTooLong
      else if byte = 10 then
        (case decode_json_line from_slice buffer of
          Inr message \<Rightarrow> feed_bytes from_slice chunk (messages @ [message]) (d\<lparr>jd_buffer := []\<rparr>)
        | Inl error \<Rightarrow> decoder_reject d error)
      else if length buffer = MAX_JSON_LINE_BYTES then decoder_reject d LineTooLong
      else feed_bytes from_slice chunk messages (d\<lparr>jd_buffer := buffer\<rparr>))"

definition decoder_feed ::
    "'m json_parser \<Rightarrow> json_line_decoder \<Rightarrow> nat list \<Rightarrow> json_line_decoder \<times> ('m list, json_line_error) result" where
  "decoder_feed from_slice d chunk =
     (if jd_poisoned d then (d, Inl Poisoned) else feed_bytes from_slice chunk [] d)"

section \<open>Chunk by chunk\<close>

text \<open>
  A reader that consumes a stream in pieces. What it promises is that an empty piece changes
  nothing, and that a piece followed by another is the same as both at once; then the way a
  stream is cut into pieces does not matter.
\<close>

definition chain ::
    "'d \<times> ('m list, 'e) result \<Rightarrow> ('d \<Rightarrow> 'd \<times> ('m list, 'e) result) \<Rightarrow> 'd \<times> ('m list, 'e) result" where
  "chain x f =
     (case x of
       (d, Inl e) \<Rightarrow> (d, Inl e)
     | (d, Inr ms) \<Rightarrow> (case f d of (d', r) \<Rightarrow> (d', map_ok (\<lambda>ms'. ms @ ms') r)))"

fun read_all ::
    "('d \<Rightarrow> 'b list \<Rightarrow> 'd \<times> ('m list, 'e) result) \<Rightarrow> 'd \<Rightarrow> 'b list list \<Rightarrow> 'd \<times> ('m list, 'e) result" where
  "read_all feed d [] = (d, Inr [])"
| "read_all feed d (chunk # chunks) = chain (feed d chunk) (\<lambda>d. read_all feed d chunks)"

lemma chain_simps [simp]:
  "chain (d, Inl e) f = (d, Inl e)"
  "chain (d, Inr ms) f = (case f d of (d', r) \<Rightarrow> (d', map_ok (\<lambda>ms'. ms @ ms') r))"
  by (simp_all add: chain_def)

lemma chain_Nil [simp]: "chain (d, Inr []) f = f d"
  by (cases "f d"; cases "snd (f d)") auto

lemma chain_assoc: "chain (chain x f) g = chain x (\<lambda>d. chain (f d) g)"
proof (cases x)
  case (Pair d r)
  show ?thesis
  proof (cases r)
    case r: (Inr ms)
    obtain d' r' where f: "f d = (d', r')" by (cases "f d")
    show ?thesis
    proof (cases r')
      case (Inr ms')
      obtain d'' r'' where "g d' = (d'', r'')" by (cases "g d'")
      then show ?thesis using Pair r f Inr by (cases r'') simp_all
    qed (use Pair r f in simp)
  qed (simp add: Pair)
qed

locale chunk_reader =
  fixes feed :: "'d \<Rightarrow> 'b list \<Rightarrow> 'd \<times> ('m list, 'e) result" and live :: "'d \<Rightarrow> bool"
  assumes feed_empty: "live d \<Longrightarrow> feed d [] = (d, Inr [])"
    and feed_append: "live d \<Longrightarrow> feed d (xs @ ys) = chain (feed d xs) (\<lambda>d. feed d ys)"
    and feed_live: "live d \<Longrightarrow> feed d xs = (d', Inr ms) \<Longrightarrow> live d'"
begin

lemma read_all_concat: "live d \<Longrightarrow> read_all feed d chunks = feed d (concat chunks)"
proof (induction chunks arbitrary: d)
  case (Cons chunk chunks)
  obtain d' r where f: "feed d chunk = (d', r)" by (cases "feed d chunk")
  show ?case
  proof (cases r)
    case (Inr ms)
    then have "live d'" using feed_live f Cons.prems by blast
    then show ?thesis using Cons f Inr by (simp add: feed_append)
  qed (use f Cons.prems in \<open>simp add: feed_append\<close>)
qed (simp add: feed_empty)

end

lemma feed_bytes_acc: "feed_bytes from_slice chunk ms d = chain (d, Inr ms) (\<lambda>d. feed_bytes from_slice chunk [] d)"
proof (induction chunk arbitrary: ms d)
  case (Cons byte chunk)
  have acc: "feed_bytes from_slice chunk (ms @ ms') d = chain (d, Inr ms) (\<lambda>d. feed_bytes from_slice chunk ms' d)" for ms' d
    using Cons [of "ms @ ms'" d] Cons [of ms' d]
    by (cases "feed_bytes from_slice chunk [] d"; cases "snd (feed_bytes from_slice chunk [] d)") auto
  from acc acc [of "[]"] show ?case
    by (auto simp: Let_def decoder_reject_def split: sum.split prod.split)
qed simp

lemma feed_bytes_append:
  "feed_bytes from_slice (xs @ ys) ms d = chain (feed_bytes from_slice xs ms d) (\<lambda>d. feed_bytes from_slice ys [] d)"
proof (induction xs arbitrary: ms d)
  case Nil
  show ?case by (subst feed_bytes_acc) simp
next
  case (Cons x xs)
  then show ?case by (simp add: Let_def decoder_reject_def split: sum.split)
qed

lemma feed_bytes_unpoisoned:
  "feed_bytes from_slice chunk ms d = (d', Inr ms') \<Longrightarrow> \<not> jd_poisoned d \<Longrightarrow> \<not> jd_poisoned d'"
  by (induction chunk arbitrary: ms d)
    (auto simp: Let_def decoder_reject_def split: if_splits sum.splits)

interpretation json_lines: chunk_reader "decoder_feed from_slice" "\<lambda>d. \<not> jd_poisoned d"
proof
  fix d :: json_line_decoder and xs ys
  assume "\<not> jd_poisoned d"
  then show "decoder_feed from_slice d (xs @ ys) = chain (decoder_feed from_slice d xs) (\<lambda>d. decoder_feed from_slice d ys)"
    using feed_bytes_unpoisoned [of from_slice xs "[]" d]
    by (cases "feed_bytes from_slice xs [] d"; cases "snd (feed_bytes from_slice xs [] d)")
      (auto simp: decoder_feed_def feed_bytes_append)
qed (auto simp: decoder_feed_def dest: feed_bytes_unpoisoned split: if_splits)

section \<open>The reference: lines of the whole stream\<close>

text \<open>
  Cut the stream after every LF, decode each line by itself, and keep the unfinished rest, which
  must still have room for its LF.
\<close>

fun split_lines :: "nat list \<Rightarrow> nat list \<Rightarrow> nat list list \<times> nat list" where
  "split_lines line [] = ([], line)"
| "split_lines line (b # s) =
     (if b = 10 then (case split_lines [] s of (lines, rest) \<Rightarrow> ((line @ [b]) # lines, rest))
      else split_lines (line @ [b]) s)"

definition stream_decode :: "'m json_parser \<Rightarrow> nat list \<Rightarrow> nat list \<Rightarrow> ('m list \<times> nat list, json_line_error) result" where
  "stream_decode from_slice line s =
     (let (lines, rest) = split_lines line s in
      and_then (try_map (decode_json_line from_slice) lines) (\<lambda>ms.
      if length rest < MAX_JSON_LINE_BYTES then Inr (ms, rest) else Inl LineTooLong))"

text \<open>A line that is already too long is rejected, whatever follows.\<close>

lemma stream_decode_too_long:
  "MAX_JSON_LINE_BYTES \<le> length line \<Longrightarrow> stream_decode from_slice line s = Inl LineTooLong"
proof (induction s arbitrary: line)
  case (Cons b s)
  then show ?case
    by (cases "split_lines [] s") (force simp: stream_decode_def decode_json_line_def)
qed (simp add: stream_decode_def)

lemma stream_decode_line:
  "stream_decode from_slice line (10 # s) =
     and_then (decode_json_line from_slice (line @ [10])) (\<lambda>m.
     map_ok (\<lambda>(ms, rest). (m # ms, rest)) (stream_decode from_slice [] s))"
  by (cases "split_lines [] s"; cases "decode_json_line from_slice (line @ [10])";
      cases "try_map (decode_json_line from_slice) (fst (split_lines [] s))") (auto simp: stream_decode_def)

lemma stream_decode_byte:
  "b \<noteq> 10 \<Longrightarrow> stream_decode from_slice line (b # s) = stream_decode from_slice (line @ [b]) s"
  by (simp add: stream_decode_def)

lemma feed_bytes_reference:
  assumes "\<not> jd_poisoned d" "length (jd_buffer d) < MAX_JSON_LINE_BYTES"
  shows "feed_bytes from_slice s [] d =
    (case stream_decode from_slice (jd_buffer d) s of
      Inr (ms, rest) \<Rightarrow> (\<lparr>jd_buffer = rest, jd_poisoned = False\<rparr>, Inr ms)
    | Inl e \<Rightarrow> (\<lparr>jd_buffer = [], jd_poisoned = True\<rparr>, Inl e))"
  using assms
proof (induction s arbitrary: d)
  case (Cons b s)
  let ?buffer = "jd_buffer d @ [b]"
  show ?case
  proof (cases "b = 10")
    case True
    show ?thesis
    proof (cases "decode_json_line from_slice ?buffer")
      case (Inr m)
      have "feed_bytes from_slice (b # s) [] d = feed_bytes from_slice s [m] (d\<lparr>jd_buffer := []\<rparr>)"
        using Cons.prems True Inr by simp
      also have "\<dots> = chain (d\<lparr>jd_buffer := []\<rparr>, Inr [m]) (\<lambda>d. feed_bytes from_slice s [] d)"
        by (rule feed_bytes_acc)
      finally show ?thesis
        using Cons.IH [of "d\<lparr>jd_buffer := []\<rparr>"] Cons.prems True Inr
        by (auto simp: stream_decode_line limit_defs split: sum.split)
    qed (use Cons.prems True in \<open>simp add: stream_decode_line decoder_reject_def\<close>)
  next
    case False
    show ?thesis
    proof (cases "length ?buffer = MAX_JSON_LINE_BYTES")
      case True
      then show ?thesis
        using Cons.prems False by (simp add: stream_decode_byte stream_decode_too_long decoder_reject_def)
    qed (use Cons.IH [of "d\<lparr>jd_buffer := ?buffer\<rparr>"] Cons.prems False in \<open>simp add: stream_decode_byte\<close>)
  qed
qed (simp add: stream_decode_def)

text \<open>
  C16: the incremental decoder agrees with the reference on every stream, however it is cut into
  chunks: it delivers the messages of the complete lines in order and keeps the unfinished line, or
  it reports the error of the first offending line; after an error it is poisoned, holds no byte
  of the stream and refuses every further chunk, and it never holds a full line's worth of bytes.
\<close>

theorem decoder_matches_reference:
  "case stream_decode from_slice [] (concat chunks) of
     Inr (ms, rest) \<Rightarrow>
       read_all (decoder_feed from_slice) decoder_new chunks = (\<lparr>jd_buffer = rest, jd_poisoned = False\<rparr>, Inr ms) \<and>
       length rest < MAX_JSON_LINE_BYTES
   | Inl e \<Rightarrow>
       read_all (decoder_feed from_slice) decoder_new chunks = (\<lparr>jd_buffer = [], jd_poisoned = True\<rparr>, Inl e) \<and>
       decoder_feed from_slice \<lparr>jd_buffer = [], jd_poisoned = True\<rparr> chunk = (\<lparr>jd_buffer = [], jd_poisoned = True\<rparr>, Inl Poisoned)"
proof -
  have "read_all (decoder_feed from_slice) decoder_new chunks = decoder_feed from_slice decoder_new (concat chunks)"
    by (rule json_lines.read_all_concat) (simp add: decoder_new_def)
  also have "\<dots> = (case stream_decode from_slice [] (concat chunks) of
      Inr (ms, rest) \<Rightarrow> (\<lparr>jd_buffer = rest, jd_poisoned = False\<rparr>, Inr ms)
    | Inl e \<Rightarrow> (\<lparr>jd_buffer = [], jd_poisoned = True\<rparr>, Inl e))"
    using feed_bytes_reference [of decoder_new from_slice "concat chunks"]
    by (simp add: decoder_feed_def decoder_new_def limit_defs)
  finally show ?thesis
    by (auto simp: decoder_feed_def stream_decode_def Let_def result_simps split: sum.split prod.splits if_splits)
qed

section \<open>Round trip\<close>

text \<open>
  What the codec relies on of the JSON library, for a message: it serialises, the text parses back
  to the message, it is not empty, and compact JSON holds no line break.
\<close>

definition json_faithful :: "'m json_writer \<Rightarrow> 'm json_parser \<Rightarrow> 'm \<Rightarrow> bool" where
  "json_faithful to_writer from_slice m \<longleftrightarrow>
     snd (to_writer m) \<and> from_slice (concat (fst (to_writer m))) = Some m \<and>
     concat (fst (to_writer m)) \<noteq> [] \<and> 10 \<notin> set (concat (fst (to_writer m))) \<and>
     13 \<notin> set (concat (fst (to_writer m)))"

definition json_text :: "'m json_writer \<Rightarrow> 'm \<Rightarrow> nat list" where
  "json_text to_writer m = concat (fst (to_writer m))"

lemma write_pieces_eq:
  assumes "\<not> cb_exceeded w" "length (cb_bytes w) \<le> MAX_JSON_PAYLOAD_BYTES"
  shows "if length (cb_bytes w) + length (concat pieces) \<le> MAX_JSON_PAYLOAD_BYTES
    then write_pieces w pieces = (w\<lparr>cb_bytes := cb_bytes w @ concat pieces\<rparr>, True)
    else cb_exceeded (fst (write_pieces w pieces)) \<and> \<not> snd (write_pieces w pieces)"
  using assms
proof (induction pieces arbitrary: w)
  case (Cons piece pieces)
  show ?case
  proof (cases "length (cb_bytes w) + length piece \<le> MAX_JSON_PAYLOAD_BYTES")
    case True
    then have "capped_write w piece = (w\<lparr>cb_bytes := cb_bytes w @ piece\<rparr>, True)"
      by (simp add: capped_write_def checked_add_def limit_defs)
    then show ?thesis using Cons.IH [of "w\<lparr>cb_bytes := cb_bytes w @ piece\<rparr>"] Cons.prems True by (simp add: add.assoc)
  next
    case False
    then have "capped_write w piece = (w\<lparr>cb_exceeded := True\<rparr>, False)"
      by (simp add: capped_write_def checked_add_def limit_defs)
    then show ?thesis using False by simp
  qed
qed simp

lemma encode_json_line_eq:
  assumes "snd (to_writer m)"
  shows "encode_json_line to_writer m =
    (if length (json_text to_writer m) < MAX_JSON_LINE_BYTES then Inr (json_text to_writer m @ [10]) else Inl LineTooLong)"
  using write_pieces_eq [of capped_new "fst (to_writer m)"] assms
  by (cases "to_writer m"; cases "write_pieces capped_new (fst (to_writer m))")
    (auto simp: encode_json_line_def json_text_def capped_new_def limit_defs split: if_splits)

lemma decode_encoded:
  assumes "json_faithful to_writer from_slice m" "length (json_text to_writer m) < MAX_JSON_LINE_BYTES"
  shows "decode_json_line from_slice (json_text to_writer m @ [10]) = Inr m"
proof -
  let ?t = "json_text to_writer m"
  have t: "?t \<noteq> []" "10 \<notin> set ?t" "13 \<notin> set ?t" "from_slice ?t = Some m"
    using assms(1) unfolding json_faithful_def json_text_def by blast+
  have "last ?t \<noteq> 13" using t(1,3) last_in_set [of ?t] by metis
  then show ?thesis using assms(2) t by (simp add: decode_json_line_def)
qed

lemma split_lines_text: "10 \<notin> set s \<Longrightarrow> split_lines line (s @ 10 # t) =
    (case split_lines [] t of (lines, rest) \<Rightarrow> ((line @ s @ [10]) # lines, rest))"
  by (induction s arbitrary: line) auto

lemma stream_decode_texts:
  assumes "\<forall>m\<in>set ms. json_faithful to_writer from_slice m \<and> length (json_text to_writer m) < MAX_JSON_LINE_BYTES"
  shows "stream_decode from_slice [] (concat (map (\<lambda>m. json_text to_writer m @ [10]) ms)) = Inr (ms, [])"
  using assms
proof (induction ms)
  case (Cons m ms)
  have nl: "10 \<notin> set (json_text to_writer m)" using Cons.prems by (simp add: json_faithful_def json_text_def)
  have "decode_json_line from_slice (json_text to_writer m @ [10]) = Inr m" by (rule decode_encoded) (use Cons.prems in simp_all)
  with Cons nl show ?case
    by (auto simp: stream_decode_def split_lines_text Let_def result_simps split: prod.splits if_splits)
qed (simp add: stream_decode_def limit_defs)



end
