(* ===== verification/Ipc_Protocol.thy ===== *)
theory Ipc_Protocol
  imports Ordered_Map Snapshot
begin

text \<open>
  The messages and connection state of the display socket (\<open>crates/ipc/src/protocol.rs\<close>): versions,
  capabilities and their negotiation, identifiers, the vocabulary of actions, the guard that admits
  client frames, the replay registry and the sequence tracker. Deriving and writing the JSON of
  the messages is the serialisation library's; a capability list arrives as the names in it.
\<close>

section \<open>Versions and capabilities\<close>

definition MAX_EXACT_JSON_INTEGER :: nat where [limit_defs]: "MAX_EXACT_JSON_INTEGER = 9007199254740991"
definition PROTOCOL_V1_MAJOR :: nat where [limit_defs]: "PROTOCOL_V1_MAJOR = 1"
definition PROTOCOL_V1_MINOR :: nat where [limit_defs]: "PROTOCOL_V1_MINOR = 0"
definition MIN_SUPPORTED_PROTOCOL_MAJOR :: nat where
  [limit_defs]: "MIN_SUPPORTED_PROTOCOL_MAJOR = PROTOCOL_V1_MAJOR - 1"
definition MAX_REPLAY_SESSIONS :: nat where [limit_defs]: "MAX_REPLAY_SESSIONS = 256"
definition MAX_CAPABILITIES :: nat where [limit_defs]: "MAX_CAPABILITIES = 32"
definition MAX_CAPABILITY_NAME_BYTES :: nat where [limit_defs]: "MAX_CAPABILITY_NAME_BYTES = 64"
definition MAX_PUBLIC_ROUTE_ID_BYTES :: nat where [limit_defs]: "MAX_PUBLIC_ROUTE_ID_BYTES = 96"
definition FRONTEND_SESSION_ID_HEX_BYTES :: nat where [limit_defs]: "FRONTEND_SESSION_ID_HEX_BYTES = 32"
definition BACKEND_STREAM_ID_HEX_BYTES :: nat where [limit_defs]: "BACKEND_STREAM_ID_HEX_BYTES = 32"

record protocol_version =
  pv_major :: nat
  pv_minor :: nat

record bridge_version =
  bv_major :: nat
  bv_minor :: nat
  bv_patch :: nat

datatype capability =
    DisplaySnapshots | ProviderAccounts | Settings | RuntimeActions | WidgetGeometry | PanelState
  | NotificationsCapability | ActionProgress | CompatibilityErrors

fun capability_rank :: "capability \<Rightarrow> nat" where
  "capability_rank DisplaySnapshots = 0"
| "capability_rank ProviderAccounts = 1"
| "capability_rank Settings = 2"
| "capability_rank RuntimeActions = 3"
| "capability_rank WidgetGeometry = 4"
| "capability_rank PanelState = 5"
| "capability_rank NotificationsCapability = 6"
| "capability_rank ActionProgress = 7"
| "capability_rank CompatibilityErrors = 8"

lemma capability_rank_inject [simp]: "capability_rank c = capability_rank d \<longleftrightarrow> c = d"
  by (cases c; cases d) simp_all

instantiation capability :: linorder
begin

definition less_eq_capability :: "capability \<Rightarrow> capability \<Rightarrow> bool" where
  "less_eq_capability c d \<longleftrightarrow> capability_rank c \<le> capability_rank d"

definition less_capability :: "capability \<Rightarrow> capability \<Rightarrow> bool" where
  "less_capability c d \<longleftrightarrow> capability_rank c < capability_rank d"

instance
  by intro_classes (auto simp: less_eq_capability_def less_capability_def)

end

fun capability_wire_name :: "capability \<Rightarrow> str" where
  "capability_wire_name DisplaySnapshots = lit ''display_snapshots''"
| "capability_wire_name ProviderAccounts = lit ''provider_accounts''"
| "capability_wire_name Settings = lit ''settings''"
| "capability_wire_name RuntimeActions = lit ''runtime_actions''"
| "capability_wire_name WidgetGeometry = lit ''widget_geometry''"
| "capability_wire_name PanelState = lit ''panel_state''"
| "capability_wire_name NotificationsCapability = lit ''notifications''"
| "capability_wire_name ActionProgress = lit ''action_progress''"
| "capability_wire_name CompatibilityErrors = lit ''compatibility_errors''"

definition capability_from_wire_name :: "str \<Rightarrow> capability option" where
  "capability_from_wire_name value =
     (if value = lit ''display_snapshots'' then Some DisplaySnapshots
      else if value = lit ''provider_accounts'' then Some ProviderAccounts
      else if value = lit ''settings'' then Some Settings
      else if value = lit ''runtime_actions'' then Some RuntimeActions
      else if value = lit ''widget_geometry'' then Some WidgetGeometry
      else if value = lit ''panel_state'' then Some PanelState
      else if value = lit ''notifications'' then Some NotificationsCapability
      else if value = lit ''action_progress'' then Some ActionProgress
      else if value = lit ''compatibility_errors'' then Some CompatibilityErrors
      else None)"

text \<open>
  A capability set is its sorted list. Membership is a binary search in that list; the sets built
  below are sorted, so it finds exactly the members.
\<close>

type_synonym capability_set = "capability list"

datatype capability_set_error = TooManyCapabilities | DuplicateCapability | InvalidCapabilityName

definition capability_set_new :: "capability list \<Rightarrow> (capability_set, capability_set_error) result" where
  "capability_set_new capabilities =
     (if length capabilities > MAX_CAPABILITIES then Inl TooManyCapabilities
      else
        let capabilities = sort capabilities in
        if adjacent_equal (\<lambda>c. c) capabilities then Inl DuplicateCapability else Inr capabilities)"

definition capability_contains :: "capability_set \<Rightarrow> capability \<Rightarrow> bool" where
  "capability_contains cs c \<longleftrightarrow> c \<in> set cs"

definition capability_intersection :: "capability_set \<Rightarrow> capability_set \<Rightarrow> capability_set" where
  "capability_intersection cs other = filter (\<lambda>c. capability_contains other c) cs"

definition is_ascii_lowercase :: "nat \<Rightarrow> bool" where
  "is_ascii_lowercase c \<longleftrightarrow> 97 \<le> c \<and> c \<le> 122"

fun double_underscore :: "nat list \<Rightarrow> bool" where
  "double_underscore (x # y # s) \<longleftrightarrow> x = 95 \<and> y = 95 \<or> double_underscore (y # s)"
| "double_underscore _ \<longleftrightarrow> False"

definition capability_name_deserialize :: "str \<Rightarrow> (str, capability_set_error) result" where
  "capability_name_deserialize value =
     (let bytes = as_bytes value; valid_character = (\<lambda>b. is_ascii_lowercase b \<or> is_ascii_digit b) in
      if bytes \<noteq> [] \<and> length bytes \<le> MAX_CAPABILITY_NAME_BYTES \<and> valid_character (hd bytes) \<and>
         valid_character (last bytes) \<and> list_all (\<lambda>b. valid_character b \<or> b = 95) bytes \<and> \<not> double_underscore bytes
      then Inr value else Inl InvalidCapabilityName)"

fun collect_capabilities ::
    "str list \<Rightarrow> str set \<Rightarrow> capability list \<Rightarrow> (capability list, capability_set_error) result" where
  "collect_capabilities [] names capabilities = Inr capabilities"
| "collect_capabilities (value # values) names capabilities =
     and_then (capability_name_deserialize value) (\<lambda>name.
     if card names = MAX_CAPABILITIES then Inl TooManyCapabilities
     else if name \<in> names then Inl DuplicateCapability
     else collect_capabilities values (insert name names)
       (case capability_from_wire_name name of Some c \<Rightarrow> capabilities @ [c] | None \<Rightarrow> capabilities))"

definition capability_set_deserialize :: "str list \<Rightarrow> (capability_set, capability_set_error) result" where
  "capability_set_deserialize values = and_then (collect_capabilities values {} []) capability_set_new"

section \<open>Identifiers and integers of the wire\<close>

definition hex_id_ok :: "nat \<Rightarrow> str \<Rightarrow> bool" where
  "hex_id_ok n value \<longleftrightarrow> str_len value = n \<and> list_all is_lower_hex (as_bytes value)"

definition frontend_session_id_parse :: "str \<Rightarrow> (str, unit) result" where
  "frontend_session_id_parse value = (if hex_id_ok FRONTEND_SESSION_ID_HEX_BYTES value then Inr value else Inl ())"

definition backend_stream_id_parse :: "str \<Rightarrow> (str, unit) result" where
  "backend_stream_id_parse value = (if hex_id_ok BACKEND_STREAM_ID_HEX_BYTES value then Inr value else Inl ())"

text \<open>The bytes the operating system's generator fills in are a parameter.\<close>

definition backend_stream_id_generate :: "nat list option \<Rightarrow> (str, unit) result" where
  "backend_stream_id_generate random = map_ok lower_hex (ok_or () random)"

datatype wire_integer_error = ZeroWireInteger | ExceedsExactJsonRange

definition wire_integer_new :: "nat \<Rightarrow> (nat, wire_integer_error) result" where
  "wire_integer_new value =
     (if value = 0 then Inl ZeroWireInteger
      else if value > MAX_EXACT_JSON_INTEGER then Inl ExceedsExactJsonRange
      else Inr value)"

definition public_route_id_parse :: "str \<Rightarrow> (str, unit) result" where
  "public_route_id_parse value =
     (let bytes = as_bytes value; alphanumeric = (\<lambda>b. is_ascii_lowercase b \<or> is_ascii_digit b) in
      if value = [] \<or> str_len value > MAX_PUBLIC_ROUTE_ID_BYTES then Inl ()
      else if \<not> alphanumeric (hd bytes) \<or> \<not> alphanumeric (last bytes) then Inl ()
      else if list_ex (\<lambda>b. \<not> alphanumeric b \<and> b \<notin> {45, 95, 46, 58}) bytes then Inl ()
      else Inr value)"

section \<open>Messages\<close>

datatype navigation_destination =
    GeneralPage | ProvidersPage | DisplayPage | NotificationsPage | UsageAndSpendPage | SessionsPage
  | HooksPage | PluginsPage | FleetSyncPage | AdvancedPage | AboutPage

datatype export_format = ExportJson | ExportCsv | ExportPng

datatype approval_decision = ApproveOnce | ApproveAlways | Deny

datatype runtime_action =
    OpenPanel | ClosePanel | TogglePanel | RefreshAll | RefreshProvider provider_id
  | SwitchAccount provider_id str str | Navigate navigation_destination | BeginLogin provider_id
  | LogOut provider_id str | OpenProviderDashboard provider_id | ExportUsage export_format
  | InstallPlugin str | ResolveApproval nat approval_decision | CancelRequest nat | Quit

record client_hello =
  ch_protocol :: protocol_version
  ch_bridge_version :: bridge_version
  ch_session_id :: str
  ch_capabilities :: capability_set

datatype client_message =
    ClientHelloMessage client_hello
  | ActionMessage nat runtime_action
  | SnapshotAckMessage nat

fun as_hello :: "client_message \<Rightarrow> client_hello option" where
  "as_hello (ClientHelloMessage hello) = Some hello"
| "as_hello (ActionMessage _ _) = None"
| "as_hello (SnapshotAckMessage _) = None"

record server_hello =
  sh_protocol :: protocol_version
  sh_stream_id :: str
  sh_capabilities :: capability_set

datatype action_progress_state = ActionQueued | ActionRunning | ActionCompleted | ActionFailed | ActionCancelled

datatype compatibility_error_code = UnsupportedProtocolMajor | HelloRequiredCode | ProtocolViolation

text \<open>A snapshot can be sent only as the domain's policy-aware view of an envelope.\<close>

datatype server_message =
    ServerHelloMessage server_hello
  | SnapshotMessage nat surface_envelope
  | ActionProgressMessage nat action_progress_state
  | CompatibilityErrorMessage compatibility_error_code protocol_version
  | PongMessage nat

section \<open>The connection guard\<close>

datatype handshake_error =
  UnsupportedMajor nat nat | HelloRequired | AlreadyComplete | CapabilityNotNegotiated capability

definition negotiate_bridge :: "client_hello \<Rightarrow> capability_set \<Rightarrow> str \<Rightarrow> (server_hello, handshake_error) result" where
  "negotiate_bridge client server_capabilities stream_id =
     (if pv_major (ch_protocol client) < MIN_SUPPORTED_PROTOCOL_MAJOR \<or> pv_major (ch_protocol client) > PROTOCOL_V1_MAJOR
      then Inl (UnsupportedMajor (pv_major (ch_protocol client)) PROTOCOL_V1_MAJOR)
      else Inr \<lparr>sh_protocol = \<lparr>pv_major = pv_major (ch_protocol client), pv_minor = PROTOCOL_V1_MINOR\<rparr>,
                sh_stream_id = stream_id,
                sh_capabilities = capability_intersection (ch_capabilities client) server_capabilities\<rparr>)"

record negotiated_session =
  ns_session_id :: str
  ns_hello :: server_hello

record handshake_context =
  hc_server_capabilities :: capability_set
  hc_stream_id :: str

record handshake_guard =
  hg_server_capabilities :: capability_set
  hg_stream_id :: str
  hg_session :: "negotiated_session option"

definition handshake_context_new :: "capability_set \<Rightarrow> nat list option \<Rightarrow> (handshake_context, unit) result" where
  "handshake_context_new server_capabilities random =
     map_ok (\<lambda>stream_id. \<lparr>hc_server_capabilities = server_capabilities, hc_stream_id = stream_id\<rparr>)
       (backend_stream_id_generate random)"

definition context_connection :: "handshake_context \<Rightarrow> handshake_guard" where
  "context_connection c = \<lparr>hg_server_capabilities = hc_server_capabilities c, hg_stream_id = hc_stream_id c, hg_session = None\<rparr>"

datatype accepted_client_frame =
    AcceptedHello server_hello
  | AcceptedAction str nat runtime_action
  | AcceptedSnapshotAck str nat

definition ready_with :: "handshake_guard \<Rightarrow> capability \<Rightarrow> (negotiated_session, handshake_error) result" where
  "ready_with g required =
     and_then (ok_or HelloRequired (hg_session g)) (\<lambda>session.
     if \<not> capability_contains (sh_capabilities (ns_hello session)) required
     then Inl (CapabilityNotNegotiated required)
     else Inr session)"

definition guard_accept ::
    "handshake_guard \<Rightarrow> client_message \<Rightarrow> handshake_guard \<times> (accepted_client_frame, handshake_error) result" where
  "guard_accept g message =
     (case message of
       ClientHelloMessage hello \<Rightarrow>
         if hg_session g \<noteq> None then (g, Inl AlreadyComplete)
         else
           (case negotiate_bridge hello (hg_server_capabilities g) (hg_stream_id g) of
             Inl e \<Rightarrow> (g, Inl e)
           | Inr negotiated \<Rightarrow>
               (g\<lparr>hg_session := Some \<lparr>ns_session_id = ch_session_id hello, ns_hello = negotiated\<rparr>\<rparr>,
                Inr (AcceptedHello negotiated)))
     | ActionMessage request_id action \<Rightarrow>
         (g, map_ok (\<lambda>session. AcceptedAction (ns_session_id session) request_id action) (ready_with g RuntimeActions))
     | SnapshotAckMessage sequence \<Rightarrow>
         (g, map_ok (\<lambda>session. AcceptedSnapshotAck (ns_session_id session) sequence) (ready_with g DisplaySnapshots)))"

section \<open>Replays and sequences\<close>

datatype request_replay_disposition = NewRequest | ReplayedRequest | StaleRequest

datatype request_replay_registry_error = InvalidCapacity

record request_replay_registry =
  rr_capacity :: nat
  rr_last_requests :: "(str, nat) btree_map"
  rr_recency :: "str list"

definition registry_new :: "nat \<Rightarrow> (request_replay_registry, request_replay_registry_error) result" where
  "registry_new capacity =
     (if capacity < 1 \<or> capacity > MAX_REPLAY_SESSIONS then Inl InvalidCapacity
      else Inr \<lparr>rr_capacity = capacity, rr_last_requests = bt_empty, rr_recency = []\<rparr>)"

definition mark_recent :: "request_replay_registry \<Rightarrow> str \<Rightarrow> request_replay_registry" where
  "mark_recent reg session_id = reg\<lparr>rr_recency := remove1 session_id (rr_recency reg) @ [session_id]\<rparr>"

definition registry_observe ::
    "request_replay_registry \<Rightarrow> str \<Rightarrow> nat \<Rightarrow> request_replay_registry \<times> request_replay_disposition" where
  "registry_observe reg session_id request_id =
     (case bt_get (rr_last_requests reg) session_id of
       Some latest \<Rightarrow>
         let reg = mark_recent reg session_id in
         if request_id > latest
         then (reg\<lparr>rr_last_requests := bt_insert session_id request_id (rr_last_requests reg)\<rparr>, NewRequest)
         else if request_id = latest then (reg, ReplayedRequest)
         else (reg, StaleRequest)
     | None \<Rightarrow>
         let reg = (if bt_len (rr_last_requests reg) = rr_capacity reg
                    then (case rr_recency reg of
                      evicted # rest \<Rightarrow>
                        reg\<lparr>rr_recency := rest, rr_last_requests := bt_remove evicted (rr_last_requests reg)\<rparr>
                    | [] \<Rightarrow> reg)
                    else reg) in
         (reg\<lparr>rr_last_requests := bt_insert session_id request_id (rr_last_requests reg),
              rr_recency := rr_recency reg @ [session_id]\<rparr>, NewRequest))"

datatype sequence_disposition = SequenceAccepted | SequenceStale

definition tracker_observe :: "nat option \<Rightarrow> nat \<Rightarrow> nat option \<times> sequence_disposition" where
  "tracker_observe latest sequence =
     (if is_some_and (\<lambda>l. sequence \<le> l) latest then (latest, SequenceStale) else (Some sequence, SequenceAccepted))"

definition retain_if_fresh :: "nat option \<Rightarrow> nat \<Rightarrow> 'v \<Rightarrow> nat option \<times> 'v option" where
  "retain_if_fresh latest sequence v =
     (case tracker_observe latest sequence of
       (latest, SequenceAccepted) \<Rightarrow> (latest, Some v)
     | (latest, SequenceStale) \<Rightarrow> (latest, None))"

section \<open>Capability sets\<close>

definition capability_set_ok :: "capability_set \<Rightarrow> bool" where
  "capability_set_ok cs \<longleftrightarrow> sorted cs \<and> distinct cs \<and> length cs \<le> MAX_CAPABILITIES"

lemma capability_set_new_eq:
  "capability_set_new cs =
     (if length cs > MAX_CAPABILITIES then Inl TooManyCapabilities
      else if distinct cs then Inr (sort cs) else Inl DuplicateCapability)"
  using adjacent_equal_sort_key [of "\<lambda>c. c" cs] by (simp add: capability_set_new_def)

lemma capability_set_new_ok: "capability_set_new cs = Inr s \<Longrightarrow> capability_set_ok s \<and> set s = set cs"
  by (auto simp: capability_set_new_eq capability_set_ok_def split: if_splits)

lemma capability_intersection_ok:
  "capability_set_ok cs \<Longrightarrow> capability_set_ok (capability_intersection cs other)"
  using sorted_wrt_filter [of "(\<le>)" cs "capability_contains other"]
  by (simp add: capability_set_ok_def capability_intersection_def le_trans [OF length_filter_le])

lemma capability_wire_name_inject [simp]: "capability_wire_name c = capability_wire_name d \<longleftrightarrow> c = d"
  by (cases c; cases d) (simp_all add: lit_def)

lemma capability_from_wire_name_wire [simp]: "capability_from_wire_name (capability_wire_name c) = Some c"
  by (cases c) (simp_all add: capability_from_wire_name_def lit_def)

lemma capability_name_wire [simp]: "capability_name_deserialize (capability_wire_name c) = Inr (capability_wire_name c)"
  by (cases c) (simp_all add: capability_name_deserialize_def lit_def utf8_char_def is_ascii_lowercase_def
      is_ascii_digit_def limit_defs)

lemma collect_wire_names:
  assumes "distinct cs" "set cs \<inter> known = {}" "finite known" "card known + length cs \<le> MAX_CAPABILITIES"
  shows "collect_capabilities (map capability_wire_name cs) (capability_wire_name ` known) acc = Inr (acc @ cs)"
  using assms
proof (induction cs arbitrary: known acc)
  case (Cons c cs)
  have "card (capability_wire_name ` known) = card known" by (intro card_image) (simp add: inj_on_def)
  moreover have "capability_wire_name c \<notin> capability_wire_name ` known" using Cons.prems by auto
  moreover have "c \<notin> known" using Cons.prems by simp
  ultimately show ?case
    using Cons.IH [of "insert c known" "acc @ [c]"] Cons.prems by simp
qed simp

text \<open>
  A capability set survives the wire: the names it is written as read behind as the same set.
\<close>

lemma capability_set_round_trip:
  assumes "capability_set_ok cs"
  shows "capability_set_deserialize (map capability_wire_name cs) = Inr cs"
  using collect_wire_names [of cs "{}" "[]"] assms
  by (simp add: capability_set_deserialize_def capability_set_ok_def capability_set_new_eq sorted_sort_id)

section \<open>Frames of a connection\<close>

fun guard_run :: "handshake_guard \<Rightarrow> client_message list \<Rightarrow> handshake_guard" where
  "guard_run g [] = g"
| "guard_run g (m # ms) = guard_run (fst (guard_accept g m)) ms"

definition hello_supported :: "client_message \<Rightarrow> bool" where
  "hello_supported m \<longleftrightarrow> (\<exists>h. m = ClientHelloMessage h \<and> pv_major (ch_protocol h) \<le> PROTOCOL_V1_MAJOR)"

text \<open>The hello a connection runs under: the first one of a supported major version.\<close>

definition governing_hello :: "client_message list \<Rightarrow> client_hello option" where
  "governing_hello ms = Option.bind (find hello_supported ms) as_hello"

definition session_under :: "handshake_context \<Rightarrow> client_hello \<Rightarrow> negotiated_session" where
  "session_under c h =
     \<lparr>ns_session_id = ch_session_id h,
      ns_hello = \<lparr>sh_protocol = \<lparr>pv_major = pv_major (ch_protocol h), pv_minor = PROTOCOL_V1_MINOR\<rparr>,
                  sh_stream_id = hc_stream_id c,
                  sh_capabilities = capability_intersection (ch_capabilities h) (hc_server_capabilities c)\<rparr>\<rparr>"

lemma hello_supported_simps [simp]:
  "hello_supported (ClientHelloMessage h) \<longleftrightarrow> pv_major (ch_protocol h) \<le> PROTOCOL_V1_MAJOR"
  "\<not> hello_supported (ActionMessage i a)" "\<not> hello_supported (SnapshotAckMessage q)"
  by (simp_all add: hello_supported_def)

lemma guard_run_session:
  assumes "hg_session g = None"
  shows "guard_run g ms = g\<lparr>hg_session := map_option (session_under
    \<lparr>hc_server_capabilities = hg_server_capabilities g, hc_stream_id = hg_stream_id g\<rparr>) (governing_hello ms)\<rparr>"
  using assms
proof (induction ms)
  case (Cons m ms)
  have done_run: "guard_run h ms' = h" if "hg_session h \<noteq> None" for h ms'
    using that by (induction ms') (auto simp: guard_accept_def split: client_message.splits)
  show ?case
  proof (cases "hello_supported m")
    case True
    then obtain h where "m = ClientHelloMessage h" "pv_major (ch_protocol h) \<le> PROTOCOL_V1_MAJOR"
      by (auto simp: hello_supported_def)
    with Cons.prems True show ?thesis
      by (simp add: guard_accept_def negotiate_bridge_def governing_hello_def session_under_def done_run limit_defs)
  next
    case False
    then have "fst (guard_accept g m) = g"
      using Cons.prems by (cases m) (auto simp: guard_accept_def negotiate_bridge_def limit_defs)
    with Cons False show ?thesis by (simp add: governing_hello_def)
  qed
qed (simp add: governing_hello_def)

text \<open>
  C14: frames are admitted exactly by the handshake. On a connection of a context, after any frames
  at all, a hello is accepted only as the first one of a supported version, and the answer offers
  what both sides have; an action or an acknowledgement is accepted exactly when such a hello came
  before it and both sides have its capability, and it is attributed to the session of that hello.
\<close>

theorem connection_admits_by_handshake:
  "let g = guard_run (context_connection c) earlier; accepted = snd (guard_accept g m) in
   case m of
     ClientHelloMessage h \<Rightarrow>
       accepted =
         (if governing_hello earlier \<noteq> None then Inl AlreadyComplete
          else if pv_major (ch_protocol h) > PROTOCOL_V1_MAJOR
          then Inl (UnsupportedMajor (pv_major (ch_protocol h)) PROTOCOL_V1_MAJOR)
          else Inr (AcceptedHello (ns_hello (session_under c h)))) \<and>
       (\<forall>x. x \<in> set (sh_capabilities (ns_hello (session_under c h))) \<longleftrightarrow>
          x \<in> set (ch_capabilities h) \<and> x \<in> set (hc_server_capabilities c))
   | ActionMessage i action \<Rightarrow>
       (\<forall>frame. accepted = Inr frame \<longleftrightarrow>
          (\<exists>h. governing_hello earlier = Some h \<and> RuntimeActions \<in> set (ch_capabilities h) \<and>
             RuntimeActions \<in> set (hc_server_capabilities c) \<and> frame = AcceptedAction (ch_session_id h) i action))
   | SnapshotAckMessage q \<Rightarrow>
       (\<forall>frame. accepted = Inr frame \<longleftrightarrow>
          (\<exists>h. governing_hello earlier = Some h \<and> DisplaySnapshots \<in> set (ch_capabilities h) \<and>
             DisplaySnapshots \<in> set (hc_server_capabilities c) \<and> frame = AcceptedSnapshotAck (ch_session_id h) q))"
proof -
  have g: "guard_run (context_connection c) earlier =
      (context_connection c)\<lparr>hg_session := map_option (session_under c) (governing_hello earlier)\<rparr>"
    by (subst guard_run_session; cases c) (simp_all add: context_connection_def)
  show ?thesis
    unfolding Let_def g
    by (cases m; cases "governing_hello earlier")
      (auto simp: guard_accept_def ready_with_def negotiate_bridge_def context_connection_def session_under_def
        capability_contains_def capability_intersection_def limit_defs)
qed

section \<open>The replay registry\<close>

definition registry_ok :: "request_replay_registry \<Rightarrow> bool" where
  "registry_ok reg \<longleftrightarrow> distinct (rr_recency reg) \<and> set (rr_recency reg) = {k. bt_contains (rr_last_requests reg) k} \<and>
     length (rr_recency reg) \<le> rr_capacity reg \<and> 1 \<le> rr_capacity reg"

fun registry_run :: "request_replay_registry \<Rightarrow> (str \<times> nat) list \<Rightarrow> request_replay_registry" where
  "registry_run reg [] = reg"
| "registry_run reg ((s, r) # os) = registry_run (fst (registry_observe reg s r)) os"

lemma registry_run_append: "registry_run reg (xs @ ys) = registry_run (registry_run reg xs) ys"
  by (induction reg xs rule: registry_run.induct) simp_all

lemma set_tl_subset: "set (tl xs) \<subseteq> set xs"
  by (cases xs) auto

lemma registry_len: "registry_ok reg \<Longrightarrow> bt_len (rr_last_requests reg) = length (rr_recency reg)"
  using distinct_card [of "rr_recency reg"] by (simp add: registry_ok_def bt_len_card)

text \<open>The two ways a session is observed: it is known and moves to the end, or it enters, in place of the oldest.\<close>

lemma observe_known:
  assumes "bt_get (rr_last_requests reg) s = Some v"
  shows "fst (registry_observe reg s r) = reg\<lparr>rr_recency := remove1 s (rr_recency reg) @ [s],
      rr_last_requests := (if v < r then bt_insert s r (rr_last_requests reg) else rr_last_requests reg)\<rparr>"
    and "snd (registry_observe reg s r) = (if v < r then NewRequest else if r = v then ReplayedRequest else StaleRequest)"
  using assms by (simp_all add: registry_observe_def mark_recent_def Let_def)

lemma observe_unknown:
  assumes "registry_ok reg" "bt_get (rr_last_requests reg) s = None"
  shows "\<exists>kept m. fst (registry_observe reg s r) = reg\<lparr>rr_recency := kept @ [s], rr_last_requests := bt_insert s r m\<rparr> \<and>
    snd (registry_observe reg s r) = NewRequest \<and> (\<forall>k. bt_get m k = (if k \<in> set kept then bt_get (rr_last_requests reg) k else None)) \<and>
    kept = (if length (rr_recency reg) = rr_capacity reg then tl (rr_recency reg) else rr_recency reg)"
proof (cases "length (rr_recency reg) = rr_capacity reg")
  case True
  then obtain e rest where e: "rr_recency reg = e # rest" using assms(1) by (cases "rr_recency reg") (auto simp: registry_ok_def)
  have "bt_get (bt_remove e (rr_last_requests reg)) k = (if k \<in> set rest then bt_get (rr_last_requests reg) k else None)" for k
    using assms(1) e by (auto simp: registry_ok_def bt_contains_def set_eq_iff)
  with assms e True show ?thesis
    by (intro exI [of _ rest] exI [of _ "bt_remove e (rr_last_requests reg)"])
      (simp add: registry_observe_def Let_def registry_len)
next
  case False
  have "bt_get (rr_last_requests reg) k = (if k \<in> set (rr_recency reg) then bt_get (rr_last_requests reg) k else None)" for k
    using assms(1) by (auto simp: registry_ok_def bt_contains_def set_eq_iff)
  with assms False show ?thesis
    by (intro exI [of _ "rr_recency reg"] exI [of _ "rr_last_requests reg"])
      (simp add: registry_observe_def Let_def registry_len)
qed

lemma observe_ok:
  assumes "registry_ok reg"
  shows "registry_ok (fst (registry_observe reg s r)) \<and> rr_capacity (fst (registry_observe reg s r)) = rr_capacity reg"
proof (cases "bt_get (rr_last_requests reg) s")
  case None
  obtain kept m where k: "fst (registry_observe reg s r) = reg\<lparr>rr_recency := kept @ [s], rr_last_requests := bt_insert s r m\<rparr>"
    "\<forall>k. bt_get m k = (if k \<in> set kept then bt_get (rr_last_requests reg) k else None)"
    "kept = (if length (rr_recency reg) = rr_capacity reg then tl (rr_recency reg) else rr_recency reg)"
    using observe_unknown [OF assms None, of r] by blast
  have sub: "set kept \<subseteq> set (rr_recency reg)" using k(3) set_tl_subset [of "rr_recency reg"] by auto
  have "s \<notin> set kept" using sub None assms by (auto simp: registry_ok_def bt_contains_def)
  moreover have "distinct kept" using k(3) assms by (auto simp: registry_ok_def distinct_tl)
  moreover have "length kept < rr_capacity reg" using k(3) assms by (auto simp: registry_ok_def)
  moreover have "set kept \<subseteq> {k. bt_contains (rr_last_requests reg) k}" using sub assms by (auto simp: registry_ok_def)
  ultimately show ?thesis using k(1,2) assms by (auto simp: registry_ok_def bt_contains_def)
next
  case (Some v)
  then have "s \<in> set (rr_recency reg)" using assms by (auto simp: registry_ok_def bt_contains_def)
  then have "length (rr_recency reg) = Suc (length (remove1 s (rr_recency reg)))"
    by (metis One_nat_def Suc_pred length_pos_if_in_set length_remove1)
  with Some assms show ?thesis
    by (auto simp: registry_ok_def observe_known(1) bt_contains_def)
qed

lemma run_ok:
  "registry_ok reg \<Longrightarrow> registry_ok (registry_run reg os) \<and> rr_capacity (registry_run reg os) = rr_capacity reg"
  by (induction reg os rule: registry_run.induct) (auto simp: observe_ok)

lemma new_ok: "registry_new cap = Inr reg \<Longrightarrow> registry_ok reg \<and> rr_capacity reg = cap"
  by (auto simp: registry_new_def registry_ok_def split: if_splits)

text \<open>
  A session is sheltered while its latest request is recorded and every session behind it in the
  recency list belongs to a set that is smaller than the registry.
\<close>

definition sheltered :: "request_replay_registry \<Rightarrow> str \<Rightarrow> nat \<Rightarrow> str set \<Rightarrow> bool" where
  "sheltered reg s r others \<longleftrightarrow> (\<exists>front behind v. rr_recency reg = front @ s # behind \<and> set behind \<subseteq> others \<and>
     bt_get (rr_last_requests reg) s = Some v \<and> r \<le> v)"

lemma observe_shelters:
  assumes "registry_ok reg"
  shows "sheltered (fst (registry_observe reg s r)) s r others"
proof (cases "bt_get (rr_last_requests reg) s")
  case None
  then obtain kept m where "fst (registry_observe reg s r) = reg\<lparr>rr_recency := kept @ [s], rr_last_requests := bt_insert s r m\<rparr>"
    using observe_unknown [OF assms None, of r] by blast
  then show ?thesis
    by (intro sheltered_def [THEN iffD2] exI [of _ kept] exI [of _ "[]"] exI [of _ r]) simp
next
  case (Some v)
  then show ?thesis
    by (intro sheltered_def [THEN iffD2] exI [of _ "remove1 s (rr_recency reg)"] exI [of _ "[]"] exI [of _ "max v r"])
      (auto simp: observe_known(1))
qed

text \<open>Observing another session of the set, or the session itself, keeps it sheltered.\<close>

lemma remove1_around:
  "t \<noteq> s \<Longrightarrow> distinct (front @ s # behind) \<Longrightarrow> \<exists>front' behind'. remove1 t (front @ s # behind) = front' @ s # behind' \<and> set behind' \<subseteq> set behind"
  using set_remove1_subset [of t behind]
  by (cases "t \<in> set front") (auto simp: remove1_append intro: exI [of _ front] exI [of _ "remove1 t behind"])

lemma observe_keeps_shelter:
  assumes ok: "registry_ok reg" and sh: "sheltered reg s r others" and small: "finite others" "card others < rr_capacity reg"
    and t: "t \<in> insert s others" "s \<notin> others"
  shows "sheltered (fst (registry_observe reg t q)) s r others"
proof -
  obtain front behind v where rec: "rr_recency reg = front @ s # behind" "set behind \<subseteq> others"
    and v: "bt_get (rr_last_requests reg) s = Some v" "r \<le> v"
    using sh unfolding sheltered_def by blast
  have dist: "distinct (front @ s # behind)" using ok rec(1) by (simp add: registry_ok_def)
  show ?thesis
  proof (cases "bt_get (rr_last_requests reg) t")
    case (Some w)
    show ?thesis
    proof (cases "t = s")
      case True
      then show ?thesis
        using v Some unfolding sheltered_def observe_known(1) [OF Some]
        by (intro exI [of _ "remove1 s (rr_recency reg)"] exI [of _ "[]"] exI [of _ "max v q"]) auto
    next
      case False
      obtain front' behind' where "remove1 t (front @ s # behind) = front' @ s # behind'" "set behind' \<subseteq> set behind"
        using remove1_around [OF False dist] by blast
      then show ?thesis
        using rec t False v unfolding sheltered_def observe_known(1) [OF Some]
        by (intro exI [of _ front'] exI [of _ "behind' @ [t]"] exI [of _ v]) auto
    qed
  next
    case None
    then have ts: "t \<noteq> s" "t \<in> others" using v t by auto
    obtain kept m where k: "fst (registry_observe reg t q) = reg\<lparr>rr_recency := kept @ [t], rr_last_requests := bt_insert t q m\<rparr>"
      "\<forall>k. bt_get m k = (if k \<in> set kept then bt_get (rr_last_requests reg) k else None)"
      "kept = (if length (rr_recency reg) = rr_capacity reg then tl (rr_recency reg) else rr_recency reg)"
      using observe_unknown [OF ok None, of q] by blast
    have "front \<noteq> []" if full: "length (rr_recency reg) = rr_capacity reg"
    proof
      assume "front = []"
      then have "card (set behind) + 1 = rr_capacity reg" using full rec(1) dist by (simp add: distinct_card)
      moreover have "t \<notin> set behind" using None ok rec(1) by (auto simp: registry_ok_def bt_contains_def set_eq_iff)
      moreover have "insert t (set behind) \<subseteq> others" using ts(2) rec(2) by blast
      ultimately show False using small card_mono [of others "insert t (set behind)"] by simp
    qed
    then have "kept = (if length (rr_recency reg) = rr_capacity reg then tl front else front) @ s # behind"
      using k(3) rec(1) by (simp add: tl_append2)
    then obtain front' where "kept = front' @ s # behind" by blast
    then show ?thesis
      using k(1,2) v rec(2) ts unfolding sheltered_def
      by (intro exI [of _ front'] exI [of _ "behind @ [t]"] exI [of _ v]) auto
  qed
qed

lemma run_keeps_shelter:
  assumes "registry_ok reg" "sheltered reg s r others" "finite others" "card others < rr_capacity reg"
    "s \<notin> others" "fst ` set os \<subseteq> insert s others"
  shows "sheltered (registry_run reg os) s r others"
  using assms
proof (induction reg os rule: registry_run.induct)
  case (2 reg t q os)
  then show ?case using observe_ok [of reg t q] observe_keeps_shelter [of reg s r others t q] by auto
qed simp

text \<open>What is recorded of a session is one of the requests observed for it.\<close>

lemma recorded_was_observed:
  assumes "registry_new cap = Inr reg" "bt_get (rr_last_requests (registry_run reg os)) s = Some v"
  shows "(s, v) \<in> set os"
  using assms(2)
proof (induction os arbitrary: s v rule: rev_induct)
  case Nil
  then show ?case using assms(1) by (auto simp: registry_new_def split: if_splits)
next
  case (snoc x os)
  obtain t q where x: "x = (t, q)" by (cases x)
  have ok: "registry_ok (registry_run reg os)" using run_ok new_ok [OF assms(1)] by blast
  show ?case
  proof (cases "bt_get (rr_last_requests (registry_run reg os)) t")
    case None
    obtain kept m where k: "fst (registry_observe (registry_run reg os) t q) =
        (registry_run reg os)\<lparr>rr_recency := kept @ [t], rr_last_requests := bt_insert t q m\<rparr>"
      "\<forall>k. bt_get m k = (if k \<in> set kept then bt_get (rr_last_requests (registry_run reg os)) k else None)"
      using observe_unknown [OF ok None, of q] by blast
    show ?thesis
    proof (cases "s = t")
      case False
      then have "bt_get m s = Some v" using snoc.prems k(1) x by (simp add: registry_run_append)
      then have "bt_get (rr_last_requests (registry_run reg os)) s = Some v" using k(2) by (simp split: if_splits)
      then show ?thesis using snoc.IH by simp
    qed (use snoc.prems k(1) x in \<open>simp add: registry_run_append\<close>)
  next
    case (Some w)
    with snoc x show ?thesis by (auto simp: registry_run_append observe_known(1) split: if_splits)
  qed
qed



section \<open>Sequences\<close>

text \<open>The snapshots a frontend keeps, with the numbers they came under.\<close>

fun kept_sequences :: "nat option \<Rightarrow> nat list \<Rightarrow> nat list" where
  "kept_sequences latest [] = []"
| "kept_sequences latest (q # qs) =
     (case tracker_observe latest q of
       (latest, SequenceAccepted) \<Rightarrow> q # kept_sequences latest qs
     | (latest, SequenceStale) \<Rightarrow> kept_sequences latest qs)"

lemma kept_sequences_above: "x \<in> set (kept_sequences (Some l) qs) \<Longrightarrow> l < x"
  by (induction "Some l" qs arbitrary: l rule: kept_sequences.induct) (force simp: tracker_observe_def split: if_splits)+

lemma kept_sequences_increasing: "sorted_wrt (<) (kept_sequences latest qs)"
  by (induction latest qs rule: kept_sequences.induct)
    (auto simp: tracker_observe_def kept_sequences_above split: sequence_disposition.splits)

end
