(* ===== verification/Frontend_Presence.thy ===== *)
theory Frontend_Presence
  imports Ipc_Protocol
begin

text \<open>
  The policy that shows the tray fallback when no frontend is present
  (\<open>crates/ipc/src/frontend_presence.rs\<close>). Times are durations since one origin. An operation that
  fails leaves the policy unchanged, so its result carries the policy only when it succeeds.
\<close>

section \<open>The policy\<close>

datatype sni_status = SniActive | SniPassive

datatype frontend_compatibility = Compatible | Incompatible

definition compatibility_from_server_hello :: "server_hello \<Rightarrow> frontend_compatibility" where
  "compatibility_from_server_hello hello =
     (if capability_contains (sh_capabilities hello) DisplaySnapshots then Compatible else Incompatible)"

datatype grace_deadline = DeadlineAt duration | BeyondRange

datatype fallback_state = FallbackActive | FallbackSuppressed | FallbackWaiting grace_deadline

definition after_grace :: "duration \<Rightarrow> duration \<Rightarrow> fallback_state" where
  "after_grace grace_period now =
     (if grace_period = 0 then FallbackActive
      else case checked_add duration_max now grace_period of
        Some deadline \<Rightarrow> FallbackWaiting (DeadlineAt deadline)
      | None \<Rightarrow> FallbackWaiting BeyondRange)"

record frontend_presence =
  fp_grace_period :: duration
  fp_observed_at :: duration
  fp_next_connection_id :: "nat option"
  fp_compatible_connections :: "nat set"
  fp_fallback :: fallback_state

datatype frontend_presence_error = NonMonotonicTime duration duration | ConnectionIdSpaceExhausted

definition presence_new :: "duration \<Rightarrow> duration \<Rightarrow> frontend_presence" where
  "presence_new grace_period started_at =
     \<lparr>fp_grace_period = grace_period, fp_observed_at = started_at, fp_next_connection_id = Some 1,
      fp_compatible_connections = {}, fp_fallback = after_grace grace_period started_at\<rparr>"

definition presence_observe :: "frontend_presence \<Rightarrow> duration \<Rightarrow> (frontend_presence, frontend_presence_error) result" where
  "presence_observe p now =
     (if now < fp_observed_at p then Inl (NonMonotonicTime (fp_observed_at p) now)
      else
        let p = p\<lparr>fp_observed_at := now\<rparr> in
        Inr (case fp_fallback p of
          FallbackWaiting (DeadlineAt deadline) \<Rightarrow> if deadline \<le> now then p\<lparr>fp_fallback := FallbackActive\<rparr> else p
        | _ \<Rightarrow> p))"

definition connect_at ::
    "frontend_presence \<Rightarrow> duration \<Rightarrow> frontend_compatibility \<Rightarrow> (frontend_presence \<times> nat, frontend_presence_error) result" where
  "connect_at p now compatibility =
     and_then (ok_or ConnectionIdSpaceExhausted (fp_next_connection_id p)) (\<lambda>connection_id.
     and_then (presence_observe p now) (\<lambda>p.
     let p = p\<lparr>fp_next_connection_id := checked_add u64_max connection_id 1\<rparr> in
     Inr (if compatibility = Compatible
          then p\<lparr>fp_compatible_connections := insert connection_id (fp_compatible_connections p),
                 fp_fallback := FallbackSuppressed\<rparr>
          else p, connection_id)))"

definition disconnect_at ::
    "frontend_presence \<Rightarrow> duration \<Rightarrow> nat \<Rightarrow> (frontend_presence, frontend_presence_error) result" where
  "disconnect_at p now connection_id =
     and_then (presence_observe p now) (\<lambda>p.
     let removed = connection_id \<in> fp_compatible_connections p;
         p = p\<lparr>fp_compatible_connections := fp_compatible_connections p - {connection_id}\<rparr> in
     Inr (if removed \<and> fp_compatible_connections p = {}
          then p\<lparr>fp_fallback := after_grace (fp_grace_period p) now\<rparr>
          else p))"

definition presence_status :: "frontend_presence \<Rightarrow> sni_status" where
  "presence_status p =
     (case fp_fallback p of
       FallbackActive \<Rightarrow> SniActive
     | FallbackSuppressed \<Rightarrow> SniPassive
     | FallbackWaiting _ \<Rightarrow> SniPassive)"

definition advance_to ::
    "frontend_presence \<Rightarrow> duration \<Rightarrow> (frontend_presence \<times> sni_status, frontend_presence_error) result" where
  "advance_to p now = map_ok (\<lambda>p. (p, presence_status p)) (presence_observe p now)"

definition presence_next_deadline :: "frontend_presence \<Rightarrow> duration option" where
  "presence_next_deadline p =
     (case fp_fallback p of
       FallbackWaiting (DeadlineAt deadline) \<Rightarrow> Some deadline
     | _ \<Rightarrow> None)"

section \<open>What the policy promises\<close>

text \<open>
  The ideal policy only remembers which compatible transports are connected and since when there
  has been none; the fallback is due when that was at least the grace period ago.
\<close>

datatype presence_op = Connect duration frontend_compatibility | Disconnect duration nat | Advance duration

fun op_time :: "presence_op \<Rightarrow> duration" where
  "op_time (Connect t _) = t"
| "op_time (Disconnect t _) = t"
| "op_time (Advance t) = t"

fun presence_step :: "frontend_presence \<Rightarrow> presence_op \<Rightarrow> frontend_presence" where
  "presence_step p (Connect t c) = (case connect_at p t c of Inr (p', _) \<Rightarrow> p' | Inl _ \<Rightarrow> p)"
| "presence_step p (Disconnect t i) = (case disconnect_at p t i of Inr p' \<Rightarrow> p' | Inl _ \<Rightarrow> p)"
| "presence_step p (Advance t) = (case advance_to p t of Inr (p', _) \<Rightarrow> p' | Inl _ \<Rightarrow> p)"

record ideal_presence =
  ip_now :: duration
  ip_connected :: "nat set"
  ip_none_since :: duration
  ip_connects :: nat

definition ideal_new :: "duration \<Rightarrow> ideal_presence" where
  "ideal_new started_at = \<lparr>ip_now = started_at, ip_connected = {}, ip_none_since = started_at, ip_connects = 0\<rparr>"

fun ideal_step :: "ideal_presence \<Rightarrow> presence_op \<Rightarrow> ideal_presence" where
  "ideal_step q (Connect t c) =
     (if t < ip_now q \<or> u64_max \<le> ip_connects q then q
      else q\<lparr>ip_now := t, ip_connects := ip_connects q + 1,
             ip_connected := (if c = Compatible then insert (ip_connects q + 1) (ip_connected q) else ip_connected q)\<rparr>)"
| "ideal_step q (Disconnect t i) =
     (if t < ip_now q then q
      else q\<lparr>ip_now := t, ip_connected := ip_connected q - {i},
             ip_none_since := (if ip_connected q = {i} then t else ip_none_since q)\<rparr>)"
| "ideal_step q (Advance t) = (if t < ip_now q then q else q\<lparr>ip_now := t\<rparr>)"

definition fallback_due :: "duration \<Rightarrow> ideal_presence \<Rightarrow> bool" where
  "fallback_due grace q \<longleftrightarrow> ip_connected q = {} \<and> ip_none_since q + grace \<le> ip_now q"

definition implements :: "duration \<Rightarrow> frontend_presence \<Rightarrow> ideal_presence \<Rightarrow> bool" where
  "implements grace p q \<longleftrightarrow>
     fp_grace_period p = grace \<and> fp_observed_at p = ip_now q \<and> ip_now q \<le> duration_max \<and> ip_none_since q \<le> ip_now q \<and>
     fp_next_connection_id p = (if ip_connects q < u64_max then Some (ip_connects q + 1) else None) \<and>
     fp_compatible_connections p = ip_connected q \<and> ip_connected q \<subseteq> {1..ip_connects q} \<and>
     fp_fallback p =
       (if ip_connected q \<noteq> {} then FallbackSuppressed
        else if ip_none_since q + grace \<le> ip_now q then FallbackActive
        else FallbackWaiting (if ip_none_since q + grace \<le> duration_max then DeadlineAt (ip_none_since q + grace) else BeyondRange))"

lemma after_grace_eq:
  "now \<le> duration_max \<Longrightarrow> after_grace grace now =
     (if now + grace \<le> now then FallbackActive
      else FallbackWaiting (if now + grace \<le> duration_max then DeadlineAt (now + grace) else BeyondRange))"
  by (auto simp: after_grace_def checked_add_def)

lemma implements_new: "started_at \<le> duration_max \<Longrightarrow> implements grace (presence_new grace started_at) (ideal_new started_at)"
  by (simp add: implements_def presence_new_def ideal_new_def after_grace_eq u64_max_def)

lemma implements_observe:
  assumes "implements grace p q" "t \<le> duration_max"
  shows "if t < ip_now q then presence_observe p t = Inl (NonMonotonicTime (ip_now q) t)
    else \<exists>p'. presence_observe p t = Inr p' \<and> implements grace p' (q\<lparr>ip_now := t\<rparr>)"
  using assms by (auto simp: implements_def presence_observe_def Let_def)

lemma implements_step:
  assumes "implements grace p q" "op_time op \<le> duration_max"
  shows "implements grace (presence_step p op) (ideal_step q op)"
proof (cases "op_time op < ip_now q")
  case True
  with implements_observe [OF assms] have "presence_observe p (op_time op) = Inl (NonMonotonicTime (ip_now q) (op_time op))" by simp
  with True assms(1) show ?thesis
    by (cases op) (auto simp: connect_at_def disconnect_at_def advance_to_def ok_or_def split: option.splits)
next
  case False
  with implements_observe [OF assms] obtain p' where
    p': "presence_observe p (op_time op) = Inr p'" "implements grace p' (q\<lparr>ip_now := op_time op\<rparr>)" by auto
  have ids: "fp_next_connection_id p = (if ip_connects q < u64_max then Some (ip_connects q + 1) else None)"
    using assms(1) by (simp add: implements_def)
  show ?thesis
  proof (cases op)
    case (Connect t c)
    then show ?thesis using p' False ids assms
      by (auto simp: connect_at_def implements_def Let_def checked_add_def)
  next
    case (Disconnect t i)
    then show ?thesis using p' False assms(2)
      by (auto simp: disconnect_at_def implements_def Let_def after_grace_eq)
  next
    case (Advance t)
    then show ?thesis using p' False by (simp add: advance_to_def)
  qed
qed

lemma implements_run:
  "implements grace p q \<Longrightarrow> \<forall>op\<in>set ops. op_time op \<le> duration_max \<Longrightarrow>
     implements grace (foldl presence_step p ops) (foldl ideal_step q ops)"
  by (induction ops arbitrary: p q) (simp_all add: implements_step)

text \<open>
  C33: the policy refines the ideal one. After any connects, disconnects and clock advances, late
  or repeated disconnects and clock regressions included, the tray fallback is active exactly when
  no compatible transport is connected and the last one left at least the grace period ago; the
  announced deadline is the instant it becomes due, absent when it is due, suppressed or beyond
  the range of durations; and a new transport never receives the identifier of a connected one.
\<close>

theorem presence_refines_ideal:
  assumes "started_at \<le> duration_max" and "\<forall>op\<in>set ops. op_time op \<le> duration_max"
    and "p = foldl presence_step (presence_new grace started_at) ops"
    and "q = foldl ideal_step (ideal_new started_at) ops"
  shows "(presence_status p = SniActive \<longleftrightarrow> fallback_due grace q) \<and>
    presence_next_deadline p =
      (if ip_connected q = {} \<and> ip_now q < ip_none_since q + grace \<and> ip_none_since q + grace \<le> duration_max
       then Some (ip_none_since q + grace) else None) \<and>
    fp_compatible_connections p = ip_connected q \<and>
    (\<forall>t c p' i. connect_at p t c = Inr (p', i) \<longrightarrow> i \<notin> ip_connected q)"
proof -
  have imp: "implements grace p q"
    unfolding assms(3,4) using implements_run [OF implements_new [OF assms(1)] assms(2)] .
  then have "i \<notin> ip_connected q" if "connect_at p t c = Inr (p', i)" for t c p' i
    using that by (fastforce simp: implements_def connect_at_def result_simps Let_def split: if_splits)
  with imp show ?thesis
    by (auto simp: implements_def presence_status_def presence_next_deadline_def fallback_due_def)
qed

theorem presence_refines_ideal_witness:
  "let p = foldl presence_step (presence_new 5 0) [Connect 1 Compatible, Connect 2 Compatible, Disconnect 3 1, Disconnect 4 2, Advance 9] in
     presence_status p = SniActive"
proof -
  let ?ops = "[Connect 1 Compatible, Connect 2 Compatible, Disconnect 3 1, Disconnect 4 2, Advance 9]"
  have "(0::duration) \<le> duration_max" "\<forall>op\<in>set ?ops. op_time op \<le> duration_max" by (simp_all add: limit_defs)
  from presence_refines_ideal [OF this refl refl, of 5, THEN conjunct1] show ?thesis
    by (simp add: Let_def fallback_due_def ideal_new_def u64_max_def insert_Diff_if)
qed

end
