(* ===== verification/Text_And_Urls.thy ===== *)
theory Text_And_Urls
  imports Domain_Values "HOL-Library.Word"
begin

text \<open>
  What the provider layer uses of the standard library's text operations and of the URL library.

  A parsed URL is a record of what its accessors return; how text becomes a URL is a parameter of
  the definitions that parse one. Addresses are the octets and segments of the standard library's
  address types, with its predicates and its printed form.
\<close>

unbundle bit_operations_syntax

section \<open>Text operations of the standard library\<close>

fun split_on :: "nat \<Rightarrow> str \<Rightarrow> str list" where
  "split_on sep [] = [[]]"
| "split_on sep (c # s) =
     (if c = sep then [] # split_on sep s
      else case split_on sep s of piece # pieces \<Rightarrow> (c # piece) # pieces | [] \<Rightarrow> [[c]])"

definition split_once :: "nat \<Rightarrow> str \<Rightarrow> (str \<times> str) option" where
  "split_once sep s =
     (if sep \<in> set s then Some (takeWhile (\<lambda>c. c \<noteq> sep) s, tl (dropWhile (\<lambda>c. c \<noteq> sep) s)) else None)"

definition strip_prefix :: "str \<Rightarrow> str \<Rightarrow> str option" where
  "strip_prefix prefix s = (if take (length prefix) s = prefix then Some (drop (length prefix) s) else None)"

definition strip_suffix :: "str \<Rightarrow> str \<Rightarrow> str option" where
  "strip_suffix suffix s =
     (if length suffix \<le> length s \<and> drop (length s - length suffix) s = suffix
      then Some (take (length s - length suffix) s) else None)"

definition starts_with :: "nat \<Rightarrow> str \<Rightarrow> bool" where
  "starts_with c s \<longleftrightarrow> s \<noteq> [] \<and> hd s = c"

definition ends_with :: "nat \<Rightarrow> str \<Rightarrow> bool" where
  "ends_with c s \<longleftrightarrow> s \<noteq> [] \<and> last s = c"

definition is_ascii_whitespace :: "nat \<Rightarrow> bool" where
  "is_ascii_whitespace c \<longleftrightarrow> c = 32 \<or> c = 9 \<or> c = 10 \<or> c = 12 \<or> c = 13"

definition is_ascii_lowercase :: "nat \<Rightarrow> bool" where
  "is_ascii_lowercase b \<longleftrightarrow> 97 \<le> b \<and> b \<le> 122"

definition to_ascii_lowercase :: "nat \<Rightarrow> nat" where
  "to_ascii_lowercase c = (if 65 \<le> c \<and> c \<le> 90 then c + 32 else c)"

definition eq_ignore_ascii_case :: "str \<Rightarrow> str \<Rightarrow> bool" where
  "eq_ignore_ascii_case s t \<longleftrightarrow> map to_ascii_lowercase s = map to_ascii_lowercase t"

definition first_word :: "str \<Rightarrow> str option" where
  "first_word s =
     (case takeWhile (\<lambda>c. \<not> is_ascii_whitespace c) (dropWhile is_ascii_whitespace s) of
       [] \<Rightarrow> None
     | word \<Rightarrow> Some word)"

definition rsplit_once :: "nat \<Rightarrow> str \<Rightarrow> (str \<times> str) option" where
  "rsplit_once sep s =
     map_option (\<lambda>(after, before). (rev before, rev after)) (split_once sep (rev s))"

definition trim_end_matches :: "nat \<Rightarrow> str \<Rightarrow> str" where
  "trim_end_matches c s = rev (dropWhile (\<lambda>d. d = c) (rev s))"

fun join_with :: "str \<Rightarrow> str list \<Rightarrow> str" where
  "join_with sep [] = []"
| "join_with sep [s] = s"
| "join_with sep (s # ss) = s @ sep @ join_with sep ss"

fun split_where :: "(nat \<Rightarrow> bool) \<Rightarrow> str \<Rightarrow> str list" where
  "split_where sep [] = [[]]"
| "split_where sep (c # s) =
     (if sep c then [] # split_where sep s
      else case split_where sep s of piece # pieces \<Rightarrow> (c # piece) # pieces | [] \<Rightarrow> [[c]])"

definition split_ascii_whitespace :: "str \<Rightarrow> str list" where
  "split_ascii_whitespace s = filter (\<lambda>word. word \<noteq> []) (split_where is_ascii_whitespace s)"

lemma split_on_text:
  "sep \<notin> set s \<Longrightarrow> split_on sep s = [s]"
  "sep \<notin> set s \<Longrightarrow> split_on sep (s @ sep # t) = s # split_on sep t"
  by (induction s) (auto split: list.splits)

lemma split_once_text: "sep \<notin> set s \<Longrightarrow> split_once sep (s @ sep # t) = Some (s, t)"
  by (induction s) (auto simp: split_once_def)

lemma split_on_join:
  "xs \<noteq> [] \<Longrightarrow> \<forall>x\<in>set xs. sep \<notin> set x \<Longrightarrow> split_on sep (join_with [sep] xs) = xs"
  by (induction "[sep]" xs rule: join_with.induct) (simp_all add: split_on_text)

section \<open>Paths\<close>

text \<open>
  The components of a path below its root: empty pieces vanish, and so does every dot but a leading one;
  what is left is normal unless it is that dot or two dots.
\<close>

definition path_pieces :: "str \<Rightarrow> str list" where
  "path_pieces path =
     (let pieces = split_on 47 path in
      (if pieces \<noteq> [] \<and> hd pieces = lit ''.'' then [lit ''.''] else []) @ filter (\<lambda>p. p \<noteq> [] \<and> p \<noteq> lit ''.'') pieces)"

section \<open>Addresses\<close>

datatype ipv4 = Ipv4 "8 word" "8 word" "8 word" "8 word"

fun ipv4_octets :: "ipv4 \<Rightarrow> 8 word list" where
  "ipv4_octets (Ipv4 a b c d) = [a, b, c, d]"

fun ipv4_is_loopback :: "ipv4 \<Rightarrow> bool" where
  "ipv4_is_loopback (Ipv4 a b c d) \<longleftrightarrow> a = 127"

fun ipv4_is_private :: "ipv4 \<Rightarrow> bool" where
  "ipv4_is_private (Ipv4 a b c d) \<longleftrightarrow> a = 10 \<or> a = 172 \<and> 16 \<le> b \<and> b \<le> 31 \<or> a = 192 \<and> b = 168"

fun ipv4_is_link_local :: "ipv4 \<Rightarrow> bool" where
  "ipv4_is_link_local (Ipv4 a b c d) \<longleftrightarrow> a = 169 \<and> b = 254"

fun ipv4_is_broadcast :: "ipv4 \<Rightarrow> bool" where
  "ipv4_is_broadcast (Ipv4 a b c d) \<longleftrightarrow> a = 255 \<and> b = 255 \<and> c = 255 \<and> d = 255"

fun ipv4_is_documentation :: "ipv4 \<Rightarrow> bool" where
  "ipv4_is_documentation (Ipv4 a b c d) \<longleftrightarrow>
     a = 192 \<and> b = 0 \<and> c = 2 \<or> a = 198 \<and> b = 51 \<and> c = 100 \<or> a = 203 \<and> b = 0 \<and> c = 113"

fun ipv4_is_multicast :: "ipv4 \<Rightarrow> bool" where
  "ipv4_is_multicast (Ipv4 a b c d) \<longleftrightarrow> 224 \<le> a \<and> a \<le> 239"

fun ipv4_is_unspecified :: "ipv4 \<Rightarrow> bool" where
  "ipv4_is_unspecified (Ipv4 a b c d) \<longleftrightarrow> a = 0 \<and> b = 0 \<and> c = 0 \<and> d = 0"

definition ipv4_text :: "ipv4 \<Rightarrow> str" where
  "ipv4_text address = join_with (lit ''.'') (map (\<lambda>b. decimal (unat b)) (ipv4_octets address))"

datatype ipv6 =
  Ipv6 "16 word" "16 word" "16 word" "16 word" "16 word" "16 word" "16 word" "16 word"

fun ipv6_segments :: "ipv6 \<Rightarrow> 16 word list" where
  "ipv6_segments (Ipv6 a b c d e f g h) = [a, b, c, d, e, f, g, h]"

definition ipv6_is_loopback :: "ipv6 \<Rightarrow> bool" where
  "ipv6_is_loopback address \<longleftrightarrow> ipv6_segments address = [0, 0, 0, 0, 0, 0, 0, 1]"

definition ipv6_is_unspecified :: "ipv6 \<Rightarrow> bool" where
  "ipv6_is_unspecified address \<longleftrightarrow> ipv6_segments address = [0, 0, 0, 0, 0, 0, 0, 0]"

definition ipv6_is_multicast :: "ipv6 \<Rightarrow> bool" where
  "ipv6_is_multicast address \<longleftrightarrow> ipv6_segments address ! 0 AND 0xff00 = 0xff00"

text \<open>
  The printed form: a mapped address ends in the dotted form, otherwise the first longest run of
  at least two zero segments is elided.
\<close>

fun hex_number :: "nat \<Rightarrow> str" where
  "hex_number n = (if n < 16 then [hex_digit n] else hex_number (n div 16) @ [hex_digit (n mod 16)])"

definition ipv6_groups :: "16 word list \<Rightarrow> str" where
  "ipv6_groups ws = join_with (lit '':'') (map (\<lambda>w. hex_number (unat w)) ws)"

fun zero_runs :: "16 word list \<Rightarrow> nat \<Rightarrow> nat \<times> nat \<Rightarrow> nat \<times> nat \<Rightarrow> nat \<times> nat" where
  "zero_runs [] i current longest = longest"
| "zero_runs (w # ws) i (start, len) longest =
     (if w = 0 then
        let current = ((if len = 0 then i else start), len + 1) in
        zero_runs ws (i + 1) current (if snd longest < snd current then current else longest)
      else zero_runs ws (i + 1) (0, 0) longest)"

fun ipv6_text :: "ipv6 \<Rightarrow> str" where
  "ipv6_text (Ipv6 a b c d e f g h) =
     (if [a, b, c, d, e, f] = [0, 0, 0, 0, 0, 0xffff] then
        lit ''::ffff:'' @ ipv4_text (Ipv4 (ucast (drop_bit 8 g)) (ucast g) (ucast (drop_bit 8 h)) (ucast h))
      else
        let segments = [a, b, c, d, e, f, g, h]; (start, len) = zero_runs segments 0 (0, 0) (0, 0) in
        if 1 < len then ipv6_groups (take start segments) @ lit ''::'' @ ipv6_groups (drop (start + len) segments)
        else ipv6_groups segments)"

section \<open>Hosts and URLs\<close>

datatype host = HostDomain str | HostIpv4 ipv4 | HostIpv6 ipv6

record url =
  ur_text :: str
  ur_scheme :: str
  ur_username :: str
  ur_password :: "str option"
  ur_host :: "host option"
  ur_host_str :: "str option"
  ur_port :: "nat option"
  ur_explicit_port :: "nat option"
  ur_path :: str
  ur_query :: "str option"
  ur_query_pairs :: "(str \<times> str) list"
  ur_fragment :: "str option"

text \<open>
  \<open>ur_port\<close> is \<open>port_or_known_default\<close>, \<open>ur_explicit_port\<close> is \<open>port\<close>, and \<open>ur_query_pairs\<close> the
  decoded pairs of the query.
\<close>

section \<open>Masks\<close>

text \<open>A mask of leading bits selects an interval: the way the address blocks are documented.\<close>

lemma high_bits_value: "unat (w AND NOT (mask n)) = unat w div 2 ^ n * 2 ^ n" for w :: "'a::len word"
proof -
  have "w AND NOT (mask n) = push_bit n (drop_bit n w)"
    by (rule bit_word_eqI) (auto simp: bit_simps)
  then have "unat (w AND NOT (mask n)) = take_bit LENGTH('a) (push_bit n (drop_bit n (take_bit LENGTH('a) (unat w))))"
    by (simp only: unsigned_push_bit_eq unsigned_drop_bit_eq)
  moreover have "unat w div 2 ^ n * 2 ^ n < 2 ^ LENGTH('a)"
    using unsigned_less [of w] div_times_less_eq_dividend [of "unat w" "2 ^ n"] by (rule le_less_trans [rotated])
  ultimately show ?thesis
    using unsigned_less [of w] by (simp add: take_bit_nat_eq_self push_bit_eq_mult drop_bit_eq_div)
qed

lemma mask_high_bits:
  fixes w :: "16 word"
  shows "w AND 0xfe00 = 0xfc00 \<longleftrightarrow> 0xfc00 \<le> w \<and> w \<le> 0xfdff"
    and "w AND 0xffc0 = 0xfe80 \<longleftrightarrow> 0xfe80 \<le> w \<and> w \<le> 0xfebf"
    and "w AND 0xff00 = 0xff00 \<longleftrightarrow> 0xff00 \<le> w"
proof -
  have masks: "0xfe00 = (NOT (mask 9) :: 16 word)" "0xffc0 = (NOT (mask 6) :: 16 word)" "0xff00 = (NOT (mask 8) :: 16 word)"
    by (simp_all add: mask_eq_exp_minus_1)
  have bound: "unat w < 65536" using unsigned_less [of w] by simp
  show "w AND 0xfe00 = 0xfc00 \<longleftrightarrow> 0xfc00 \<le> w \<and> w \<le> 0xfdff"
    unfolding masks(1) word_le_nat_alt word_unat_eq_iff high_bits_value using bound by auto
  show "w AND 0xffc0 = 0xfe80 \<longleftrightarrow> 0xfe80 \<le> w \<and> w \<le> 0xfebf"
    unfolding masks(2) word_le_nat_alt word_unat_eq_iff high_bits_value using bound by auto
  have "w AND NOT (mask 8) = 0xff00 \<longleftrightarrow> 0xff00 \<le> w"
    unfolding word_le_nat_alt word_unat_eq_iff high_bits_value using bound by auto
  then show "w AND 0xff00 = 0xff00 \<longleftrightarrow> 0xff00 \<le> w" by (simp add: masks(3))
qed

end
