(* ===== verification/Cookie_Text.thy ===== *)
theory Cookie_Text
  imports Text_And_Urls
begin

text \<open>
  Cookie names, values and paths, and the normaliser of manual captures
  (\<open>crates/providers/src/cookie.rs\<close>): a raw header, a quoted value or a cURL command line is
  reduced to validated name and value pairs.
\<close>

section \<open>Validation\<close>

definition MAX_COOKIE_HEADER_BYTES :: nat where [limit_defs]: "MAX_COOKIE_HEADER_BYTES = 64 * 1024"
definition MAX_CAPTURE_BYTES :: nat where [limit_defs]: "MAX_CAPTURE_BYTES = 128 * 1024"
definition MAX_CAPTURE_PAIRS :: nat where [limit_defs]: "MAX_CAPTURE_PAIRS = 512"
definition MAX_CAPTURE_TOKENS :: nat where [limit_defs]: "MAX_CAPTURE_TOKENS = 512"
definition MAX_COOKIE_NAME_BYTES :: nat where [limit_defs]: "MAX_COOKIE_NAME_BYTES = 256"
definition MAX_COOKIE_VALUE_BYTES :: nat where [limit_defs]: "MAX_COOKIE_VALUE_BYTES = 16 * 1024"
definition MAX_COOKIE_PATH_BYTES :: nat where [limit_defs]: "MAX_COOKIE_PATH_BYTES = 4 * 1024"

datatype cookie_error = InvalidRecord | JarTooLarge | InvalidImportOrder | InvalidRequestUrl | HeaderTooLarge

definition cookie_name_byte :: "nat \<Rightarrow> bool" where
  "cookie_name_byte b \<longleftrightarrow> 33 \<le> b \<and> b \<le> 126 \<and>
     b \<notin> {40, 41, 60, 62, 64, 44, 59, 58, 92, 34, 47, 91, 93, 63, 61, 123, 125}"

definition validate_cookie_name :: "str \<Rightarrow> (unit, cookie_error) result" where
  "validate_cookie_name name =
     (if name = [] \<or> str_len name > MAX_COOKIE_NAME_BYTES \<or> \<not> list_all cookie_name_byte (as_bytes name)
      then Inl InvalidRecord else Inr ())"

definition cookie_value_byte :: "nat \<Rightarrow> bool" where
  "cookie_value_byte b \<longleftrightarrow> b = 33 \<or> 35 \<le> b \<and> b \<le> 43 \<or> 45 \<le> b \<and> b \<le> 58 \<or> 60 \<le> b \<and> b \<le> 91 \<or> 93 \<le> b \<and> b \<le> 126"

definition validate_cookie_value :: "str \<Rightarrow> (unit, cookie_error) result" where
  "validate_cookie_value v =
     (if str_len v > MAX_COOKIE_VALUE_BYTES \<or> \<not> list_all cookie_value_byte (as_bytes v)
      then Inl InvalidRecord else Inr ())"

definition validate_cookie_path :: "str \<Rightarrow> (unit, cookie_error) result" where
  "validate_cookie_path path =
     (if path = [] \<or> str_len path > MAX_COOKIE_PATH_BYTES \<or> \<not> starts_with 47 path \<or> \<not> list_all (\<lambda>c. c < 128) path \<or>
         list_ex (\<lambda>b. is_ascii_whitespace b \<or> b \<in> {59, 63, 35, 92}) (as_bytes path)
      then Inl InvalidRecord else Inr ())"

section \<open>Captures\<close>

text \<open>The quotes and the prefixes are ASCII, so cutting bytes and cutting characters agree.\<close>

definition strip_outer_quotes :: "str \<Rightarrow> str" where
  "strip_outer_quotes raw =
     (if str_len raw \<ge> 2 \<and> (starts_with 34 raw \<and> ends_with 34 raw \<or> starts_with 39 raw \<and> ends_with 39 raw)
      then butlast (tl raw) else raw)"

definition strip_ascii_case_prefix :: "str \<Rightarrow> str \<Rightarrow> str option" where
  "strip_ascii_case_prefix v prefix =
     (if length prefix \<le> length v \<and> eq_ignore_ascii_case (take (length prefix) v) prefix
      then Some (trim (drop (length prefix) v)) else None)"

definition owned_nonempty :: "str \<Rightarrow> (str, cookie_error) result" where
  "owned_nonempty v =
     (let v = trim (strip_outer_quotes (trim v)) in if v = [] then Inl InvalidRecord else Inr v)"

record shell_state =
  ss_tokens :: "str list"
  ss_current :: str
  ss_quote :: "nat option"
  ss_escaped :: bool

definition push_shell_token :: "shell_state \<Rightarrow> (shell_state, cookie_error) result" where
  "push_shell_token st =
     (if length (ss_tokens st) \<ge> MAX_CAPTURE_TOKENS then Inl JarTooLarge
      else Inr (st\<lparr>ss_tokens := ss_tokens st @ [ss_current st], ss_current := []\<rparr>))"

definition shell_char :: "shell_state \<Rightarrow> nat \<Rightarrow> (shell_state, cookie_error) result" where
  "shell_char st c =
     (if ss_escaped st then Inr (st\<lparr>ss_current := ss_current st @ [c], ss_escaped := False\<rparr>)
      else if c = 92 \<and> ss_quote st \<noteq> Some 39 then Inr (st\<lparr>ss_escaped := True\<rparr>)
      else if c = 39 \<or> c = 34 then
        Inr (if ss_quote st = Some c then st\<lparr>ss_quote := None\<rparr>
             else if ss_quote st = None then st\<lparr>ss_quote := Some c\<rparr>
             else st\<lparr>ss_current := ss_current st @ [c]\<rparr>)
      else if is_ascii_whitespace c \<and> ss_quote st = None then
        (if ss_current st \<noteq> [] then push_shell_token st else Inr st)
      else Inr (st\<lparr>ss_current := ss_current st @ [c]\<rparr>))"

fun shell_scan :: "str \<Rightarrow> shell_state \<Rightarrow> (shell_state, cookie_error) result" where
  "shell_scan [] st = Inr st"
| "shell_scan (c # raw) st = and_then (shell_char st c) (shell_scan raw)"

definition shell_tokens :: "str \<Rightarrow> (str list, cookie_error) result" where
  "shell_tokens raw =
     and_then (shell_scan raw \<lparr>ss_tokens = [], ss_current = [], ss_quote = None, ss_escaped = False\<rparr>) (\<lambda>st.
     if ss_escaped st \<or> ss_quote st \<noteq> None then Inl InvalidRecord
     else if ss_current st \<noteq> [] then map_ok ss_tokens (push_shell_token st)
     else Inr (ss_tokens st))"

fun header_token :: "str list \<Rightarrow> (str, cookie_error) result option" where
  "header_token [] = None"
| "header_token (token # rest) =
     (if token = lit ''-H'' \<or> token = lit ''--header'' then
        (case rest of
          next # _ \<Rightarrow>
            (case strip_ascii_case_prefix next (lit ''cookie:'') of
              Some v \<Rightarrow> Some (owned_nonempty v)
            | None \<Rightarrow> header_token rest)
        | [] \<Rightarrow> header_token rest)
      else
        (case Option.bind (strip_prefix (lit ''-H'') token) (\<lambda>header. strip_ascii_case_prefix header (lit ''cookie:'')) of
          Some v \<Rightarrow> Some (owned_nonempty v)
        | None \<Rightarrow>
            (case Option.bind (strip_prefix (lit ''--header='') token)
                (\<lambda>header. strip_ascii_case_prefix header (lit ''cookie:'')) of
              Some v \<Rightarrow> Some (owned_nonempty v)
            | None \<Rightarrow>
                (case strip_ascii_case_prefix token (lit ''cookie:'') of
                  Some v \<Rightarrow> Some (owned_nonempty v)
                | None \<Rightarrow> header_token rest))))"

fun cookie_token :: "str list \<Rightarrow> (str, cookie_error) result option" where
  "cookie_token [] = None"
| "cookie_token (token # rest) =
     (if token = lit ''-b'' \<or> token = lit ''--cookie'' then
        Some (case rest of v # _ \<Rightarrow> owned_nonempty v | [] \<Rightarrow> Inl InvalidRecord)
      else
        (case Option.bind (strip_prefix (lit ''-b'') token) (\<lambda>v. if v \<noteq> [] then Some v else None) of
          Some v \<Rightarrow> Some (owned_nonempty v)
        | None \<Rightarrow>
            (case strip_prefix (lit ''--cookie='') token of
              Some v \<Rightarrow> Some (owned_nonempty v)
            | None \<Rightarrow> cookie_token rest)))"

definition extract_cookie_capture :: "str \<Rightarrow> (str, cookie_error) result" where
  "extract_cookie_capture raw =
     (let direct = strip_outer_quotes (trim raw) in
      case strip_ascii_case_prefix direct (lit ''cookie:'') of
        Some v \<Rightarrow> owned_nonempty v
      | None \<Rightarrow>
          if 61 \<in> set direct \<and> \<not> starts_with 45 direct \<and>
             \<not> is_some_and (\<lambda>word. eq_ignore_ascii_case word (lit ''curl'')) (first_word direct)
          then owned_nonempty direct
          else
            and_then (shell_tokens raw) (\<lambda>tokens.
            case header_token tokens of
              Some r \<Rightarrow> r
            | None \<Rightarrow>
                (case cookie_token tokens of
                  Some r \<Rightarrow> r
                | None \<Rightarrow> Inl InvalidRecord)))"

record cookie_pair =
  cp_name :: str
  cp_value :: str

fun parse_parts :: "str list \<Rightarrow> cookie_pair list \<Rightarrow> nat \<Rightarrow> (cookie_pair list, cookie_error) result" where
  "parse_parts [] pairs total_bytes = Inr pairs"
| "parse_parts (part # parts) pairs total_bytes =
     and_then (ok_or InvalidRecord (split_once 61 (trim part))) (\<lambda>(name, v).
     let name = trim name; v = trim v in
     and_then (validate_cookie_name name) (\<lambda>_.
     and_then (validate_cookie_value v) (\<lambda>_.
     and_then (ok_or JarTooLarge (Option.bind (checked_add usize_max total_bytes (str_len name))
         (\<lambda>size. checked_add usize_max size (str_len v)))) (\<lambda>total_bytes.
     if length pairs \<ge> MAX_CAPTURE_PAIRS \<or> total_bytes > MAX_COOKIE_HEADER_BYTES then Inl JarTooLarge
     else parse_parts parts (pairs @ [\<lparr>cp_name = name, cp_value = v\<rparr>]) total_bytes))))"

definition parse_cookie_pairs :: "str \<Rightarrow> (cookie_pair list, cookie_error) result" where
  "parse_cookie_pairs raw =
     (let raw = trim (strip_outer_quotes (trim raw)) in
      if raw = [] then Inl InvalidRecord else parse_parts (split_on 59 raw) [] 0)"

definition normalize_capture :: "str option \<Rightarrow> (cookie_pair list option, cookie_error) result" where
  "normalize_capture raw =
     (case raw of
       None \<Rightarrow> Inr None
     | Some raw \<Rightarrow>
         let raw = trim raw in
         if raw = [] then Inr None
         else if str_len raw > MAX_CAPTURE_BYTES \<or> list_ex (\<lambda>c. is_control c \<and> c \<noteq> 9) raw then Inl InvalidRecord
         else
           and_then (extract_cookie_capture raw) (\<lambda>candidate.
           map_ok Some (parse_cookie_pairs candidate)))"

definition filtered_capture :: "str option \<Rightarrow> str list \<Rightarrow> (cookie_pair list option, cookie_error) result" where
  "filtered_capture raw allowed_names =
     (if allowed_names = [] \<or> list_ex (\<lambda>name. validate_cookie_name name \<noteq> Inr ()) allowed_names then Inl InvalidRecord
      else
        map_ok (\<lambda>normalized. Option.bind normalized (\<lambda>pairs.
            let kept = filter (\<lambda>pair. cp_name pair \<in> set allowed_names) pairs in
            if kept \<noteq> [] then Some kept else None))
          (normalize_capture raw))"

section \<open>What a capture yields\<close>

definition pair_ok :: "cookie_pair \<Rightarrow> bool" where
  "pair_ok p \<longleftrightarrow> validate_cookie_name (cp_name p) = Inr () \<and> validate_cookie_value (cp_value p) = Inr ()"

definition pair_bytes :: "cookie_pair \<Rightarrow> nat" where
  "pair_bytes p = str_len (cp_name p) + str_len (cp_value p)"

definition pair_text :: "cookie_pair \<Rightarrow> str" where
  "pair_text p = cp_name p @ [61] @ cp_value p"

fun header_text :: "cookie_pair list \<Rightarrow> str" where
  "header_text [] = []"
| "header_text [p] = pair_text p"
| "header_text (p # ps) = pair_text p @ lit ''; '' @ header_text ps"

lemma bytes_ascii: "\<forall>b\<in>set (as_bytes s). b < 128 \<Longrightarrow> as_bytes s = s"
proof (induction s)
  case (Cons c s)
  have "c < 128"
  proof (rule ccontr)
    assume "\<not> c < 128"
    then have "128 \<le> hd (utf8_char c)" by (auto simp: utf8_char_def)
    moreover have "hd (utf8_char c) \<in> set (as_bytes (c # s))" by (simp add: utf8_char_def)
    ultimately show False using Cons.prems not_le by blast
  qed
  with Cons show ?case by (simp add: utf8_char_def)
qed simp

lemma bytes_all:
  assumes "\<And>b. P b \<Longrightarrow> b < 128"
  shows "(\<forall>b\<in>set (as_bytes s). P b) \<longleftrightarrow> (\<forall>c\<in>set s. P c)" "\<forall>c\<in>set s. P c \<Longrightarrow> as_bytes s = s"
proof -
  show ascii: "as_bytes s = s" if "\<forall>c\<in>set s. P c" using that assms by (intro as_bytes_ascii) blast
  have "as_bytes s = s" if "\<forall>b\<in>set (as_bytes s). P b" using that assms by (intro bytes_ascii) blast
  with ascii show "(\<forall>b\<in>set (as_bytes s). P b) \<longleftrightarrow> (\<forall>c\<in>set s. P c)" by metis
qed

lemma cookie_name_byte_ascii: "cookie_name_byte b \<Longrightarrow> b < 128"
  by (simp add: cookie_name_byte_def)

lemma cookie_value_byte_ascii: "cookie_value_byte b \<Longrightarrow> b < 128"
  by (auto simp: cookie_value_byte_def)

lemma name_bytes:
  "(\<forall>b\<in>set (as_bytes s). cookie_name_byte b) \<longleftrightarrow> (\<forall>c\<in>set s. cookie_name_byte c)"
  "\<forall>c\<in>set s. cookie_name_byte c \<Longrightarrow> as_bytes s = s"
  using bytes_all [of cookie_name_byte s] cookie_name_byte_ascii by blast+

lemma value_bytes:
  "(\<forall>b\<in>set (as_bytes s). cookie_value_byte b) \<longleftrightarrow> (\<forall>c\<in>set s. cookie_value_byte c)"
  "\<forall>c\<in>set s. cookie_value_byte c \<Longrightarrow> as_bytes s = s"
  using bytes_all [of cookie_value_byte s] cookie_value_byte_ascii by blast+

lemma cookie_name_iff:
  "validate_cookie_name n = Inr u \<longleftrightarrow> n \<noteq> [] \<and> length n \<le> MAX_COOKIE_NAME_BYTES \<and> (\<forall>c\<in>set n. cookie_name_byte c)"
  using name_bytes(2) [of n]
  by (cases "\<forall>c\<in>set n. cookie_name_byte c") (auto simp: validate_cookie_name_def str_len_def list_all_iff name_bytes(1))

lemma cookie_value_iff:
  "validate_cookie_value v = Inr u \<longleftrightarrow> length v \<le> MAX_COOKIE_VALUE_BYTES \<and> (\<forall>c\<in>set v. cookie_value_byte c)"
  using value_bytes(2) [of v]
  by (cases "\<forall>c\<in>set v. cookie_value_byte c") (auto simp: validate_cookie_value_def str_len_def list_all_iff value_bytes(1))

lemma pair_chars:
  assumes "pair_ok p"
  shows "cp_name p \<noteq> []" "\<forall>c\<in>set (cp_name p). cookie_name_byte c" "\<forall>c\<in>set (cp_value p). cookie_value_byte c"
    "str_len (cp_name p) = length (cp_name p)" "str_len (cp_value p) = length (cp_value p)"
proof -
  show n: "cp_name p \<noteq> []" "\<forall>c\<in>set (cp_name p). cookie_name_byte c" and v: "\<forall>c\<in>set (cp_value p). cookie_value_byte c"
    using assms by (auto simp: pair_ok_def cookie_name_iff cookie_value_iff)
  show "str_len (cp_name p) = length (cp_name p)" "str_len (cp_value p) = length (cp_value p)"
    using name_bytes(2) [OF n(2)] value_bytes(2) [OF v] by (simp_all add: str_len_def)
qed

text \<open>Whatever the input, the pairs a capture yields are valid and bounded in number and size.\<close>

lemma parse_parts_sound:
  assumes "parse_parts parts pairs n = Inr ps" "\<forall>p\<in>set pairs. pair_ok p" "n = sum_list (map pair_bytes pairs)"
    "length pairs \<le> MAX_CAPTURE_PAIRS" "n \<le> MAX_COOKIE_HEADER_BYTES"
  shows "(\<forall>p\<in>set ps. pair_ok p) \<and> length ps \<le> MAX_CAPTURE_PAIRS \<and> sum_list (map pair_bytes ps) \<le> MAX_COOKIE_HEADER_BYTES \<and>
    length ps = length pairs + length parts"
  using assms
proof (induction parts arbitrary: pairs n)
  case (Cons part parts)
  from Cons.prems(1) obtain name v where sp: "split_once 61 (trim part) = Some (name, v)"
    and ok: "validate_cookie_name (trim name) = Inr ()" "validate_cookie_value (trim v) = Inr ()"
    and room: "length pairs < MAX_CAPTURE_PAIRS" "n + str_len (trim name) + str_len (trim v) \<le> MAX_COOKIE_HEADER_BYTES"
    and rest: "parse_parts parts (pairs @ [\<lparr>cp_name = trim name, cp_value = trim v\<rparr>]) (n + str_len (trim name) + str_len (trim v)) = Inr ps"
    by (auto simp: result_simps Let_def Option.bind_eq_Some_conv split: prod.splits if_splits)
  from Cons.IH [OF rest] Cons.prems(2-) ok room show ?case by (simp add: pair_ok_def pair_bytes_def)
qed simp

lemma normalize_sound:
  "normalize_capture raw = Inr (Some ps) \<Longrightarrow>
     (\<forall>p\<in>set ps. pair_ok p) \<and> ps \<noteq> [] \<and> length ps \<le> MAX_CAPTURE_PAIRS \<and> sum_list (map pair_bytes ps) \<le> MAX_COOKIE_HEADER_BYTES"
proof -
  have ne: "split_on sep s \<noteq> []" for sep s by (induction s) (auto split: list.splits)
  assume "normalize_capture raw = Inr (Some ps)"
  then obtain s where "parse_parts (split_on 59 s) [] 0 = Inr ps"
    by (auto simp: normalize_capture_def parse_cookie_pairs_def Let_def result_simps split: option.splits if_splits)
  from parse_parts_sound [OF this] ne [of 59 s] show ?thesis by auto
qed

section \<open>Headers read back\<close>

definition visible :: "nat \<Rightarrow> bool" where
  "visible c \<longleftrightarrow> 33 \<le> c \<and> c \<le> 126"

lemma visible_plain: "visible c \<Longrightarrow> \<not> is_whitespace c \<and> \<not> is_control c \<and> c < 128 \<and> \<not> is_ascii_whitespace c"
  by (auto simp: visible_def is_whitespace_def is_control_def is_ascii_whitespace_def)

lemma trim_visible: "s \<noteq> [] \<Longrightarrow> visible (hd s) \<Longrightarrow> visible (last s) \<Longrightarrow> trim s = s"
  by (simp add: trim_fixed_iff visible_plain)

lemma name_visible: "cookie_name_byte c \<Longrightarrow> visible c \<and> c \<noteq> 61 \<and> c \<noteq> 59 \<and> c \<noteq> 58 \<and> c \<noteq> 34"
  by (auto simp: cookie_name_byte_def visible_def)

lemma value_visible: "cookie_value_byte c \<Longrightarrow> visible c \<and> c \<noteq> 59 \<and> c \<noteq> 34"
  by (auto simp: cookie_value_byte_def visible_def)

lemma pair_text_chars:
  assumes "pair_ok p"
  shows "\<forall>c\<in>set (pair_text p). visible c \<and> c \<noteq> 59 \<and> c \<noteq> 34" "pair_text p \<noteq> []" "trim (pair_text p) = pair_text p"
    "split_once 61 (pair_text p) = Some (cp_name p, cp_value p)"
proof -
  note p = pair_chars [OF assms]
  show vis: "\<forall>c\<in>set (pair_text p). visible c \<and> c \<noteq> 59 \<and> c \<noteq> 34"
    using p name_visible value_visible by (auto simp: pair_text_def visible_def)
  show ne: "pair_text p \<noteq> []" by (simp add: pair_text_def)
  show "trim (pair_text p) = pair_text p" using vis ne by (intro trim_visible) auto
  show "split_once 61 (pair_text p) = Some (cp_name p, cp_value p)"
    using p name_visible by (auto simp: pair_text_def intro!: split_once_text)
qed

lemma trim_blank: "trim (32 # s) = trim s"
  by (simp add: trim_def is_whitespace_def)

lemma trim_parts: "pair_ok p \<Longrightarrow> trim (cp_name p) = cp_name p \<and> trim (cp_value p) = cp_value p"
proof -
  assume "pair_ok p"
  note p = pair_chars [OF this]
  have "trim (cp_name p) = cp_name p" using p(1,2) name_visible by (intro trim_visible) auto
  moreover have "trim (cp_value p) = cp_value p"
    using p(3) value_visible by (cases "cp_value p = []") (simp add: trim_def, intro trim_visible, auto)
  ultimately show ?thesis ..
qed

lemma pair_eta: "\<lparr>cp_name = cp_name p, cp_value = cp_value p\<rparr> = p"
  by (cases p) simp

lemma parse_pair_texts:
  assumes "\<forall>p\<in>set ps. pair_ok p" "length acc + length ps \<le> MAX_CAPTURE_PAIRS"
    "n + sum_list (map pair_bytes ps) \<le> MAX_COOKIE_HEADER_BYTES"
    "list_all2 (\<lambda>part p. trim part = pair_text p) parts ps"
  shows "parse_parts parts acc n = Inr (acc @ ps)"
  using assms(4,1-3)
proof (induction parts ps arbitrary: acc n rule: list_all2_induct)
  case (Cons part parts p ps)
  have ok: "pair_ok p" using Cons.prems by simp
  have "split_once 61 (trim part) = Some (cp_name p, cp_value p)" using Cons.hyps pair_text_chars [OF ok] by simp
  moreover have "validate_cookie_name (cp_name p) = Inr ()" "validate_cookie_value (cp_value p) = Inr ()"
    using ok by (simp_all add: pair_ok_def)
  moreover have fits: "length acc < MAX_CAPTURE_PAIRS" "n + str_len (cp_name p) + str_len (cp_value p) \<le> MAX_COOKIE_HEADER_BYTES"
    using Cons.prems by (simp_all add: pair_bytes_def)
  moreover have "Option.bind (checked_add usize_max n (str_len (cp_name p))) (\<lambda>size. checked_add usize_max size (str_len (cp_value p))) =
      Some (n + str_len (cp_name p) + str_len (cp_value p))"
    using fits(2) by (simp add: checked_add_def limit_defs)
  moreover have "parse_parts parts (acc @ [p]) (n + str_len (cp_name p) + str_len (cp_value p)) = Inr ((acc @ [p]) @ ps)"
    using Cons.prems by (intro Cons.IH) (simp_all add: pair_bytes_def)
  ultimately show ?case using trim_parts [OF ok] by (simp add: Let_def pair_eta)
qed simp

lemma split_header_text:
  assumes "ps \<noteq> []" "\<forall>p\<in>set ps. pair_ok p"
  shows "list_all2 (\<lambda>part p. trim part = pair_text p) (split_on 59 (header_text ps)) ps \<and>
    list_all2 (\<lambda>part p. trim part = pair_text p) (split_on 59 (32 # header_text ps)) ps"
  using assms
proof (induction ps rule: header_text.induct)
  case (2 p)
  then have "59 \<notin> set (pair_text p)" "trim (pair_text p) = pair_text p" using pair_text_chars by auto
  then show ?case using split_on_text(1) [of 59 "32 # pair_text p"] by (simp add: split_on_text(1) trim_blank)
next
  case (3 p q ps)
  then have no: "59 \<notin> set (pair_text p)" and t: "trim (pair_text p) = pair_text p" using pair_text_chars by auto
  have tx: "header_text (p # q # ps) = pair_text p @ 59 # 32 # header_text (q # ps)" by (simp add: lit_def)
  have "split_on 59 (32 # pair_text p @ 59 # 32 # header_text (q # ps)) =
      (32 # pair_text p) # split_on 59 (32 # header_text (q # ps))"
    using split_on_text(2) [of 59 "32 # pair_text p"] no by simp
  moreover have "list_all2 (\<lambda>part p. trim part = pair_text p) (split_on 59 (32 # header_text (q # ps))) (q # ps)"
    using 3 by simp
  ultimately show ?case unfolding tx using no t by (simp only: split_on_text(2) list.rel_inject trim_blank simp_thms)
qed simp

text \<open>
  A header is taken as it stands: it is not mistaken for a quoted value, a \<open>Cookie:\<close> line or a
  command line, unless it begins with a dash or a single quote, which a name may.
\<close>

lemma header_text_chars:
  assumes "ps \<noteq> []" "\<forall>p\<in>set ps. pair_ok p"
  shows "\<forall>c\<in>set (header_text ps). visible c \<or> c = 32" "\<exists>rest. header_text ps = pair_text (hd ps) @ rest"
    "visible (last (header_text ps))" "34 \<notin> set (header_text ps)"
proof -
  show "\<forall>c\<in>set (header_text ps). visible c \<or> c = 32" "34 \<notin> set (header_text ps)"
    using assms pair_text_chars by (induction ps rule: header_text.induct) (auto simp: lit_def visible_def)
  show "\<exists>rest. header_text ps = pair_text (hd ps) @ rest"
    using assms(1) by (induction ps rule: header_text.induct) auto
  show "visible (last (header_text ps))"
    using assms
  proof (induction ps rule: header_text.induct)
    case (2 p)
    then show ?case using pair_text_chars(1,2) [of p] by simp
  next
    case (3 p q ps)
    have "header_text (q # ps) \<noteq> []" using pair_text_chars(2) [of q] 3(3) by (cases ps) simp_all
    with 3 show ?case by simp
  qed simp
qed

lemma not_cookie_prefix:
  assumes "\<forall>c\<in>set n. cookie_name_byte c"
  shows "strip_ascii_case_prefix (n @ 61 # rest) (lit ''cookie:'') = None"
proof -
  have "\<not> eq_ignore_ascii_case (take 7 (n @ 61 # rest)) (lit ''cookie:'')" if len: "7 \<le> length (n @ 61 # rest)"
  proof
    assume "eq_ignore_ascii_case (take 7 (n @ 61 # rest)) (lit ''cookie:'')"
    then have eq: "map to_ascii_lowercase (take 7 (n @ 61 # rest)) = lit ''cookie:''"
      by (simp add: eq_ignore_ascii_case_def lit_def to_ascii_lowercase_def)
    have at_i: "to_ascii_lowercase ((n @ 61 # rest) ! i) = lit ''cookie:'' ! i" if "i < 7" for i
      using arg_cong [OF eq, of "\<lambda>xs. xs ! i"] that len by (simp del: take_append)
    show False
    proof (cases "length n < 7")
      case True
      then have "to_ascii_lowercase 61 = lit ''cookie:'' ! length n" using at_i [of "length n"] by simp
      moreover have "lit ''cookie:'' ! length n \<in> set (lit ''cookie:'')" using True by (intro nth_mem) (simp add: lit_def)
      ultimately show False by (auto simp: to_ascii_lowercase_def lit_def)
    next
      case False
      then have "to_ascii_lowercase (n ! 6) = 58" using at_i [of 6] by (simp add: nth_append lit_def)
      moreover have "n ! 6 \<in> set n" using False by simp
      ultimately show False using assms name_visible by (auto simp: to_ascii_lowercase_def split: if_splits)
    qed
  qed
  moreover have "length (lit ''cookie:'') = 7" by (simp add: lit_def)
  ultimately show ?thesis unfolding strip_ascii_case_prefix_def by presburger
qed

lemma not_quoted: "\<not> starts_with 34 s \<Longrightarrow> \<not> starts_with 39 s \<Longrightarrow> strip_outer_quotes s = s"
  by (simp add: strip_outer_quotes_def)

lemma first_word_header:
  assumes "n \<noteq> []" "\<forall>c\<in>set n. visible c"
  shows "\<exists>w. first_word (n @ 61 # rest) = Some w \<and> 61 \<in> set w"
proof -
  have hd: "\<not> is_ascii_whitespace (hd (n @ 61 # rest))" using assms visible_plain by (cases n) auto
  have drop: "dropWhile is_ascii_whitespace (n @ 61 # rest) = n @ 61 # rest" using hd by (cases n) auto
  have eq: "\<not> is_ascii_whitespace 61" by (simp add: is_ascii_whitespace_def)
  have word: "takeWhile (\<lambda>c. \<not> is_ascii_whitespace c) (n @ 61 # rest) =
      n @ 61 # takeWhile (\<lambda>c. \<not> is_ascii_whitespace c) rest"
    using assms(2) visible_plain eq by (subst takeWhile_append2) auto
  have "first_word (n @ 61 # rest) = Some (n @ 61 # takeWhile (\<lambda>c. \<not> is_ascii_whitespace c) rest)"
    unfolding first_word_def drop word by (cases n) auto
  then show ?thesis by auto
qed

lemma sum_pair_bytes:
  assumes "ps \<noteq> []" "\<forall>p\<in>set ps. pair_ok p"
  shows "length (header_text ps) + 2 = sum_list (map pair_bytes ps) + 3 * length ps"
  using assms
proof (induction ps rule: header_text.induct)
  case (2 p)
  then show ?case using pair_chars(4,5) [of p] by (simp add: pair_text_def pair_bytes_def)
next
  case (3 p q ps)
  then show ?case using pair_chars(4,5) [of p] by (simp add: pair_text_def pair_bytes_def lit_def)
qed simp

text \<open>
  C34: a request header is read back as the cookies it was written from. For valid pairs within
  the limits whose first name does not begin with a dash or a single quote, normalising the header
  text gives exactly those pairs; and whatever text is given, the pairs that come out are valid
  names and values, at least one of them, at most 512, with at most 64 KiB between them.
\<close>

theorem cookie_header_round_trip:
  assumes "ps \<noteq> []" and "\<forall>p\<in>set ps. pair_ok p" and "length ps \<le> MAX_CAPTURE_PAIRS"
    and "sum_list (map pair_bytes ps) \<le> MAX_COOKIE_HEADER_BYTES" and "hd (cp_name (hd ps)) \<notin> {45, 39}"
  shows "normalize_capture (Some (header_text ps)) = Inr (Some ps) \<and>
    (\<forall>raw qs. normalize_capture (Some raw) = Inr (Some qs) \<longrightarrow>
       qs \<noteq> [] \<and> (\<forall>q\<in>set qs. pair_ok q) \<and> length qs \<le> MAX_CAPTURE_PAIRS \<and>
       sum_list (map pair_bytes qs) \<le> MAX_COOKIE_HEADER_BYTES)"
proof -
  let ?h = "header_text ps" and ?n = "cp_name (hd ps)"
  note chars = header_text_chars [OF assms(1,2)]
  have ok: "pair_ok (hd ps)" using assms(1,2) by simp
  note name = pair_chars [OF ok]
  obtain rest where h: "?h = ?n @ 61 # rest" using chars(2) by (auto simp: pair_text_def)
  have hd: "hd ?h = hd ?n" using h name(1) by simp
  have vis: "visible (hd ?n)" using name(1,2) name_visible by simp
  have t: "trim ?h = ?h" using h name(1) hd vis chars(3) by (intro trim_visible) auto
  have q: "strip_outer_quotes ?h = ?h"
    using hd chars(4) assms(5) h name(1,2) name_visible by (intro not_quoted) (auto simp: starts_with_def)
  have bytes: "as_bytes ?h = ?h" using chars(1) by (intro as_bytes_ascii) (auto simp: visible_def)
  have size: "str_len ?h \<le> MAX_CAPTURE_BYTES"
    using sum_pair_bytes [OF assms(1,2)] assms(3,4) bytes by (simp add: str_len_def limit_defs)
  have ctrl: "\<not> list_ex (\<lambda>c. is_control c \<and> c \<noteq> 9) ?h"
    using chars(1) by (auto simp: list_ex_iff is_control_def visible_def)
  have owned: "owned_nonempty ?h = Inr ?h" using t q h name(1) by (simp add: owned_nonempty_def Let_def)
  obtain w where w: "first_word ?h = Some w" "61 \<in> set w"
    using first_word_header [of ?n rest] name(1,2) name_visible h by auto
  have "\<not> eq_ignore_ascii_case w (lit ''curl'')"
  proof
    assume "eq_ignore_ascii_case w (lit ''curl'')"
    then have "set (map to_ascii_lowercase w) = set (lit ''curl'')"
      by (simp add: eq_ignore_ascii_case_def lit_def to_ascii_lowercase_def)
    moreover have "61 \<in> set (map to_ascii_lowercase w)" using w(2) by (force simp: to_ascii_lowercase_def)
    ultimately show False by (simp add: lit_def)
  qed
  moreover have "strip_ascii_case_prefix ?h (lit ''cookie:'') = None" unfolding h by (rule not_cookie_prefix) (rule name(2))
  ultimately have "extract_cookie_capture ?h = Inr ?h"
    using t q w owned h hd assms(5) name(1) by (simp add: extract_cookie_capture_def Let_def starts_with_def)
  moreover have "parse_cookie_pairs ?h = Inr ps"
    using parse_pair_texts [OF assms(2), of "[]" 0 "split_on 59 ?h"] split_header_text [OF assms(1,2)] assms(3,4) t q h name(1)
    by (simp add: parse_cookie_pairs_def Let_def)
  ultimately have "normalize_capture (Some ?h) = Inr (Some ps)"
    using t size ctrl h name(1) by (simp add: normalize_capture_def Let_def)
  then show ?thesis using normalize_sound by blast
qed

theorem cookie_header_round_trip_witness:
  "normalize_capture (Some (lit ''sid=a=1; t='')) =
     Inr (Some [\<lparr>cp_name = lit ''sid'', cp_value = lit ''a=1''\<rparr>, \<lparr>cp_name = lit ''t'', cp_value = []\<rparr>])"
proof -
  let ?ps = "[\<lparr>cp_name = lit ''sid'', cp_value = lit ''a=1''\<rparr>, \<lparr>cp_name = lit ''t'', cp_value = []\<rparr>]"
  have ok: "\<forall>p\<in>set ?ps. pair_ok p"
    by (simp add: pair_ok_def cookie_name_iff cookie_value_iff lit_def cookie_name_byte_def cookie_value_byte_def limit_defs)
  have "length ?ps \<le> MAX_CAPTURE_PAIRS" "sum_list (map pair_bytes ?ps) \<le> MAX_COOKIE_HEADER_BYTES"
    "hd (cp_name (hd ?ps)) \<notin> {45, 39}"
    by (simp_all add: pair_bytes_def str_len_def lit_def utf8_char_def limit_defs)
  from cookie_header_round_trip [OF _ ok this, THEN conjunct1] show ?thesis by (simp add: pair_text_def lit_def)
qed

end
