(* ===== verification/Cookie_Jar.thy ===== *)
theory Cookie_Jar
  imports Cookie_Text
begin

text \<open>
  Cookie records, imports, the jar and the request header chosen from it
  (\<open>crates/providers/src/cookie.rs\<close>).

  The URL library is a parameter: \<open>host_parse\<close> reads a host, and a parsed URL is what its accessors
  return. A hash map is the list of its entries in the order an iteration happens to give.
\<close>

section \<open>Domains, paths and URLs\<close>

definition MAX_COOKIES_PER_IMPORT :: nat where [limit_defs]: "MAX_COOKIES_PER_IMPORT = 4096"
definition MAX_COOKIE_JAR_RECORDS :: nat where [limit_defs]: "MAX_COOKIE_JAR_RECORDS = MAX_COOKIES_PER_IMPORT"
definition MAX_COOKIE_JAR_BYTES :: nat where [limit_defs]: "MAX_COOKIE_JAR_BYTES = 8 * 1024 * 1024"
definition MAX_IMPORT_SOURCES :: nat where [limit_defs]: "MAX_IMPORT_SOURCES = 64"
definition MAX_DOMAIN_INPUT_BYTES :: nat where [limit_defs]: "MAX_DOMAIN_INPUT_BYTES = 1024"
definition MAX_DOMAIN_BYTES :: nat where [limit_defs]: "MAX_DOMAIN_BYTES = 253"
definition MAX_REQUEST_URL_BYTES :: nat where [limit_defs]: "MAX_REQUEST_URL_BYTES = 16 * 1024"

datatype cookie_domain_kind = HostOnly | DomainCookie

definition validate_canonical_domain :: "str \<Rightarrow> (unit, cookie_error) result" where
  "validate_canonical_domain domain =
     (if domain = [] \<or> str_len domain > MAX_DOMAIN_BYTES \<or> \<not> list_all (\<lambda>c. c < 128) domain \<or>
         starts_with 46 domain \<or> ends_with 46 domain \<or>
         list_ex (\<lambda>label. label = [] \<or> str_len label > 63 \<or>
           \<not> list_all (\<lambda>b. is_ascii_alphanumeric b \<or> b = 45) (as_bytes label) \<or>
           starts_with 45 label \<or> ends_with 45 label) (split_on 46 domain)
      then Inl InvalidRecord else Inr ())"

definition private_or_multi_label_suffixes :: "str list" where
  "private_or_multi_label_suffixes = map lit
     [''appspot.com'', ''azurewebsites.net'', ''cloudfront.net'', ''firebaseapp.com'', ''github.io'',
      ''gitlab.io'', ''herokuapp.com'', ''netlify.app'', ''pages.dev'', ''vercel.app'']"

definition cctld_second_levels :: "str list" where
  "cctld_second_levels = map lit
     [''ac'', ''co'', ''com'', ''edu'', ''firm'', ''gen'', ''go'', ''gov'', ''id'', ''ind'', ''lg'', ''mil'',
      ''ne'', ''net'', ''or'', ''org'', ''sch'']"

definition looks_like_public_suffix :: "str \<Rightarrow> bool" where
  "looks_like_public_suffix domain \<longleftrightarrow>
     (let labels = split_on 46 domain in
      length labels < 2 \<or> domain \<in> set private_or_multi_label_suffixes \<or>
      length labels = 2 \<and> str_len (labels ! 1) = 2 \<and> labels ! 0 \<in> set cctld_second_levels)"

definition canonical_cookie_domain ::
    "(str \<Rightarrow> host option) \<Rightarrow> str \<Rightarrow> cookie_domain_kind \<Rightarrow> (str, cookie_error) result" where
  "canonical_cookie_domain host_parse raw kind =
     (if raw = [] \<or> str_len raw > MAX_DOMAIN_INPUT_BYTES \<or> list_ex is_control raw \<or> list_ex is_whitespace raw \<or>
         37 \<in> set raw \<or> ends_with 46 raw
      then Inl InvalidRecord
      else if kind = HostOnly \<and> starts_with 46 raw then Inl InvalidRecord
      else
        let domain = (if kind = DomainCookie then (case strip_prefix [46] raw of Some d \<Rightarrow> d | None \<Rightarrow> raw) else raw) in
        if domain = [] \<or> starts_with 46 domain then Inl InvalidRecord
        else
          and_then (ok_or InvalidRecord (host_parse domain)) (\<lambda>host.
          case host of
            HostDomain domain \<Rightarrow>
              and_then (validate_canonical_domain domain) (\<lambda>_.
              if kind = DomainCookie \<and> looks_like_public_suffix domain then Inl InvalidRecord else Inr domain)
          | HostIpv4 address \<Rightarrow> if kind = DomainCookie then Inl InvalidRecord else Inr (ipv4_text address)
          | HostIpv6 address \<Rightarrow> if kind = DomainCookie then Inl InvalidRecord else Inr (ipv6_text address)))"

fun canonical_request_host :: "host \<Rightarrow> (str \<times> bool, cookie_error) result" where
  "canonical_request_host (HostDomain domain) =
     and_then (map_err (\<lambda>_. InvalidRequestUrl) (validate_canonical_domain domain)) (\<lambda>_. Inr (domain, False))"
| "canonical_request_host (HostIpv4 address) = Inr (ipv4_text address, True)"
| "canonical_request_host (HostIpv6 address) = Inr (ipv6_text address, True)"

fun host_is_loopback :: "host \<Rightarrow> bool" where
  "host_is_loopback (HostDomain domain) \<longleftrightarrow> eq_ignore_ascii_case domain (lit ''localhost'')"
| "host_is_loopback (HostIpv4 address) \<longleftrightarrow> ipv4_is_loopback address"
| "host_is_loopback (HostIpv6 address) \<longleftrightarrow> ipv6_is_loopback address"

definition path_matches :: "str \<Rightarrow> str \<Rightarrow> bool" where
  "path_matches cookie_path request_path \<longleftrightarrow>
     request_path = cookie_path \<or>
     is_some_and (\<lambda>suffix. ends_with 47 cookie_path \<or> starts_with 47 suffix) (strip_prefix cookie_path request_path)"

datatype cookie_url_policy = HttpsOnly | LoopbackHttp

record validated_cookie_url =
  vu_url :: url
  vu_host :: str
  vu_host_is_ip :: bool
  vu_secure :: bool

definition validated_cookie_url_new :: "url \<Rightarrow> cookie_url_policy \<Rightarrow> (validated_cookie_url, cookie_error) result" where
  "validated_cookie_url_new url policy =
     (if str_len (ur_text url) > MAX_REQUEST_URL_BYTES \<or> ur_username url \<noteq> [] \<or> ur_password url \<noteq> None \<or>
         ur_fragment url \<noteq> None
      then Inl InvalidRequestUrl
      else
        and_then (ok_or InvalidRequestUrl (ur_host url)) (\<lambda>host.
        and_then
          (if ur_scheme url = lit ''https'' then Inr True
           else if ur_scheme url = lit ''http'' \<and> policy = LoopbackHttp \<and> host_is_loopback host then Inr False
           else Inl InvalidRequestUrl) (\<lambda>secure.
        and_then (canonical_request_host host) (\<lambda>(host, host_is_ip).
        Inr \<lparr>vu_url = url, vu_host = host, vu_host_is_ip = host_is_ip, vu_secure = secure\<rparr>))))"

definition validated_cookie_url_parse ::
    "(str \<Rightarrow> url option) \<Rightarrow> str \<Rightarrow> cookie_url_policy \<Rightarrow> (validated_cookie_url, cookie_error) result" where
  "validated_cookie_url_parse url_parse raw policy =
     (if raw = [] \<or> str_len raw > MAX_REQUEST_URL_BYTES \<or> list_ex is_control raw then Inl InvalidRequestUrl
      else and_then (ok_or InvalidRequestUrl (url_parse raw)) (\<lambda>url. validated_cookie_url_new url policy))"

section \<open>Records and imports\<close>

record cookie_identity =
  ci_name :: str
  ci_domain :: str
  ci_domain_kind :: cookie_domain_kind
  ci_path :: str

record cookie_data =
  cd_value :: str
  cd_secure :: bool
  cd_expires_at :: "timestamp option"

type_synonym cookie_record = "cookie_identity \<times> cookie_data"

definition cookie_record_new ::
    "(str \<Rightarrow> host option) \<Rightarrow> str \<Rightarrow> str \<Rightarrow> str \<Rightarrow> cookie_domain_kind \<Rightarrow> str \<Rightarrow> bool \<Rightarrow> timestamp option \<Rightarrow>
     (cookie_record, cookie_error) result" where
  "cookie_record_new host_parse name v domain domain_kind path secure expires_at =
     and_then (validate_cookie_name name) (\<lambda>_.
     and_then (validate_cookie_value v) (\<lambda>_.
     and_then (validate_cookie_path path) (\<lambda>_.
     and_then (canonical_cookie_domain host_parse domain domain_kind) (\<lambda>domain.
     Inr (\<lparr>ci_name = name, ci_domain = domain, ci_domain_kind = domain_kind, ci_path = path\<rparr>,
          \<lparr>cd_value = v, cd_secure = secure, cd_expires_at = expires_at\<rparr>)))))"

definition record_byte_len :: "cookie_record \<Rightarrow> (nat, cookie_error) result" where
  "record_byte_len r =
     ok_or JarTooLarge
       (Option.bind (checked_add usize_max (str_len (ci_name (fst r))) (str_len (cd_value (snd r)))) (\<lambda>n.
        Option.bind (checked_add usize_max n (str_len (ci_domain (fst r)))) (\<lambda>n.
        checked_add usize_max n (str_len (ci_path (fst r))))))"

definition import_order_new :: "nat list \<Rightarrow> (nat list, cookie_error) result" where
  "import_order_new sources =
     (if sources = [] \<or> length sources > MAX_IMPORT_SOURCES \<or> card (set sources) \<noteq> length sources
      then Inl InvalidImportOrder else Inr sources)"

fun import_rank :: "nat list \<Rightarrow> nat \<Rightarrow> nat option" where
  "import_rank [] source = None"
| "import_rank (s # sources) source = (if s = source then Some 0 else map_option Suc (import_rank sources source))"

record cookie_import =
  im_source :: nat
  im_records :: "cookie_record list"
  im_bytes :: nat

fun sum_record_bytes :: "cookie_record list \<Rightarrow> nat \<Rightarrow> (nat, cookie_error) result" where
  "sum_record_bytes [] bytes = Inr bytes"
| "sum_record_bytes (r # records) bytes =
     and_then (record_byte_len r) (\<lambda>n.
     and_then (ok_or JarTooLarge (checked_add usize_max bytes n)) (sum_record_bytes records))"

definition cookie_import_new :: "nat \<Rightarrow> cookie_record list \<Rightarrow> (cookie_import, cookie_error) result" where
  "cookie_import_new source records =
     (if length records > MAX_COOKIES_PER_IMPORT then Inl JarTooLarge
      else
        and_then (sum_record_bytes records 0) (\<lambda>bytes.
        if bytes > MAX_COOKIE_JAR_BYTES then Inl JarTooLarge
        else Inr \<lparr>im_source = source, im_records = records, im_bytes = bytes\<rparr>))"

definition host_bound_record :: "validated_cookie_url \<Rightarrow> timestamp option \<Rightarrow> cookie_pair \<Rightarrow> cookie_record" where
  "host_bound_record target expires_at pair =
     (\<lparr>ci_name = cp_name pair, ci_domain = vu_host target, ci_domain_kind = HostOnly, ci_path = lit ''/''\<rparr>,
      \<lparr>cd_value = cp_value pair, cd_secure = vu_secure target, cd_expires_at = expires_at\<rparr>)"

definition import_from_normalized_host_only ::
    "nat \<Rightarrow> cookie_pair list \<Rightarrow> validated_cookie_url \<Rightarrow> timestamp option \<Rightarrow> (cookie_import, cookie_error) result" where
  "import_from_normalized_host_only source pairs target expires_at =
     cookie_import_new source (map (host_bound_record target expires_at) pairs)"

definition import_from_host_only_capture ::
    "nat \<Rightarrow> str \<Rightarrow> validated_cookie_url \<Rightarrow> timestamp option \<Rightarrow> (cookie_import, cookie_error) result" where
  "import_from_host_only_capture source raw target expires_at =
     and_then (normalize_capture (Some raw)) (\<lambda>normalized.
     and_then (ok_or InvalidRecord normalized) (\<lambda>pairs.
     import_from_normalized_host_only source pairs target expires_at))"

section \<open>The jar\<close>

record cookie_jar =
  jr_entries :: "(cookie_identity \<times> cookie_data) list"
  jr_record_count :: nat
  jr_byte_count :: nat

fun entry_insert :: "cookie_identity \<Rightarrow> cookie_data \<Rightarrow> (cookie_identity \<times> cookie_data) list \<Rightarrow>
    (cookie_identity \<times> cookie_data) list" where
  "entry_insert k v [] = [(k, v)]"
| "entry_insert k v ((k', v') # es) = (if k' = k then (k, v) # es else (k', v') # entry_insert k v es)"

definition insert_records :: "cookie_record list \<Rightarrow> (cookie_identity \<times> cookie_data) list" where
  "insert_records records = foldl (\<lambda>es r. entry_insert (fst r) (snd r) es) [] records"

definition jar_from_imports :: "nat list \<Rightarrow> cookie_import list \<Rightarrow> (cookie_jar, cookie_error) result" where
  "jar_from_imports order imports =
     (if length imports > length order then Inl InvalidImportOrder
      else if list_ex (\<lambda>i. import_rank order (im_source i) = None) imports \<or> \<not> all_new {} (map im_source imports)
      then Inl InvalidImportOrder
      else
        let imports = sort_key (\<lambda>i. case import_rank order (im_source i) of Some n \<Rightarrow> n | None \<Rightarrow> usize_max) imports in
        case find (\<lambda>i. im_records i \<noteq> []) imports of
          None \<Rightarrow> Inr \<lparr>jr_entries = [], jr_record_count = 0, jr_byte_count = 0\<rparr>
        | Some selected \<Rightarrow>
            if length (im_records selected) > MAX_COOKIE_JAR_RECORDS \<or> im_bytes selected > MAX_COOKIE_JAR_BYTES
            then Inl JarTooLarge
            else Inr \<lparr>jr_entries = insert_records (im_records selected),
                      jr_record_count = length (im_records selected), jr_byte_count = im_bytes selected\<rparr>)"

definition matches_host :: "cookie_identity \<Rightarrow> validated_cookie_url \<Rightarrow> bool" where
  "matches_host identity target \<longleftrightarrow>
     (case ci_domain_kind identity of
       HostOnly \<Rightarrow> ci_domain identity = vu_host target
     | DomainCookie \<Rightarrow>
         if vu_host_is_ip target then False
         else vu_host target = ci_domain identity \<or>
           is_some_and (ends_with 46) (strip_suffix (ci_domain identity) (vu_host target)))"

fun domain_kind_rank :: "cookie_domain_kind \<Rightarrow> nat" where
  "domain_kind_rank HostOnly = 0"
| "domain_kind_rank DomainCookie = 1"

definition cookie_cmp :: "cookie_record \<Rightarrow> cookie_record \<Rightarrow> ordering" where
  "cookie_cmp l r =
     then_with (then_with (then_with (then_with (then_with
       (cmp (str_len (ci_path (fst r))) (str_len (ci_path (fst l))))
       (cmp (domain_kind_rank (ci_domain_kind (fst l))) (domain_kind_rank (ci_domain_kind (fst r)))))
       (cmp (str_len (ci_domain (fst r))) (str_len (ci_domain (fst l)))))
       (cmp (as_bytes (ci_path (fst l))) (as_bytes (ci_path (fst r)))))
       (cmp (as_bytes (ci_name (fst l))) (as_bytes (ci_name (fst r)))))
       (cmp (as_bytes (ci_domain (fst l))) (as_bytes (ci_domain (fst r))))"

fun header_size :: "cookie_record list \<Rightarrow> bool \<Rightarrow> nat \<Rightarrow> (nat, cookie_error) result" where
  "header_size [] is_first bytes = Inr bytes"
| "header_size (c # cookies) is_first bytes =
     (let separator = (if is_first then 0 else 2) in
      and_then (ok_or HeaderTooLarge
        (Option.bind (checked_add usize_max (str_len (ci_name (fst c))) 1) (\<lambda>n.
         Option.bind (checked_add usize_max n (str_len (cd_value (snd c)))) (\<lambda>n.
         checked_add usize_max n separator)))) (\<lambda>appended.
      and_then (ok_or HeaderTooLarge (Option.bind (checked_add usize_max bytes appended)
        (\<lambda>n. if n \<le> MAX_COOKIE_HEADER_BYTES then Some n else None))) (\<lambda>bytes.
      header_size cookies False bytes)))"

fun header_value :: "cookie_record list \<Rightarrow> bool \<Rightarrow> str" where
  "header_value [] is_first = []"
| "header_value (c # cookies) is_first =
     (if is_first then [] else lit ''; '') @ ci_name (fst c) @ [61] @ cd_value (snd c) @ header_value cookies False"

definition header_for :: "cookie_jar \<Rightarrow> validated_cookie_url \<Rightarrow> timestamp \<Rightarrow> (str option, cookie_error) result" where
  "header_for jar target now =
     (let selected = filter (\<lambda>(identity, data).
            \<not> (\<not> matches_host identity target \<or> \<not> path_matches (ci_path identity) (ur_path (vu_url target)) \<or>
              cd_secure data \<and> \<not> vu_secure target \<or> is_some_and (\<lambda>expires_at. expires_at \<le> now) (cd_expires_at data)))
            (jr_entries jar);
          selected = sort_cmp cookie_cmp selected in
      if selected = [] then Inr None
      else and_then (header_size selected True 0) (\<lambda>_. Inr (Some (header_value selected True))))"

section \<open>The order of cookies\<close>

text \<open>The bytes of a text determine it, so the order distinguishes any two identities.\<close>

lemma utf8_char_length:
  "length (utf8_char c) =
     (let b = hd (utf8_char c) in if b < 128 then 1 else if b < 224 then 2 else if b < 240 then 3 else 4)"
proof -
  have "c div 64 < 32" if "c < 2048" using that by (simp add: div_less_iff_less_mult)
  moreover have "c div 4096 < 16" if "c < 65536" using that by (simp add: div_less_iff_less_mult)
  ultimately show ?thesis by (auto simp: utf8_char_def Let_def)
qed

lemma div_mod_eqI: "c div k = d div k \<Longrightarrow> c mod k = d mod k \<Longrightarrow> c = (d::nat)"
  by (metis div_mult_mod_eq)

lemma utf8_char_inject: "utf8_char c = utf8_char d \<Longrightarrow> c = d"
proof -
  assume eq: "utf8_char c = utf8_char d"
  have two: "c = d" if "c div 64 = d div 64" "c mod 64 = d mod 64" using that by (rule div_mod_eqI)
  have three: "c = d" if "c div 4096 = d div 4096" "c div 64 mod 64 = d div 64 mod 64" "c mod 64 = d mod 64"
    using that div_mod_eqI [of "c div 64" 64 "d div 64"] by (intro two) (simp_all add: div_mult2_eq [symmetric])
  have four: "c = d" if "c div 262144 = d div 262144" "c div 4096 mod 64 = d div 4096 mod 64"
      "c div 64 mod 64 = d div 64 mod 64" "c mod 64 = d mod 64"
    using that div_mod_eqI [of "c div 4096" 64 "d div 4096"] by (intro three) (simp_all add: div_mult2_eq [symmetric])
  have size: "length (utf8_char x) = (if x < 128 then 1 else if x < 2048 then 2 else if x < 65536 then 3 else 4)" for x
    by (simp add: utf8_char_def)
  have len: "(if c < 128 then 1 else if c < 2048 then 2 else if c < 65536 then 3 else 4 :: nat) =
      (if d < 128 then 1 else if d < 2048 then 2 else if d < 65536 then 3 else 4)"
    using arg_cong [OF eq, of length] unfolding size .
  consider "c < 128" "d < 128" | "128 \<le> c" "c < 2048" "128 \<le> d" "d < 2048"
    | "2048 \<le> c" "c < 65536" "2048 \<le> d" "d < 65536" | "65536 \<le> c" "65536 \<le> d"
    using len by (simp split: if_splits; linarith)
  then show ?thesis
  proof cases
    case 1
    with eq show ?thesis by (simp add: utf8_char_def)
  next
    case 2
    with eq have "c div 64 = d div 64" "c mod 64 = d mod 64" by (simp_all add: utf8_char_def)
    then show ?thesis by (rule two)
  next
    case 3
    with eq have "c div 4096 = d div 4096" "c div 64 mod 64 = d div 64 mod 64" "c mod 64 = d mod 64"
      by (simp_all add: utf8_char_def)
    then show ?thesis by (rule three)
  next
    case 4
    with eq have "c div 262144 = d div 262144" "c div 4096 mod 64 = d div 4096 mod 64"
        "c div 64 mod 64 = d div 64 mod 64" "c mod 64 = d mod 64"
      by (simp_all add: utf8_char_def)
    then show ?thesis by (rule four)
  qed
qed

lemma utf8_char_prefix_free: "utf8_char c @ s = utf8_char d @ t \<Longrightarrow> c = d \<and> s = t"
proof -
  assume eq: "utf8_char c @ s = utf8_char d @ t"
  have ne: "utf8_char x \<noteq> []" for x by (simp add: utf8_char_def)
  have "hd (utf8_char c) = hd (utf8_char d)" using arg_cong [OF eq, of hd] ne by simp
  then have "length (utf8_char c) = length (utf8_char d)" by (simp add: utf8_char_length)
  with eq show ?thesis using utf8_char_inject by simp
qed

lemma as_bytes_inject [simp]: "as_bytes s = as_bytes t \<longleftrightarrow> s = t"
proof
  assume "as_bytes s = as_bytes t"
  then show "s = t"
  proof (induction s arbitrary: t)
    case Nil
    then show ?case by (cases t) (auto simp: utf8_char_def split: if_splits)
  next
    case (Cons c s)
    then obtain d t' where t: "t = d # t'" by (cases t) (auto simp: utf8_char_def split: if_splits)
    with Cons utf8_char_prefix_free [of c "as_bytes s" d "as_bytes t'"] show ?case by simp
  qed
qed simp

definition identity_cmp :: "cookie_identity \<Rightarrow> cookie_identity \<Rightarrow> ordering" where
  "identity_cmp l r =
     then_with (then_with (then_with (then_with (then_with
       (cmp (str_len (ci_path r)) (str_len (ci_path l)))
       (cmp (domain_kind_rank (ci_domain_kind l)) (domain_kind_rank (ci_domain_kind r))))
       (cmp (str_len (ci_domain r)) (str_len (ci_domain l))))
       (cmp (as_bytes (ci_path l)) (as_bytes (ci_path r))))
       (cmp (as_bytes (ci_name l)) (as_bytes (ci_name r))))
       (cmp (as_bytes (ci_domain l)) (as_bytes (ci_domain r)))"

lemma cookie_cmp_identity: "cookie_cmp = (\<lambda>l r. identity_cmp (fst l) (fst r))"
  by (simp add: cookie_cmp_def identity_cmp_def fun_eq_iff)

lemma domain_kind_rank_inject [simp]: "domain_kind_rank k = domain_kind_rank l \<longleftrightarrow> k = l"
  by (cases k; cases l) simp_all

interpretation cookie_order: comparison identity_cmp
proof (rule comparison_lawful)
  show "cmp_lawful identity_cmp"
    unfolding identity_cmp_def [abs_def] by (intro lawful_intros)
  show "identity_cmp k l = Equal \<longleftrightarrow> k = l" for k l
    by (cases k; cases l) (auto simp: identity_cmp_def)
qed

lemma map_insort_by: "map f (insort_by (\<lambda>x y. le (f x) (f y)) x xs) = insort_by le (f x) (map f xs)"
  by (induction xs) simp_all

lemma map_sort_cmp: "map f (sort_cmp (\<lambda>x y. c (f x) (f y)) xs) = sort_cmp c (map f xs)"
  unfolding sort_cmp_def by (induction xs) (simp_all add: map_insort_by [where le = "\<lambda>x y. c x y \<noteq> Greater"])

lemma entries_by_keys: "distinct (map fst xs) \<Longrightarrow> map fst xs = map fst ys \<Longrightarrow> set xs = set ys \<Longrightarrow> xs = ys"
  using map_inj_on [of fst xs ys] by (simp add: distinct_map)

text \<open>So the chosen cookies do not depend on the order of an iteration over the hash map.\<close>

lemma sorted_cookies_canonical:
  assumes "mset xs = mset ys" "distinct (map fst xs)"
  shows "sort_cmp cookie_cmp xs = sort_cmp cookie_cmp ys"
proof (rule entries_by_keys)
  have keys: "map fst (sort_cmp cookie_cmp zs) = sort_cmp identity_cmp (map fst zs)" for zs
    unfolding cookie_cmp_identity by (rule map_sort_cmp)
  have "mset (map fst xs) = mset (map fst ys)" using assms(1) by simp
  then show "map fst (sort_cmp cookie_cmp xs) = map fst (sort_cmp cookie_cmp ys)"
    unfolding keys by (rule cookie_order.sort_cmp_canonical)
  show "distinct (map fst (sort_cmp cookie_cmp xs))"
    unfolding keys using assms(2) mset_eq_imp_distinct_iff [OF mset_sort_cmp [of identity_cmp "map fst xs"]] by simp
  show "set (sort_cmp cookie_cmp xs) = set (sort_cmp cookie_cmp ys)" using mset_eq_setD [OF assms(1)] by simp
qed

section \<open>The rules of matching\<close>

definition domain_applies :: "cookie_identity \<Rightarrow> validated_cookie_url \<Rightarrow> bool" where
  "domain_applies k target \<longleftrightarrow>
     vu_host target = ci_domain k \<and> (ci_domain_kind k = HostOnly \<or> \<not> vu_host_is_ip target) \<or>
     ci_domain_kind k = DomainCookie \<and> \<not> vu_host_is_ip target \<and> (\<exists>sub. vu_host target = sub @ [46] @ ci_domain k)"

definition path_applies :: "cookie_identity \<Rightarrow> validated_cookie_url \<Rightarrow> bool" where
  "path_applies k target \<longleftrightarrow>
     (\<exists>rest. ur_path (vu_url target) = ci_path k @ rest \<and> (rest = [] \<or> ends_with 47 (ci_path k) \<or> starts_with 47 rest))"

text \<open>
  A cookie applies when its domain covers the host at a label boundary, its path covers the
  request path at a segment boundary, it may travel on this transport and it has not expired.
\<close>

definition applies :: "validated_cookie_url \<Rightarrow> timestamp \<Rightarrow> cookie_record \<Rightarrow> bool" where
  "applies target now r \<longleftrightarrow> domain_applies (fst r) target \<and> path_applies (fst r) target \<and>
     (cd_secure (snd r) \<longrightarrow> vu_secure target) \<and> (\<forall>t. cd_expires_at (snd r) = Some t \<longrightarrow> now < t)"

lemma strip_suffix_Some: "strip_suffix d h = Some p \<longleftrightarrow> h = p @ d"
  by (auto simp: strip_suffix_def) (metis append_take_drop_id)

lemma strip_prefix_Some: "strip_prefix p s = Some r \<longleftrightarrow> s = p @ r"
  by (auto simp: strip_prefix_def) (metis append_take_drop_id)

lemma matches_host_iff: "matches_host k target \<longleftrightarrow> domain_applies k target"
proof -
  have "(\<exists>p. host = p @ d \<and> ends_with 46 p) \<longleftrightarrow> (\<exists>sub. host = sub @ [46] @ d)" for host d
    unfolding ends_with_def by (metis append.assoc append_butlast_last_id append_is_Nil_conv last_snoc list.distinct(1))
  then show ?thesis
    by (auto simp: matches_host_def domain_applies_def is_some_and_iff strip_suffix_Some split: cookie_domain_kind.splits)
qed

lemma path_matches_iff: "path_matches (ci_path k) (ur_path (vu_url target)) \<longleftrightarrow> path_applies k target"
  by (auto simp: path_matches_def path_applies_def is_some_and_iff strip_prefix_Some)

definition record_pair :: "cookie_record \<Rightarrow> cookie_pair" where
  "record_pair r = \<lparr>cp_name = ci_name (fst r), cp_value = cd_value (snd r)\<rparr>"

lemma header_value_text:
  "header_value cs True = header_text (map record_pair cs)"
  "cs \<noteq> [] \<Longrightarrow> header_value cs False = lit ''; '' @ header_text (map record_pair cs)"
proof -
  have later: "header_value cs False = (if cs = [] then [] else lit ''; '' @ header_text (map record_pair cs))" for cs
  proof (induction cs)
    case (Cons c cs)
    then show ?case by (cases cs) (simp_all add: record_pair_def pair_text_def)
  qed simp
  show "cs \<noteq> [] \<Longrightarrow> header_value cs False = lit ''; '' @ header_text (map record_pair cs)" by (simp add: later)
  show "header_value cs True = header_text (map record_pair cs)"
    by (cases cs; cases "tl cs") (simp_all add: later record_pair_def pair_text_def)
qed

lemma str_len_app: "str_len (s @ t) = str_len s + str_len t"
  by (simp add: str_len_def as_bytes_def)

lemma header_size_eq:
  assumes "bytes \<le> MAX_COOKIE_HEADER_BYTES"
  shows "header_size cs is_first bytes =
    (if bytes + str_len (header_value cs is_first) \<le> MAX_COOKIE_HEADER_BYTES
     then Inr (bytes + str_len (header_value cs is_first)) else Inl HeaderTooLarge)"
  using assms
proof (induction cs is_first bytes rule: header_size.induct)
  case (2 c cs is_first bytes)
  let ?sep = "if is_first then 0 else (2::nat)"
  let ?piece = "str_len (ci_name (fst c)) + 1 + str_len (cd_value (snd c)) + ?sep"
  have sep: "str_len (if is_first then [] else lit ''; '') = ?sep" "str_len [61] = 1"
    by (simp_all add: str_len_def lit_def utf8_char_def)
  have len: "str_len (header_value (c # cs) is_first) = ?piece + str_len (header_value cs False)"
    by (simp only: header_value.simps str_len_app sep add.assoc)
  show ?case
  proof (cases "bytes + ?piece \<le> MAX_COOKIE_HEADER_BYTES")
    case True
    then have fits: "Option.bind (checked_add usize_max (str_len (ci_name (fst c))) 1) (\<lambda>n.
         Option.bind (checked_add usize_max n (str_len (cd_value (snd c)))) (\<lambda>n. checked_add usize_max n ?sep)) = Some ?piece"
      "Option.bind (checked_add usize_max bytes ?piece) (\<lambda>n. if n \<le> MAX_COOKIE_HEADER_BYTES then Some n else None) = Some (bytes + ?piece)"
      by (simp_all add: checked_add_def limit_defs)
    have "header_size (c # cs) is_first bytes = header_size cs False (bytes + ?piece)"
      unfolding header_size.simps Let_def fits ok_or_simps and_then_simps ..
    also have "\<dots> = (if bytes + ?piece + str_len (header_value cs False) \<le> MAX_COOKIE_HEADER_BYTES
        then Inr (bytes + ?piece + str_len (header_value cs False)) else Inl HeaderTooLarge)"
      by (rule 2(1) [OF refl]) (use True fits in \<open>auto simp: and_then_def\<close>)
    finally show ?thesis unfolding len by (simp add: add.assoc)
  next
    case False
    have "header_size (c # cs) is_first bytes = Inl HeaderTooLarge"
      using False by (auto simp: Let_def checked_add_def and_then_def ok_or_def split: sum.split option.split)
    then show ?thesis unfolding len using False by simp
  qed
qed (simp add: str_len_def)

lemma header_for_eq:
  "header_for jar target now =
     (let cookies = sort_cmp cookie_cmp (filter (applies target now) (jr_entries jar));
          value = header_text (map record_pair cookies) in
      if cookies = [] then Inr None
      else if str_len value \<le> MAX_COOKIE_HEADER_BYTES then Inr (Some value) else Inl HeaderTooLarge)"
proof -
  have "(\<lambda>(identity, data). \<not> (\<not> matches_host identity target \<or> \<not> path_matches (ci_path identity) (ur_path (vu_url target)) \<or>
      cd_secure data \<and> \<not> vu_secure target \<or> is_some_and (\<lambda>expires_at. expires_at \<le> now) (cd_expires_at data))) = applies target now"
    by (auto simp: fun_eq_iff applies_def matches_host_iff path_matches_iff is_some_and_iff not_le)
  then show ?thesis
    by (simp add: header_for_def Let_def header_size_eq header_value_text)
qed

lemma sorted_cookies_paths:
  "sorted_wrt (\<lambda>l r. str_len (ci_path (fst r)) \<le> str_len (ci_path (fst l))) (sort_cmp cookie_cmp xs)"
proof -
  have "sorted_wrt (\<lambda>k l. identity_cmp k l \<noteq> Greater) (map fst (sort_cmp cookie_cmp xs))"
    unfolding cookie_cmp_identity map_sort_cmp unfolding sort_cmp_def by (rule cookie_order.sorted_sort) simp
  then show ?thesis
    unfolding sorted_wrt_map by (rule sorted_wrt_mono_rel [rotated]) (auto simp: identity_cmp_def not_less)
qed

section \<open>Entries of a jar\<close>

lemma entry_insert_keys: "fst ` set (entry_insert k v es) = insert k (fst ` set es)"
  by (induction k v es rule: entry_insert.induct) auto

lemma entry_insert_distinct: "distinct (map fst es) \<Longrightarrow> distinct (map fst (entry_insert k v es))"
proof (induction k v es rule: entry_insert.induct)
  case (2 k v k' v' es)
  then show ?case using entry_insert_keys [of k v es] by (auto simp: image_iff)
qed simp

lemma entry_insert_map_of: "map_of (entry_insert k v es) = (map_of es)(k \<mapsto> v)"
  by (induction k v es rule: entry_insert.induct) (auto simp: fun_upd_twist)

lemma insert_records_snoc: "insert_records (rs @ [r]) = entry_insert (fst r) (snd r) (insert_records rs)"
  by (simp add: insert_records_def)

lemma insert_records_distinct: "distinct (map fst (insert_records rs))"
  by (induction rs rule: rev_induct) (simp_all add: insert_records_snoc entry_insert_distinct, simp add: insert_records_def)

lemma insert_records_map_of: "map_of (insert_records rs) = map_of (rev rs)"
  by (induction rs rule: rev_induct)
    (simp_all add: insert_records_snoc entry_insert_map_of, simp add: insert_records_def)

lemma jar_entries_distinct: "jar_from_imports order ims = Inr jar \<Longrightarrow> distinct (map fst (jr_entries jar))"
  by (auto simp: jar_from_imports_def Let_def insert_records_distinct split: if_splits option.splits)

text \<open>A capture of one session cookie, used in the examples below.\<close>

definition example_target :: validated_cookie_url where
  "example_target =
     \<lparr>vu_url = \<lparr>ur_text = lit ''https://example.com/app/'', ur_scheme = lit ''https'', ur_username = [], ur_password = None,
        ur_host = Some (HostDomain (lit ''example.com'')),
        ur_host_str = Some (lit ''example.com''), ur_port = Some 443, ur_explicit_port = None, ur_path = lit ''/app/'', ur_query = None,
        ur_query_pairs = [], ur_fragment = None\<rparr>,
      vu_host = lit ''example.com'', vu_host_is_ip = False, vu_secure = True\<rparr>"

definition example_record :: cookie_record where
  "example_record = host_bound_record example_target None \<lparr>cp_name = lit ''sid'', cp_value = lit ''1''\<rparr>"

definition example_import :: cookie_import where
  "example_import = \<lparr>im_source = 1, im_records = [example_record], im_bytes = 16\<rparr>"

definition example_jar :: cookie_jar where
  "example_jar = \<lparr>jr_entries = [example_record], jr_record_count = 1, jr_byte_count = 16\<rparr>"

lemmas example_defs = example_target_def example_record_def example_import_def example_jar_def host_bound_record_def lit_def

lemma example_jar_built: "jar_from_imports [1] [example_import] = Inr example_jar"
  by (simp add: jar_from_imports_def insert_records_def example_defs limit_defs)

lemma example_header: "header_for example_jar example_target 0 = Inr (Some (lit ''sid=1''))"
proof -
  have "applies example_target 0 example_record"
    by (auto simp: applies_def domain_applies_def path_applies_def ends_with_def example_defs)
  then show ?thesis
    by (simp add: header_for_eq Let_def sort_cmp_def pair_text_def record_pair_def str_len_def utf8_char_def example_defs limit_defs)
qed

text \<open>
  C18: what a request carries. For a jar built from imports the header holds exactly the cookies
  that apply to the URL at that time, longest path first, as name and value pairs; there is none
  when no cookie applies, and an error exactly when the text would exceed 64 KiB. The order an
  iteration over the hash map gives does not matter.
\<close>

theorem cookie_header_exact:
  assumes "jar_from_imports order ims = Inr jar"
  shows "\<exists>cookies. mset cookies = mset (filter (applies target now) (jr_entries jar)) \<and>
    sorted_wrt (\<lambda>l r. str_len (ci_path (fst r)) \<le> str_len (ci_path (fst l))) cookies \<and>
    header_for jar target now =
      (if cookies = [] then Inr None
       else if str_len (header_text (map record_pair cookies)) \<le> MAX_COOKIE_HEADER_BYTES
       then Inr (Some (header_text (map record_pair cookies))) else Inl HeaderTooLarge) \<and>
    (\<forall>iterated. mset iterated = mset (jr_entries jar) \<longrightarrow>
       header_for (jar\<lparr>jr_entries := iterated\<rparr>) target now = header_for jar target now)"
proof -
  let ?cookies = "sort_cmp cookie_cmp (filter (applies target now) (jr_entries jar))"
  have "header_for (jar\<lparr>jr_entries := iterated\<rparr>) target now = header_for jar target now"
    if "mset iterated = mset (jr_entries jar)" for iterated
  proof -
    have "mset (filter (applies target now) (jr_entries jar)) = mset (filter (applies target now) iterated)"
      using that by simp
    moreover have "distinct (map fst (filter (applies target now) (jr_entries jar)))"
      using jar_entries_distinct [OF assms] distinct_map_filter by blast
    ultimately have "?cookies = sort_cmp cookie_cmp (filter (applies target now) iterated)" by (rule sorted_cookies_canonical)
    then show ?thesis by (simp add: header_for_eq)
  qed
  then have order: "\<forall>iterated. mset iterated = mset (jr_entries jar) \<longrightarrow>
      header_for (jar\<lparr>jr_entries := iterated\<rparr>) target now = header_for jar target now" by blast
  show ?thesis
  proof (intro exI conjI)
    show "mset ?cookies = mset (filter (applies target now) (jr_entries jar))" by simp
  qed (rule sorted_cookies_paths, simp only: header_for_eq Let_def, rule order)
qed

theorem cookie_header_exact_witness:
  "header_for example_jar example_target 0 = Inr (Some (lit ''sid=1'')) \<and>
   (\<exists>cookies. mset cookies = mset (filter (applies example_target 0) (jr_entries example_jar)) \<and>
    sorted_wrt (\<lambda>l r. str_len (ci_path (fst r)) \<le> str_len (ci_path (fst l))) cookies \<and>
    header_for example_jar example_target 0 =
      (if cookies = [] then Inr None
       else if str_len (header_text (map record_pair cookies)) \<le> MAX_COOKIE_HEADER_BYTES
       then Inr (Some (header_text (map record_pair cookies))) else Inl HeaderTooLarge))"
proof
  show "header_for example_jar example_target 0 = Inr (Some (lit ''sid=1''))" by (rule example_header)
qed (use cookie_header_exact [OF example_jar_built, of example_target 0] in blast)

section \<open>One source\<close>

lemma import_rank_inject: "import_rank order s = Some n \<Longrightarrow> import_rank order t = Some n \<Longrightarrow> s = t"
  by (induction order arbitrary: n) (auto split: if_splits)

lemma find_sorted_least:
  "sorted (map f xs) \<Longrightarrow> find P xs = Some x \<Longrightarrow> x \<in> set xs \<and> P x \<and> (\<forall>y\<in>set xs. P y \<longrightarrow> f x \<le> f y)"
  by (induction xs) (auto split: if_splits)

definition source_rank :: "nat list \<Rightarrow> cookie_import \<Rightarrow> nat" where
  "source_rank order i = (case import_rank order (im_source i) of Some n \<Rightarrow> n | None \<Rightarrow> usize_max)"

definition imports_ok :: "nat list \<Rightarrow> cookie_import list \<Rightarrow> bool" where
  "imports_ok order ims \<longleftrightarrow> length ims \<le> length order \<and>
     (\<forall>i\<in>set ims. import_rank order (im_source i) \<noteq> None) \<and> distinct (map im_source ims)"

definition selected_import :: "nat list \<Rightarrow> cookie_import list \<Rightarrow> cookie_import option" where
  "selected_import order ims = find (\<lambda>i. im_records i \<noteq> []) (sort_key (source_rank order) ims)"

lemma jar_from_imports_eq:
  "jar_from_imports order ims =
     (if \<not> imports_ok order ims then Inl InvalidImportOrder
      else case selected_import order ims of
        None \<Rightarrow> Inr \<lparr>jr_entries = [], jr_record_count = 0, jr_byte_count = 0\<rparr>
      | Some i \<Rightarrow>
          if length (im_records i) > MAX_COOKIE_JAR_RECORDS \<or> im_bytes i > MAX_COOKIE_JAR_BYTES then Inl JarTooLarge
          else Inr \<lparr>jr_entries = insert_records (im_records i), jr_record_count = length (im_records i), jr_byte_count = im_bytes i\<rparr>)"
  by (auto simp: jar_from_imports_def imports_ok_def selected_import_def source_rank_def [abs_def] list_ex_iff Let_def)

lemma imports_ok_mset: "mset ims = mset ims' \<Longrightarrow> imports_ok order ims \<longleftrightarrow> imports_ok order ims'"
  using mset_eq_setD [of ims ims'] mset_eq_length [of ims ims']
    mset_eq_imp_distinct_iff [of "map im_source ims" "map im_source ims'"]
  by (simp add: imports_ok_def)

lemma selected_import_least:
  assumes "selected_import order ims = Some i"
  shows "i \<in> set ims \<and> im_records i \<noteq> [] \<and> (\<forall>j\<in>set ims. im_records j \<noteq> [] \<longrightarrow> source_rank order i \<le> source_rank order j)"
  using find_sorted_least [of "source_rank order" "sort_key (source_rank order) ims" "\<lambda>i. im_records i \<noteq> []" i] assms
  by (simp add: selected_import_def)

lemma selected_import_None: "selected_import order ims = None \<longleftrightarrow> (\<forall>i\<in>set ims. im_records i = [])"
  by (auto simp: selected_import_def find_None_iff)

lemma source_unique:
  assumes "imports_ok order ims" "i \<in> set ims" "j \<in> set ims" "source_rank order i = source_rank order j"
  shows "i = j"
proof -
  obtain m n where "import_rank order (im_source i) = Some m" "import_rank order (im_source j) = Some n"
    using assms(1-3) unfolding imports_ok_def by blast
  with assms(4) have "im_source i = im_source j" using import_rank_inject by (simp add: source_rank_def)
  with assms show ?thesis by (auto simp: imports_ok_def distinct_map dest: inj_onD)
qed

lemma selected_import_mset:
  assumes "mset ims = mset ims'" "imports_ok order ims"
  shows "selected_import order ims = selected_import order ims'"
proof (cases "selected_import order ims")
  case None
  then show ?thesis using mset_eq_setD [OF assms(1)] selected_import_None by metis
next
  case (Some i)
  then obtain j where j: "selected_import order ims' = Some j"
    using mset_eq_setD [OF assms(1)] selected_import_None by (metis not_None_eq)
  note least = selected_import_least [OF Some] selected_import_least [OF j]
  have sets: "set ims = set ims'" by (rule mset_eq_setD [OF assms(1)])
  have "source_rank order i = source_rank order j" using least sets by (auto intro: antisym)
  then have "i = j" using source_unique [OF assms(2)] least sets by blast
  with Some j show ?thesis by simp
qed

text \<open>
  a jar holds the cookies of one source. It is built from the import of the best rank that has
  any records, whatever order the imports come in, with the last of repeated records winning;
  nothing of the other imports enters it. Imports of unlisted or repeated sources are refused.
\<close>

theorem jar_takes_one_source:
  assumes "jar_from_imports order ims = Inr jar"
  shows "(if \<forall>i\<in>set ims. im_records i = [] then jr_entries jar = []
    else \<exists>i\<in>set ims. im_records i \<noteq> [] \<and>
      (\<forall>j\<in>set ims. im_records j \<noteq> [] \<longrightarrow> the (import_rank order (im_source i)) \<le> the (import_rank order (im_source j))) \<and>
      map_of (jr_entries jar) = map_of (rev (im_records i)) \<and> distinct (map fst (jr_entries jar)) \<and>
      jr_record_count jar = length (im_records i)) \<and>
    (\<forall>shuffled. mset shuffled = mset ims \<longrightarrow> jar_from_imports order shuffled = Inr jar) \<and>
    (\<forall>i\<in>set ims. im_source i \<in> set order) \<and> distinct (map im_source ims)"
proof -
  have ok: "imports_ok order ims" using assms by (simp add: jar_from_imports_eq split: if_splits)
  have listed: "import_rank xs s \<noteq> None \<longleftrightarrow> s \<in> set xs" for xs s by (induction xs) auto
  have rank: "source_rank order i = the (import_rank order (im_source i))" if "i \<in> set ims" for i
    using ok that by (auto simp: imports_ok_def source_rank_def)
  have "jar_from_imports order shuffled = Inr jar" if "mset shuffled = mset ims" for shuffled
    using assms imports_ok_mset [OF that] selected_import_mset [OF that] ok by (simp add: jar_from_imports_eq)
  moreover have "if \<forall>i\<in>set ims. im_records i = [] then jr_entries jar = []
    else \<exists>i\<in>set ims. im_records i \<noteq> [] \<and>
      (\<forall>j\<in>set ims. im_records j \<noteq> [] \<longrightarrow> the (import_rank order (im_source i)) \<le> the (import_rank order (im_source j))) \<and>
      map_of (jr_entries jar) = map_of (rev (im_records i)) \<and> distinct (map fst (jr_entries jar)) \<and>
      jr_record_count jar = length (im_records i)"
  proof (cases "selected_import order ims")
    case None
    then have "jr_entries jar = []" using assms ok by (auto simp: jar_from_imports_eq)
    with None show ?thesis by (simp add: selected_import_None)
  next
    case (Some i)
    then have jar: "jr_entries jar = insert_records (im_records i)" "jr_record_count jar = length (im_records i)"
      using assms ok by (auto simp: jar_from_imports_eq split: if_splits)
    note least = selected_import_least [OF Some]
    from least have "\<not> (\<forall>i\<in>set ims. im_records i = [])" by blast
    moreover have "\<forall>j\<in>set ims. im_records j \<noteq> [] \<longrightarrow> the (import_rank order (im_source i)) \<le> the (import_rank order (im_source j))"
      using least rank by metis
    ultimately show ?thesis
      using least jar by (simp add: insert_records_map_of insert_records_distinct) blast
  qed
  ultimately show ?thesis using ok listed by (simp add: imports_ok_def)
qed

theorem jar_takes_one_source_witness:
  "jar_from_imports [1] [example_import] = Inr example_jar \<and> distinct (map fst (jr_entries example_jar)) \<and>
   map_of (jr_entries example_jar) = map_of (rev (im_records example_import))"
proof -
  have "im_records example_import \<noteq> []" by (simp add: example_import_def)
  then show ?thesis using jar_takes_one_source [OF example_jar_built] example_jar_built by simp
qed

section \<open>Captures stay with their host\<close>

lemma insert_records_set: "set (insert_records rs) \<subseteq> set rs"
proof
  fix e assume "e \<in> set (insert_records rs)"
  then have "map_of (rev rs) (fst e) = Some (snd e)"
    using insert_records_distinct insert_records_map_of by (metis map_of_is_SomeI prod.collapse)
  then show "e \<in> set rs" by (metis map_of_SomeD prod.collapse set_rev)
qed

text \<open>
  C19: a manual capture never leaves the host it was bound to. Whatever was pasted for a URL, a jar
  built from it gives a header only for requests to that very host, subdomains excluded, and over
  HTTPS only when it was captured for HTTPS.
\<close>

theorem capture_stays_on_host:
  assumes "import_from_host_only_capture source raw target expires_at = Inr import"
    and "jar_from_imports [source] [import] = Inr jar" and "header_for jar other now \<noteq> Inr None"
  shows "vu_host other = vu_host target \<and> (vu_secure target \<longrightarrow> vu_secure other) \<and>
    (\<forall>t. expires_at = Some t \<longrightarrow> now < t) \<and> (\<exists>pairs. normalize_capture (Some raw) = Inr (Some pairs) \<and>
      (\<forall>r\<in>set (jr_entries jar). record_pair r \<in> set pairs))"
proof -
  obtain pairs where pairs: "normalize_capture (Some raw) = Inr (Some pairs)"
    "im_records import = map (host_bound_record target expires_at) pairs"
    using assms(1) by (auto simp: import_from_host_only_capture_def import_from_normalized_host_only_def
        cookie_import_new_def result_simps split: if_splits)
  have sel: "selected_import [source] [import] = (if im_records import = [] then None else Some import)"
    by (simp add: selected_import_def)
  then have entries: "set (jr_entries jar) \<subseteq> host_bound_record target expires_at ` set pairs"
    using assms(2) pairs(2) insert_records_set [of "im_records import"]
    by (auto simp: jar_from_imports_eq split: if_splits)
  have "filter (applies other now) (jr_entries jar) \<noteq> []" using assms(3) by (auto simp: header_for_eq sort_cmp_def)
  then obtain r where "r \<in> set (jr_entries jar)" "applies other now r" by (auto simp: filter_empty_conv)
  with entries obtain p where "applies other now (host_bound_record target expires_at p)" by blast
  then have "vu_host other = vu_host target \<and> (vu_secure target \<longrightarrow> vu_secure other) \<and> (\<forall>t. expires_at = Some t \<longrightarrow> now < t)"
    by (auto simp: applies_def domain_applies_def host_bound_record_def)
  moreover have "record_pair (host_bound_record target expires_at p) = p" for p
    by (cases p) (simp add: record_pair_def host_bound_record_def)
  ultimately show ?thesis using pairs(1) entries by force
qed

lemmas capture_eval = normalize_capture_def extract_cookie_capture_def strip_ascii_case_prefix_def strip_outer_quotes_def
  owned_nonempty_def parse_cookie_pairs_def validate_cookie_name_def validate_cookie_value_def split_once_def
  starts_with_def ends_with_def eq_ignore_ascii_case_def to_ascii_lowercase_def cookie_name_byte_def cookie_value_byte_def
  trim_def is_whitespace_def is_control_def checked_add_def str_len_def utf8_char_def lit_def limit_defs

theorem capture_stays_on_host_witness:
  "header_for example_jar example_target 0 \<noteq> Inr None \<and>
   (\<exists>pairs. normalize_capture (Some (lit ''Cookie: sid=1'')) = Inr (Some pairs) \<and>
      (\<forall>r\<in>set (jr_entries example_jar). record_pair r \<in> set pairs))"
proof -
  have "normalize_capture (Some (lit ''Cookie: sid=1'')) = Inr (Some [\<lparr>cp_name = lit ''sid'', cp_value = lit ''1''\<rparr>])"
    by (simp add: capture_eval)
  then have "import_from_host_only_capture 1 (lit ''Cookie: sid=1'') example_target None = Inr example_import"
    by (simp add: import_from_host_only_capture_def import_from_normalized_host_only_def cookie_import_new_def
        record_byte_len_def checked_add_def str_len_def utf8_char_def example_defs limit_defs)
  moreover have "header_for example_jar example_target 0 \<noteq> Inr None" by (simp add: example_header)
  ultimately show ?thesis
    using capture_stays_on_host [OF _ example_jar_built, of "lit ''Cookie: sid=1''" example_target None example_target 0] by blast
qed

end
