(* ===== verification/Endpoint_Policy.thy ===== *)
theory Endpoint_Policy
  imports Text_And_Urls Classified_Error
begin

text \<open>
  The exact-origin policy checked before credentials are attached to a request
  (\<open>crates/providers/src/endpoint.rs\<close>) and the validation of configured self-hosted endpoints
  (\<open>crates/providers/src/configured_endpoint.rs\<close>). Reading a URL and editing its path belong to
  the URL library and are parameters.
\<close>

section \<open>Network classes\<close>

definition MAX_APPROVED_ORIGINS :: nat where [limit_defs]: "MAX_APPROVED_ORIGINS = 32"

datatype endpoint_class = PublicHttps | LoopbackDevelopment | PrivateHttps | PrivateHttp

datatype endpoint_error =
  InvalidUrl | InvalidOrigin | InsecureScheme | DisallowedHost | UnapprovedOrigin | ForbiddenUrlComponent
| SensitiveQuery | InvalidOriginCount

definition is_https :: "str \<Rightarrow> bool" where
  "is_https scheme \<longleftrightarrow> scheme = lit ''https''"

definition is_http :: "str \<Rightarrow> bool" where
  "is_http scheme \<longleftrightarrow> scheme = lit ''http''"

definition ends_with_dns_label :: "str \<Rightarrow> str \<Rightarrow> bool" where
  "ends_with_dns_label domain label \<longleftrightarrow>
     is_some_and (\<lambda>(_, suffix). eq_ignore_ascii_case suffix label) (rsplit_once 46 domain)"

definition is_public_ipv4 :: "ipv4 \<Rightarrow> bool" where
  "is_public_ipv4 address \<longleftrightarrow>
     \<not> (ipv4_is_private address \<or> ipv4_is_loopback address \<or> ipv4_is_link_local address \<or> ipv4_is_broadcast address \<or>
        ipv4_is_documentation address \<or> ipv4_is_multicast address \<or> ipv4_is_unspecified address \<or>
        ipv4_octets address ! 0 = 0)"

definition is_public_ipv6 :: "ipv6 \<Rightarrow> bool" where
  "is_public_ipv6 address \<longleftrightarrow>
     (let segments = ipv6_segments address in
      \<not> (ipv6_is_loopback address \<or> ipv6_is_unspecified address \<or> ipv6_is_multicast address \<or>
         segments ! 0 AND 0xfe00 = 0xfc00 \<or> segments ! 0 AND 0xffc0 = 0xfe80 \<or>
         segments ! 0 = 0x2001 \<and> segments ! 1 = 0x0db8))"

fun is_public_host :: "host \<Rightarrow> bool" where
  "is_public_host (HostDomain domain) \<longleftrightarrow>
     (let domain = map to_ascii_lowercase domain in
      46 \<in> set domain \<and> domain \<noteq> lit ''localhost'' \<and> \<not> ends_with_dns_label domain (lit ''localhost'') \<and>
      \<not> ends_with_dns_label domain (lit ''local''))"
| "is_public_host (HostIpv4 address) \<longleftrightarrow> is_public_ipv4 address"
| "is_public_host (HostIpv6 address) \<longleftrightarrow> is_public_ipv6 address"

fun is_loopback_host :: "host \<Rightarrow> bool" where
  "is_loopback_host (HostDomain domain) \<longleftrightarrow>
     eq_ignore_ascii_case domain (lit ''localhost'') \<or> ends_with_dns_label domain (lit ''localhost'')"
| "is_loopback_host (HostIpv4 address) \<longleftrightarrow> ipv4_is_loopback address"
| "is_loopback_host (HostIpv6 address) \<longleftrightarrow> ipv6_is_loopback address"

fun is_private_http_host :: "host \<Rightarrow> bool" where
  "is_private_http_host (HostDomain domain) \<longleftrightarrow>
     (let domain = trim_end_matches 46 domain in domain \<noteq> [] \<and> ends_with_dns_label domain (lit ''local''))"
| "is_private_http_host (HostIpv4 address) \<longleftrightarrow> ipv4_is_private address \<or> ipv4_is_link_local address"
| "is_private_http_host (HostIpv6 address) \<longleftrightarrow>
     (let first = ipv6_segments address ! 0 in first AND 0xfe00 = 0xfc00 \<or> first AND 0xffc0 = 0xfe80)"

definition validate_scheme :: "str \<Rightarrow> endpoint_class \<Rightarrow> (unit, endpoint_error) result" where
  "validate_scheme scheme class =
     (if (class = PublicHttps \<or> class = PrivateHttps) \<and> is_https scheme then Inr ()
      else if class = PrivateHttp \<and> is_http scheme then Inr ()
      else if class = LoopbackDevelopment \<and> (is_https scheme \<or> is_http scheme) then Inr ()
      else Inl InsecureScheme)"

definition validate_host_class :: "url \<Rightarrow> endpoint_class \<Rightarrow> (unit, endpoint_error) result" where
  "validate_host_class url class =
     and_then (validate_scheme (ur_scheme url) class) (\<lambda>_.
     and_then (ok_or InvalidUrl (ur_host url)) (\<lambda>host.
     let allowed =
       (case class of
         PublicHttps \<Rightarrow> is_public_host host
       | LoopbackDevelopment \<Rightarrow> is_loopback_host host
       | PrivateHttps \<Rightarrow> \<not> is_public_host host \<and> \<not> is_loopback_host host
       | PrivateHttp \<Rightarrow> is_private_http_host host) in
     if allowed then Inr () else Inl DisallowedHost))"

definition classify_https_endpoint :: "url \<Rightarrow> (endpoint_class, endpoint_error) result" where
  "classify_https_endpoint url =
     (if ur_username url \<noteq> [] \<or> ur_password url \<noteq> None \<or> ur_query url \<noteq> None \<or> ur_fragment url \<noteq> None \<or>
         \<not> is_https (ur_scheme url)
      then Inl InvalidUrl
      else
        and_then (ok_or InvalidUrl (ur_host url)) (\<lambda>host.
        if is_loopback_host host then Inr LoopbackDevelopment
        else if is_public_host host then Inr PublicHttps
        else Inr PrivateHttps))"

section \<open>The allowlist\<close>

record approved_origin =
  ao_scheme :: str
  ao_host :: str
  ao_port :: nat
  ao_class :: endpoint_class

definition normalized_port :: "url \<Rightarrow> (nat, endpoint_error) result" where
  "normalized_port url = ok_or InvalidUrl (ur_port url)"

definition approved_origin_parse :: "url \<Rightarrow> endpoint_class \<Rightarrow> (approved_origin, endpoint_error) result" where
  "approved_origin_parse url class =
     (if ur_username url \<noteq> [] \<or> ur_password url \<noteq> None \<or> ur_query url \<noteq> None \<or> ur_fragment url \<noteq> None \<or>
         ur_path url \<noteq> lit ''/''
      then Inl InvalidOrigin
      else
        and_then (validate_scheme (ur_scheme url) class) (\<lambda>_.
        and_then (validate_host_class url class) (\<lambda>_.
        and_then (ok_or InvalidUrl (ur_host_str url)) (\<lambda>host.
        and_then (normalized_port url) (\<lambda>port.
        Inr \<lparr>ao_scheme = ur_scheme url, ao_host = map to_ascii_lowercase host, ao_port = port, ao_class = class\<rparr>)))))"

fun parse_origins ::
    "(str \<Rightarrow> url option) \<Rightarrow> (str \<times> endpoint_class) list \<Rightarrow> approved_origin list \<Rightarrow>
     (approved_origin list, endpoint_error) result" where
  "parse_origins url_parse [] parsed = Inr parsed"
| "parse_origins url_parse ((origin, class) # origins) parsed =
     (if length parsed = MAX_APPROVED_ORIGINS then Inl InvalidOriginCount
      else
        and_then (ok_or InvalidUrl (url_parse origin)) (\<lambda>origin.
        and_then (approved_origin_parse origin class) (\<lambda>origin.
        parse_origins url_parse origins (parsed @ [origin]))))"

definition origin_key :: "approved_origin \<Rightarrow> str \<times> str \<times> nat" where
  "origin_key origin = (ao_scheme origin, ao_host origin, ao_port origin)"

text \<open>\<open>dedup_by\<close> compares an element with the last one kept.\<close>

fun dedup_origins :: "approved_origin list \<Rightarrow> approved_origin list" where
  "dedup_origins [] = []"
| "dedup_origins [origin] = [origin]"
| "dedup_origins (l # r # origins) =
     (if ao_scheme l = ao_scheme r \<and> ao_host l = ao_host r \<and> ao_port l = ao_port r then dedup_origins (l # origins)
      else l # dedup_origins (r # origins))"

definition endpoint_policy_new ::
    "(str \<Rightarrow> url option) \<Rightarrow> (str \<times> endpoint_class) list \<Rightarrow> (approved_origin list, endpoint_error) result" where
  "endpoint_policy_new url_parse origins =
     and_then (parse_origins url_parse origins []) (\<lambda>parsed.
     if parsed = [] then Inl InvalidOriginCount
     else Inr (dedup_origins (sort_key origin_key parsed)))"

definition sensitive_query_names :: "str list" where
  "sensitive_query_names = map lit
     [''api_key'', ''apikey'', ''key'', ''token'', ''access_token'', ''auth'', ''authorization'', ''bearer'',
      ''client_secret'', ''credential'', ''credentials'', ''jwt'', ''secret'', ''session_key'', ''session_token'',
      ''password'', ''sig'', ''signature'']"

definition normalized_query_name :: "str \<Rightarrow> str" where
  "normalized_query_name name = map (\<lambda>c. if c = 45 then 95 else c) (map to_ascii_lowercase name)"

definition validate_request_components :: "url \<Rightarrow> (unit, endpoint_error) result" where
  "validate_request_components url =
     (if ur_username url \<noteq> [] \<or> ur_password url \<noteq> None \<or> ur_fragment url \<noteq> None then Inl ForbiddenUrlComponent
      else if list_ex (\<lambda>(name, _). normalized_query_name name \<in> set sensitive_query_names) (ur_query_pairs url)
      then Inl SensitiveQuery
      else Inr ())"

record validated_endpoint =
  ve_url :: url
  ve_class :: endpoint_class

definition endpoint_validate :: "approved_origin list \<Rightarrow> url \<Rightarrow> (validated_endpoint, endpoint_error) result" where
  "endpoint_validate origins url =
     and_then (validate_request_components url) (\<lambda>_.
     and_then (ok_or InvalidUrl (ur_host_str url)) (\<lambda>host.
     and_then (normalized_port url) (\<lambda>port.
     case find (\<lambda>origin. ao_scheme origin = ur_scheme url \<and> eq_ignore_ascii_case (ao_host origin) host \<and>
         ao_port origin = port) origins of
       None \<Rightarrow> Inl UnapprovedOrigin
     | Some approved \<Rightarrow>
         and_then (validate_host_class url (ao_class approved)) (\<lambda>_.
         Inr \<lparr>ve_url = url, ve_class = ao_class approved\<rparr>))))"

section \<open>Configured endpoints\<close>

definition MAX_PATH_SEGMENTS :: nat where [limit_defs]: "MAX_PATH_SEGMENTS = 32"
definition MAX_PATH_SEGMENT_BYTES :: nat where [limit_defs]: "MAX_PATH_SEGMENT_BYTES = 1024"

datatype configured_http_policy = ConfiguredHttpsOnly | ConfiguredLoopbackHttp | PrivateNetworkHttp

definition clean_setting :: "str \<Rightarrow> str option" where
  "clean_setting raw =
     (let v = trim raw;
          v = (if str_len v \<ge> 2 \<and> (starts_with 34 v \<and> ends_with 34 v \<or> starts_with 39 v \<and> ends_with 39 v)
               then butlast (tl v) else v);
          v = trim v in
      if v \<noteq> [] then Some v else None)"

definition has_explicit_scheme :: "str \<Rightarrow> bool" where
  "has_explicit_scheme raw \<longleftrightarrow>
     58 \<in> set raw \<and>
     (let scheme = takeWhile (\<lambda>c. c \<noteq> 58) raw in
      scheme \<noteq> [] \<and>
      list_all (\<lambda>(index, byte).
          if index = 0 then is_ascii_alphabetic byte else is_ascii_alphanumeric byte \<or> byte \<in> {43, 45, 46})
        (enumerate (0::nat) (as_bytes scheme)))"

fun is_loopback :: "host \<Rightarrow> bool" where
  "is_loopback (HostDomain domain) \<longleftrightarrow> eq_ignore_ascii_case domain (lit ''localhost'')"
| "is_loopback (HostIpv4 address) \<longleftrightarrow> ipv4_is_loopback address"
| "is_loopback (HostIpv6 address) \<longleftrightarrow> ipv6_is_loopback address"

fun is_private_network :: "host \<Rightarrow> bool" where
  "is_private_network (HostDomain domain) \<longleftrightarrow>
     is_some_and (\<lambda>(_, suffix). eq_ignore_ascii_case suffix (lit ''local'')) (rsplit_once 46 (trim_end_matches 46 domain))"
| "is_private_network (HostIpv4 address) \<longleftrightarrow> ipv4_is_private address \<or> ipv4_is_link_local address"
| "is_private_network (HostIpv6 address) \<longleftrightarrow>
     (let first = ipv6_segments address ! 0 in first AND 0xfe00 = 0xfc00 \<or> first AND 0xffc0 = 0xfe80)"

definition classify_http_endpoint :: "url \<Rightarrow> configured_http_policy \<Rightarrow> (endpoint_class, classified_error) result" where
  "classify_http_endpoint url policy =
     and_then (ok_or (classified_error_new Api) (ur_host url)) (\<lambda>host.
     if is_loopback host then
       (case policy of ConfiguredHttpsOnly \<Rightarrow> Inl (classified_error_new Api) | _ \<Rightarrow> Inr LoopbackDevelopment)
     else if policy = PrivateNetworkHttp \<and> is_private_network host then Inr PrivateHttp
     else Inl (classified_error_new Api))"

record configured_endpoint =
  ce_url :: url
  ce_class :: endpoint_class

definition configured_endpoint_parse ::
    "(str \<Rightarrow> url option) \<Rightarrow> str \<Rightarrow> configured_http_policy \<Rightarrow> (configured_endpoint, classified_error) result" where
  "configured_endpoint_parse url_parse raw policy =
     and_then (ok_or (classified_error_new Api) (clean_setting raw)) (\<lambda>raw.
     if \<not> has_explicit_scheme raw then Inl (classified_error_new Api)
     else
       and_then (ok_or (classified_error_new Api) (url_parse raw)) (\<lambda>url.
       if ur_username url \<noteq> [] \<or> ur_password url \<noteq> None \<or> ur_host_str url = None \<or> ur_query url \<noteq> None \<or>
          ur_fragment url \<noteq> None
       then Inl (classified_error_new Api)
       else
         and_then
           (if ur_scheme url = lit ''https'' then map_err (\<lambda>_. classified_error_new Api) (classify_https_endpoint url)
            else if ur_scheme url = lit ''http'' then classify_http_endpoint url policy
            else Inl (classified_error_new Api)) (\<lambda>class.
         Inr \<lparr>ce_url = url, ce_class = class\<rparr>)))"

text \<open>
  The path editor of the URL library: \<open>pe_segments\<close> lists the segments, \<open>pe_edit\<close> drops an empty
  last segment, pops a further one when asked, and pushes segments; a URL that cannot be a base has
  neither.
\<close>

record path_editor =
  pe_segments :: "url \<Rightarrow> str list option"
  pe_edit :: "url \<Rightarrow> bool \<Rightarrow> str list \<Rightarrow> url option"

definition configured_endpoint_path ::
    "path_editor \<Rightarrow> configured_endpoint \<Rightarrow> str option \<Rightarrow> str list \<Rightarrow> (url, classified_error) result" where
  "configured_endpoint_path editor endpoint strip_terminal segments =
     (if segments = [] \<or> length segments > MAX_PATH_SEGMENTS \<or>
         list_ex (\<lambda>segment. segment = [] \<or> str_len segment > MAX_PATH_SEGMENT_BYTES \<or>
           segment = lit ''.'' \<or> segment = lit ''..'' \<or> list_ex (\<lambda>c. c \<in> {47, 92, 63, 35}) segment) segments
      then Inl (classified_error_new Api)
      else
        let should_strip = is_some_and (\<lambda>terminal.
          Option.bind (pe_segments editor (ce_url endpoint)) (\<lambda>vs. find (\<lambda>v. v \<noteq> []) (rev vs)) = Some terminal) strip_terminal in
        ok_or (classified_error_new Api) (pe_edit editor (ce_url endpoint) should_strip segments))"

section \<open>What the policy admits\<close>

text \<open>The hosts that plain HTTP may reach, written as the address blocks are documented.\<close>

definition last_label :: "str \<Rightarrow> str" where
  "last_label domain = rev (takeWhile (\<lambda>c. c \<noteq> 46) (rev domain))"

fun local_host :: "host \<Rightarrow> bool" where
  "local_host (HostDomain domain) \<longleftrightarrow>
     map to_ascii_lowercase (last_label (trim_end_matches 46 domain)) \<in> {lit ''localhost'', lit ''local''}"
| "local_host (HostIpv4 (Ipv4 a b c d)) \<longleftrightarrow>
     a = 127 \<or> a = 10 \<or> a = 172 \<and> b \<in> {16..31} \<or> a = 192 \<and> b = 168 \<or> a = 169 \<and> b = 254"
| "local_host (HostIpv6 (Ipv6 a b c d e f g h)) \<longleftrightarrow>
     [a, b, c, d, e, f, g, h] = [0, 0, 0, 0, 0, 0, 0, 1] \<or> a \<in> {0xfc00..0xfdff} \<or> a \<in> {0xfe80..0xfebf}"

lemma lowercase_idem [simp]: "to_ascii_lowercase (to_ascii_lowercase c) = to_ascii_lowercase c"
  by (simp add: to_ascii_lowercase_def)

lemma lowercase_map_idem [simp]: "map to_ascii_lowercase (map to_ascii_lowercase s) = map to_ascii_lowercase s"
  by simp

lemma dns_label_iff:
  "ends_with_dns_label domain label \<longleftrightarrow>
     46 \<in> set domain \<and> map to_ascii_lowercase (last_label domain) = map to_ascii_lowercase label"
  by (simp add: ends_with_dns_label_def rsplit_once_def split_once_def is_some_and_iff eq_ignore_ascii_case_def last_label_def)

lemma last_label_whole: "46 \<notin> set domain \<Longrightarrow> last_label domain = domain"
proof -
  assume "46 \<notin> set domain"
  then have "takeWhile (\<lambda>c. c \<noteq> 46) (rev domain) = rev domain" by (auto simp: takeWhile_eq_all_conv)
  then show ?thesis by (simp only: last_label_def rev_rev_ident)
qed

lemma trim_end_last: "last_label domain \<noteq> [] \<Longrightarrow> trim_end_matches 46 domain = domain"
  by (cases "rev domain") (auto simp: last_label_def trim_end_matches_def split: if_splits)

lemma lowercase_dot: "map to_ascii_lowercase s = lit ''localhost'' \<Longrightarrow> 46 \<notin> set s"
proof
  assume "map to_ascii_lowercase s = lit ''localhost''" "46 \<in> set s"
  then have "to_ascii_lowercase 46 \<in> set (lit ''localhost'')" by (metis image_eqI list.set_map)
  then show False by (simp add: to_ascii_lowercase_def lit_def)
qed

lemma loopback_local: "is_loopback_host host \<Longrightarrow> local_host host"
proof (cases host)
  case (HostDomain domain)
  assume "is_loopback_host host"
  then have "map to_ascii_lowercase (last_label domain) = lit ''localhost''"
    using HostDomain last_label_whole [of domain] lowercase_dot [of domain]
    by (auto simp: dns_label_iff eq_ignore_ascii_case_def lit_def to_ascii_lowercase_def)
  then show ?thesis using HostDomain trim_end_last [of domain] by (auto simp: lit_def)
next
  case (HostIpv4 address)
  then show "is_loopback_host host \<Longrightarrow> ?thesis" by (cases address) simp
next
  case (HostIpv6 address)
  then show "is_loopback_host host \<Longrightarrow> ?thesis" by (cases address) (simp add: ipv6_is_loopback_def)
qed

lemma private_local: "is_private_http_host host \<Longrightarrow> local_host host"
proof (cases host)
  case (HostDomain domain)
  then show "is_private_http_host host \<Longrightarrow> ?thesis"
    by (auto simp: Let_def dns_label_iff lit_def to_ascii_lowercase_def)
next
  case (HostIpv4 address)
  then show "is_private_http_host host \<Longrightarrow> ?thesis" by (cases address) auto
next
  case (HostIpv6 address)
  then show "is_private_http_host host \<Longrightarrow> ?thesis" by (cases address) (auto simp: mask_high_bits Let_def)
qed

lemma host_class_sound:
  "validate_host_class url class = Inr u \<Longrightarrow>
     is_https (ur_scheme url) \<or> is_http (ur_scheme url) \<and> (\<exists>h. ur_host url = Some h \<and> local_host h)"
  by (cases "class")
    (auto simp: validate_host_class_def validate_scheme_def result_simps Let_def is_https_def is_http_def lit_def
      intro: loopback_local private_local split: if_splits)

lemma host_class_cong:
  "ur_scheme u = ur_scheme v \<Longrightarrow> ur_host u = ur_host v \<Longrightarrow> validate_host_class u class = validate_host_class v class"
  by (simp add: validate_host_class_def)

lemma parse_origins_Inr:
  "parse_origins url_parse origins acc = Inr parsed \<Longrightarrow>
     \<exists>fresh. parsed = acc @ fresh \<and>
       list_all2 (\<lambda>(t, c) a. \<exists>o'. url_parse t = Some o' \<and> approved_origin_parse o' c = Inr a) origins fresh"
proof (induction origins arbitrary: acc)
  case (Cons p origins)
  obtain t c where p: "p = (t, c)" by (cases p)
  with Cons.prems obtain o' a where first: "url_parse t = Some o'" "approved_origin_parse o' c = Inr a"
    and rest: "parse_origins url_parse origins (acc @ [a]) = Inr parsed"
    by (auto simp: result_simps split: if_splits)
  from Cons.IH [OF rest] first p show ?case by auto
qed simp

lemma dedup_origins_set: "set (dedup_origins xs) \<subseteq> set xs \<and> origin_key ` set (dedup_origins xs) = origin_key ` set xs"
  by (induction xs rule: dedup_origins.induct) (auto simp: origin_key_def)

definition same_origin :: "url \<Rightarrow> url \<Rightarrow> bool" where
  "same_origin u v \<longleftrightarrow> ur_scheme u = ur_scheme v \<and> ur_port u = ur_port v \<and> ur_port u \<noteq> None \<and>
     ur_host_str u \<noteq> None \<and> ur_host_str v \<noteq> None \<and> eq_ignore_ascii_case (the (ur_host_str u)) (the (ur_host_str v))"

definition clean_request :: "url \<Rightarrow> bool" where
  "clean_request url \<longleftrightarrow> ur_username url = [] \<and> ur_password url = None \<and> ur_fragment url = None \<and>
     (\<forall>(name, v)\<in>set (ur_query_pairs url). normalized_query_name name \<notin> set sensitive_query_names)"

lemma request_components_iff: "validate_request_components url = Inr u \<longleftrightarrow> clean_request url"
  by (auto simp: validate_request_components_def clean_request_def list_ex_iff)

text \<open>An approved origin has the scheme, host and port of one of the configured URLs, in its class.\<close>

lemma approved_origin_parse_Inr:
  "approved_origin_parse u c = Inr a \<Longrightarrow>
     ao_scheme a = ur_scheme u \<and> ao_class a = c \<and> ur_port u = Some (ao_port a) \<and>
     map_option (map to_ascii_lowercase) (ur_host_str u) = Some (ao_host a) \<and> map to_ascii_lowercase (ao_host a) = ao_host a \<and>
     validate_host_class u c = Inr ()"
  by (auto simp: approved_origin_parse_def result_simps normalized_port_def split: if_splits)

definition configured_origin :: "(str \<Rightarrow> url option) \<Rightarrow> (str \<times> endpoint_class) list \<Rightarrow> url \<Rightarrow> endpoint_class \<Rightarrow> bool" where
  "configured_origin url_parse origins url class \<longleftrightarrow>
     (\<exists>t o'. (t, class) \<in> set origins \<and> url_parse t = Some o' \<and> same_origin o' url)"

lemma policy_origins:
  assumes "endpoint_policy_new url_parse origins = Inr policy"
  shows "a \<in> set policy \<Longrightarrow> \<exists>t c o'. (t, c) \<in> set origins \<and> url_parse t = Some o' \<and> approved_origin_parse o' c = Inr a"
    and "(t, c) \<in> set origins \<Longrightarrow> url_parse t = Some o' \<Longrightarrow>
      \<exists>a b. approved_origin_parse o' c = Inr b \<and> a \<in> set policy \<and> origin_key a = origin_key b"
proof -
  obtain parsed where p: "parse_origins url_parse origins [] = Inr parsed"
    and policy: "policy = dedup_origins (sort_key origin_key parsed)"
    using assms by (auto simp: endpoint_policy_new_def result_simps split: if_splits)
  from parse_origins_Inr [OF p] policy have parsed: "policy = dedup_origins (sort_key origin_key parsed)"
    "list_all2 (\<lambda>(t, c) a. \<exists>o'. url_parse t = Some o' \<and> approved_origin_parse o' c = Inr a) origins parsed" by simp_all
  have sets: "set policy \<subseteq> set parsed" "origin_key ` set policy = origin_key ` set parsed"
    using dedup_origins_set [of "sort_key origin_key parsed"] by (simp_all add: parsed(1))
  show "\<exists>t c o'. (t, c) \<in> set origins \<and> url_parse t = Some o' \<and> approved_origin_parse o' c = Inr a" if "a \<in> set policy"
  proof -
    have "a \<in> set parsed" using that sets(1) by blast
    then obtain i where i: "i < length parsed" "parsed ! i = a" by (auto simp: in_set_conv_nth)
    obtain t c where tc: "origins ! i = (t, c)" by (cases "origins ! i")
    moreover have "origins ! i \<in> set origins" using i(1) list_all2_lengthD [OF parsed(2)] by simp
    ultimately have "(t, c) \<in> set origins" by simp
    with list_all2_nthD2 [OF parsed(2) i(1)] tc i(2) show ?thesis by auto
  qed
  show "\<exists>a b. approved_origin_parse o' c = Inr b \<and> a \<in> set policy \<and> origin_key a = origin_key b"
    if tc: "(t, c) \<in> set origins" "url_parse t = Some o'"
  proof -
    obtain i where i: "i < length origins" "origins ! i = (t, c)" using tc(1) by (auto simp: in_set_conv_nth)
    have "approved_origin_parse o' c = Inr (parsed ! i)" using list_all2_nthD [OF parsed(2) i(1)] i(2) tc(2) by simp
    moreover have "parsed ! i \<in> set parsed" using i(1) list_all2_lengthD [OF parsed(2)] by simp
    then obtain a where "a \<in> set policy" "origin_key a = origin_key (parsed ! i)" using sets(2) by (metis image_iff)
    ultimately show ?thesis by blast
  qed
qed

lemma endpoint_validate_Inr:
  "endpoint_validate policy url = Inr ep \<Longrightarrow>
     \<exists>a\<in>set policy. clean_request url \<and> ve_url ep = url \<and> ve_class ep = ao_class a \<and>
       validate_host_class url (ao_class a) = Inr () \<and> ao_scheme a = ur_scheme url \<and> ur_port url = Some (ao_port a) \<and>
       (\<exists>h. ur_host_str url = Some h \<and> eq_ignore_ascii_case (ao_host a) h)"
proof -
  assume ok: "endpoint_validate policy url = Inr ep"
  then obtain h where h: "clean_request url" "ur_host_str url = Some h" "ur_port url \<noteq> None"
    by (auto simp: endpoint_validate_def result_simps normalized_port_def request_components_iff)
  let ?P = "\<lambda>origin. ao_scheme origin = ur_scheme url \<and> eq_ignore_ascii_case (ao_host origin) h \<and> ao_port origin = the (ur_port url)"
  from ok h obtain a where a: "find ?P policy = Some a" "validate_host_class url (ao_class a) = Inr ()"
    "ep = \<lparr>ve_url = url, ve_class = ao_class a\<rparr>"
    by (auto simp: endpoint_validate_def result_simps normalized_port_def split: option.splits)
  then have "a \<in> set policy" "?P a" by (auto simp: find_Some_iff)
  with a h show ?thesis by auto
qed

text \<open>What passes is clean, belongs to a configured origin and is not plain HTTP to the internet.\<close>

lemma endpoint_validate_sound:
  assumes "endpoint_policy_new url_parse origins = Inr policy" "endpoint_validate policy url = Inr ep"
  shows "clean_request url \<and> ve_url ep = url \<and> configured_origin url_parse origins url (ve_class ep) \<and>
      (is_https (ur_scheme url) \<or> is_http (ur_scheme url) \<and> (\<exists>h. ur_host url = Some h \<and> local_host h))"
proof -
  from endpoint_validate_Inr [OF assms(2)] obtain a h where a: "a \<in> set policy" "clean_request url" "ve_url ep = url"
    "ve_class ep = ao_class a" "validate_host_class url (ao_class a) = Inr ()" "ao_scheme a = ur_scheme url"
    "ur_port url = Some (ao_port a)" "ur_host_str url = Some h" "eq_ignore_ascii_case (ao_host a) h" by blast
  from policy_origins(1) [OF assms(1) a(1)] obtain t c o' where o': "(t, c) \<in> set origins" "url_parse t = Some o'"
    "approved_origin_parse o' c = Inr a" by blast
  with approved_origin_parse_Inr [OF o'(3)] a have "same_origin o' url" "c = ve_class ep"
    by (auto simp: same_origin_def eq_ignore_ascii_case_def)
  with o' a host_class_sound [OF a(5)] show ?thesis by (auto simp: configured_origin_def)
qed

text \<open>
  C13: the allowlist is exact. A request URL passes exactly when it carries no user information, no
  fragment and no query name that could hold a credential, and its scheme, host and port are those
  of a configured origin; and what passes is HTTPS, or plain HTTP to a loopback, link-local,
  private-network or mDNS host. The hypothesis is that hosts printed alike are the same host.
\<close>

theorem endpoint_policy_exact:
  assumes "endpoint_policy_new url_parse origins = Inr policy"
    and agree: "\<forall>(t, c)\<in>set origins. \<forall>o'. url_parse t = Some o' \<and> same_origin o' url \<longrightarrow> ur_host o' = ur_host url"
  shows "((\<exists>ep. endpoint_validate policy url = Inr ep) \<longleftrightarrow>
      clean_request url \<and> (\<exists>c. configured_origin url_parse origins url c)) \<and>
    (\<forall>ep. endpoint_validate policy url = Inr ep \<longrightarrow>
      ve_url ep = url \<and> configured_origin url_parse origins url (ve_class ep) \<and>
      (is_https (ur_scheme url) \<or> is_http (ur_scheme url) \<and> (\<exists>h. ur_host url = Some h \<and> local_host h)))"
proof -
  note sound = endpoint_validate_sound [OF assms(1)]
  have "\<exists>ep. endpoint_validate policy url = Inr ep"
    if clean: "clean_request url" and conf: "configured_origin url_parse origins url c" for c
  proof -
    obtain t o' where o': "(t, c) \<in> set origins" "url_parse t = Some o'" "same_origin o' url"
      using conf by (auto simp: configured_origin_def)
    from o'(3) obtain port where port: "ur_port url = Some port" by (metis not_None_eq same_origin_def)
    obtain a b where ab: "approved_origin_parse o' c = Inr b" "a \<in> set policy" "origin_key a = origin_key b"
      using policy_origins(2) [OF assms(1) o'(1,2)] by blast
    let ?P = "\<lambda>origin. ao_scheme origin = ur_scheme url \<and> eq_ignore_ascii_case (ao_host origin) (the (ur_host_str url)) \<and>
      ao_port origin = the (ur_port url)"
    have "the (ur_port url) = ao_port b"
      using approved_origin_parse_Inr [OF ab(1)] o'(3) unfolding same_origin_def by (metis option.sel)
    then have "?P a" using approved_origin_parse_Inr [OF ab(1)] ab(3) o'(3)
      by (auto simp: origin_key_def same_origin_def eq_ignore_ascii_case_def)
    then obtain a' where found: "find ?P policy = Some a'" using ab(2) by (cases "find ?P policy") (auto simp: find_None_iff)
    then have a': "a' \<in> set policy" "?P a'" by (auto simp: find_Some_iff)
    from policy_origins(1) [OF assms(1) a'(1)] obtain t' c' o'' where o'': "(t', c') \<in> set origins" "url_parse t' = Some o''"
      "approved_origin_parse o'' c' = Inr a'" by blast
    note facts = approved_origin_parse_Inr [OF o''(3)]
    have "same_origin o'' url" using facts a'(2) o'(3) port by (auto simp: same_origin_def eq_ignore_ascii_case_def)
    moreover from this agree o''(1,2) have "ur_host o'' = ur_host url" by blast
    ultimately have "ur_host o'' = ur_host url" "ur_scheme o'' = ur_scheme url" by (simp_all add: same_origin_def)
    with facts have "validate_host_class url (ao_class a') = Inr ()" using host_class_cong [of o'' url] by simp
    moreover obtain h where "ur_host_str url = Some h" using o'(3) unfolding same_origin_def by blast
    moreover have "validate_request_components url = Inr ()" using clean request_components_iff by blast
    ultimately show ?thesis using found port by (simp add: endpoint_validate_def normalized_port_def)
  qed
  with sound show ?thesis by blast
qed

text \<open>
  The class given to a configured endpoint is one the policy accepts for its URL, and a policy
  that allows HTTPS only yields HTTPS endpoints only.
\<close>

lemma private_network_http: "is_private_network host \<Longrightarrow> is_private_http_host host"
proof (cases host)
  case (HostDomain domain)
  then show "is_private_network host \<Longrightarrow> ?thesis"
    by (cases "trim_end_matches 46 domain = []")
      (auto simp: ends_with_dns_label_def Let_def is_some_and_def rsplit_once_def split_once_def)
qed simp_all

lemma loopback_host: "is_loopback host \<Longrightarrow> is_loopback_host host"
  by (cases host) simp_all

lemma configured_endpoint_accepted:
  assumes "configured_endpoint_parse url_parse raw policy = Inr ce"
  shows "validate_host_class (ce_url ce) (ce_class ce) = Inr ()"
    and "policy = ConfiguredHttpsOnly \<Longrightarrow> is_https (ur_scheme (ce_url ce))"
proof -
  obtain url "class" where ce: "ce = \<lparr>ce_url = url, ce_class = class\<rparr>"
    and cls: "(if ur_scheme url = lit ''https'' then map_err (\<lambda>_. classified_error_new Api) (classify_https_endpoint url)
      else if ur_scheme url = lit ''http'' then classify_http_endpoint url policy
      else Inl (classified_error_new Api)) = Inr class"
    using assms unfolding configured_endpoint_parse_def and_then_Inr
    by (simp only: if_split [of "\<lambda>r. r = Inr _"] sum.simps and_then_Inr) blast
  have "validate_host_class url class = Inr () \<and> (policy = ConfiguredHttpsOnly \<longrightarrow> is_https (ur_scheme url))"
  proof (cases "ur_scheme url = lit ''https''")
    case True
    with cls show ?thesis
      by (auto simp: classify_https_endpoint_def validate_host_class_def validate_scheme_def is_https_def
          result_simps Let_def split: if_splits)
  next
    case False
    with cls have "is_http (ur_scheme url)" "classify_http_endpoint url policy = Inr class"
      by (auto simp: is_http_def split: if_splits)
    then show ?thesis
      by (auto simp: classify_http_endpoint_def validate_host_class_def validate_scheme_def
          result_simps loopback_host private_network_http Let_def split: if_splits configured_http_policy.splits)
  qed
  then show "validate_host_class (ce_url ce) (ce_class ce) = Inr ()"
    "policy = ConfiguredHttpsOnly \<Longrightarrow> is_https (ur_scheme (ce_url ce))" by (simp_all add: ce)
qed

text \<open>A policy of one public origin, and a request to a path of it.\<close>

definition example_origin :: url where
  "example_origin =
     \<lparr>ur_text = lit ''https://api.example.com/'', ur_scheme = lit ''https'', ur_username = [], ur_password = None,
      ur_host = Some (HostDomain (lit ''api.example.com'')), ur_host_str = Some (lit ''api.example.com''), ur_port = Some 443, ur_explicit_port = None,
      ur_path = lit ''/'', ur_query = None, ur_query_pairs = [], ur_fragment = None\<rparr>"

definition example_request_url :: url where
  "example_request_url = example_origin\<lparr>ur_path := lit ''/v1/usage'', ur_query_pairs := [(lit ''window'', lit ''5h'')]\<rparr>"

definition example_policy :: "approved_origin list" where
  "example_policy = [\<lparr>ao_scheme = lit ''https'', ao_host = lit ''api.example.com'', ao_port = 443, ao_class = PublicHttps\<rparr>]"

lemmas example_url_defs = example_origin_def example_request_url_def example_policy_def lit_def

lemma example_policy_built:
  "endpoint_policy_new (\<lambda>_. Some example_origin) [(ur_text example_origin, PublicHttps)] = Inr example_policy"
  by (simp add: endpoint_policy_new_def approved_origin_parse_def validate_scheme_def validate_host_class_def is_https_def
      normalized_port_def ends_with_dns_label_def rsplit_once_def split_once_def is_some_and_def eq_ignore_ascii_case_def
      to_ascii_lowercase_def example_url_defs limit_defs)

theorem endpoint_policy_exact_witness:
  "(\<exists>ep. endpoint_validate example_policy example_request_url = Inr ep) \<and>
   \<not> (\<exists>ep. endpoint_validate example_policy (example_request_url\<lparr>ur_port := Some 8443\<rparr>) = Inr ep)"
proof -
  note exact = endpoint_policy_exact [OF example_policy_built, THEN conjunct1]
  have names: "normalized_query_name (lit ''window'') \<notin> set sensitive_query_names"
    by (simp add: normalized_query_name_def sensitive_query_names_def to_ascii_lowercase_def lit_def)
  have "same_origin example_origin example_request_url"
    by (simp add: same_origin_def eq_ignore_ascii_case_def example_url_defs)
  then have "(\<exists>ep. endpoint_validate example_policy example_request_url = Inr ep)"
    using names exact [of example_request_url]
    by (simp add: clean_request_def configured_origin_def example_request_url_def) (simp add: example_origin_def)
  moreover have "\<not> (\<exists>ep. endpoint_validate example_policy (example_request_url\<lparr>ur_port := Some 8443\<rparr>) = Inr ep)"
    using exact [of "example_request_url\<lparr>ur_port := Some 8443\<rparr>"]
    by (simp add: configured_origin_def same_origin_def example_url_defs)
  ultimately show ?thesis by simp
qed

end
