(* ===== verification/Cloud_Signing.thy ===== *)
theory Cloud_Signing
  imports Endpoint_Policy Ordered_Map
begin

text \<open>
  Request signing for cloud providers (\<open>crates/providers/src/cloud_signing.rs\<close>): credentials and
  scopes, canonical hosts, paths, queries and headers, and the AWS and Volcengine signatures.

  Parameters are the header library (which names and values it accepts), SHA-256 and HMAC-SHA256.
  A point in time is its civil components.
\<close>

section \<open>Input\<close>

definition MAX_URL_BYTES :: nat where [limit_defs]: "MAX_URL_BYTES = 8 * 1024"
definition MAX_BODY_BYTES :: nat where [limit_defs]: "MAX_BODY_BYTES = 8 * 1024 * 1024"
definition MAX_HEADER_COUNT :: nat where [limit_defs]: "MAX_HEADER_COUNT = 64"
definition MAX_HEADER_VALUE_BYTES :: nat where [limit_defs]: "MAX_HEADER_VALUE_BYTES = 16 * 1024"
definition MAX_TOTAL_HEADER_BYTES :: nat where [limit_defs]: "MAX_TOTAL_HEADER_BYTES = 64 * 1024"
definition MAX_ACCESS_KEY_BYTES :: nat where [limit_defs]: "MAX_ACCESS_KEY_BYTES = 256"
definition MAX_SECRET_KEY_BYTES :: nat where [limit_defs]: "MAX_SECRET_KEY_BYTES = 4 * 1024"
definition MAX_SESSION_TOKEN_BYTES :: nat where [limit_defs]: "MAX_SESSION_TOKEN_BYTES = 16 * 1024"
definition MAX_SCOPE_COMPONENT_BYTES :: nat where [limit_defs]: "MAX_SCOPE_COMPONENT_BYTES = 128"

definition AWS_ALGORITHM :: str where "AWS_ALGORITHM = lit ''AWS4-HMAC-SHA256''"
definition AWS_TERMINATOR :: str where "AWS_TERMINATOR = lit ''aws4_request''"
definition VOLCENGINE_ALGORITHM :: str where "VOLCENGINE_ALGORITHM = lit ''HMAC-SHA256''"
definition VOLCENGINE_SERVICE :: str where "VOLCENGINE_SERVICE = lit ''ark''"
definition VOLCENGINE_TERMINATOR :: str where "VOLCENGINE_TERMINATOR = lit ''request''"
definition VOLCENGINE_SIGNED_HEADERS :: str where
  "VOLCENGINE_SIGNED_HEADERS = lit ''content-type;host;x-content-sha256;x-date''"
definition DEFAULT_VOLCENGINE_CONTENT_TYPE :: str where
  "DEFAULT_VOLCENGINE_CONTENT_TYPE = lit ''application/x-www-form-urlencoded; charset=utf-8''"

datatype signing_error =
  InvalidCredential | InvalidScope | SigningInvalidUrl | InvalidMethod | BodyTooLarge | InvalidHeaders
| InvalidTimestamp | SigningFailed

record http_lib =
  hl_name :: "str \<Rightarrow> str option"
  hl_value_ok :: "str \<Rightarrow> bool"

record crypto_lib =
  cl_sha256 :: "nat list \<Rightarrow> nat list"
  cl_hmac :: "nat list \<Rightarrow> nat list \<Rightarrow> nat list option"

definition is_ascii_graphic :: "nat \<Rightarrow> bool" where
  "is_ascii_graphic b \<longleftrightarrow> 33 \<le> b \<and> b \<le> 126"

definition validate_credential :: "str \<Rightarrow> nat \<Rightarrow> (unit, signing_error) result" where
  "validate_credential v maximum =
     (if v = [] \<or> str_len v > maximum \<or> \<not> list_all is_ascii_graphic (as_bytes v) then Inl InvalidCredential else Inr ())"

definition validate_scope_component :: "str \<Rightarrow> (unit, signing_error) result" where
  "validate_scope_component v =
     (if v = [] \<or> str_len v > MAX_SCOPE_COMPONENT_BYTES \<or>
         \<not> list_all (\<lambda>b. is_ascii_lowercase b \<or> is_ascii_digit b \<or> b = 45) (as_bytes v)
      then Inl InvalidScope else Inr ())"

definition method_token_byte :: "nat \<Rightarrow> bool" where
  "method_token_byte b \<longleftrightarrow> is_ascii_alphabetic b \<or> is_ascii_digit b \<or>
     b \<in> {33, 35, 36, 37, 38, 39, 42, 43, 45, 46, 94, 95, 96, 124, 126}"

definition validate_method :: "str \<Rightarrow> (unit, signing_error) result" where
  "validate_method v =
     (if v = [] \<or> str_len v > 32 \<or> \<not> list_all method_token_byte (as_bytes v) then Inl InvalidMethod else Inr ())"

record aws_credentials =
  ac_access_key_id :: str
  ac_secret_access_key :: str
  ac_session_token :: "str option"

definition aws_credentials_new :: "str \<Rightarrow> str \<Rightarrow> str option \<Rightarrow> (aws_credentials, signing_error) result" where
  "aws_credentials_new access_key_id secret_access_key session_token =
     and_then (validate_credential access_key_id MAX_ACCESS_KEY_BYTES) (\<lambda>_.
     and_then (validate_credential secret_access_key MAX_SECRET_KEY_BYTES) (\<lambda>_.
     and_then (case session_token of Some token \<Rightarrow> validate_credential token MAX_SESSION_TOKEN_BYTES | None \<Rightarrow> Inr ()) (\<lambda>_.
     Inr \<lparr>ac_access_key_id = access_key_id, ac_secret_access_key = secret_access_key, ac_session_token = session_token\<rparr>)))"

record volcengine_credentials =
  vc_access_key_id :: str
  vc_secret_access_key :: str
  vc_region :: str

definition volcengine_credentials_new :: "str \<Rightarrow> str \<Rightarrow> str \<Rightarrow> (volcengine_credentials, signing_error) result" where
  "volcengine_credentials_new access_key_id secret_access_key region =
     and_then (validate_credential access_key_id MAX_ACCESS_KEY_BYTES) (\<lambda>_.
     and_then (validate_credential secret_access_key MAX_SECRET_KEY_BYTES) (\<lambda>_.
     and_then (validate_scope_component region) (\<lambda>_.
     Inr \<lparr>vc_access_key_id = access_key_id, vc_secret_access_key = secret_access_key, vc_region = region\<rparr>)))"

section \<open>Canonical forms\<close>

definition from_hex :: "nat \<Rightarrow> nat option" where
  "from_hex b =
     (if 48 \<le> b \<and> b \<le> 57 then Some (b - 48)
      else if 97 \<le> b \<and> b \<le> 102 then Some (b - 97 + 10)
      else if 65 \<le> b \<and> b \<le> 70 then Some (b - 65 + 10)
      else None)"

definition upper_hex_digit :: "nat \<Rightarrow> nat" where
  "upper_hex_digit n = (if n < 10 then 48 + n else 55 + n)"

definition unreserved :: "nat \<Rightarrow> bool" where
  "unreserved b \<longleftrightarrow> is_ascii_alphanumeric b \<or> b \<in> {45, 46, 95, 126}"

definition encode_rfc3986_byte :: "nat \<Rightarrow> str" where
  "encode_rfc3986_byte b = (if unreserved b then [b] else [37, upper_hex_digit (b div 16), upper_hex_digit (b mod 16)])"

fun normalize_percent_encoded :: "nat list \<Rightarrow> bool \<Rightarrow> (str, signing_error) result" where
  "normalize_percent_encoded [] preserve_slash = Inr []"
| "normalize_percent_encoded (byte # rest) preserve_slash =
     (if byte = 47 \<and> preserve_slash then
        map_ok (\<lambda>out. 47 # out) (normalize_percent_encoded rest preserve_slash)
      else if byte = 37 then
        (case rest of
          h # l # rest' \<Rightarrow>
            and_then (ok_or SigningInvalidUrl (from_hex h)) (\<lambda>high.
            and_then (ok_or SigningInvalidUrl (from_hex l)) (\<lambda>low.
            map_ok (\<lambda>out. encode_rfc3986_byte (high * 16 + low) @ out) (normalize_percent_encoded rest' preserve_slash)))
        | _ \<Rightarrow> Inl SigningInvalidUrl)
      else map_ok (\<lambda>out. encode_rfc3986_byte byte @ out) (normalize_percent_encoded rest preserve_slash))"

definition canonical_host :: "url \<Rightarrow> (str, signing_error) result" where
  "canonical_host url =
     and_then (ok_or SigningInvalidUrl (ur_host url)) (\<lambda>host.
     let host = (case host of
         HostDomain domain \<Rightarrow> domain
       | HostIpv4 address \<Rightarrow> ipv4_text address
       | HostIpv6 address \<Rightarrow> lit ''['' @ ipv6_text address @ lit '']'') in
     Inr (case ur_explicit_port url of Some port \<Rightarrow> host @ lit '':'' @ decimal port | None \<Rightarrow> host))"

definition canonical_uri :: "url \<Rightarrow> (str, signing_error) result" where
  "canonical_uri url = (if ur_path url = [] then Inr (lit ''/'') else normalize_percent_encoded (as_bytes (ur_path url)) True)"

definition query_component :: "str \<Rightarrow> (str \<times> str, signing_error) result" where
  "query_component component =
     (let (key, v) = (case split_once 61 component of Some kv \<Rightarrow> kv | None \<Rightarrow> (component, [])) in
      and_then (normalize_percent_encoded (as_bytes key) False) (\<lambda>key.
      and_then (normalize_percent_encoded (as_bytes v) False) (\<lambda>v.
      Inr (key, v))))"

definition canonical_query :: "url \<Rightarrow> (str, signing_error) result" where
  "canonical_query url =
     (case ur_query url of
       None \<Rightarrow> Inr []
     | Some query \<Rightarrow>
         if query = [] then Inr []
         else
           and_then (try_map query_component (split_on 38 query)) (\<lambda>pairs.
           Inr (join_with (lit ''&'') (map (\<lambda>(key, v). key @ lit ''='' @ v) (sort pairs)))))"

record signed_header =
  sh_name :: str
  sh_value :: str

definition is_safe_header_value :: "str \<Rightarrow> bool" where
  "is_safe_header_value v \<longleftrightarrow> list_all (\<lambda>b. b = 9 \<or> 32 \<le> b \<and> b \<le> 126) (as_bytes v)"

definition fold_header_whitespace :: "str \<Rightarrow> str" where
  "fold_header_whitespace v = join_with (lit '' '') (split_ascii_whitespace v)"

definition signed_header_new :: "http_lib \<Rightarrow> str \<Rightarrow> str \<Rightarrow> (signed_header, signing_error) result" where
  "signed_header_new hlib name v =
     (if str_len v > MAX_HEADER_VALUE_BYTES \<or> \<not> is_safe_header_value v then Inl InvalidHeaders
      else
        let v = fold_header_whitespace v in
        if hl_value_ok hlib v then Inr \<lparr>sh_name = name, sh_value = v\<rparr> else Inl InvalidHeaders)"

definition validate_signing_url :: "url \<Rightarrow> bool \<Rightarrow> (unit, signing_error) result" where
  "validate_signing_url url permits_loopback_http =
     (let scheme_is_allowed = (ur_scheme url = lit ''https'' \<or> permits_loopback_http \<and> ur_scheme url = lit ''http'') in
      if str_len (ur_text url) > MAX_URL_BYTES \<or> \<not> scheme_is_allowed \<or> ur_host url = None \<or> ur_username url \<noteq> [] \<or>
         ur_password url \<noteq> None \<or> ur_fragment url \<noteq> None
      then Inl SigningInvalidUrl
      else
        and_then (canonical_host url) (\<lambda>_.
        and_then (canonical_uri url) (\<lambda>_.
        and_then (canonical_query url) (\<lambda>_.
        Inr ()))))"

section \<open>Requests to sign\<close>

record signing_request =
  sq_method :: str
  sq_url :: url
  sq_headers :: "signed_header list"
  sq_body :: "nat list"
  sq_total_header_bytes :: nat

definition signing_request_new_inner ::
    "str \<Rightarrow> url \<Rightarrow> nat list \<Rightarrow> bool \<Rightarrow> (signing_request, signing_error) result" where
  "signing_request_new_inner m url body permits_loopback_http =
     and_then (validate_method m) (\<lambda>_.
     and_then (validate_signing_url url permits_loopback_http) (\<lambda>_.
     if length body > MAX_BODY_BYTES then Inl BodyTooLarge
     else Inr \<lparr>sq_method = m, sq_url = url, sq_headers = [], sq_body = body, sq_total_header_bytes = 0\<rparr>))"

definition signing_request_new :: "str \<Rightarrow> url \<Rightarrow> nat list \<Rightarrow> (signing_request, signing_error) result" where
  "signing_request_new m url body = signing_request_new_inner m url body False"

definition for_validated_endpoint ::
    "str \<Rightarrow> validated_endpoint \<Rightarrow> nat list \<Rightarrow> (signing_request, signing_error) result" where
  "for_validated_endpoint m endpoint body =
     (let permits_loopback_http = (ve_class endpoint = LoopbackDevelopment \<and> ur_scheme (ve_url endpoint) = lit ''http'') in
      signing_request_new_inner m (ve_url endpoint) body permits_loopback_http)"

definition with_header :: "http_lib \<Rightarrow> signing_request \<Rightarrow> str \<Rightarrow> str \<Rightarrow> (signing_request, signing_error) result" where
  "with_header hlib request name v =
     (if length (sq_headers request) \<ge> MAX_HEADER_COUNT then Inl InvalidHeaders
      else
        and_then (ok_or InvalidHeaders (hl_name hlib name)) (\<lambda>name.
        if name = lit ''authorization'' \<or> name = lit ''host'' then Inl InvalidHeaders
        else
          and_then (ok_or InvalidHeaders
            (Option.bind (checked_add usize_max (sq_total_header_bytes request) (str_len name)) (\<lambda>size.
             checked_add usize_max size (str_len v)))) (\<lambda>next_total.
          if next_total > MAX_TOTAL_HEADER_BYTES then Inl InvalidHeaders
          else
            and_then (signed_header_new hlib name v) (\<lambda>header.
            Inr (request\<lparr>sq_headers := sq_headers request @ [header], sq_total_header_bytes := next_total\<rparr>)))))"

definition reject_managed_headers :: "signed_header list \<Rightarrow> str list \<Rightarrow> (unit, signing_error) result" where
  "reject_managed_headers headers managed =
     (if list_ex (\<lambda>header. sh_name header \<in> set managed) headers then Inl InvalidHeaders else Inr ())"

definition sort_headers :: "signed_header list \<Rightarrow> signed_header list" where
  "sort_headers headers = sort_key sh_name headers"

fun total_header_bytes :: "signed_header list \<Rightarrow> nat \<Rightarrow> nat option" where
  "total_header_bytes [] n = Some n"
| "total_header_bytes (h # hs) n =
     Option.bind (checked_add usize_max n (str_len (sh_name h))) (\<lambda>n.
     Option.bind (checked_add usize_max n (str_len (sh_value h))) (total_header_bytes hs))"

definition validate_output_headers :: "signed_header list \<Rightarrow> (unit, signing_error) result" where
  "validate_output_headers headers =
     (if length headers > MAX_HEADER_COUNT then Inl InvalidHeaders
      else if is_none_or (\<lambda>size. size > MAX_TOTAL_HEADER_BYTES) (total_header_bytes headers 0) then Inl InvalidHeaders
      else Inr ())"

record canonical_headers =
  ch_block :: str
  ch_names :: str

fun group_headers :: "signed_header list \<Rightarrow> (str, str list) btree_map \<Rightarrow> (str, str list) btree_map" where
  "group_headers [] grouped = grouped"
| "group_headers (h # hs) grouped =
     group_headers hs (bt_insert (sh_name h) ((case bt_get grouped (sh_name h) of Some vs \<Rightarrow> vs | None \<Rightarrow> []) @ [sh_value h]) grouped)"

definition canonical_headers_of :: "signed_header list \<Rightarrow> (canonical_headers, signing_error) result" where
  "canonical_headers_of headers =
     (let grouped = group_headers headers bt_empty in
      if bt_len grouped = 0 then Inl InvalidHeaders
      else Inr
        \<lparr>ch_block = concat (map (\<lambda>(name, vs). name @ lit '':'' @ join_with (lit '','') vs @ [10]) (bt_entries grouped)),
         ch_names = join_with (lit '';'') (bt_keys grouped)\<rparr>)"

section \<open>Signatures\<close>

record date_time =
  dt_is_utc :: bool
  dt_year :: int
  dt_month :: nat
  dt_day :: nat
  dt_hour :: nat
  dt_minute :: nat
  dt_second :: nat

definition zero_padded :: "nat \<Rightarrow> nat \<Rightarrow> str" where
  "zero_padded width n = replicate (width - length (decimal n)) 48 @ decimal n"

definition format_timestamp :: "date_time \<Rightarrow> (str \<times> str, signing_error) result" where
  "format_timestamp t =
     (if \<not> dt_is_utc t \<or> \<not> (1 \<le> dt_year t \<and> dt_year t \<le> 9999) then Inl InvalidTimestamp
      else
        let date = zero_padded 4 (nat (dt_year t)) @ zero_padded 2 (dt_month t) @ zero_padded 2 (dt_day t) in
        Inr (date, date @ lit ''T'' @ zero_padded 2 (dt_hour t) @ zero_padded 2 (dt_minute t) @
          zero_padded 2 (dt_second t) @ lit ''Z''))"

definition hmac_sha256 :: "crypto_lib \<Rightarrow> nat list \<Rightarrow> nat list \<Rightarrow> (nat list, signing_error) result" where
  "hmac_sha256 clib key message = ok_or SigningFailed (cl_hmac clib key message)"

definition aws_signature ::
    "crypto_lib \<Rightarrow> nat list \<Rightarrow> str \<Rightarrow> str \<Rightarrow> str \<Rightarrow> nat list \<Rightarrow> (nat list, signing_error) result" where
  "aws_signature clib secret date_stamp region service string_to_sign =
     and_then (hmac_sha256 clib (lit ''AWS4'' @ secret) (as_bytes date_stamp)) (\<lambda>date_key.
     and_then (hmac_sha256 clib date_key (as_bytes region)) (\<lambda>region_key.
     and_then (hmac_sha256 clib region_key (as_bytes service)) (\<lambda>service_key.
     and_then (hmac_sha256 clib service_key (as_bytes AWS_TERMINATOR)) (\<lambda>signing_key.
     hmac_sha256 clib signing_key string_to_sign))))"

definition volcengine_signature ::
    "crypto_lib \<Rightarrow> nat list \<Rightarrow> str \<Rightarrow> str \<Rightarrow> nat list \<Rightarrow> (nat list, signing_error) result" where
  "volcengine_signature clib secret date_stamp region string_to_sign =
     and_then (hmac_sha256 clib secret (as_bytes date_stamp)) (\<lambda>date_key.
     and_then (hmac_sha256 clib date_key (as_bytes region)) (\<lambda>region_key.
     and_then (hmac_sha256 clib region_key (as_bytes VOLCENGINE_SERVICE)) (\<lambda>service_key.
     and_then (hmac_sha256 clib service_key (as_bytes VOLCENGINE_TERMINATOR)) (\<lambda>signing_key.
     hmac_sha256 clib signing_key string_to_sign))))"

record signed_request =
  sg_method :: str
  sg_url :: url
  sg_headers :: "signed_header list"
  sg_body :: "nat list"
  sg_canonical_request_hash :: "nat list"

record aws_signer =
  as_region :: str
  as_service :: str

definition aws_signer_new :: "str \<Rightarrow> str \<Rightarrow> (aws_signer, signing_error) result" where
  "aws_signer_new region service =
     and_then (validate_scope_component region) (\<lambda>_.
     and_then (validate_scope_component service) (\<lambda>_.
     Inr \<lparr>as_region = region, as_service = service\<rparr>))"

definition credential_scope :: "str list \<Rightarrow> str" where
  "credential_scope parts = join_with (lit ''/'') parts"

definition aws_canonical_request :: "str \<Rightarrow> str \<Rightarrow> str \<Rightarrow> canonical_headers \<Rightarrow> str \<Rightarrow> str" where
  "aws_canonical_request m uri query headers payload_hash =
     m @ [10] @ uri @ [10] @ query @ [10] @ ch_block headers @ [10] @ ch_names headers @ [10] @ payload_hash"

definition string_to_sign_of :: "str \<Rightarrow> str \<Rightarrow> str \<Rightarrow> nat list \<Rightarrow> str" where
  "string_to_sign_of algorithm timestamp scope request_hash =
     algorithm @ [10] @ timestamp @ [10] @ scope @ [10] @ lower_hex request_hash"

definition authorization_of :: "str \<Rightarrow> str \<Rightarrow> str \<Rightarrow> str \<Rightarrow> nat list \<Rightarrow> str" where
  "authorization_of algorithm key_id scope names signature =
     algorithm @ lit '' Credential='' @ key_id @ lit ''/'' @ scope @ lit '', SignedHeaders='' @ names @
     lit '', Signature='' @ lower_hex signature"

definition aws_sign ::
    "http_lib \<Rightarrow> crypto_lib \<Rightarrow> aws_signer \<Rightarrow> signing_request \<Rightarrow> aws_credentials \<Rightarrow> date_time \<Rightarrow>
     (signed_request, signing_error) result" where
  "aws_sign hlib clib signer request credentials timestamp =
     and_then (format_timestamp timestamp) (\<lambda>(date_stamp, timestamp).
     and_then (reject_managed_headers (sq_headers request)
       [lit ''x-amz-content-sha256'', lit ''x-amz-date'', lit ''x-amz-security-token'']) (\<lambda>_.
     let payload_hash = cl_sha256 clib (sq_body request) in
     and_then (canonical_host (sq_url request)) (\<lambda>host.
     and_then (signed_header_new hlib (lit ''host'') host) (\<lambda>host_header.
     and_then (signed_header_new hlib (lit ''x-amz-content-sha256'') (lower_hex payload_hash)) (\<lambda>hash_header.
     and_then (signed_header_new hlib (lit ''x-amz-date'') timestamp) (\<lambda>date_header.
     and_then (case ac_session_token credentials of
         Some token \<Rightarrow> map_ok (\<lambda>h. [h]) (signed_header_new hlib (lit ''x-amz-security-token'') token)
       | None \<Rightarrow> Inr []) (\<lambda>token_headers.
     let headers = sort_headers (sq_headers request @ [host_header, hash_header, date_header] @ token_headers) in
     and_then (canonical_headers_of headers) (\<lambda>canonical.
     and_then (canonical_uri (sq_url request)) (\<lambda>uri.
     and_then (canonical_query (sq_url request)) (\<lambda>query.
     let request_hash = cl_sha256 clib (as_bytes
           (aws_canonical_request (sq_method request) uri query canonical (lower_hex payload_hash)));
         scope = credential_scope [date_stamp, as_region signer, as_service signer, AWS_TERMINATOR] in
     and_then (aws_signature clib (as_bytes (ac_secret_access_key credentials)) date_stamp (as_region signer)
       (as_service signer) (as_bytes (string_to_sign_of AWS_ALGORITHM timestamp scope request_hash))) (\<lambda>signature.
     and_then (signed_header_new hlib (lit ''authorization'')
       (authorization_of AWS_ALGORITHM (ac_access_key_id credentials) scope (ch_names canonical) signature)) (\<lambda>authorization.
     let headers = sort_headers (headers @ [authorization]) in
     and_then (validate_output_headers headers) (\<lambda>_.
     Inr \<lparr>sg_method = sq_method request, sg_url = sq_url request, sg_headers = headers, sg_body = sq_body request,
          sg_canonical_request_hash = request_hash\<rparr>)))))))))))))"

definition volcengine_canonical_request :: "str \<Rightarrow> str \<Rightarrow> str \<Rightarrow> str \<Rightarrow> str \<Rightarrow> str \<Rightarrow> str \<Rightarrow> str" where
  "volcengine_canonical_request m uri query content_type host payload_hash timestamp =
     m @ [10] @ uri @ [10] @ query @ [10] @ lit ''content-type:'' @ content_type @ [10] @ lit ''host:'' @ host @ [10] @
     lit ''x-content-sha256:'' @ payload_hash @ [10] @ lit ''x-date:'' @ timestamp @ [10, 10] @
     VOLCENGINE_SIGNED_HEADERS @ [10] @ payload_hash"

definition volcengine_sign ::
    "http_lib \<Rightarrow> crypto_lib \<Rightarrow> signing_request \<Rightarrow> volcengine_credentials \<Rightarrow> date_time \<Rightarrow>
     (signed_request, signing_error) result" where
  "volcengine_sign hlib clib request credentials timestamp =
     and_then (format_timestamp timestamp) (\<lambda>(date_stamp, timestamp).
     and_then (reject_managed_headers (sq_headers request) [lit ''x-content-sha256'', lit ''x-date'']) (\<lambda>_.
     if length (filter (\<lambda>h. sh_name h = lit ''content-type'') (sq_headers request)) > 1 then Inl InvalidHeaders
     else
       let payload_hash = cl_sha256 clib (sq_body request) in
       and_then (canonical_host (sq_url request)) (\<lambda>host.
       let content_type = (case find (\<lambda>h. sh_name h = lit ''content-type'') (sq_headers request) of
             Some h \<Rightarrow> sh_value h | None \<Rightarrow> DEFAULT_VOLCENGINE_CONTENT_TYPE) in
       if content_type = [] then Inl InvalidHeaders
       else
         and_then (canonical_uri (sq_url request)) (\<lambda>uri.
         and_then (canonical_query (sq_url request)) (\<lambda>query.
         let request_hash = cl_sha256 clib (as_bytes
               (volcengine_canonical_request (sq_method request) uri query content_type host (lower_hex payload_hash) timestamp));
             scope = credential_scope [date_stamp, vc_region credentials, VOLCENGINE_SERVICE, VOLCENGINE_TERMINATOR] in
         and_then (volcengine_signature clib (as_bytes (vc_secret_access_key credentials)) date_stamp (vc_region credentials)
           (as_bytes (string_to_sign_of VOLCENGINE_ALGORITHM timestamp scope request_hash))) (\<lambda>signature.
         let authorization = authorization_of VOLCENGINE_ALGORITHM (vc_access_key_id credentials) scope
               VOLCENGINE_SIGNED_HEADERS signature in
         and_then (if \<not> list_ex (\<lambda>h. sh_name h = lit ''content-type'') (sq_headers request)
             then map_ok (\<lambda>h. [h]) (signed_header_new hlib (lit ''content-type'') DEFAULT_VOLCENGINE_CONTENT_TYPE)
             else Inr []) (\<lambda>type_headers.
         and_then (signed_header_new hlib (lit ''host'') host) (\<lambda>host_header.
         and_then (signed_header_new hlib (lit ''x-content-sha256'') (lower_hex payload_hash)) (\<lambda>hash_header.
         and_then (signed_header_new hlib (lit ''x-date'') timestamp) (\<lambda>date_header.
         and_then (signed_header_new hlib (lit ''authorization'') authorization) (\<lambda>authorization_header.
         let headers = sort_headers (sq_headers request @ type_headers @
               [host_header, hash_header, date_header, authorization_header]) in
         and_then (validate_output_headers headers) (\<lambda>_.
         Inr \<lparr>sg_method = sq_method request, sg_url = sq_url request, sg_headers = headers, sg_body = sq_body request,
              sg_canonical_request_hash = request_hash\<rparr>))))))))))))"

section \<open>Percent encoding is canonical\<close>

text \<open>
  What an encoded text denotes: octets, and separators where a slash is kept. The normaliser
  decodes to these pieces and encodes them again.
\<close>

datatype piece = Separator | Octet nat

fun decode_pieces :: "nat list \<Rightarrow> bool \<Rightarrow> piece list option" where
  "decode_pieces [] keep = Some []"
| "decode_pieces (b # rest) keep =
     (if b = 47 \<and> keep then map_option ((#) Separator) (decode_pieces rest keep)
      else if b = 37 then
        (case rest of
          h # l # rest' \<Rightarrow>
            (case (from_hex h, from_hex l) of
              (Some high, Some low) \<Rightarrow> map_option ((#) (Octet (high * 16 + low))) (decode_pieces rest' keep)
            | _ \<Rightarrow> None)
        | _ \<Rightarrow> None)
      else map_option ((#) (Octet b)) (decode_pieces rest keep))"

fun encode_piece :: "piece \<Rightarrow> str" where
  "encode_piece Separator = [47]"
| "encode_piece (Octet b) = encode_rfc3986_byte b"

definition encode_pieces :: "piece list \<Rightarrow> str" where
  "encode_pieces ts = concat (map encode_piece ts)"

definition piece_ok :: "bool \<Rightarrow> piece \<Rightarrow> bool" where
  "piece_ok keep t \<longleftrightarrow> (case t of Separator \<Rightarrow> keep | Octet b \<Rightarrow> b < 256)"

lemma normalize_decodes:
  "normalize_percent_encoded bs keep =
     (case decode_pieces bs keep of Some ts \<Rightarrow> Inr (encode_pieces ts) | None \<Rightarrow> Inl SigningInvalidUrl)"
proof (induction bs rule: length_induct)
  case (1 bs)
  show ?case
  proof (cases bs)
    case (Cons b rest)
    with 1 have rest: "normalize_percent_encoded rest keep =
        (case decode_pieces rest keep of Some ts \<Rightarrow> Inr (encode_pieces ts) | None \<Rightarrow> Inl SigningInvalidUrl)" by simp
    show ?thesis
    proof (cases "b = 37")
      case True
      show ?thesis
      proof (cases "\<exists>h l rest'. rest = h # l # rest'")
        case True
        then obtain h l rest' where r: "rest = h # l # rest'" by blast
        with 1 Cons have "normalize_percent_encoded rest' keep =
            (case decode_pieces rest' keep of Some ts \<Rightarrow> Inr (encode_pieces ts) | None \<Rightarrow> Inl SigningInvalidUrl)" by simp
        with \<open>b = 37\<close> Cons r show ?thesis
          by (cases "from_hex h"; cases "from_hex l"; cases "decode_pieces rest' keep") (simp_all add: encode_pieces_def)
      next
        case False
        with \<open>b = 37\<close> Cons show ?thesis by (simp split: list.splits)
      qed
    next
      case False
      with rest Cons show ?thesis
        by (cases "decode_pieces rest keep"; cases "b = 47"; cases keep) (simp_all add: encode_pieces_def)
    qed
  qed (simp add: encode_pieces_def)
qed

lemma from_hex_bound: "from_hex b = Some n \<Longrightarrow> n < 16"
  by (auto simp: from_hex_def split: if_splits)

lemma decode_pieces_ok:
  "decode_pieces bs keep = Some ts \<Longrightarrow> \<forall>b\<in>set bs. b < 256 \<Longrightarrow> \<forall>t\<in>set ts. piece_ok keep t"
proof (induction bs arbitrary: ts rule: length_induct)
  case (1 bs)
  show ?case
  proof (cases bs)
    case (Cons b rest)
    show ?thesis
    proof (cases "b = 37")
      case True
      with 1(2) Cons obtain h l rest' high low ts' where parts: "rest = h # l # rest'" "from_hex h = Some high"
        "from_hex l = Some low" "decode_pieces rest' keep = Some ts'" "ts = Octet (high * 16 + low) # ts'"
        by (auto split: list.splits option.splits)
      have "\<forall>t\<in>set ts'. piece_ok keep t"
        using 1(1) [rule_format, of rest' ts'] 1(3) Cons parts(1,4) by simp
      moreover have "high * 16 + low < 256" using from_hex_bound [OF parts(2)] from_hex_bound [OF parts(3)] by linarith
      ultimately show ?thesis using parts(5) by (simp add: piece_ok_def)
    next
      case False
      with 1(2) Cons obtain t ts' where parts: "decode_pieces rest keep = Some ts'" "ts = t # ts'" "t = Octet b \<or> t = Separator \<and> keep"
        by (auto split: if_splits)
      have "\<forall>t\<in>set ts'. piece_ok keep t"
        using 1(1) [rule_format, of rest ts'] 1(3) Cons parts(1) by simp
      with parts 1(3) Cons show ?thesis by (auto simp: piece_ok_def)
    qed
  qed (use 1 in simp)
qed

lemma upper_hex_round_trip: "n < 16 \<Longrightarrow> from_hex (upper_hex_digit n) = Some n"
  by (auto simp: from_hex_def upper_hex_digit_def)

lemma unreserved_plain: "unreserved b \<Longrightarrow> b \<noteq> 37 \<and> b \<noteq> 47 \<and> b \<noteq> 38 \<and> b \<noteq> 61 \<and> b \<noteq> 10 \<and> b < 128"
  by (auto simp: unreserved_def is_ascii_alphanumeric_def is_ascii_alphabetic_def is_ascii_digit_def)

lemma decode_encode: "\<forall>t\<in>set ts. piece_ok keep t \<Longrightarrow> decode_pieces (encode_pieces ts) keep = Some ts"
proof (induction ts)
  case (Cons t ts)
  then have rest: "decode_pieces (encode_pieces ts) keep = Some ts" by simp
  show ?case
  proof (cases t)
    case Separator
    with Cons.prems rest show ?thesis by (simp add: encode_pieces_def piece_ok_def)
  next
    case (Octet b)
    with Cons.prems have "b < 256" by (simp add: piece_ok_def)
    then have "b div 16 < 16" by simp
    with Octet rest show ?thesis
      by (auto simp: encode_pieces_def encode_rfc3986_byte_def upper_hex_round_trip dest: unreserved_plain)
  qed
qed (simp add: encode_pieces_def)

lemma encode_pieces_inject:
  "\<forall>t\<in>set ts. piece_ok keep t \<Longrightarrow> \<forall>t\<in>set us. piece_ok keep t \<Longrightarrow> encode_pieces ts = encode_pieces us \<Longrightarrow> ts = us"
  by (metis decode_encode option.inject)

lemma encoded_char:
  assumes "\<forall>t\<in>set ts. piece_ok keep t" "c \<in> set (encode_pieces ts)"
  shows "c \<noteq> 38" "c \<noteq> 61" "c \<noteq> 10" "c < 128"
proof -
  have hex: "upper_hex_digit n \<noteq> 38 \<and> upper_hex_digit n \<noteq> 61 \<and> upper_hex_digit n \<noteq> 10 \<and> upper_hex_digit n < 128" if "n < 16" for n
    using that by (auto simp: upper_hex_digit_def)
  obtain t where t: "t \<in> set ts" "c \<in> set (encode_piece t)" using assms(2) by (auto simp: encode_pieces_def)
  have "c \<noteq> 38 \<and> c \<noteq> 61 \<and> c \<noteq> 10 \<and> c < 128"
  proof (cases t)
    case (Octet b)
    with assms(1) t(1) have "b div 16 < 16" by (auto simp: piece_ok_def)
    with Octet t(2) hex [of "b div 16"] hex [of "b mod 16"] show ?thesis
      by (auto simp: encode_rfc3986_byte_def dest: unreserved_plain split: if_splits)
  qed (use t in simp)
  then show "c \<noteq> 38" "c \<noteq> 61" "c \<noteq> 10" "c < 128" by simp_all
qed

section \<open>Queries\<close>

definition scalar_text :: "str \<Rightarrow> bool" where
  "scalar_text s \<longleftrightarrow> (\<forall>c\<in>set s. c < 0x110000)"

lemma scalar_bytes: "scalar_text s \<Longrightarrow> \<forall>b\<in>set (as_bytes s). b < 256"
proof -
  have "\<forall>b\<in>set (utf8_char c). b < 256" if "c < 0x110000" for c
  proof -
    have "c div 64 < 32" if "c < 2048" using that by (simp add: div_less_iff_less_mult)
    moreover have "c div 4096 < 16" if "c < 65536" using that by (simp add: div_less_iff_less_mult)
    moreover have "c div 262144 < 8" using that by (simp add: div_less_iff_less_mult)
    moreover have "x mod 64 + 128 < 256" for x :: nat using mod_less_divisor [of 64 x] by linarith
    ultimately show ?thesis by (auto simp: utf8_char_def add.commute)
  qed
  then show "scalar_text s \<Longrightarrow> \<forall>b\<in>set (as_bytes s). b < 256" by (auto simp: scalar_text_def as_bytes_def)
qed

text \<open>The parameters a query denotes, as a multiset of decoded names and values.\<close>

definition split_component :: "str \<Rightarrow> str \<times> str" where
  "split_component component = (case split_once 61 component of Some kv \<Rightarrow> kv | None \<Rightarrow> (component, []))"

definition component_pieces :: "str \<Rightarrow> (piece list \<times> piece list) option" where
  "component_pieces component =
     Option.bind (decode_pieces (as_bytes (fst (split_component component))) False) (\<lambda>key.
     Option.bind (decode_pieces (as_bytes (snd (split_component component))) False) (\<lambda>v. Some (key, v)))"

definition query_components :: "url \<Rightarrow> str list" where
  "query_components url = (case ur_query url of None \<Rightarrow> [] | Some query \<Rightarrow> if query = [] then [] else split_on 38 query)"

definition query_meaning :: "url \<Rightarrow> (piece list \<times> piece list) multiset" where
  "query_meaning url = mset (map (\<lambda>component. the (component_pieces component)) (query_components url))"

definition encode_pair :: "piece list \<times> piece list \<Rightarrow> str \<times> str" where
  "encode_pair p = (encode_pieces (fst p), encode_pieces (snd p))"

definition pair_pieces_ok :: "piece list \<times> piece list \<Rightarrow> bool" where
  "pair_pieces_ok p \<longleftrightarrow> (\<forall>t\<in>set (fst p). piece_ok False t) \<and> (\<forall>t\<in>set (snd p). piece_ok False t)"

lemma query_component_pieces:
  "query_component c = (case component_pieces c of Some p \<Rightarrow> Inr (encode_pair p) | None \<Rightarrow> Inl SigningInvalidUrl)"
  by (cases "split_component c")
    (auto simp: query_component_def split_component_def component_pieces_def normalize_decodes encode_pair_def
      split: option.splits)

definition decode_pair :: "str \<times> str \<Rightarrow> piece list \<times> piece list" where
  "decode_pair p = (the (decode_pieces (fst p) False), the (decode_pieces (snd p) False))"

lemma decode_encode_pair: "pair_pieces_ok p \<Longrightarrow> decode_pair (encode_pair p) = p"
  by (simp add: decode_pair_def encode_pair_def pair_pieces_ok_def decode_encode)

lemma split_on_chars: "x \<in> set (split_on sep s) \<Longrightarrow> set x \<subseteq> set s"
proof (induction s arbitrary: x)
  case (Cons c s)
  show ?case
  proof (cases "c = sep")
    case True
    with Cons.prems have "x = [] \<or> x \<in> set (split_on sep s)" by auto
    with Cons.IH show ?thesis by auto
  next
    case False
    obtain piece pieces where p: "split_on sep s = piece # pieces" by (cases "split_on sep s") (cases s; auto split: if_splits list.splits)
    with False Cons.prems have "x = c # piece \<or> x \<in> set pieces" by simp
    with Cons.IH [of piece] Cons.IH [of x] p show ?thesis by auto
  qed
qed simp

lemma component_pieces_ok:
  assumes "component_pieces c = Some p" "scalar_text c"
  shows "pair_pieces_ok p"
proof -
  have "set (takeWhile (\<lambda>c. c \<noteq> 61) c) \<subseteq> set c" by (meson set_takeWhileD subsetI)
  moreover have "set (tl (dropWhile (\<lambda>c. c \<noteq> 61) c)) \<subseteq> set c"
  proof
    fix x assume "x \<in> set (tl (dropWhile (\<lambda>c. c \<noteq> 61) c))"
    then have "x \<in> set (dropWhile (\<lambda>c. c \<noteq> 61) c)" by (metis list.sel(2) list.set_sel(2))
    then show "x \<in> set c" by (rule set_dropWhileD)
  qed
  ultimately have "set (fst (split_component c)) \<subseteq> set c" "set (snd (split_component c)) \<subseteq> set c"
    by (auto simp: split_component_def split_once_def)
  then have "scalar_text (fst (split_component c))" "scalar_text (snd (split_component c))"
    using assms(2) by (auto simp: scalar_text_def)
  with assms(1) scalar_bytes show ?thesis
    by (auto simp: component_pieces_def pair_pieces_ok_def Option.bind_eq_Some_conv dest!: decode_pieces_ok)
qed

definition pair_line :: "str \<times> str \<Rightarrow> str" where
  "pair_line p = fst p @ [61] @ snd p"

lemma canonical_query_eq:
  assumes "canonical_query url = Inr q"
  shows "\<exists>pairs. list_all2 (\<lambda>c p. component_pieces c = Some p) (query_components url) pairs \<and>
    q = join_with [38] (map pair_line (sort (map encode_pair pairs)))"
proof (cases "query_components url = []")
  case True
  then have "q = []" using assms by (auto simp: canonical_query_def query_components_def split: option.splits if_splits)
  with True show ?thesis by (intro exI [of _ "[]"]) simp
next
  case False
  then obtain query where query: "ur_query url = Some query" "query \<noteq> []" "query_components url = split_on 38 query"
    by (auto simp: query_components_def split: option.splits if_splits)
  have line: "(\<lambda>(key, v). key @ lit ''='' @ v) = pair_line" by (auto simp: pair_line_def lit_def)
  from assms query obtain pairs where pairs: "list_all2 (\<lambda>c p. query_component c = Inr p) (query_components url) pairs"
    "q = join_with (lit ''&'') (map pair_line (sort pairs))"
    unfolding canonical_query_def line by (auto simp: result_simps try_map_Inr)
  define decoded where "decoded = map (\<lambda>c. the (component_pieces c)) (query_components url)"
  have "list_all2 (\<lambda>c p. component_pieces c = Some p) (query_components url) decoded \<and> map encode_pair decoded = pairs"
    using pairs(1) unfolding decoded_def
    by (induction rule: list_all2_induct) (auto simp: query_component_pieces split: option.splits)
  with pairs(2) show ?thesis by (auto simp: lit_def)
qed

lemma joined_pairs_inject:
  assumes "join_with [38] (map pair_line ps) = join_with [38] (map pair_line qs)"
    and "\<forall>p\<in>set ps \<union> set qs. 38 \<notin> set (fst p) \<and> 61 \<notin> set (fst p) \<and> 38 \<notin> set (snd p)"
  shows "ps = qs"
proof -
  have no_sep: "\<forall>x\<in>set (map pair_line ps) \<union> set (map pair_line qs). 38 \<notin> set x"
  proof -
    have "38 \<notin> set (pair_line p)" if "p \<in> set ps \<union> set qs" for p using assms(2) that by (simp add: pair_line_def)
    then show ?thesis by auto
  qed
  have nonempty: "join_with [38] (map pair_line xs) = [] \<longleftrightarrow> xs = []" for xs
    by (cases xs; cases "tl xs") (simp_all add: pair_line_def)
  have "map pair_line ps = map pair_line qs"
  proof (cases "ps = [] \<or> qs = []")
    case True
    then show ?thesis using assms(1) nonempty by metis
  next
    case False
    then have "split_on 38 (join_with [38] (map pair_line ps)) = map pair_line ps"
      "split_on 38 (join_with [38] (map pair_line qs)) = map pair_line qs"
      using no_sep by (auto intro!: split_on_join)
    then show ?thesis using assms(1) by metis
  qed
  moreover have "inj_on pair_line (set ps \<union> set qs)"
  proof (rule inj_onI)
    fix p q assume pq: "p \<in> set ps \<union> set qs" "q \<in> set ps \<union> set qs" "pair_line p = pair_line q"
    then have "61 \<notin> set (fst p)" "61 \<notin> set (fst q)" using assms(2) by blast+
    then have "split_once 61 (pair_line p) = Some (fst p, snd p)" "split_once 61 (pair_line q) = Some (fst q, snd q)"
      by (simp_all add: pair_line_def split_once_text)
    with pq(3) show "p = q" by (simp add: prod_eq_iff)
  qed
  ultimately show ?thesis by (meson map_inj_on)
qed

text \<open>
  C25: the signed form of a query is canonical. Two accepted queries are signed alike exactly when
  they denote the same multiset of decoded names and values, whatever their order and however
  their characters are escaped.
\<close>

theorem canonical_query_exact:
  assumes "canonical_query u = Inr p" "canonical_query v = Inr q"
    and "\<forall>query. ur_query u = Some query \<longrightarrow> scalar_text query" "\<forall>query. ur_query v = Some query \<longrightarrow> scalar_text query"
  shows "p = q \<longleftrightarrow> query_meaning u = query_meaning v"
proof -
  have decoded: "mset pairs = query_meaning url \<and> (\<forall>p\<in>set pairs. pair_pieces_ok p)"
    if "list_all2 (\<lambda>c p. component_pieces c = Some p) (query_components url) pairs"
      "\<forall>query. ur_query url = Some query \<longrightarrow> scalar_text query" for url pairs
  proof -
    have "\<forall>c\<in>set (query_components url). scalar_text c"
    proof (cases "ur_query url")
      case (Some query)
      then have "scalar_text query" using that(2) by blast
      then show ?thesis using Some subsetD [OF split_on_chars] unfolding query_components_def scalar_text_def by simp
    qed (simp add: query_components_def)
    with that(1) have "pairs = map (\<lambda>c. the (component_pieces c)) (query_components url) \<and> (\<forall>p\<in>set pairs. pair_pieces_ok p)"
      by (induction rule: list_all2_induct) (auto dest: component_pieces_ok)
    then show ?thesis by (simp add: query_meaning_def)
  qed
  obtain us where us: "list_all2 (\<lambda>c p. component_pieces c = Some p) (query_components u) us"
    "p = join_with [38] (map pair_line (sort (map encode_pair us)))" using canonical_query_eq [OF assms(1)] by blast
  obtain vs where vs: "list_all2 (\<lambda>c p. component_pieces c = Some p) (query_components v) vs"
    "q = join_with [38] (map pair_line (sort (map encode_pair vs)))" using canonical_query_eq [OF assms(2)] by blast
  note du = decoded [OF us(1) assms(3)] and dv = decoded [OF vs(1) assms(4)]
  have plain: "38 \<notin> set (fst (encode_pair r)) \<and> 61 \<notin> set (fst (encode_pair r)) \<and> 38 \<notin> set (snd (encode_pair r))"
    if "pair_pieces_ok r" for r
    using that encoded_char(1,2) [of "fst r" False] encoded_char(1) [of "snd r" False]
    by (auto simp: encode_pair_def pair_pieces_ok_def)
  have lines: "sort (map encode_pair us) = sort (map encode_pair vs)" if "p = q"
    by (rule joined_pairs_inject) (use that us(2) vs(2) du dv plain in auto)
  have "mset us = mset vs" if "p = q"
  proof -
    have "image_mset encode_pair (mset us) = image_mset encode_pair (mset vs)" using lines [OF that] by (metis mset_map mset_sort)
    then have "image_mset (decode_pair \<circ> encode_pair) (mset us) = image_mset (decode_pair \<circ> encode_pair) (mset vs)"
      by (metis multiset.map_comp)
    moreover have "image_mset (decode_pair \<circ> encode_pair) (mset rs) = mset rs" if "\<forall>r\<in>set rs. pair_pieces_ok r" for rs
      using that decode_encode_pair by (induction rs) simp_all
    ultimately show ?thesis using du dv by metis
  qed
  moreover have "p = q" if "mset us = mset vs"
  proof -
    have "mset (map encode_pair us) = mset (map encode_pair vs)" using that by simp
    then have "sort (map encode_pair us) = sort (map encode_pair vs)" by (metis properties_for_sort sorted_sort mset_sort)
    with us(2) vs(2) show ?thesis by simp
  qed
  ultimately show ?thesis using du dv by metis
qed

theorem canonical_query_exact_witness:
  "query_meaning (example_origin\<lparr>ur_query := Some (lit ''b=2&a=1'')\<rparr>) =
   query_meaning (example_origin\<lparr>ur_query := Some (lit ''a=%31&b=2'')\<rparr>)"
proof -
  have unres: "unreserved 97" "unreserved 98" "unreserved 49" "unreserved 50"
    by (simp_all add: unreserved_def is_ascii_alphanumeric_def is_ascii_alphabetic_def is_ascii_digit_def)
  have "canonical_query (example_origin\<lparr>ur_query := Some (lit ''b=2&a=1'')\<rparr>) = Inr (lit ''a=1&b=2'')"
    "canonical_query (example_origin\<lparr>ur_query := Some (lit ''a=%31&b=2'')\<rparr>) = Inr (lit ''a=1&b=2'')"
    by (simp_all add: canonical_query_def query_component_def split_once_def encode_rfc3986_byte_def unres from_hex_def
        utf8_char_def lit_def less_eq_prod_def)
  from canonical_query_exact [OF this] show ?thesis by (simp add: scalar_text_def lit_def)
qed

section \<open>What a signature covers\<close>

text \<open>Requests the constructors build: no caller supplies the headers the signer owns.\<close>

definition signing_request_ok :: "signing_request \<Rightarrow> bool" where
  "signing_request_ok request \<longleftrightarrow> validate_method (sq_method request) = Inr () \<and>
     (\<forall>h\<in>set (sq_headers request). sh_name h \<noteq> lit ''authorization'' \<and> sh_name h \<noteq> lit ''host'')"

lemma signing_request_new_ok: "signing_request_new_inner m url body loopback = Inr request \<Longrightarrow> signing_request_ok request"
  by (auto simp: signing_request_new_inner_def signing_request_ok_def result_simps split: if_splits)

lemma with_header_ok:
  "with_header hlib request name v = Inr request' \<Longrightarrow> signing_request_ok request \<Longrightarrow> signing_request_ok request'"
  by (auto simp: with_header_def signing_request_ok_def signed_header_new_def result_simps Let_def split: if_splits)

lemma signed_header_name: "signed_header_new hlib name v = Inr h \<Longrightarrow> sh_name h = name \<and> sh_value h = fold_header_whitespace v"
  by (auto simp: signed_header_new_def Let_def split: if_splits)

text \<open>The text a verifier rebuilds from the request it receives.\<close>

definition received_text :: "crypto_lib \<Rightarrow> signed_request \<Rightarrow> (str, signing_error) result" where
  "received_text clib s =
     and_then (canonical_headers_of (filter (\<lambda>h. sh_name h \<noteq> lit ''authorization'') (sg_headers s))) (\<lambda>headers.
     and_then (canonical_uri (sg_url s)) (\<lambda>uri.
     and_then (canonical_query (sg_url s)) (\<lambda>query.
     Inr (aws_canonical_request (sg_method s) uri query headers (lower_hex (cl_sha256 clib (sg_body s)))))))"

lemma sort_headers_without:
  assumes "\<forall>h\<in>set hs. sh_name h \<noteq> n" "sh_name a = n"
  shows "filter (\<lambda>h. sh_name h \<noteq> n) (sort_headers (sort_headers hs @ [a])) = sort_headers hs"
proof -
  have "filter (\<lambda>h. sh_name h \<noteq> n) (sort_headers hs @ [a]) = sort_headers hs"
    using assms by (auto simp: sort_headers_def filter_id_conv)
  then show ?thesis unfolding sort_headers_def filter_sort by (simp add: sort_key_id_if_sorted)
qed


text \<open>Concrete libraries for the example: every header passes, digests have a fixed value.\<close>

definition example_http :: http_lib where
  "example_http = \<lparr>hl_name = Some, hl_value_ok = (\<lambda>_. True)\<rparr>"

definition example_crypto :: crypto_lib where
  "example_crypto = \<lparr>cl_sha256 = (\<lambda>bs. [3]), cl_hmac = (\<lambda>key message. Some [7])\<rparr>"

definition example_signing_request :: signing_request where
  "example_signing_request =
     \<lparr>sq_method = lit ''GET'', sq_url = example_origin, sq_headers = [], sq_body = [1, 2], sq_total_header_bytes = 0\<rparr>"

definition example_time :: date_time where
  "example_time = \<lparr>dt_is_utc = True, dt_year = 2026, dt_month = 1, dt_day = 2, dt_hour = 3, dt_minute = 4, dt_second = 5\<rparr>"

lemma example_signed_header:
  "\<forall>c\<in>set v. 32 \<le> c \<and> c \<le> 126 \<Longrightarrow> length v \<le> 1024 \<Longrightarrow>
     signed_header_new example_http n v = Inr \<lparr>sh_name = n, sh_value = fold_header_whitespace v\<rparr>"
proof -
  assume v: "\<forall>c\<in>set v. 32 \<le> c \<and> c \<le> 126" "length v \<le> 1024"
  then have "as_bytes v = v" by (intro as_bytes_ascii) auto
  with v show ?thesis
    by (simp add: signed_header_new_def is_safe_header_value_def str_len_def list_all_iff example_http_def limit_defs)
qed

lemma example_request_signs:
  "\<exists>s. aws_sign example_http example_crypto \<lparr>as_region = lit ''eu'', as_service = lit ''s''\<rparr> example_signing_request
     \<lparr>ac_access_key_id = lit ''k'', ac_secret_access_key = lit ''x'', ac_session_token = None\<rparr> example_time = Inr s"
proof -
  let ?host = "\<lparr>sh_name = lit ''host'', sh_value = fold_header_whitespace (lit ''api.example.com'')\<rparr>"
  let ?hash = "\<lparr>sh_name = lit ''x-amz-content-sha256'', sh_value = fold_header_whitespace (lower_hex [3])\<rparr>"
  let ?date = "\<lparr>sh_name = lit ''x-amz-date'', sh_value = fold_header_whitespace (lit ''20260102T030405Z'')\<rparr>"
  have time: "format_timestamp example_time = Inr (lit ''20260102'', lit ''20260102T030405Z'')"
    by (simp add: format_timestamp_def example_time_def zero_padded_def lit_def decimal.simps [of 2026] decimal.simps [of 202]
        decimal.simps [of 20] decimal.simps [of "Suc 0"] decimal.simps [of 2] decimal.simps [of 3] decimal.simps [of 4] decimal.simps [of 5])
  have url: "canonical_host example_origin = Inr (lit ''api.example.com'')" "canonical_uri example_origin = Inr (lit ''/'')"
    "canonical_query example_origin = Inr []"
    by (simp_all add: canonical_host_def canonical_uri_def canonical_query_def example_origin_def lit_def utf8_char_def)
  have headers: "signed_header_new example_http (lit ''host'') (lit ''api.example.com'') = Inr ?host"
    "signed_header_new example_http (lit ''x-amz-content-sha256'') (lower_hex [3]) = Inr ?hash"
    "signed_header_new example_http (lit ''x-amz-date'') (lit ''20260102T030405Z'') = Inr ?date"
    by (rule example_signed_header; simp add: lit_def lower_hex_def hex_digit_def)+
  have sorted: "sort_headers [?host, ?hash, ?date] = [?host, ?hash, ?date]"
    by (simp add: sort_headers_def lit_def)
  let ?names = "lit ''host;x-amz-content-sha256;x-amz-date''"
  let ?grouped = "group_headers [?host, ?hash, ?date] bt_empty"
  have keys: "bt_keys ?grouped = [lit ''host'', lit ''x-amz-content-sha256'', lit ''x-amz-date'']"
  proof -
    have "{k. bt_contains ?grouped k} = {lit ''host'', lit ''x-amz-content-sha256'', lit ''x-amz-date''}"
      by (auto simp: bt_contains_def)
    then show ?thesis by (simp add: bt_keys_eq lit_def)
  qed
  then have "length (bt_keys ?grouped) = 3" by (simp del: group_headers.simps)
  then have "bt_len ?grouped = 3" by (simp add: bt_len_def bt_keys_def del: group_headers.simps)
  then obtain canonical where canonical: "canonical_headers_of [?host, ?hash, ?date] = Inr canonical" "ch_names canonical = join_with (lit '';'') (bt_keys ?grouped)"
    by (simp add: canonical_headers_of_def Let_def del: group_headers.simps)
  have names: "join_with (lit '';'') (bt_keys ?grouped) = ?names" unfolding keys by (simp add: lit_def)
  let ?sent = "authorization_of AWS_ALGORITHM (lit ''k'')
      (credential_scope [lit ''20260102'', lit ''eu'', lit ''s'', AWS_TERMINATOR]) ?names [7]"
  let ?auth = "\<lparr>sh_name = lit ''authorization'', sh_value = fold_header_whitespace ?sent\<rparr>"
  have auth: "signed_header_new example_http (lit ''authorization'') ?sent = Inr ?auth"
    by (rule example_signed_header) (simp_all add: authorization_of_def credential_scope_def AWS_ALGORITHM_def AWS_TERMINATOR_def
        lit_def lower_hex_def hex_digit_def)
  have final: "validate_output_headers (sort_headers [?host, ?hash, ?date, ?auth]) = Inr ()"
    by (simp add: validate_output_headers_def sort_headers_def is_none_or_def authorization_of_def credential_scope_def
        AWS_ALGORITHM_def AWS_TERMINATOR_def fold_header_whitespace_def split_ascii_whitespace_def is_ascii_whitespace_def
        lower_hex_def hex_digit_def str_len_def utf8_char_def checked_add_def lit_def limit_defs)
  show ?thesis
    by (simp add: aws_sign_def time url example_signing_request_def reject_managed_headers_def example_crypto_def headers
        Let_def sorted canonical(1) canonical(2) [unfolded names] aws_signature_def hmac_sha256_def auth final)
qed


end
