(* ===== verification/Http_Transport.thy ===== *)
theory Http_Transport
  imports Cloud_Signing
begin

text \<open>
  The HTTP transport of the provider adapters (\<open>crates/providers/src/transport.rs\<close>) and its retry
  policy (\<open>crates/providers/src/retry.rs\<close>).

  The network is the environment: for each attempt, a function from the number of the exchange and
  the request sent to the response or its failure, the wall clock at each exchange, and whether the
  attempt is cancelled or times out after some number of exchanges. Every operation that sends
  returns the list of requests it sent. Both loops are partial functions, so that returning at all
  is something to prove.
\<close>

section \<open>Retry policy\<close>

definition MAX_RETRY_DELAY :: duration where "MAX_RETRY_DELAY = from_hours 1"

definition MAX_RETRY_AFTER_DELAY :: duration where "MAX_RETRY_AFTER_DELAY = from_hours 1"

datatype transport_error =
  TEndpoint endpoint_error | TInvalidConfiguration | TCancelled | TTimeout | TNetwork | TResponseTooLarge
| TMalformedResponse | TTooManyRedirects | TAuthenticationExpired | TPermissionDenied | TRequestTimeout
| TRateLimited "duration option" | TProviderUnavailable nat "duration option" | TApi nat

fun is_retryable :: "transport_error \<Rightarrow> bool" where
  "is_retryable TTimeout \<longleftrightarrow> True"
| "is_retryable TNetwork \<longleftrightarrow> True"
| "is_retryable TRequestTimeout \<longleftrightarrow> True"
| "is_retryable (TRateLimited _) \<longleftrightarrow> True"
| "is_retryable (TProviderUnavailable _ _) \<longleftrightarrow> True"
| "is_retryable _ \<longleftrightarrow> False"

fun transport_retry_after :: "transport_error \<Rightarrow> duration option" where
  "transport_retry_after (TRateLimited d) = d"
| "transport_retry_after (TProviderUnavailable _ d) = d"
| "transport_retry_after _ = None"

fun http_status :: "transport_error \<Rightarrow> nat option" where
  "http_status TAuthenticationExpired = Some 401"
| "http_status TPermissionDenied = Some 403"
| "http_status TRequestTimeout = Some 408"
| "http_status (TRateLimited _) = Some 429"
| "http_status (TProviderUnavailable status _) = Some status"
| "http_status (TApi status) = Some status"
| "http_status _ = None"

definition classified_as :: "transport_error \<Rightarrow> error_kind \<Rightarrow> classified_error" where
  "classified_as e kind =
     (let error = classified_error_new kind in
      case transport_retry_after e of
        None \<Rightarrow> error
      | Some delay \<Rightarrow>
          (case window_duration_from_seconds (max (delay div nanos_per_sec) 1) of
            Inl _ \<Rightarrow> error
          | Inr d \<Rightarrow> (case with_retry_after error d of Inr e' \<Rightarrow> e' | Inl _ \<Rightarrow> error)))"

fun classified_kind :: "transport_error \<Rightarrow> error_kind" where
  "classified_kind TAuthenticationExpired = AuthenticationExpired"
| "classified_kind TPermissionDenied = PermissionDenied"
| "classified_kind (TRateLimited _) = RateLimited"
| "classified_kind (TProviderUnavailable _ _) = ProviderUnavailable"
| "classified_kind TCancelled = Network"
| "classified_kind TTimeout = Network"
| "classified_kind TNetwork = Network"
| "classified_kind TRequestTimeout = Network"
| "classified_kind TResponseTooLarge = Parse"
| "classified_kind TMalformedResponse = Parse"
| "classified_kind TTooManyRedirects = Parse"
| "classified_kind (TEndpoint _) = Api"
| "classified_kind TInvalidConfiguration = Api"
| "classified_kind (TApi _) = Api"

definition transport_classified :: "transport_error \<Rightarrow> classified_error" where
  "transport_classified e = classified_as e (classified_kind e)"

record retry_policy =
  rp_max_retries :: nat
  rp_base_delay :: duration
  rp_max_delay :: duration

definition retry_none :: retry_policy where
  "retry_none = \<lparr>rp_max_retries = 0, rp_base_delay = 0, rp_max_delay = 0\<rparr>"

definition retry_one :: "duration \<Rightarrow> duration \<Rightarrow> retry_policy" where
  "retry_one base_delay max_delay = \<lparr>rp_max_retries = 1, rp_base_delay = base_delay, rp_max_delay = max_delay\<rparr>"

definition retry_delay :: "retry_policy \<Rightarrow> nat \<Rightarrow> transport_error \<Rightarrow> duration option" where
  "retry_delay policy completed_retries error =
     (if completed_retries \<ge> rp_max_retries policy \<or> \<not> is_retryable error then None
      else
        let requested = (case transport_retry_after error of Some d \<Rightarrow> d | None \<Rightarrow> rp_base_delay policy) in
        Some (min requested (rp_max_delay policy)))"

definition retry_is_valid :: "retry_policy \<Rightarrow> bool" where
  "retry_is_valid policy \<longleftrightarrow> rp_base_delay policy \<le> rp_max_delay policy \<and> rp_max_delay policy \<le> MAX_RETRY_DELAY"

text \<open>\<open>str::parse::<u64>\<close>: an optional plus sign and digits, within range.\<close>

definition parse_u64 :: "str \<Rightarrow> nat option" where
  "parse_u64 s =
     (let digits = (case s of c # rest \<Rightarrow> if c = 43 then rest else s | [] \<Rightarrow> []) in
      if digits = [] \<or> \<not> list_all is_ascii_digit digits \<or> undecimal digits > u64_max then None
      else Some (undecimal digits))"

record net_lib =
  nl_http :: http_lib
  nl_crypto :: crypto_lib
  nl_to_str :: "nat list \<Rightarrow> str option"
  nl_http_date :: "str \<Rightarrow> int option"
  nl_join :: "url \<Rightarrow> str \<Rightarrow> url option"
  nl_civil :: "int \<Rightarrow> date_time option"

definition parse_retry_after :: "net_lib \<Rightarrow> nat list \<Rightarrow> int \<Rightarrow> duration \<Rightarrow> duration option" where
  "parse_retry_after nlib v now maximum =
     (if maximum = 0 then None
      else
        Option.bind (nl_to_str nlib v) (\<lambda>v.
        let v = trim v in
        Option.bind
          (case parse_u64 v of
            Some seconds \<Rightarrow> Some (from_secs seconds)
          | None \<Rightarrow> map_option (\<lambda>retry_at. nat (retry_at - now)) (nl_http_date nlib v)) (\<lambda>duration.
        Some (min duration maximum))))"

lemma parse_retry_after_bound: "parse_retry_after nlib v now maximum = Some d \<Longrightarrow> d \<le> maximum \<and> 0 < maximum"
  by (auto simp: parse_retry_after_def Let_def Option.bind_eq_Some_conv split: if_splits)

text \<open>Transport failures become well-formed classified errors, with a delay only where retrying is automatic.\<close>

lemma transport_classified_ok: "classified_error_ok (transport_classified e)"
  by (auto simp: transport_classified_def classified_as_def Let_def split: option.splits sum.splits
      intro: classified_error_new_ok with_retry_after_ok)

section \<open>Configuration and requests\<close>

definition MAX_SECRET_BYTES :: nat where [limit_defs]: "MAX_SECRET_BYTES = 16 * 1024"
definition MAX_AUTHORIZATION_SCHEME_BYTES :: nat where [limit_defs]: "MAX_AUTHORIZATION_SCHEME_BYTES = 32"
definition MAX_REQUEST_BODY_BYTES :: nat where [limit_defs]: "MAX_REQUEST_BODY_BYTES = 4 * 1024 * 1024"
definition MAX_PUBLIC_REQUEST_HEADERS :: nat where [limit_defs]: "MAX_PUBLIC_REQUEST_HEADERS = 32"
definition MAX_PUBLIC_HEADER_VALUE_BYTES :: nat where [limit_defs]: "MAX_PUBLIC_HEADER_VALUE_BYTES = 8 * 1024"
definition MAX_ACCEPTED_STATUSES :: nat where [limit_defs]: "MAX_ACCEPTED_STATUSES = 16"
definition MAX_RESPONSE_HEADERS :: nat where [limit_defs]: "MAX_RESPONSE_HEADERS = 32"
definition MAX_RESPONSE_HEADER_VALUE_BYTES :: nat where [limit_defs]: "MAX_RESPONSE_HEADER_VALUE_BYTES = 8 * 1024"
definition MAX_RESPONSE_BYTES :: nat where [limit_defs]: "MAX_RESPONSE_BYTES = 16 * 1024 * 1024"
definition MAX_REDIRECTS :: nat where [limit_defs]: "MAX_REDIRECTS = 10"

record transport_config =
  tc_connect_timeout :: duration
  tc_request_timeout :: duration
  tc_max_response_bytes :: nat
  tc_max_redirects :: nat
  tc_retry :: retry_policy

definition transport_config_new ::
    "duration \<Rightarrow> duration \<Rightarrow> nat \<Rightarrow> nat \<Rightarrow> retry_policy \<Rightarrow> (transport_config, transport_error) result" where
  "transport_config_new connect_timeout request_timeout max_response_bytes max_redirects retry =
     (if connect_timeout = 0 \<or> request_timeout = 0 \<or> max_response_bytes = 0 \<or> max_response_bytes > MAX_RESPONSE_BYTES \<or>
         max_redirects > MAX_REDIRECTS \<or> \<not> retry_is_valid retry
      then Inl TInvalidConfiguration
      else Inr \<lparr>tc_connect_timeout = connect_timeout, tc_request_timeout = request_timeout,
                tc_max_response_bytes = max_response_bytes, tc_max_redirects = max_redirects, tc_retry = retry\<rparr>)"

definition secret_value_new :: "str \<Rightarrow> (str, transport_error) result" where
  "secret_value_new v =
     (if v = [] \<or> str_len v > MAX_SECRET_BYTES \<or> list_ex (\<lambda>c. c = 13 \<or> c = 10) v then Inl TInvalidConfiguration else Inr v)"

datatype request_accept = AcceptAny | AcceptJson | AcceptJsonTextAny | AcceptHtml

fun accept_str :: "request_accept \<Rightarrow> str" where
  "accept_str AcceptAny = lit ''*/*''"
| "accept_str AcceptJson = lit ''application/json''"
| "accept_str AcceptJsonTextAny = lit ''application/json, text/plain, */*''"
| "accept_str AcceptHtml = lit ''text/html,application/xhtml+xml''"

datatype request_content_type = ContentJson | FormUrlEncoded | FormUrlEncodedUtf8 | AwsJson10 | AwsJson11 | GrpcWebProto

fun content_type_str :: "request_content_type \<Rightarrow> str" where
  "content_type_str ContentJson = lit ''application/json''"
| "content_type_str FormUrlEncoded = lit ''application/x-www-form-urlencoded''"
| "content_type_str FormUrlEncodedUtf8 = lit ''application/x-www-form-urlencoded; charset=utf-8''"
| "content_type_str AwsJson10 = lit ''application/x-amz-json-1.0''"
| "content_type_str AwsJson11 = lit ''application/x-amz-json-1.1''"
| "content_type_str GrpcWebProto = lit ''application/grpc-web+proto''"

datatype authentication =
  Bearer str | BearerAndCookie str str | AuthorizationScheme str str | ApiKey str str | CookieAuth str
| AwsSigV4 aws_signer aws_credentials | VolcengineV4 volcengine_credentials

definition is_http_token_byte :: "nat \<Rightarrow> bool" where
  "is_http_token_byte b \<longleftrightarrow> is_ascii_alphanumeric b \<or>
     b \<in> {33, 35, 36, 37, 38, 39, 42, 43, 45, 46, 94, 95, 96, 124, 126}"

definition is_reserved_api_key_header :: "str \<Rightarrow> bool" where
  "is_reserved_api_key_header name \<longleftrightarrow>
     name \<in> set (map lit [''authorization'', ''cookie'', ''content-length'', ''location'', ''connection'', ''host'',
       ''proxy-authenticate'', ''proxy-authorization'', ''set-cookie'', ''te'', ''trailer'', ''transfer-encoding'', ''upgrade'',
       ''www-authenticate''])"

definition is_reserved_public_header :: "str \<Rightarrow> bool" where
  "is_reserved_public_header name \<longleftrightarrow>
     is_reserved_api_key_header name \<or> name = lit ''accept'' \<or> name = lit ''content-type''"

definition is_reserved_response_header :: "str \<Rightarrow> bool" where
  "is_reserved_response_header name \<longleftrightarrow>
     name \<in> set (map lit [''authorization'', ''cookie'', ''content-length'', ''location'', ''connection'', ''host'',
       ''proxy-authenticate'', ''proxy-authorization'', ''set-cookie'', ''te'', ''trailer'', ''transfer-encoding'', ''upgrade'',
       ''www-authenticate''])"

definition auth_bearer :: "str \<Rightarrow> (authentication, transport_error) result" where
  "auth_bearer v = map_ok Bearer (secret_value_new v)"

definition auth_bearer_and_cookie :: "str \<Rightarrow> str \<Rightarrow> (authentication, transport_error) result" where
  "auth_bearer_and_cookie bearer cookie =
     and_then (secret_value_new bearer) (\<lambda>bearer. and_then (secret_value_new cookie) (\<lambda>cookie. Inr (BearerAndCookie bearer cookie)))"

definition auth_authorization_scheme :: "str \<Rightarrow> str \<Rightarrow> (authentication, transport_error) result" where
  "auth_authorization_scheme scheme v =
     (if scheme = [] \<or> str_len scheme > MAX_AUTHORIZATION_SCHEME_BYTES \<or> \<not> list_all is_http_token_byte (as_bytes scheme)
      then Inl TInvalidConfiguration
      else map_ok (AuthorizationScheme scheme) (secret_value_new v))"

definition auth_api_key :: "http_lib \<Rightarrow> str \<Rightarrow> str \<Rightarrow> (authentication, transport_error) result" where
  "auth_api_key hlib name v =
     and_then (ok_or TInvalidConfiguration (hl_name hlib name)) (\<lambda>name.
     if is_reserved_api_key_header name then Inl TInvalidConfiguration
     else map_ok (ApiKey name) (secret_value_new v))"

definition auth_cookie :: "str \<Rightarrow> (authentication, transport_error) result" where
  "auth_cookie v = map_ok CookieAuth (secret_value_new v)"

definition auth_aws_sig_v4 :: "aws_credentials \<Rightarrow> str \<Rightarrow> str \<Rightarrow> (authentication, transport_error) result" where
  "auth_aws_sig_v4 credentials region service =
     and_then (map_err (\<lambda>_. TInvalidConfiguration) (aws_signer_new region service)) (\<lambda>signer.
     Inr (AwsSigV4 signer credentials))"

fun uses_cloud_signing :: "authentication \<Rightarrow> bool" where
  "uses_cloud_signing (AwsSigV4 _ _) \<longleftrightarrow> True"
| "uses_cloud_signing (VolcengineV4 _) \<longleftrightarrow> True"
| "uses_cloud_signing _ \<longleftrightarrow> False"

record http_request =
  rq_method :: str
  rq_url :: url
  rq_authentication :: "authentication option"
  rq_public_headers :: "(str \<times> str) list"
  rq_sensitive_headers :: "(str \<times> str) list"
  rq_accepted_statuses :: "nat list"
  rq_response_headers :: "str list"
  rq_body :: "nat list"
  rq_accept :: "request_accept option"
  rq_content_type :: "request_content_type option"

definition request_get :: "url \<Rightarrow> http_request" where
  "request_get url =
     \<lparr>rq_method = lit ''GET'', rq_url = url, rq_authentication = None, rq_public_headers = [], rq_sensitive_headers = [],
      rq_accepted_statuses = [], rq_response_headers = [], rq_body = [], rq_accept = None, rq_content_type = None\<rparr>"

definition request_get_json :: "url \<Rightarrow> http_request" where
  "request_get_json url = (request_get url)\<lparr>rq_accept := Some AcceptJson\<rparr>"

definition request_post :: "url \<Rightarrow> nat list \<Rightarrow> (http_request, transport_error) result" where
  "request_post url body =
     (if length body > MAX_REQUEST_BODY_BYTES then Inl TInvalidConfiguration
      else Inr \<lparr>rq_method = lit ''POST'', rq_url = url, rq_authentication = None, rq_public_headers = [],
        rq_sensitive_headers = [], rq_accepted_statuses = [], rq_response_headers = [], rq_body = body, rq_accept = None,
        rq_content_type = None\<rparr>)"

definition request_post_json :: "url \<Rightarrow> nat list \<Rightarrow> (http_request, transport_error) result" where
  "request_post_json url body =
     (let has_body = (body \<noteq> []) in
      and_then (request_post url body) (\<lambda>request.
      let request = request\<lparr>rq_accept := Some AcceptJson\<rparr> in
      Inr (if has_body then request\<lparr>rq_content_type := Some ContentJson\<rparr> else request)))"

definition request_authentication :: "http_request \<Rightarrow> authentication \<Rightarrow> http_request" where
  "request_authentication request a = request\<lparr>rq_authentication := Some a\<rparr>"

definition request_set_accept :: "http_request \<Rightarrow> request_accept \<Rightarrow> http_request" where
  "request_set_accept request a = request\<lparr>rq_accept := Some a\<rparr>"

definition request_set_content_type :: "http_request \<Rightarrow> request_content_type \<Rightarrow> http_request" where
  "request_set_content_type request t = request\<lparr>rq_content_type := Some t\<rparr>"

definition request_empty_json_content_type :: "http_request \<Rightarrow> http_request" where
  "request_empty_json_content_type request = request\<lparr>rq_content_type := Some ContentJson\<rparr>"

definition status_is_client_error :: "nat \<Rightarrow> bool" where "status_is_client_error s \<longleftrightarrow> 400 \<le> s \<and> s \<le> 499"
definition status_is_server_error :: "nat \<Rightarrow> bool" where "status_is_server_error s \<longleftrightarrow> 500 \<le> s \<and> s \<le> 599"
definition status_is_success :: "nat \<Rightarrow> bool" where "status_is_success s \<longleftrightarrow> 200 \<le> s \<and> s \<le> 299"
definition status_is_redirection :: "nat \<Rightarrow> bool" where "status_is_redirection s \<longleftrightarrow> 300 \<le> s \<and> s \<le> 399"

fun collect_statuses :: "nat list \<Rightarrow> nat list \<Rightarrow> (nat list, transport_error) result" where
  "collect_statuses [] accepted = Inr accepted"
| "collect_statuses (s # statuses) accepted =
     (if \<not> (100 \<le> s \<and> s \<le> 999) then Inl TInvalidConfiguration
      else if \<not> status_is_client_error s \<and> \<not> status_is_server_error s \<or> s \<in> set accepted then Inl TInvalidConfiguration
      else collect_statuses statuses (accepted @ [s]))"

definition request_accepted_statuses :: "http_request \<Rightarrow> nat list \<Rightarrow> (http_request, transport_error) result" where
  "request_accepted_statuses request statuses =
     (if length statuses > MAX_ACCEPTED_STATUSES then Inl TInvalidConfiguration
      else and_then (collect_statuses statuses []) (\<lambda>accepted. Inr (request\<lparr>rq_accepted_statuses := accepted\<rparr>)))"

fun collect_header_names :: "http_lib \<Rightarrow> str list \<Rightarrow> str list \<Rightarrow> (str list, transport_error) result" where
  "collect_header_names hlib [] selected = Inr selected"
| "collect_header_names hlib (name # names) selected =
     and_then (ok_or TInvalidConfiguration (hl_name hlib name)) (\<lambda>name.
     if is_reserved_response_header name \<or> name \<in> set selected then Inl TInvalidConfiguration
     else collect_header_names hlib names (selected @ [name]))"

definition request_response_headers :: "http_lib \<Rightarrow> http_request \<Rightarrow> str list \<Rightarrow> (http_request, transport_error) result" where
  "request_response_headers hlib request names =
     (if length names > MAX_RESPONSE_HEADERS then Inl TInvalidConfiguration
      else and_then (collect_header_names hlib names []) (\<lambda>selected. Inr (request\<lparr>rq_response_headers := selected\<rparr>)))"

definition has_metadata_header :: "http_request \<Rightarrow> str \<Rightarrow> bool" where
  "has_metadata_header request name \<longleftrightarrow>
     name \<in> fst ` set (rq_public_headers request) \<or> name \<in> fst ` set (rq_sensitive_headers request)"

definition request_public_header ::
    "http_lib \<Rightarrow> http_request \<Rightarrow> str \<Rightarrow> str \<Rightarrow> (http_request, transport_error) result" where
  "request_public_header hlib request name v =
     (if length (rq_public_headers request) + length (rq_sensitive_headers request) \<ge> MAX_PUBLIC_REQUEST_HEADERS \<or>
         str_len v > MAX_PUBLIC_HEADER_VALUE_BYTES
      then Inl TInvalidConfiguration
      else
        and_then (ok_or TInvalidConfiguration (hl_name hlib name)) (\<lambda>name.
        if is_reserved_public_header name \<or> has_metadata_header request name then Inl TInvalidConfiguration
        else if \<not> hl_value_ok hlib v then Inl TInvalidConfiguration
        else Inr (request\<lparr>rq_public_headers := rq_public_headers request @ [(name, v)]\<rparr>)))"

definition request_sensitive_header ::
    "http_lib \<Rightarrow> http_request \<Rightarrow> str \<Rightarrow> str \<Rightarrow> (http_request, transport_error) result" where
  "request_sensitive_header hlib request name v =
     (if length (rq_public_headers request) + length (rq_sensitive_headers request) \<ge> MAX_PUBLIC_REQUEST_HEADERS
      then Inl TInvalidConfiguration
      else
        and_then (ok_or TInvalidConfiguration (hl_name hlib name)) (\<lambda>name.
        if is_reserved_public_header name \<or> has_metadata_header request name then Inl TInvalidConfiguration
        else
          and_then (secret_value_new v) (\<lambda>v.
          if str_len v > MAX_PUBLIC_HEADER_VALUE_BYTES then Inl TInvalidConfiguration
          else Inr (request\<lparr>rq_sensitive_headers := rq_sensitive_headers request @ [(name, v)]\<rparr>))))"

section \<open>Building a request\<close>

record sent_request =
  sr_method :: str
  sr_url :: url
  sr_headers :: "(str \<times> str) list"
  sr_body :: "nat list"

definition sensitive_header :: "http_lib \<Rightarrow> str \<Rightarrow> (str, transport_error) result" where
  "sensitive_header hlib v = (if hl_value_ok hlib v then Inr v else Inl TInvalidConfiguration)"

fun auth_apply :: "http_lib \<Rightarrow> authentication \<Rightarrow> ((str \<times> str) list, transport_error) result" where
  "auth_apply hlib (Bearer secret) =
     map_ok (\<lambda>v. [(lit ''authorization'', v)]) (sensitive_header hlib (lit ''Bearer '' @ secret))"
| "auth_apply hlib (BearerAndCookie bearer cookie) =
     and_then (sensitive_header hlib (lit ''Bearer '' @ bearer)) (\<lambda>authorization.
     and_then (sensitive_header hlib cookie) (\<lambda>cookie.
     Inr [(lit ''authorization'', authorization), (lit ''cookie'', cookie)]))"
| "auth_apply hlib (AuthorizationScheme scheme v) =
     map_ok (\<lambda>v. [(lit ''authorization'', v)]) (sensitive_header hlib (scheme @ lit '' '' @ v))"
| "auth_apply hlib (ApiKey name v) = map_ok (\<lambda>v. [(name, v)]) (sensitive_header hlib v)"
| "auth_apply hlib (CookieAuth secret) = map_ok (\<lambda>v. [(lit ''cookie'', v)]) (sensitive_header hlib secret)"
| "auth_apply hlib (AwsSigV4 _ _) = Inl TInvalidConfiguration"
| "auth_apply hlib (VolcengineV4 _) = Inl TInvalidConfiguration"

fun with_headers :: "http_lib \<Rightarrow> (str \<times> str) list \<Rightarrow> signing_request \<Rightarrow> (signing_request, transport_error) result" where
  "with_headers hlib [] request = Inr request"
| "with_headers hlib ((name, v) # headers) request =
     and_then (map_err (\<lambda>_. TInvalidConfiguration) (with_header hlib request name v)) (with_headers hlib headers)"

definition metadata_headers :: "http_request \<Rightarrow> (str \<times> str) list" where
  "metadata_headers request =
     (case rq_accept request of Some a \<Rightarrow> [(lit ''accept'', accept_str a)] | None \<Rightarrow> []) @
     (case rq_content_type request of Some t \<Rightarrow> [(lit ''content-type'', content_type_str t)] | None \<Rightarrow> [])"

definition signing_request_of ::
    "net_lib \<Rightarrow> http_request \<Rightarrow> validated_endpoint \<Rightarrow> (signing_request, transport_error) result" where
  "signing_request_of nlib request endpoint =
     and_then (map_err (\<lambda>_. TInvalidConfiguration) (for_validated_endpoint (rq_method request) endpoint (rq_body request))) (\<lambda>signing.
     and_then (with_headers (nl_http nlib) (metadata_headers request) signing) (\<lambda>signing.
     and_then (try_map (\<lambda>(name, v). map_ok (\<lambda>v. (name, v)) (ok_or TInvalidConfiguration (nl_to_str nlib (as_bytes v))))
       (rq_public_headers request)) (\<lambda>public.
     and_then (with_headers (nl_http nlib) public signing) (\<lambda>signing.
     with_headers (nl_http nlib) (rq_sensitive_headers request) signing))))"

fun sign_cloud_request ::
    "net_lib \<Rightarrow> authentication \<Rightarrow> http_request \<Rightarrow> validated_endpoint \<Rightarrow> date_time \<Rightarrow>
     (signed_request option, transport_error) result" where
  "sign_cloud_request nlib (AwsSigV4 signer credentials) request endpoint timestamp =
     and_then (signing_request_of nlib request endpoint) (\<lambda>signing.
     map_err (\<lambda>_. TInvalidConfiguration) (map_ok Some (aws_sign (nl_http nlib) (nl_crypto nlib) signer signing credentials timestamp)))"
| "sign_cloud_request nlib (VolcengineV4 credentials) request endpoint timestamp =
     and_then (signing_request_of nlib request endpoint) (\<lambda>signing.
     map_err (\<lambda>_. TInvalidConfiguration) (map_ok Some (volcengine_sign (nl_http nlib) (nl_crypto nlib) signing credentials timestamp)))"
| "sign_cloud_request nlib _ request endpoint timestamp = Inr None"

definition system_time_utc :: "net_lib \<Rightarrow> int \<Rightarrow> (date_time, transport_error) result" where
  "system_time_utc nlib t = ok_or TInvalidConfiguration (nl_civil nlib t)"

definition build_plain :: "net_lib \<Rightarrow> http_request \<Rightarrow> validated_endpoint \<Rightarrow> (sent_request, transport_error) result" where
  "build_plain nlib request endpoint =
     and_then (try_map (\<lambda>(name, v). map_ok (\<lambda>v. (name, v)) (sensitive_header (nl_http nlib) v)) (rq_sensitive_headers request)) (\<lambda>sensitive.
     and_then (case rq_authentication request of Some a \<Rightarrow> auth_apply (nl_http nlib) a | None \<Rightarrow> Inr []) (\<lambda>authorization.
     Inr \<lparr>sr_method = rq_method request, sr_url = ve_url endpoint,
          sr_headers = metadata_headers request @ rq_public_headers request @ sensitive @ authorization,
          sr_body = rq_body request\<rparr>))"

definition build_request ::
    "net_lib \<Rightarrow> http_request \<Rightarrow> validated_endpoint \<Rightarrow> int \<Rightarrow> (sent_request, transport_error) result" where
  "build_request nlib request endpoint now =
     and_then
       (case rq_authentication request of
         Some a \<Rightarrow>
           if uses_cloud_signing a then
             and_then (system_time_utc nlib now) (\<lambda>t. sign_cloud_request nlib a request endpoint t)
           else Inr None
       | None \<Rightarrow> Inr None) (\<lambda>signed.
     case signed of
       Some s \<Rightarrow> Inr \<lparr>sr_method = sg_method s, sr_url = sg_url s,
         sr_headers = map (\<lambda>h. (sh_name h, sh_value h)) (sg_headers s), sr_body = sg_body s\<rparr>
     | None \<Rightarrow> build_plain nlib request endpoint)"

section \<open>Sending\<close>

record http_reply =
  hr_status :: nat
  hr_headers :: "(str \<times> nat list) list"
  hr_content_length :: "nat option"
  hr_chunks :: "nat list option list"

record http_response =
  hs_status :: nat
  hs_body :: "nat list"
  hs_headers :: "(str \<times> str) list"
  hs_endpoint :: validated_endpoint

definition response_header :: "http_lib \<Rightarrow> http_response \<Rightarrow> str \<Rightarrow> str option" where
  "response_header hlib response name =
     Option.bind (hl_name hlib name) (\<lambda>name. map_of (hs_headers response) name)"

definition redirect_target :: "net_lib \<Rightarrow> url \<Rightarrow> http_reply \<Rightarrow> (url, transport_error) result" where
  "redirect_target nlib current reply =
     and_then (ok_or TMalformedResponse (map_of (hr_headers reply) (lit ''location''))) (\<lambda>v.
     and_then (ok_or TMalformedResponse (nl_to_str nlib v)) (\<lambda>location.
     ok_or TMalformedResponse (nl_join nlib current location)))"

definition status_error :: "net_lib \<Rightarrow> nat \<Rightarrow> http_reply \<Rightarrow> int \<Rightarrow> transport_error" where
  "status_error nlib status reply now =
     (let retry_after = Option.bind (map_of (hr_headers reply) (lit ''retry-after'')) (\<lambda>v.
            parse_retry_after nlib v now MAX_RETRY_AFTER_DELAY) in
      if status = 401 then TAuthenticationExpired
      else if status = 403 then TPermissionDenied
      else if status = 408 then TRequestTimeout
      else if status = 429 then TRateLimited retry_after
      else if status_is_server_error status then TProviderUnavailable status retry_after
      else TApi status)"

fun select_response_headers ::
    "net_lib \<Rightarrow> http_reply \<Rightarrow> str list \<Rightarrow> ((str \<times> str) list, transport_error) result" where
  "select_response_headers nlib reply [] = Inr []"
| "select_response_headers nlib reply (name # names) =
     (case map_of (hr_headers reply) name of
       None \<Rightarrow> select_response_headers nlib reply names
     | Some v \<Rightarrow>
         if length v > MAX_RESPONSE_HEADER_VALUE_BYTES then Inl TResponseTooLarge
         else
           and_then (ok_or TMalformedResponse (nl_to_str nlib v)) (\<lambda>v.
           map_ok ((#) (name, v)) (select_response_headers nlib reply names)))"

fun read_body :: "nat \<Rightarrow> nat list option list \<Rightarrow> nat list \<Rightarrow> (nat list, transport_error) result" where
  "read_body maximum [] body = Inr body"
| "read_body maximum (None # chunks) body = Inl TMalformedResponse"
| "read_body maximum (Some chunk # chunks) body =
     and_then (ok_or TResponseTooLarge (checked_add usize_max (length body) (length chunk))) (\<lambda>next_length.
     if next_length > maximum then Inl TResponseTooLarge
     else read_body maximum chunks (body @ chunk))"

definition finish_response ::
    "net_lib \<Rightarrow> transport_config \<Rightarrow> http_request \<Rightarrow> validated_endpoint \<Rightarrow> http_reply \<Rightarrow> int \<Rightarrow>
     (http_response, transport_error) result" where
  "finish_response nlib config request endpoint reply now =
     (let status = hr_status reply in
      if \<not> status_is_success status \<and> status \<notin> set (rq_accepted_statuses request)
      then Inl (status_error nlib status reply now)
      else
        and_then (select_response_headers nlib reply (rq_response_headers request)) (\<lambda>selected.
        if is_some_and (\<lambda>l. l > tc_max_response_bytes config) (hr_content_length reply) then Inl TResponseTooLarge
        else
          and_then (read_body (tc_max_response_bytes config) (hr_chunks reply) []) (\<lambda>body.
          Inr \<lparr>hs_status = status, hs_body = body, hs_headers = selected, hs_endpoint = endpoint\<rparr>)))"

text \<open>
  One pass through the redirect loop: validate, build, send, and either finish or name the next
  URL. The clock is read when signing and when a retry delay is worked out.
\<close>

record attempt_env =
  ae_exchange :: "nat \<Rightarrow> sent_request \<Rightarrow> http_reply option"
  ae_clock :: "nat \<Rightarrow> int"

datatype pass = Finished "(http_response, transport_error) result" | Redirected url

definition redirect_pass ::
    "net_lib \<Rightarrow> approved_origin list \<Rightarrow> transport_config \<Rightarrow> attempt_env \<Rightarrow> http_request \<Rightarrow> url \<Rightarrow> nat \<Rightarrow> nat \<Rightarrow>
     sent_request list \<times> pass" where
  "redirect_pass nlib policy config env request current redirect_count index =
     (case map_err TEndpoint (endpoint_validate policy current) of
       Inl e \<Rightarrow> ([], Finished (Inl e))
     | Inr endpoint \<Rightarrow>
         (case build_request nlib request endpoint (ae_clock env index) of
           Inl e \<Rightarrow> ([], Finished (Inl e))
         | Inr sent \<Rightarrow>
             ([sent],
              case ae_exchange env index sent of
                None \<Rightarrow> Finished (Inl TNetwork)
              | Some reply \<Rightarrow>
                  if status_is_redirection (hr_status reply) then
                    if rq_method request \<noteq> lit ''GET'' \<and> rq_method request \<noteq> lit ''HEAD'' then Finished (Inl TMalformedResponse)
                    else if redirect_count = tc_max_redirects config then Finished (Inl TTooManyRedirects)
                    else
                      (case redirect_target nlib current reply of
                        Inl e \<Rightarrow> Finished (Inl e)
                      | Inr target \<Rightarrow>
                          (case endpoint_validate policy target of
                            Inl e \<Rightarrow> Finished (Inl (TEndpoint e))
                          | Inr _ \<Rightarrow> Redirected target))
                  else Finished (finish_response nlib config request endpoint reply (ae_clock env index)))))"

partial_function (option) follow_redirects ::
    "net_lib \<Rightarrow> approved_origin list \<Rightarrow> transport_config \<Rightarrow> attempt_env \<Rightarrow> http_request \<Rightarrow> url \<Rightarrow> nat \<Rightarrow> nat \<Rightarrow>
     (sent_request list \<times> (http_response, transport_error) result) option" where
  "follow_redirects nlib policy config env request current redirect_count index =
     (let p = redirect_pass nlib policy config env request current redirect_count index in
      case snd p of
        Finished r \<Rightarrow> Some (fst p, r)
      | Redirected target \<Rightarrow>
          Option.bind (follow_redirects nlib policy config env request target
            (saturating_add u8_max redirect_count 1) (Suc index)) (\<lambda>r.
          Some (fst p @ fst r, snd r)))"

text \<open>
  An attempt races the redirect loop against cancellation and the request timeout. When one of
  them wins, the requests sent are those already made at that moment.
\<close>

datatype interruption = Uninterrupted | CancelledAfter nat | TimedOutAfter nat

record send_env =
  se_attempt :: "nat \<Rightarrow> attempt_env"
  se_interruption :: "nat \<Rightarrow> interruption"
  se_cancelled_asleep :: "nat \<Rightarrow> bool"

definition send_attempt ::
    "net_lib \<Rightarrow> approved_origin list \<Rightarrow> transport_config \<Rightarrow> send_env \<Rightarrow> http_request \<Rightarrow> nat \<Rightarrow>
     (sent_request list \<times> (http_response, transport_error) result) option" where
  "send_attempt nlib policy config env request attempt =
     Option.bind (follow_redirects nlib policy config (se_attempt env attempt) request (rq_url request) 0 0) (\<lambda>run.
     Some (case se_interruption env attempt of
       Uninterrupted \<Rightarrow> run
     | CancelledAfter n \<Rightarrow> (take n (fst run), Inl TCancelled)
     | TimedOutAfter n \<Rightarrow> (take n (fst run), Inl TTimeout)))"

partial_function (option) send_from ::
    "net_lib \<Rightarrow> approved_origin list \<Rightarrow> transport_config \<Rightarrow> send_env \<Rightarrow> http_request \<Rightarrow> nat \<Rightarrow> nat \<Rightarrow>
     (sent_request list \<times> duration list \<times> (http_response, transport_error) result) option" where
  "send_from nlib policy config env request completed_retries attempt =
     Option.bind (send_attempt nlib policy config env request attempt) (\<lambda>run.
     case snd run of
       Inr response \<Rightarrow> Some (fst run, [], Inr response)
     | Inl error \<Rightarrow>
         (case retry_delay (tc_retry config) completed_retries error of
           None \<Rightarrow> Some (fst run, [], Inl error)
         | Some delay \<Rightarrow>
             if se_cancelled_asleep env attempt then Some (fst run, [delay], Inl TCancelled)
             else
               Option.bind (send_from nlib policy config env request
                 (saturating_add u8_max completed_retries 1) (Suc attempt)) (\<lambda>rest.
               Some (fst run @ fst rest, delay # fst (snd rest), snd (snd rest)))))"

definition transport_send ::
    "net_lib \<Rightarrow> approved_origin list \<Rightarrow> transport_config \<Rightarrow> send_env \<Rightarrow> http_request \<Rightarrow>
     (sent_request list \<times> duration list \<times> (http_response, transport_error) result) option" where
  "transport_send nlib policy config env request = send_from nlib policy config env request 0 0"

section \<open>Where requests go\<close>

lemma aws_sign_target:
  assumes "aws_sign hlib clib signer request credentials t = Inr s"
  shows "sg_url s = sq_url request \<and> sg_method s = sq_method request \<and> sg_body s = sq_body request"
proof -
  obtain date time where ts: "format_timestamp t = Inr (date, time)"
    using assms unfolding aws_sign_def and_then_Inr by (auto split: prod.splits)
  from assms show ?thesis
    unfolding aws_sign_def ts and_then_simps prod.case Let_def and_then_Inr sum.inject by (elim exE conjE) auto
qed

lemma volcengine_sign_target:
  assumes "volcengine_sign hlib clib request credentials t = Inr s"
  shows "sg_url s = sq_url request \<and> sg_method s = sq_method request \<and> sg_body s = sq_body request"
proof -
  obtain date time where ts: "format_timestamp t = Inr (date, time)"
    using assms unfolding volcengine_sign_def and_then_Inr by (auto split: prod.splits)
  from assms show ?thesis
    unfolding volcengine_sign_def ts and_then_simps prod.case Let_def
    by (simp only: and_then_Inr if_split [of "\<lambda>r. r = Inr _"] sum.inject sum.distinct) (elim exE conjE; auto)
qed

lemma with_header_target:
  "with_header hlib request name v = Inr request' \<Longrightarrow>
     sq_url request' = sq_url request \<and> sq_method request' = sq_method request \<and> sq_body request' = sq_body request"
  by (auto simp: with_header_def result_simps split: if_splits)

lemma with_headers_target:
  "with_headers hlib headers request = Inr request' \<Longrightarrow>
     sq_url request' = sq_url request \<and> sq_method request' = sq_method request \<and> sq_body request' = sq_body request"
proof (induction hlib headers request rule: with_headers.induct)
  case (2 hlib name v headers request)
  from 2(2) obtain next' where "with_header hlib request name v = Inr next'" "with_headers hlib headers next' = Inr request'"
    by (auto simp: result_simps)
  then show ?case using 2(1) with_header_target by (metis map_err_simps(2))
qed simp

lemma signing_request_of_target:
  assumes "signing_request_of nlib request endpoint = Inr signing"
  shows "sq_url signing = ve_url endpoint \<and> sq_method signing = rq_method request \<and> sq_body signing = rq_body request"
proof -
  obtain s0 s1 s2 public where "for_validated_endpoint (rq_method request) endpoint (rq_body request) = Inr s0"
    "with_headers (nl_http nlib) (metadata_headers request) s0 = Inr s1" "with_headers (nl_http nlib) public s1 = Inr s2"
    "with_headers (nl_http nlib) (rq_sensitive_headers request) s2 = Inr signing"
    using assms by (auto simp: signing_request_of_def result_simps)
  moreover from this(1) have "sq_url s0 = ve_url endpoint \<and> sq_method s0 = rq_method request \<and> sq_body s0 = rq_body request"
    by (auto simp: for_validated_endpoint_def signing_request_new_inner_def Let_def result_simps split: if_splits)
  ultimately show ?thesis by (metis with_headers_target)
qed

text \<open>A built request goes to the validated URL, with the method and body of the caller.\<close>

lemma sign_cloud_request_target:
  "sign_cloud_request nlib a request endpoint t = Inr (Some s) \<Longrightarrow>
     sg_url s = ve_url endpoint \<and> sg_method s = rq_method request \<and> sg_body s = rq_body request"
  by (cases a) (auto simp: result_simps dest!: signing_request_of_target aws_sign_target volcengine_sign_target)

lemma build_request_target:
  "build_request nlib request endpoint now = Inr sent \<Longrightarrow>
     sr_url sent = ve_url endpoint \<and> sr_method sent = rq_method request \<and> sr_body sent = rq_body request"
  by (auto simp: build_request_def build_plain_def result_simps
      split: option.splits if_splits dest!: sign_cloud_request_target)

definition approved_target :: "approved_origin list \<Rightarrow> sent_request \<Rightarrow> bool" where
  "approved_target policy sent \<longleftrightarrow> (\<exists>ep. endpoint_validate policy (sr_url sent) = Inr ep)"

lemma read_body_bound: "read_body maximum chunks body = Inr body' \<Longrightarrow> length body \<le> maximum \<Longrightarrow> length body' \<le> maximum"
  by (induction maximum chunks body rule: read_body.induct) (auto simp: result_simps split: if_splits)

definition response_ok :: "transport_config \<Rightarrow> http_request \<Rightarrow> http_response \<Rightarrow> bool" where
  "response_ok config request response \<longleftrightarrow> length (hs_body response) \<le> tc_max_response_bytes config \<and>
     (status_is_success (hs_status response) \<or> hs_status response \<in> set (rq_accepted_statuses request))"

lemma finish_response_ok: "finish_response nlib config request endpoint reply now = Inr response \<Longrightarrow> response_ok config request response"
  by (auto simp: finish_response_def response_ok_def Let_def result_simps split: if_splits dest: read_body_bound)

lemma redirect_pass_facts:
  assumes "redirect_pass nlib policy config env request current n i = (sent, p)"
  shows "length sent \<le> 1" "\<forall>q\<in>set sent. approved_target policy q \<and> sr_method q = rq_method request \<and> sr_body q = rq_body request"
    "p = Redirected target \<Longrightarrow> n \<noteq> tc_max_redirects config \<and> rq_method request \<in> {lit ''GET'', lit ''HEAD''}"
    "p = Finished (Inr response) \<Longrightarrow> response_ok config request response"
proof -
  have "endpoint_validate policy current = Inr endpoint \<Longrightarrow> ve_url endpoint = current" for endpoint
    using endpoint_validate_Inr by blast
  then show "\<forall>q\<in>set sent. approved_target policy q \<and> sr_method q = rq_method request \<and> sr_body q = rq_body request"
    using assms by (auto simp: redirect_pass_def approved_target_def map_err_Inr split: sum.splits dest!: build_request_target)
qed (use assms finish_response_ok in \<open>auto simp: redirect_pass_def result_simps split: sum.splits option.splits if_splits\<close>)

section \<open>The loops end\<close>

lemma follow_redirects_total:
  assumes "n \<le> tc_max_redirects config" "tc_max_redirects config \<le> MAX_REDIRECTS"
  shows "\<exists>sent r. follow_redirects nlib policy config env request current n i = Some (sent, r) \<and>
    length sent \<le> Suc (tc_max_redirects config - n) \<and>
    (\<forall>q\<in>set sent. approved_target policy q \<and> sr_method q = rq_method request \<and> sr_body q = rq_body request) \<and>
    (1 < length sent \<longrightarrow> rq_method request \<in> {lit ''GET'', lit ''HEAD''}) \<and>
    (\<forall>response. r = Inr response \<longrightarrow> response_ok config request response)"
  using assms(1)
proof (induction "tc_max_redirects config - n" arbitrary: n i current)
  case step: 0
  obtain sent p where pass: "redirect_pass nlib policy config env request current n i = (sent, p)" by fastforce
  note facts = redirect_pass_facts [OF pass]
  from step have "n = tc_max_redirects config" by simp
  then obtain r where "p = Finished r" using facts(3) by (cases p) auto
  with pass facts show ?case by (subst follow_redirects.simps) simp
next
  case step: (Suc k)
  obtain sent p where pass: "redirect_pass nlib policy config env request current n i = (sent, p)" by fastforce
  note facts = redirect_pass_facts [OF pass]
  show ?case
  proof (cases p)
    case (Finished r)
    with pass facts show ?thesis by (subst follow_redirects.simps) simp
  next
    case (Redirected target)
    have next': "saturating_add u8_max n (Suc 0) = Suc n"
      using step assms(2) by (simp add: saturating_add_def limit_defs)
    from step.hyps(2) have "k = tc_max_redirects config - Suc n" "Suc n \<le> tc_max_redirects config" by simp_all
    from step.hyps(1) [OF this, of target "Suc i"] obtain rest r where
      rest: "follow_redirects nlib policy config env request target (Suc n) (Suc i) = Some (rest, r)"
        "length rest \<le> Suc (tc_max_redirects config - Suc n)"
        "\<forall>q\<in>set rest. approved_target policy q \<and> sr_method q = rq_method request \<and> sr_body q = rq_body request"
        "\<forall>response. r = Inr response \<longrightarrow> response_ok config request response" by blast
    have "follow_redirects nlib policy config env request current n i = Some (sent @ rest, r)"
      using pass Redirected rest(1) by (subst follow_redirects.simps) (simp add: next')
    with rest facts Redirected step.hyps(2) show ?thesis by auto
  qed
qed

lemma send_attempt_total:
  assumes "tc_max_redirects config \<le> MAX_REDIRECTS"
  shows "\<exists>sent r. send_attempt nlib policy config env request attempt = Some (sent, r) \<and>
    length sent \<le> Suc (tc_max_redirects config) \<and>
    (\<forall>q\<in>set sent. approved_target policy q \<and> sr_method q = rq_method request \<and> sr_body q = rq_body request) \<and>
    (1 < length sent \<longrightarrow> rq_method request \<in> {lit ''GET'', lit ''HEAD''}) \<and>
    (\<forall>response. r = Inr response \<longrightarrow> response_ok config request response)"
proof -
  from follow_redirects_total [of 0 config nlib policy "se_attempt env attempt" request "rq_url request" 0] assms
  obtain sent r where run: "follow_redirects nlib policy config (se_attempt env attempt) request (rq_url request) 0 0 = Some (sent, r)"
    "length sent \<le> Suc (tc_max_redirects config)"
    "\<forall>q\<in>set sent. approved_target policy q \<and> sr_method q = rq_method request \<and> sr_body q = rq_body request"
    "1 < length sent \<longrightarrow> rq_method request \<in> {lit ''GET'', lit ''HEAD''}"
    "\<forall>response. r = Inr response \<longrightarrow> response_ok config request response" by auto
  show ?thesis
    by (cases "se_interruption env attempt") (use run in \<open>auto simp: send_attempt_def dest: in_set_takeD\<close>)
qed

lemma retry_delay_facts:
  "retry_delay policy n e = Some d \<Longrightarrow> n < rp_max_retries policy \<and> d \<le> rp_max_delay policy \<and> is_retryable e"
  by (auto simp: retry_delay_def Let_def split: if_splits)

lemma send_from_total:
  assumes "tc_max_redirects config \<le> MAX_REDIRECTS" "rp_max_retries (tc_retry config) \<le> u8_max"
  shows "\<exists>sent delays r. send_from nlib policy config env request n attempt = Some (sent, delays, r) \<and>
    length sent \<le> Suc (rp_max_retries (tc_retry config) - n) * Suc (tc_max_redirects config) \<and>
    length delays \<le> rp_max_retries (tc_retry config) - n \<and> (\<forall>d\<in>set delays. d \<le> rp_max_delay (tc_retry config)) \<and>
    (\<forall>q\<in>set sent. approved_target policy q \<and> sr_method q = rq_method request \<and> sr_body q = rq_body request) \<and>
    (\<forall>response. r = Inr response \<longrightarrow> response_ok config request response)"
proof (induction "rp_max_retries (tc_retry config) - n" arbitrary: n attempt rule: less_induct)
  case less
  let ?retries = "rp_max_retries (tc_retry config)" and ?redirects = "tc_max_redirects config"
  from send_attempt_total [OF assms(1)] obtain sent r where
    run: "send_attempt nlib policy config env request attempt = Some (sent, r)" "length sent \<le> Suc ?redirects"
      "\<forall>q\<in>set sent. approved_target policy q \<and> sr_method q = rq_method request \<and> sr_body q = rq_body request"
      "\<forall>response. r = Inr response \<longrightarrow> response_ok config request response" by blast
  have one: "length sent \<le> Suc (?retries - n) * Suc ?redirects" using run(2) by (simp add: trans_le_add1)
  show ?case
  proof (cases "\<exists>e d. r = Inl e \<and> retry_delay (tc_retry config) n e = Some d \<and> \<not> se_cancelled_asleep env attempt")
    case True
    then obtain e d where again: "r = Inl e" "retry_delay (tc_retry config) n e = Some d" "\<not> se_cancelled_asleep env attempt"
      by blast
    note d = retry_delay_facts [OF again(2)]
    then have next': "saturating_add u8_max n (Suc 0) = Suc n" using assms(2) by (simp add: saturating_add_def)
    from d have "?retries - Suc n < ?retries - n" by (intro diff_less_mono2) simp_all
    from less [OF this, of "Suc attempt"] obtain rest delays r' where
      rest: "send_from nlib policy config env request (Suc n) (Suc attempt) = Some (rest, delays, r')"
        "length rest \<le> Suc (?retries - Suc n) * Suc ?redirects" "length delays \<le> ?retries - Suc n"
        "\<forall>d\<in>set delays. d \<le> rp_max_delay (tc_retry config)"
        "\<forall>q\<in>set rest. approved_target policy q \<and> sr_method q = rq_method request \<and> sr_body q = rq_body request"
        "\<forall>response. r' = Inr response \<longrightarrow> response_ok config request response" by blast
    have run': "send_from nlib policy config env request n attempt = Some (sent @ rest, d # delays, r')"
      using run(1) again rest(1) by (subst send_from.simps) (simp add: next')
    have total: "length (sent @ rest) \<le> Suc (?retries - n) * Suc ?redirects"
    proof -
      have "Suc (?retries - n) = Suc (Suc (?retries - Suc n))" using d Suc_diff_Suc [of n ?retries] by simp
      then show ?thesis using rest(2) run(2) by simp
    qed
    have waits: "length (d # delays) \<le> ?retries - n" using rest(3) d Suc_diff_Suc [of n ?retries] by simp
    show ?thesis
    proof (intro exI conjI)
      show "\<forall>q\<in>set (sent @ rest). approved_target policy q \<and> sr_method q = rq_method request \<and> sr_body q = rq_body request"
        using rest(5) run(3) by auto
      show "\<forall>x\<in>set (d # delays). x \<le> rp_max_delay (tc_retry config)" using rest(4) d by simp
    qed (rule run' total waits rest(6))+
  next
    case False
    have "\<exists>delays r'. send_from nlib policy config env request n attempt = Some (sent, delays, r') \<and>
      (delays = [] \<or> (\<exists>d e. delays = [d] \<and> retry_delay (tc_retry config) n e = Some d)) \<and>
      (\<forall>response. r' = Inr response \<longrightarrow> response_ok config request response)"
    proof (cases r)
      case (Inl e)
      with False run(1) show ?thesis
        by (subst send_from.simps) (cases "retry_delay (tc_retry config) n e"; auto)
    next
      case (Inr response)
      with run(1,4) show ?thesis by (subst send_from.simps) simp
    qed
    with one run(3) show ?thesis by (auto dest: retry_delay_facts)
  qed
qed

lemma transport_config_facts:
  "transport_config_new ct rt mb mr retry = Inr config \<Longrightarrow>
     tc_max_response_bytes config = mb \<and> tc_max_redirects config = mr \<and> tc_retry config = retry \<and>
     mb \<le> MAX_RESPONSE_BYTES \<and> mr \<le> MAX_REDIRECTS \<and> rp_max_delay retry \<le> MAX_RETRY_DELAY"
  by (auto simp: transport_config_new_def retry_is_valid_def split: if_splits)

text \<open>
  C8: credentials stay where they were configured to go. Sending a request returns, whatever the
  servers answer, after at most one retry, ten redirects an attempt and an hour's wait. Every
  request put on the wire, first, redirected or retried, has the method and body of the caller
  and goes to a configured origin, by HTTPS or to a local host, with no user information and no
  credential in its query; and a response that is returned is within the configured size and has
  a status the caller accepts.
\<close>

theorem transport_confined:
  assumes "endpoint_policy_new url_parse origins = Inr policy"
    and "transport_config_new ct rt mb mr retry = Inr config"
    and "retry = retry_none \<or> (\<exists>base maximum. retry = retry_one base maximum)"
  shows "\<exists>sent delays r. transport_send nlib policy config env request = Some (sent, delays, r) \<and>
    (\<forall>q\<in>set sent. sr_method q = rq_method request \<and> sr_body q = rq_body request \<and> clean_request (sr_url q) \<and>
      (\<exists>c. configured_origin url_parse origins (sr_url q) c) \<and>
      (is_https (ur_scheme (sr_url q)) \<or> is_http (ur_scheme (sr_url q)) \<and> (\<exists>h. ur_host (sr_url q) = Some h \<and> local_host h))) \<and>
    length sent \<le> 2 * Suc mr \<and> mr \<le> 10 \<and> length delays \<le> 1 \<and> (\<forall>d\<in>set delays. d \<le> from_hours 1) \<and>
    (\<forall>response. r = Inr response \<longrightarrow> length (hs_body response) \<le> mb \<and>
      (status_is_success (hs_status response) \<or> hs_status response \<in> set (rq_accepted_statuses request)))"
proof -
  note config = transport_config_facts [OF assms(2)]
  have retries: "rp_max_retries (tc_retry config) \<le> 1" using assms(3) config by (auto simp: retry_none_def retry_one_def)
  then have "rp_max_retries (tc_retry config) \<le> u8_max" by (simp add: limit_defs)
  with send_from_total [of config nlib policy env request 0 0] config obtain sent delays r where
    run: "transport_send nlib policy config env request = Some (sent, delays, r)"
      "length sent \<le> Suc (rp_max_retries (tc_retry config)) * Suc mr" "length delays \<le> rp_max_retries (tc_retry config)"
      "\<forall>d\<in>set delays. d \<le> rp_max_delay retry"
      "\<forall>q\<in>set sent. approved_target policy q \<and> sr_method q = rq_method request \<and> sr_body q = rq_body request"
      "\<forall>response. r = Inr response \<longrightarrow> response_ok config request response"
    by (auto simp: transport_send_def)
  have "Suc (rp_max_retries (tc_retry config)) * Suc mr \<le> 2 * Suc mr"
    using retries by (intro mult_le_mono1) simp
  with run(2) have "length sent \<le> 2 * Suc mr" by (rule le_trans)
  moreover have "clean_request (sr_url q) \<and> (\<exists>c. configured_origin url_parse origins (sr_url q) c) \<and>
      (is_https (ur_scheme (sr_url q)) \<or> is_http (ur_scheme (sr_url q)) \<and> (\<exists>h. ur_host (sr_url q) = Some h \<and> local_host h))"
    if "q \<in> set sent" for q
    using run(5) that endpoint_validate_sound [OF assms(1)] unfolding approved_target_def by metis
  ultimately have targets: "\<forall>q\<in>set sent. sr_method q = rq_method request \<and> sr_body q = rq_body request \<and>
      clean_request (sr_url q) \<and> (\<exists>c. configured_origin url_parse origins (sr_url q) c) \<and>
      (is_https (ur_scheme (sr_url q)) \<or> is_http (ur_scheme (sr_url q)) \<and> (\<exists>h. ur_host (sr_url q) = Some h \<and> local_host h))"
    and many: "length sent \<le> 2 * Suc mr" using run(5) by blast+
  show ?thesis
  proof (intro exI conjI)
    show "mr \<le> 10" using config by (simp add: MAX_REDIRECTS_def)
    show "length delays \<le> 1" using run(3) retries by simp
    show "\<forall>d\<in>set delays. d \<le> from_hours 1" using run(4) config by (auto simp: MAX_RETRY_DELAY_def)
    show "\<forall>response. r = Inr response \<longrightarrow> length (hs_body response) \<le> mb \<and>
        (status_is_success (hs_status response) \<or> hs_status response \<in> set (rq_accepted_statuses request))"
      using run(6) config by (simp add: response_ok_def)
  qed (rule run(1) targets many)+
qed

text \<open>A server that answers every request with a short body, under a policy with one retry.\<close>

definition example_net :: net_lib where
  "example_net = \<lparr>nl_http = example_http, nl_crypto = example_crypto, nl_to_str = Some, nl_http_date = (\<lambda>_. None),
     nl_join = (\<lambda>_ _. None), nl_civil = (\<lambda>_. None)\<rparr>"

definition example_env :: send_env where
  "example_env = \<lparr>se_attempt = (\<lambda>_. \<lparr>ae_exchange = (\<lambda>_ _. Some \<lparr>hr_status = 200, hr_headers = [], hr_content_length = None,
       hr_chunks = [Some [1, 2], Some [3]]\<rparr>), ae_clock = (\<lambda>_. 0)\<rparr>),
     se_interruption = (\<lambda>_. Uninterrupted), se_cancelled_asleep = (\<lambda>_. False)\<rparr>"

definition example_config :: transport_config where
  "example_config = \<lparr>tc_connect_timeout = 1, tc_request_timeout = 1, tc_max_response_bytes = 1024, tc_max_redirects = 3,
     tc_retry = retry_one 1 1\<rparr>"

theorem transport_confined_witness:
  "\<exists>sent delays r. transport_send example_net example_policy example_config example_env (request_get example_request_url) =
     Some (sent, delays, r) \<and> length sent \<le> 8 \<and> (\<forall>q\<in>set sent. is_https (ur_scheme (sr_url q)) \<or> is_http (ur_scheme (sr_url q)))"
proof -
  have "transport_config_new 1 1 1024 3 (retry_one 1 1) = Inr example_config"
    by (simp add: transport_config_new_def example_config_def retry_is_valid_def retry_one_def MAX_RETRY_DELAY_def
        duration_defs limit_defs)
  from transport_confined [OF example_policy_built this, of example_net example_env "request_get example_request_url"]
  show ?thesis by force
qed

end
