(* ===== verification/Utf8.thy ===== *)
theory Utf8
  imports Domain_Values
begin

text \<open>
  The decoder of UTF-8 of the standard library, shared by the credential channel and by the reader
  of browser databases.
\<close>

text \<open>\<open>String::from_utf8\<close>: shortest encodings of scalar values only.\<close>

definition is_scalar :: "nat \<Rightarrow> bool" where
  "is_scalar c \<longleftrightarrow> c < 0xd800 \<or> 0xe000 \<le> c \<and> c < 0x110000"

definition utf8_width :: "nat \<Rightarrow> nat" where
  "utf8_width b = (if b < 128 then 1 else if b < 224 then 2 else if b < 240 then 3 else 4)"

definition utf8_value :: "nat list \<Rightarrow> nat" where
  "utf8_value bs =
     (let lead = (case length bs of Suc 0 \<Rightarrow> hd bs | Suc (Suc 0) \<Rightarrow> hd bs - 192 | Suc (Suc (Suc 0)) \<Rightarrow> hd bs - 224 | _ \<Rightarrow> hd bs - 240) in
      foldl (\<lambda>a b. a * 64 + (b - 128)) lead (tl bs))"

definition utf8_head :: "nat list \<Rightarrow> nat option" where
  "utf8_head bs =
     (let char = take (utf8_width (hd bs)) bs; c = utf8_value char in
      if is_scalar c \<and> utf8_char c = char then Some c else None)"

function from_utf8 :: "nat list \<Rightarrow> str option" where
  "from_utf8 [] = Some []"
| "from_utf8 (b # bs) =
     (case utf8_head (b # bs) of
       None \<Rightarrow> None
     | Some c \<Rightarrow> map_option ((#) c) (from_utf8 (drop (utf8_width b) (b # bs))))"
  by pat_completeness auto
termination by (relation "measure length") (auto simp: utf8_width_def)

text \<open>Decoding accepts exactly the encodings of texts.\<close>

lemma utf8_width_char: "utf8_width (hd (utf8_char c)) = length (utf8_char c)"
proof -
  have "c div 64 < 32" if "c < 2048" using that by (simp add: div_less_iff_less_mult)
  moreover have "c div 4096 < 16" if "c < 65536" using that by (simp add: div_less_iff_less_mult)
  ultimately show ?thesis by (auto simp: utf8_width_def utf8_char_def)
qed

lemma utf8_value_char: "utf8_value (utf8_char c) = c"
proof -
  have two: "c div 64 * 64 + c mod 64 = c" by simp
  have three: "(c div 4096 * 64 + c div 64 mod 64) * 64 + c mod 64 = c"
  proof -
    have "c div 4096 * 64 + c div 64 mod 64 = c div 64" using div_mult_mod_eq [of "c div 64" 64] by (simp add: div_mult2_eq [symmetric])
    then show ?thesis by (simp only: two)
  qed
  have four: "((c div 262144 * 64 + c div 4096 mod 64) * 64 + c div 64 mod 64) * 64 + c mod 64 = c"
  proof -
    have "c div 262144 * 64 + c div 4096 mod 64 = c div 4096"
      using div_mult_mod_eq [of "c div 4096" 64] by (simp add: div_mult2_eq [symmetric])
    then show ?thesis by (simp only: three)
  qed
  consider "c < 128" | "128 \<le> c" "c < 2048" | "2048 \<le> c" "c < 65536" | "65536 \<le> c" by linarith
  then show ?thesis
    by cases (use two three four in \<open>simp_all add: utf8_value_def utf8_char_def algebra_simps\<close>)
qed

lemma from_utf8_iff: "from_utf8 bs = Some s \<longleftrightarrow> as_bytes s = bs \<and> (\<forall>c\<in>set s. is_scalar c)"
proof
  show "from_utf8 bs = Some s \<Longrightarrow> as_bytes s = bs \<and> (\<forall>c\<in>set s. is_scalar c)"
  proof (induction bs arbitrary: s rule: from_utf8.induct)
    case (2 b bs)
    from 2(2) obtain c rest where head: "utf8_head (b # bs) = Some c" and rest: "from_utf8 (drop (utf8_width b) (b # bs)) = Some rest"
      and s: "s = c # rest" by (auto split: option.splits)
    from head have c: "is_scalar c" "utf8_char c = take (utf8_width b) (b # bs)"
      by (simp_all add: utf8_head_def Let_def split: if_splits)
    from 2(1) [OF head rest] have "as_bytes rest = drop (utf8_width b) (b # bs)" "\<forall>c\<in>set rest. is_scalar c" by simp_all
    with c s show ?case by (simp only: as_bytes_simps append_take_drop_id list.set) auto
  qed simp
next
  show "as_bytes s = bs \<and> (\<forall>c\<in>set s. is_scalar c) \<Longrightarrow> from_utf8 bs = Some s"
  proof (induction s arbitrary: bs)
    case (Cons c s)
    then have bs: "bs = utf8_char c @ as_bytes s" "is_scalar c" by simp_all
    have ne: "utf8_char c \<noteq> []" by (simp add: utf8_char_def)
    then obtain b rest where b: "bs = b # rest" "b = hd (utf8_char c)" using bs by (cases "utf8_char c") auto
    with bs have "take (utf8_width b) bs = utf8_char c" "drop (utf8_width b) bs = as_bytes s" by (simp_all add: utf8_width_char)
    moreover from this have "utf8_head bs = Some c" using bs(2) b by (simp add: utf8_head_def utf8_value_char)
    ultimately show ?case using Cons b by simp
  qed simp
qed

end
