(* ===== verification/Credential_Frame.thy ===== *)
theory Credential_Frame
  imports Utf8
begin

text \<open>
  The one-shot credential channel (\<open>crates/ipc/src/credential.rs\<close>): accepting one client, and
  reading one netstring with a deadline.

  A connection is the sequence of what its reads meet: bytes that arrived, an interrupted call, a
  deadline found to have passed, a read that times out or fails. The end of the sequence, like a
  read of no bytes, is the peer closing its side.
\<close>

section \<open>Credentials\<close>

definition MAX_CREDENTIAL_BYTES :: nat where [limit_defs]: "MAX_CREDENTIAL_BYTES = 16 * 1024"
definition MAX_LENGTH_DIGITS :: nat where [limit_defs]: "MAX_LENGTH_DIGITS = 5"

datatype credential_validation_error = CredentialEmpty | CredentialTooLarge | InvalidUtf8

definition credential_new :: "str \<Rightarrow> (str, credential_validation_error) result" where
  "credential_new v =
     (if v = [] then Inl CredentialEmpty
      else if str_len v > MAX_CREDENTIAL_BYTES then Inl CredentialTooLarge
      else Inr v)"

definition credential_from_bytes :: "nat list \<Rightarrow> (str, credential_validation_error) result" where
  "credential_from_bytes v =
     (if v = [] then Inl CredentialEmpty
      else if length v > MAX_CREDENTIAL_BYTES then Inl CredentialTooLarge
      else ok_or InvalidUtf8 (from_utf8 v))"

section \<open>Reading\<close>

datatype read_event = Arrives "nat list" | Interrupted | Expired | TimesOut | Fails

datatype credential_transport_error =
  InvalidPath | InvalidTimeout | BindFailed | SetPermissionsFailed | ConfigureListenerFailed | PermissionsFailed
| AcceptFailed | SocketPathChanged | PeerCredentialsFailed | PeerUidMismatch | PeerCredentialsUnsupported
| DeadlineElapsed | TruncatedFrame | InvalidLengthPrefix | MissingTerminator | TrailingData | ReadFailed
| InvalidCredentialFrame credential_validation_error

fun read_exact_before :: "nat \<Rightarrow> read_event list \<Rightarrow> (nat list \<times> read_event list, credential_transport_error) result" where
  "read_exact_before n [] = (if n = 0 then Inr ([], []) else Inl TruncatedFrame)"
| "read_exact_before n (e # events) =
     (if n = 0 then Inr ([], e # events)
      else
        (case e of
          Arrives bs \<Rightarrow>
            if bs = [] then Inl TruncatedFrame
            else if length bs \<le> n then map_ok (\<lambda>(rest, left). (bs @ rest, left)) (read_exact_before (n - length bs) events)
            else Inr (take n bs, Arrives (drop n bs) # events)
        | Interrupted \<Rightarrow> read_exact_before n events
        | Expired \<Rightarrow> Inl DeadlineElapsed
        | TimesOut \<Rightarrow> Inl DeadlineElapsed
        | Fails \<Rightarrow> Inl ReadFailed))"

fun read_terminator_before :: "read_event list \<Rightarrow> (read_event list, credential_transport_error) result" where
  "read_terminator_before [] = Inl MissingTerminator"
| "read_terminator_before (Arrives [] # events) = Inl MissingTerminator"
| "read_terminator_before (Arrives (b # bs) # events) =
     (if b = 44 then Inr (if bs = [] then events else Arrives bs # events) else Inl MissingTerminator)"
| "read_terminator_before (Interrupted # events) = read_terminator_before events"
| "read_terminator_before (Expired # events) = Inl DeadlineElapsed"
| "read_terminator_before (TimesOut # events) = Inl DeadlineElapsed"
| "read_terminator_before (Fails # events) = Inl ReadFailed"

fun require_end_of_stream :: "read_event list \<Rightarrow> (unit, credential_transport_error) result" where
  "require_end_of_stream [] = Inr ()"
| "require_end_of_stream (Arrives [] # events) = Inr ()"
| "require_end_of_stream (Arrives (b # bs) # events) = Inl TrailingData"
| "require_end_of_stream (Interrupted # events) = require_end_of_stream events"
| "require_end_of_stream (Expired # events) = Inl DeadlineElapsed"
| "require_end_of_stream (TimesOut # events) = Inl DeadlineElapsed"
| "require_end_of_stream (Fails # events) = Inl ReadFailed"

function (sequential) read_digits ::
    "nat list \<Rightarrow> read_event list \<Rightarrow> (nat list \<times> read_event list, credential_transport_error) result" where
  "read_digits digits events =
     (case read_exact_before 1 events of
       Inl e \<Rightarrow> Inl e
     | Inr (byte, events) \<Rightarrow>
         if byte = [58] then (if digits = [] then Inl InvalidLengthPrefix else Inr (digits, events))
         else if is_ascii_digit (hd byte) \<and> length digits < MAX_LENGTH_DIGITS then read_digits (digits @ byte) events
         else Inl InvalidLengthPrefix)"
  by pat_completeness auto

lemma read_exact_length: "read_exact_before n events = Inr (bs, left) \<Longrightarrow> length bs = n"
proof (induction events arbitrary: n bs)
  case (Cons e events)
  show ?case
  proof (cases "n = 0 \<or> e = Interrupted")
    case True
    with Cons show ?thesis by (auto split: if_splits)
  next
    case False
    with Cons.prems obtain chunk where e: "e = Arrives chunk" "chunk \<noteq> []" by (auto split: read_event.splits if_splits)
    show ?thesis
    proof (cases "length chunk \<le> n")
      case True
      with False e Cons.prems obtain rest where "read_exact_before (n - length chunk) events = Inr (rest, left)" "bs = chunk @ rest"
        by (auto simp: map_ok_Inr)
      with Cons.IH [of "n - length chunk" rest] True show ?thesis by simp
    next
      case wide: False
      with False e Cons.prems show ?thesis by auto
    qed
  qed
qed (simp split: if_splits)

termination read_digits
proof (relation "measure (\<lambda>(digits, events). MAX_LENGTH_DIGITS - length digits)", goal_cases)
  case (2 digits events r byte left)
  then have "length byte = 1" using read_exact_length [of 1 events byte left] by simp
  with 2 show ?case by (simp add: diff_less_mono2)
qed simp

declare read_digits.simps [simp del]

definition fold_digits :: "nat list \<Rightarrow> nat option" where
  "fold_digits digits =
     foldl (\<lambda>length digit. Option.bind length (\<lambda>length. Option.bind (checked_mul usize_max length 10) (\<lambda>v.
       checked_add usize_max v (digit - 48)))) (Some 0) digits"

definition read_length_prefix :: "read_event list \<Rightarrow> (nat \<times> read_event list, credential_transport_error) result" where
  "read_length_prefix events =
     and_then (read_digits [] events) (\<lambda>(digits, events).
     if length digits > 1 \<and> hd digits = 48 then Inl InvalidLengthPrefix
     else map_ok (\<lambda>n. (n, events)) (ok_or InvalidLengthPrefix (fold_digits digits)))"

definition read_one_frame :: "read_event list \<Rightarrow> (str, credential_transport_error) result" where
  "read_one_frame events =
     and_then (read_length_prefix events) (\<lambda>(declared_length, events).
     if declared_length = 0 then Inl (InvalidCredentialFrame CredentialEmpty)
     else if declared_length > MAX_CREDENTIAL_BYTES then Inl (InvalidCredentialFrame CredentialTooLarge)
     else
       and_then (read_exact_before declared_length events) (\<lambda>(payload, events).
       and_then (read_terminator_before events) (\<lambda>events.
       and_then (require_end_of_stream events) (\<lambda>_.
       map_err InvalidCredentialFrame (credential_from_bytes payload)))))"

section \<open>Receiving\<close>

text \<open>
  Polling for a client until the deadline, which ends the sequence of attempts. The path is
  removed, and the peer checked, before anything is read; both are calls of the system.
\<close>

datatype accept_event = Accepted | WouldBlock | AcceptInterrupted | AcceptFails

fun accept_before_deadline :: "accept_event list \<Rightarrow> (unit, credential_transport_error) result" where
  "accept_before_deadline [] = Inl DeadlineElapsed"
| "accept_before_deadline (Accepted # attempts) = Inr ()"
| "accept_before_deadline (WouldBlock # attempts) = accept_before_deadline attempts"
| "accept_before_deadline (AcceptInterrupted # attempts) = accept_before_deadline attempts"
| "accept_before_deadline (AcceptFails # attempts) = Inl AcceptFailed"

definition verify_peer_uid :: "nat option \<Rightarrow> nat \<Rightarrow> (unit, credential_transport_error) result" where
  "verify_peer_uid peer_uid expected_uid =
     and_then (ok_or PeerCredentialsFailed peer_uid) (\<lambda>uid. if uid \<noteq> expected_uid then Inl PeerUidMismatch else Inr ())"

definition cleanup_unlink :: "bool \<Rightarrow> (bool, unit) result \<Rightarrow> (unit, credential_transport_error) result" where
  "cleanup_unlink is_same_socket removal =
     (if \<not> is_same_socket then Inl SocketPathChanged
      else
        and_then (map_err (\<lambda>_. PermissionsFailed) removal) (\<lambda>removed.
        if \<not> removed then Inl SocketPathChanged else Inr ()))"

definition credential_receive ::
    "accept_event list \<Rightarrow> bool \<Rightarrow> (bool, unit) result \<Rightarrow> nat option \<Rightarrow> nat \<Rightarrow> read_event list \<Rightarrow>
     (str, credential_transport_error) result" where
  "credential_receive attempts is_same_socket removal peer_uid expected_uid events =
     and_then (accept_before_deadline attempts) (\<lambda>_.
     and_then (cleanup_unlink is_same_socket removal) (\<lambda>_.
     and_then (verify_peer_uid peer_uid expected_uid) (\<lambda>_.
     read_one_frame events)))"

section \<open>What a frame is\<close>

text \<open>The bytes a connection delivers before it is closed, if no read of it fails.\<close>

fun delivered :: "read_event list \<Rightarrow> nat list option" where
  "delivered [] = Some []"
| "delivered (Arrives bs # events) = (if bs = [] then Some [] else map_option ((@) bs) (delivered events))"
| "delivered (Interrupted # events) = delivered events"
| "delivered (Expired # events) = None"
| "delivered (TimesOut # events) = None"
| "delivered (Fails # events) = None"

lemma read_exact_sound:
  "read_exact_before n events = Inr (bs, left) \<Longrightarrow> 0 < n \<Longrightarrow> delivered events = map_option ((@) bs) (delivered left)"
proof (induction n events arbitrary: bs left rule: read_exact_before.induct)
  case (2 n e events)
  show ?case
  proof (cases e)
    case (Arrives chunk)
    with 2(3,4) have "chunk \<noteq> []" by auto
    consider "length chunk < n" | "length chunk = n" | "n < length chunk" by linarith
    then show ?thesis
    proof cases
      case 1
      with 2(3,4) Arrives \<open>chunk \<noteq> []\<close> obtain rest where rest: "read_exact_before (n - length chunk) events = Inr (rest, left)"
        "bs = chunk @ rest" by (auto simp: map_ok_Inr)
      with 2(1) [OF _ Arrives \<open>chunk \<noteq> []\<close>] 1 Arrives \<open>chunk \<noteq> []\<close> 2(4) show ?thesis
        by (auto simp: option.map_comp comp_def)
    next
      case exact: 2
      with 2(3,4) Arrives \<open>chunk \<noteq> []\<close> have "bs = chunk" "left = events"
        by (cases events; auto simp: map_ok_Inr)+
      with Arrives \<open>chunk \<noteq> []\<close> show ?thesis by simp
    next
      case 3
      with 2(3,4) Arrives \<open>chunk \<noteq> []\<close> have "bs = take n chunk" "left = Arrives (drop n chunk) # events" by auto
      with 3 Arrives \<open>chunk \<noteq> []\<close> show ?thesis by (simp add: option.map_comp comp_def append_assoc [symmetric] del: append_assoc)
    qed
  next
    case Interrupted
    with 2 show ?thesis by auto
  qed (use 2 in auto)
qed simp

lemma append_fun: "(@) (b # bs) = (\<lambda>x. b # bs @ x)"
  by auto

lemma read_exact_complete:
  "delivered events = Some bs \<Longrightarrow> 0 < n \<Longrightarrow> n \<le> length bs \<Longrightarrow>
     \<exists>left. read_exact_before n events = Inr (take n bs, left) \<and> delivered left = Some (drop n bs)"
proof (induction events arbitrary: n bs)
  case (Cons e events)
  show ?case
  proof (cases e)
    case (Arrives chunk)
    with Cons.prems obtain rest where rest: "chunk \<noteq> []" "delivered events = Some rest" "bs = chunk @ rest"
      by (auto split: if_splits)
    consider "length chunk < n" | "length chunk = n" | "n < length chunk" by linarith
    then show ?thesis
    proof cases
      case 1
      then have "0 < n - length chunk" "n - length chunk \<le> length rest" using Cons.prems(3) rest(3) by auto
      with Cons.IH [OF rest(2)] obtain left where
        "read_exact_before (n - length chunk) events = Inr (take (n - length chunk) rest, left)"
        "delivered left = Some (drop (n - length chunk) rest)" by blast
      with 1 Arrives rest show ?thesis by simp
    next
      case exact: 2
      have "read_exact_before 0 events = Inr ([], events)" by (cases events) simp_all
      with exact Arrives rest Cons.prems(2) show ?thesis by simp
    next
      case 3
      with Arrives rest Cons.prems(2) show ?thesis by simp
    qed
  qed (use Cons in auto)
qed simp

lemma read_terminator_sound:
  "read_terminator_before events = Inr left \<Longrightarrow> delivered events = map_option ((#) 44) (delivered left)"
  by (induction events rule: read_terminator_before.induct) (auto simp: option.map_comp comp_def append_fun split: if_splits)

lemma read_terminator_complete:
  "delivered events = Some (44 # bs) \<Longrightarrow> \<exists>left. read_terminator_before events = Inr left \<and> delivered left = Some bs"
  by (induction events rule: read_terminator_before.induct) (auto split: if_splits)

lemma require_end_iff: "require_end_of_stream events = Inr () \<longleftrightarrow> delivered events = Some []"
  by (induction events rule: require_end_of_stream.induct) (auto split: option.splits)

text \<open>The length: digits up to the colon.\<close>

lemma read_digits_sound:
  "read_digits digits events = Inr (ds, left) \<Longrightarrow> \<forall>d\<in>set digits. is_ascii_digit d \<Longrightarrow> length digits \<le> MAX_LENGTH_DIGITS \<Longrightarrow>
     (\<exists>ms. ds = digits @ ms \<and> delivered events = map_option ((@) (ms @ [58])) (delivered left)) \<and>
     (\<forall>d\<in>set ds. is_ascii_digit d) \<and> ds \<noteq> [] \<and> length ds \<le> MAX_LENGTH_DIGITS"
proof (induction digits events rule: read_digits.induct)
  case (1 digits events)
  from 1(2) obtain byte events' where byte: "read_exact_before 1 events = Inr (byte, events')"
    by (subst (asm) read_digits.simps) (auto split: sum.splits)
  obtain b where b: "byte = [b]" using read_exact_length [OF byte] by (cases byte) auto
  have step: "delivered events = map_option ((#) b) (delivered events')" using read_exact_sound [OF byte] b by (simp add: append_fun)
  show ?case
  proof (cases "b = 58")
    case True
    with 1(2) byte b have "ds = digits" "left = events'" "digits \<noteq> []"
      by (simp_all add: read_digits.simps [of digits events] split: if_splits)
    with True step 1(3,4) show ?thesis by simp
  next
    case False
    with 1(2) byte b have rest: "is_ascii_digit b" "length digits < MAX_LENGTH_DIGITS" "read_digits (digits @ [b]) events' = Inr (ds, left)"
      by (simp_all add: read_digits.simps [of digits events] split: if_splits)
    with 1(1) [OF byte refl] False b 1(3) step show ?thesis by (force simp: option.map_comp comp_def)
  qed
qed

lemma read_digits_complete:
  "delivered events = Some (ms @ 58 # bs) \<Longrightarrow> \<forall>d\<in>set ms. is_ascii_digit d \<Longrightarrow> digits @ ms \<noteq> [] \<Longrightarrow>
     length (digits @ ms) \<le> MAX_LENGTH_DIGITS \<Longrightarrow>
     \<exists>left. read_digits digits events = Inr (digits @ ms, left) \<and> delivered left = Some bs"
proof (induction ms arbitrary: digits events)
  case Nil
  from read_exact_complete [OF Nil(1), of 1] obtain left where
    "read_exact_before 1 events = Inr ([58], left)" "delivered left = Some bs" by auto
  with Nil show ?case by (simp add: read_digits.simps [of digits events])
next
  case (Cons d ms)
  from read_exact_complete [OF Cons(2), of 1] obtain left where
    left: "read_exact_before 1 events = Inr ([d], left)" "delivered left = Some (ms @ 58 # bs)" by auto
  have "d \<noteq> 58" "is_ascii_digit d" using Cons.prems(2) by (auto simp: is_ascii_digit_def)
  with left Cons.prems have "read_digits digits events = read_digits (digits @ [d]) left"
    by (simp add: read_digits.simps [of digits events])
  with Cons.IH [OF left(2), of "digits @ [d]"] Cons.prems show ?case by simp
qed

lemma fold_digits_value:
  "\<forall>d\<in>set ds. is_ascii_digit d \<Longrightarrow> length ds \<le> MAX_LENGTH_DIGITS \<Longrightarrow> fold_digits ds = Some (undecimal ds)"
proof (induction ds rule: rev_induct)
  case (snoc d ds)
  then have IH: "fold_digits ds = Some (undecimal ds)" and d: "is_ascii_digit d" by simp_all
  have "undecimal (ds @ [d]) < 10 ^ length (ds @ [d])" using snoc.prems(1) by (rule undecimal_bound)
  also have "\<dots> \<le> 10 ^ 5" using snoc.prems(2) by (intro power_increasing) (simp_all add: MAX_LENGTH_DIGITS_def)
  finally have "undecimal ds * 10 + (d - 48) \<le> usize_max" by (simp add: undecimal_snoc limit_defs)
  moreover have "fold_digits (ds @ [d]) = Option.bind (fold_digits ds) (\<lambda>length. Option.bind (checked_mul usize_max length 10)
      (\<lambda>v. checked_add usize_max v (d - 48)))" by (simp add: fold_digits_def)
  ultimately show ?case using IH by (simp add: undecimal_snoc checked_mul_def checked_add_def)
qed (simp add: fold_digits_def undecimal_def)

lemma decimal_undecimal:
  "\<forall>d\<in>set ds. is_ascii_digit d \<Longrightarrow> ds \<noteq> [] \<Longrightarrow> (1 < length ds \<longrightarrow> hd ds \<noteq> 48) \<Longrightarrow> decimal (undecimal ds) = ds"
proof (induction ds rule: rev_induct)
  case (snoc d ds)
  then have d: "48 \<le> d" "d \<le> 57" by (auto simp: is_ascii_digit_def)
  show ?case
  proof (cases "ds = []")
    case True
    with d show ?thesis by (simp add: undecimal_def decimal.simps)
  next
    case False
    with snoc.prems have hd: "hd ds \<noteq> 48" "48 \<le> hd ds" by (auto simp: is_ascii_digit_def)
    with False snoc have IH: "decimal (undecimal ds) = ds" by simp
    have "undecimal ds \<noteq> 0"
    proof
      assume "undecimal ds = 0"
      with IH have "ds = [48]" by (simp add: decimal.simps)
      with hd show False by simp
    qed
    moreover obtain e where e: "d = 48 + e" "e < 10" using d by (intro that [of "d - 48"]) simp_all
    moreover have "(undecimal ds * 10 + e) div 10 = undecimal ds" "(undecimal ds * 10 + e) mod 10 = e" using e(2) by simp_all
    ultimately show ?thesis using IH by (simp add: undecimal_snoc decimal.simps [of "undecimal ds * 10 + e"])
  qed
qed simp

lemma decimal_no_zero: "0 < n \<Longrightarrow> hd (decimal n) \<noteq> 48"
proof (induction n rule: decimal.induct)
  case (1 n)
  then show ?case by (cases "n < 10") (simp_all add: decimal.simps [of n])
qed

section \<open>The channel\<close>

definition frame_of :: "str \<Rightarrow> nat list" where
  "frame_of s = decimal (str_len s) @ [58] @ as_bytes s @ [44]"

definition credential_ok :: "str \<Rightarrow> bool" where
  "credential_ok s \<longleftrightarrow> s \<noteq> [] \<and> str_len s \<le> MAX_CREDENTIAL_BYTES \<and> (\<forall>c\<in>set s. is_scalar c)"

lemma credential_from_bytes_iff:
  "credential_from_bytes bs = Inr s \<longleftrightarrow> as_bytes s = bs \<and> credential_ok s"
proof -
  have "as_bytes s = [] \<longleftrightarrow> s = []" by (cases s) (auto simp: utf8_char_def split: if_splits)
  then show ?thesis
    by (auto simp: credential_from_bytes_def credential_ok_def ok_or_Inr from_utf8_iff str_len_def)
qed

lemma read_length_sound:
  assumes "read_length_prefix events = Inr (n, left)"
  shows "delivered events = map_option ((@) (decimal n @ [58])) (delivered left)"
proof -
  obtain ds where ds: "read_digits [] events = Inr (ds, left)" "\<not> (length ds > 1 \<and> hd ds = 48)" "fold_digits ds = Some n"
    using assms by (auto simp: read_length_prefix_def result_simps split: if_splits)
  from read_digits_sound [OF ds(1)] have facts: "delivered events = map_option ((@) (ds @ [58])) (delivered left)"
    "\<forall>d\<in>set ds. is_ascii_digit d" "ds \<noteq> []" "length ds \<le> MAX_LENGTH_DIGITS" by simp_all
  then have "n = undecimal ds" using ds(3) fold_digits_value by simp
  with facts ds(2) decimal_undecimal [of ds] show ?thesis by simp
qed

lemma read_length_complete:
  assumes "delivered events = Some (decimal n @ 58 # bs)" "n \<le> MAX_CREDENTIAL_BYTES"
  shows "\<exists>left. read_length_prefix events = Inr (n, left) \<and> delivered left = Some bs"
proof -
  have digits: "\<forall>d\<in>set (decimal n). is_ascii_digit d" using decimal_digits by blast
  have "length (decimal n) \<le> MAX_LENGTH_DIGITS" using length_decimal [of n 5] assms(2) by (simp add: limit_defs)
  moreover from this obtain left where left: "read_digits [] events = Inr (decimal n, left)" "delivered left = Some bs"
    using read_digits_complete [OF assms(1) digits, of "[]"] by auto
  moreover have "\<not> (1 < length (decimal n) \<and> hd (decimal n) = 48)"
    using decimal_no_zero [of n] by (cases "n = 0") (simp_all add: decimal.simps [of 0])
  ultimately show ?thesis using fold_digits_value [OF digits] by (auto simp: read_length_prefix_def)
qed

text \<open>
  C21: the channel delivers exactly one credential. However its bytes are split over reads and
  however often a read is interrupted, a connection yields a credential exactly when it delivers,
  up to its close and with no failed or late read, the one netstring of that credential: its
  canonical decimal length, a colon, its UTF-8 bytes and a comma, with nothing after them.
\<close>

theorem credential_frame_exact:
  "read_one_frame events = Inr s \<longleftrightarrow> delivered events = Some (frame_of s) \<and> credential_ok s"
proof
  assume "read_one_frame events = Inr s"
  then obtain n e1 payload e2 e3 where run: "read_length_prefix events = Inr (n, e1)" "n \<noteq> 0"
    "read_exact_before n e1 = Inr (payload, e2)" "read_terminator_before e2 = Inr e3" "require_end_of_stream e3 = Inr ()"
    "credential_from_bytes payload = Inr s"
    by (auto simp: read_one_frame_def result_simps split: if_splits)
  have s: "as_bytes s = payload" "credential_ok s" using run(6) by (simp_all add: credential_from_bytes_iff)
  have n: "n = str_len s" using read_exact_length [OF run(3)] s(1) by (simp add: str_len_def)
  have "delivered e3 = Some []" using run(5) by (simp add: require_end_iff)
  then have "delivered e2 = Some [44]" using read_terminator_sound [OF run(4)] by simp
  then have "delivered e1 = Some (payload @ [44])" using read_exact_sound [OF run(3)] run(2) by simp
  then have "delivered events = Some (frame_of s)" using read_length_sound [OF run(1)] by (simp add: frame_of_def n s(1))
  with s(2) show "delivered events = Some (frame_of s) \<and> credential_ok s" by simp
next
  assume frame: "delivered events = Some (frame_of s) \<and> credential_ok s"
  let ?n = "str_len s"
  have n: "0 < ?n" "?n \<le> MAX_CREDENTIAL_BYTES" "?n = length (as_bytes s)"
    using frame by (auto simp: credential_ok_def str_len_def utf8_char_def neq_Nil_conv)
  from frame obtain e1 where e1: "read_length_prefix events = Inr (?n, e1)" "delivered e1 = Some (as_bytes s @ [44])"
    using read_length_complete [OF _ n(2)] by (auto simp: frame_of_def)
  from read_exact_complete [OF e1(2) n(1)] n(3) obtain e2 where
    e2: "read_exact_before ?n e1 = Inr (as_bytes s, e2)" "delivered e2 = Some [44]" by auto
  from read_terminator_complete [OF e2(2)] obtain e3 where e3: "read_terminator_before e2 = Inr e3" "delivered e3 = Some []" by blast
  have "credential_from_bytes (as_bytes s) = Inr s" using frame by (simp add: credential_from_bytes_iff)
  with e1 e2 e3 n show "read_one_frame events = Inr s"
    by (simp add: read_one_frame_def require_end_iff [THEN iffD2])
qed

end
