(* ===== verification/Credential_Store.thy ===== *)
theory Credential_Store
  imports Text_And_Urls "HOL-Library.Countable"
begin

text \<open>
  The credential crate: secret keys and values and the store contract
  (\<open>crates/auth/src/secret_store.rs\<close>), credential slots (\<open>credential_slot.rs\<close>), the precedence of
  sources (\<open>precedence.rs\<close>), and the store kept in one protected file (\<open>protected_file.rs\<close>).

  The contents of the file are part of the state; the JSON library that writes and reads its
  document is a parameter, and whether the lock is poisoned, a read fails or a write fails is an
  input of each operation. A write can fail before the rename that replaces the file, or after it,
  when the directory cannot be synced: the caller then sees an error although the file is new.
\<close>

section \<open>Keys, values and slots\<close>

definition MAX_STORED_SECRET_BYTES :: nat where [limit_defs]: "MAX_STORED_SECRET_BYTES = 16 * 1024"
definition MAX_KEY_FIELD_BYTES :: nat where [limit_defs]: "MAX_KEY_FIELD_BYTES = 256"
definition MAX_BATCH_KEYS :: nat where [limit_defs]: "MAX_BATCH_KEYS = 256"
definition MAX_BATCH_ITEMS :: nat where [limit_defs]: "MAX_BATCH_ITEMS = 512"
definition APPLICATION_ATTRIBUTE :: str where "APPLICATION_ATTRIBUTE = lit ''omarchy-ai-bar''"

datatype secret_key_error = KeyEmpty | KeyTooLarge | KeyControlCharacter
datatype secret_value_error = ValueEmpty | ValueTooLarge
datatype secret_store_error = Unavailable | Locked | InvalidData | Operation

record secret_key =
  sk_provider :: str
  sk_account :: str
  sk_purpose :: str

definition checked_key_field :: "str \<Rightarrow> (str, secret_key_error) result" where
  "checked_key_field v =
     (if v = [] then Inl KeyEmpty
      else if str_len v > MAX_KEY_FIELD_BYTES then Inl KeyTooLarge
      else if list_ex is_control v then Inl KeyControlCharacter
      else Inr v)"

definition secret_key_new :: "str \<Rightarrow> str \<Rightarrow> str \<Rightarrow> (secret_key, secret_key_error) result" where
  "secret_key_new provider account purpose =
     and_then (checked_key_field provider) (\<lambda>provider.
     and_then (checked_key_field account) (\<lambda>account.
     and_then (checked_key_field purpose) (\<lambda>purpose.
     Inr \<lparr>sk_provider = provider, sk_account = account, sk_purpose = purpose\<rparr>)))"

definition key_attributes :: "secret_key \<Rightarrow> (str \<times> str) list" where
  "key_attributes key =
     [(lit ''application'', APPLICATION_ATTRIBUTE), (lit ''provider'', sk_provider key), (lit ''account'', sk_account key),
      (lit ''purpose'', sk_purpose key)]"

definition stored_secret_new :: "nat list \<Rightarrow> (nat list, secret_value_error) result" where
  "stored_secret_new v =
     (if v = [] then Inl ValueEmpty else if length v > MAX_STORED_SECRET_BYTES then Inl ValueTooLarge else Inr v)"

definition key_ok :: "secret_key \<Rightarrow> bool" where
  "key_ok key \<longleftrightarrow> secret_key_new (sk_provider key) (sk_account key) (sk_purpose key) = Inr key"

definition MAX_CREDENTIAL_SLOT_NAME_BYTES :: nat where [limit_defs]: "MAX_CREDENTIAL_SLOT_NAME_BYTES = 64"
definition SLOT_PURPOSE_PREFIX :: str where "SLOT_PURPOSE_PREFIX = lit ''credential-slot/v1/''"

datatype credential_slot_id_error = SlotEmpty | SlotTooLarge | SlotNonCanonical | SlotEncoding secret_key_error

definition validate_slot_name :: "str \<Rightarrow> (unit, credential_slot_id_error) result" where
  "validate_slot_name v =
     (if v = [] then Inl SlotEmpty
      else if str_len v > MAX_CREDENTIAL_SLOT_NAME_BYTES then Inl SlotTooLarge
      else if list_ex (\<lambda>component. component = [] \<or>
          \<not> list_all (\<lambda>b. is_ascii_lowercase b \<or> is_ascii_digit b) (as_bytes component)) (split_on 45 v)
      then Inl SlotNonCanonical
      else Inr ())"

record credential_slot_id =
  cs_scope :: account_scope
  cs_slot :: str
  cs_secret_key :: secret_key

definition credential_slot_id_new :: "account_scope \<Rightarrow> str \<Rightarrow> (credential_slot_id, credential_slot_id_error) result" where
  "credential_slot_id_new scope slot =
     and_then (validate_slot_name slot) (\<lambda>_.
     let purpose = SLOT_PURPOSE_PREFIX @ sc_instance scope @ lit ''/'' @ slot in
     and_then (map_err SlotEncoding (secret_key_new (provider_as_str (sc_provider scope)) (sc_account scope) purpose)) (\<lambda>key.
     Inr \<lparr>cs_scope = scope, cs_slot = slot, cs_secret_key = key\<rparr>))"

section \<open>Precedence\<close>

datatype credential_source = OneShotOverride | Environment | SecretService | ProviderOwnedFile | BrowserSession | ProviderCli

fun source_precedence :: "credential_source \<Rightarrow> nat" where
  "source_precedence OneShotOverride = 0"
| "source_precedence Environment = 1"
| "source_precedence SecretService = 2"
| "source_precedence ProviderOwnedFile = 3"
| "source_precedence BrowserSession = 4"
| "source_precedence ProviderCli = 5"

datatype credential_persistence = Persistable | Ephemeral

record credential_candidate =
  cc_source :: credential_source
  cc_secret :: "nat list"

definition candidate_from_environment :: "str option \<Rightarrow> (credential_candidate option, secret_value_error) result" where
  "candidate_from_environment v =
     map_ok (map_option (\<lambda>secret. \<lparr>cc_source = Environment, cc_secret = secret\<rparr>))
       (try_option (\<lambda>v. stored_secret_new (as_bytes v)) v)"

record resolved_credential =
  rc_source :: credential_source
  rc_persistence :: credential_persistence
  rc_secret :: "nat list"

text \<open>\<open>min_by_key\<close> returns the first of several minima.\<close>

fun min_by_key :: "('a \<Rightarrow> nat) \<Rightarrow> 'a list \<Rightarrow> 'a option" where
  "min_by_key key [] = None"
| "min_by_key key (x # xs) =
     (case min_by_key key xs of Some y \<Rightarrow> if key y < key x then Some y else Some x | None \<Rightarrow> Some x)"

definition resolve :: "credential_candidate list \<Rightarrow> resolved_credential option" where
  "resolve candidates =
     map_option (\<lambda>candidate.
       \<lparr>rc_source = cc_source candidate,
        rc_persistence = (if cc_source candidate = Environment then Ephemeral else Persistable),
        rc_secret = cc_secret candidate\<rparr>)
       (min_by_key (\<lambda>candidate. source_precedence (cc_source candidate)) candidates)"

datatype credential_persistence_error = EphemeralSource | StoreError secret_store_error

definition persist_resolved ::
    "('s \<Rightarrow> secret_key \<Rightarrow> nat list \<Rightarrow> 's \<times> (unit, secret_store_error) result) \<Rightarrow> 's \<Rightarrow> secret_key \<Rightarrow> resolved_credential \<Rightarrow>
     's \<times> (unit, credential_persistence_error) result" where
  "persist_resolved put s key credential =
     (if rc_persistence credential = Ephemeral then (s, Inl EphemeralSource)
      else let r = put s key (rc_secret credential) in (fst r, map_err StoreError (snd r)))"

section \<open>The protected file\<close>

definition PROTECTED_FILE_NAME :: str where "PROTECTED_FILE_NAME = lit ''protected-credentials.json''"
definition DOCUMENT_VERSION :: nat where [limit_defs]: "DOCUMENT_VERSION = 1"
definition MAX_DOCUMENT_BYTES :: nat where [limit_defs]: "MAX_DOCUMENT_BYTES = 8 * 1024 * 1024"
definition MAX_PROTECTED_ENTRIES :: nat where [limit_defs]: "MAX_PROTECTED_ENTRIES = 64"

datatype protected_file_error = DedicatedNameRequired | InvalidDocument | TooManyEntries | OperationPoisoned | Storage

record protected_entry =
  pn_provider :: str
  pn_account :: str
  pn_purpose :: str
  pn_secret :: "nat list"

record protected_document =
  pd_version :: nat
  pd_entries :: "protected_entry list"

definition default_document :: protected_document where
  "default_document = \<lparr>pd_version = DOCUMENT_VERSION, pd_entries = []\<rparr>"

definition entry_matches :: "protected_entry \<Rightarrow> secret_key \<Rightarrow> bool" where
  "entry_matches entry key \<longleftrightarrow>
     pn_provider entry = sk_provider key \<and> pn_account entry = sk_account key \<and> pn_purpose entry = sk_purpose key"

definition entry_same_identity :: "protected_entry \<Rightarrow> protected_entry \<Rightarrow> bool" where
  "entry_same_identity a b \<longleftrightarrow> pn_provider a = pn_provider b \<and> pn_account a = pn_account b \<and> pn_purpose a = pn_purpose b"

definition entry_validate :: "protected_entry \<Rightarrow> (unit, protected_file_error) result" where
  "entry_validate entry =
     and_then (map_err (\<lambda>_. InvalidDocument) (secret_key_new (pn_provider entry) (pn_account entry) (pn_purpose entry))) (\<lambda>_.
     map_err (\<lambda>_. InvalidDocument) (map_ok (\<lambda>_. ()) (stored_secret_new (pn_secret entry))))"

fun validate_entries :: "protected_entry list \<Rightarrow> protected_entry list \<Rightarrow> (unit, protected_file_error) result" where
  "validate_entries previous [] = Inr ()"
| "validate_entries previous (entry # entries) =
     and_then (entry_validate entry) (\<lambda>_.
     if list_ex (\<lambda>p. entry_same_identity p entry) previous then Inl InvalidDocument
     else validate_entries (previous @ [entry]) entries)"

definition document_validate :: "protected_document \<Rightarrow> (unit, protected_file_error) result" where
  "document_validate document =
     (if pd_version document \<noteq> DOCUMENT_VERSION \<or> length (pd_entries document) > MAX_PROTECTED_ENTRIES then Inl InvalidDocument
      else validate_entries [] (pd_entries document))"

record document_json =
  dj_write :: "protected_document \<Rightarrow> nat list option"
  dj_read :: "nat list \<Rightarrow> protected_document option"

datatype write_fault = NoWriteFault | BeforeRename | AfterRename

record file_faults =
  ff_poisoned :: bool
  ff_read :: bool
  ff_write :: write_fault

text \<open>\<open>Path::file_name\<close>: the last component that is neither empty nor a dot, unless it is two dots.\<close>

definition path_file_name :: "str \<Rightarrow> str option" where
  "path_file_name path =
     (let components = filter (\<lambda>c. c \<noteq> [] \<and> c \<noteq> lit ''.'') (split_on 47 path) in
      if components = [] \<or> last components = lit ''..'' then None else Some (last components))"

definition protected_open :: "str \<Rightarrow> (str, protected_file_error) result" where
  "protected_open path =
     (if take 1 path \<noteq> lit ''/'' \<or> path_file_name path \<noteq> Some PROTECTED_FILE_NAME then Inl DedicatedNameRequired
      else Inr path)"

definition protected_load ::
    "document_json \<Rightarrow> file_faults \<Rightarrow> nat list option \<Rightarrow> (protected_document, protected_file_error) result" where
  "protected_load json faults contents =
     (if ff_read faults then Inl Storage
      else
        (case contents of
          None \<Rightarrow> Inr default_document
        | Some bytes \<Rightarrow>
            if length bytes > MAX_DOCUMENT_BYTES then Inl Storage
            else
              and_then (ok_or InvalidDocument (dj_read json bytes)) (\<lambda>document.
              and_then (document_validate document) (\<lambda>_. Inr document))))"

definition protected_save ::
    "document_json \<Rightarrow> file_faults \<Rightarrow> nat list option \<Rightarrow> protected_document \<Rightarrow>
     nat list option \<times> (unit, protected_file_error) result" where
  "protected_save json faults contents document =
     (let document = document\<lparr>pd_entries := sort_key (\<lambda>e. (pn_provider e, pn_account e, pn_purpose e)) (pd_entries document)\<rparr> in
      case dj_write json document of
        None \<Rightarrow> (contents, Inl InvalidDocument)
      | Some bytes \<Rightarrow>
          if length bytes > MAX_DOCUMENT_BYTES then (contents, Inl TooManyEntries)
          else
            (case ff_write faults of
              NoWriteFault \<Rightarrow> (Some bytes, Inr ())
            | BeforeRename \<Rightarrow> (contents, Inl Storage)
            | AfterRename \<Rightarrow> (Some bytes, Inl Storage)))"

definition get_sync ::
    "document_json \<Rightarrow> file_faults \<Rightarrow> nat list option \<Rightarrow> secret_key \<Rightarrow> (nat list option, protected_file_error) result" where
  "get_sync json faults contents key =
     (if ff_poisoned faults then Inl OperationPoisoned
      else
        and_then (protected_load json faults contents) (\<lambda>document.
        case find (\<lambda>entry. entry_matches entry key) (pd_entries document) of
          None \<Rightarrow> Inr None
        | Some entry \<Rightarrow> map_err (\<lambda>_. InvalidDocument) (map_ok Some (stored_secret_new (pn_secret entry)))))"

fun replace_first :: "('a \<Rightarrow> bool) \<Rightarrow> ('a \<Rightarrow> 'a) \<Rightarrow> 'a list \<Rightarrow> 'a list" where
  "replace_first P f [] = []"
| "replace_first P f (x # xs) = (if P x then f x # xs else x # replace_first P f xs)"

definition put_sync ::
    "document_json \<Rightarrow> file_faults \<Rightarrow> nat list option \<Rightarrow> secret_key \<Rightarrow> nat list \<Rightarrow>
     nat list option \<times> (unit, protected_file_error) result" where
  "put_sync json faults contents key secret =
     (if ff_poisoned faults then (contents, Inl OperationPoisoned)
      else
        (case protected_load json faults contents of
          Inl e \<Rightarrow> (contents, Inl e)
        | Inr document \<Rightarrow>
            if list_ex (\<lambda>entry. entry_matches entry key) (pd_entries document) then
              protected_save json faults contents
                (document\<lparr>pd_entries := replace_first (\<lambda>entry. entry_matches entry key)
                  (\<lambda>entry. entry\<lparr>pn_secret := secret\<rparr>) (pd_entries document)\<rparr>)
            else if length (pd_entries document) \<ge> MAX_PROTECTED_ENTRIES then (contents, Inl TooManyEntries)
            else
              protected_save json faults contents
                (document\<lparr>pd_entries := pd_entries document @
                  [\<lparr>pn_provider = sk_provider key, pn_account = sk_account key, pn_purpose = sk_purpose key, pn_secret = secret\<rparr>]\<rparr>)))"

definition delete_sync ::
    "document_json \<Rightarrow> file_faults \<Rightarrow> nat list option \<Rightarrow> secret_key \<Rightarrow>
     nat list option \<times> (unit, protected_file_error) result" where
  "delete_sync json faults contents key =
     (if ff_poisoned faults then (contents, Inl OperationPoisoned)
      else
        (case protected_load json faults contents of
          Inl e \<Rightarrow> (contents, Inl e)
        | Inr document \<Rightarrow>
            let entries = filter (\<lambda>entry. \<not> entry_matches entry key) (pd_entries document) in
            if length entries \<noteq> length (pd_entries document) then
              protected_save json faults contents (document\<lparr>pd_entries := entries\<rparr>)
            else (contents, Inr ())))"

definition protected_get ::
    "document_json \<Rightarrow> file_faults \<Rightarrow> nat list option \<Rightarrow> secret_key \<Rightarrow> (nat list option, secret_store_error) result" where
  "protected_get json faults contents key =
     map_err (\<lambda>e. if e = InvalidDocument then InvalidData else Operation) (get_sync json faults contents key)"

definition protected_put ::
    "document_json \<Rightarrow> file_faults \<Rightarrow> nat list option \<Rightarrow> secret_key \<Rightarrow> nat list \<Rightarrow>
     nat list option \<times> (unit, secret_store_error) result" where
  "protected_put json faults contents key secret =
     (let r = put_sync json faults contents key secret in (fst r, map_err (\<lambda>_. Operation) (snd r)))"

definition protected_delete ::
    "document_json \<Rightarrow> file_faults \<Rightarrow> nat list option \<Rightarrow> secret_key \<Rightarrow>
     nat list option \<times> (unit, secret_store_error) result" where
  "protected_delete json faults contents key =
     (let r = delete_sync json faults contents key in (fst r, map_err (\<lambda>_. Operation) (snd r)))"

section \<open>The desktop keyring\<close>

text \<open>
  The keyring library is a parameter: a search by attributes, what it says of one item, and the
  operations that change it. Each may fail.
\<close>

record ('s, 'i) keyring =
  kr_search :: "'s \<Rightarrow> (str \<times> str) list \<Rightarrow> 'i list option"
  kr_unlock_item :: "'s \<Rightarrow> 'i \<Rightarrow> bool"
  kr_attributes :: "'s \<Rightarrow> 'i \<Rightarrow> (str \<rightharpoonup> str) option"
  kr_secret :: "'s \<Rightarrow> 'i \<Rightarrow> nat list option"
  kr_unlock :: "'s \<Rightarrow> bool"
  kr_create :: "'s \<Rightarrow> str \<Rightarrow> (str \<times> str) list \<Rightarrow> nat list \<Rightarrow> bool \<Rightarrow> 's \<times> bool"
  kr_delete :: "'s \<Rightarrow> (str \<times> str) list \<Rightarrow> 's \<times> bool"

definition secret_service_get ::
    "('s, 'i) keyring \<Rightarrow> 's \<Rightarrow> secret_key \<Rightarrow> (nat list option, secret_store_error) result" where
  "secret_service_get keyring s key =
     and_then (ok_or Operation (kr_search keyring s (key_attributes key))) (\<lambda>items.
     case items of
       [] \<Rightarrow> Inr None
     | [item] \<Rightarrow>
         and_then (require (kr_unlock_item keyring s item) Locked) (\<lambda>_.
         and_then (ok_or Operation (kr_secret keyring s item)) (\<lambda>secret.
         map_err (\<lambda>_. InvalidData) (map_ok Some (stored_secret_new secret))))
     | _ \<Rightarrow> Inl InvalidData)"

definition secret_service_put ::
    "('s, 'i) keyring \<Rightarrow> 's \<Rightarrow> secret_key \<Rightarrow> nat list \<Rightarrow> 's \<times> (unit, secret_store_error) result" where
  "secret_service_put keyring s key secret =
     (if \<not> kr_unlock keyring s then (s, Inl Locked)
      else
        let r = kr_create keyring s (lit ''omarchy-ai-bar credential'') (key_attributes key) secret True in
        (fst r, if snd r then Inr () else Inl Operation))"

definition secret_service_delete ::
    "('s, 'i) keyring \<Rightarrow> 's \<Rightarrow> secret_key \<Rightarrow> 's \<times> (unit, secret_store_error) result" where
  "secret_service_delete keyring s key =
     (let r = kr_delete keyring s (key_attributes key) in (fst r, if snd r then Inr () else Inl Operation))"

definition attributes_match :: "(str \<rightharpoonup> str) \<Rightarrow> secret_key \<Rightarrow> bool" where
  "attributes_match attributes key \<longleftrightarrow>
     attributes (lit ''application'') = Some APPLICATION_ATTRIBUTE \<and>
     attributes (lit ''provider'') = Some (sk_provider key) \<and>
     attributes (lit ''account'') = Some (sk_account key) \<and>
     attributes (lit ''purpose'') = Some (sk_purpose key)"

fun collect_many ::
    "('s, 'i) keyring \<Rightarrow> 's \<Rightarrow> secret_key list \<Rightarrow> 'i list \<Rightarrow> secret_key list \<Rightarrow> (secret_key \<times> nat list) list \<Rightarrow>
     ((secret_key \<times> nat list) list, secret_store_error) result" where
  "collect_many keyring s keys [] seen values = Inr values"
| "collect_many keyring s keys (item # items) seen values =
     and_then (require (kr_unlock_item keyring s item) Locked) (\<lambda>_.
     and_then (ok_or Operation (kr_attributes keyring s item)) (\<lambda>attributes.
     case find (attributes_match attributes) keys of
       None \<Rightarrow> collect_many keyring s keys items seen values
     | Some key \<Rightarrow>
         if key \<in> set seen then Inl InvalidData
         else
           and_then (ok_or Operation (kr_secret keyring s item)) (\<lambda>secret.
           and_then (map_err (\<lambda>_. InvalidData) (stored_secret_new secret)) (\<lambda>v.
           collect_many keyring s keys items (key # seen) (values @ [(key, v)])))))"

definition get_many ::
    "('s, 'i) keyring \<Rightarrow> 's \<Rightarrow> secret_key list \<Rightarrow> ((secret_key \<times> nat list) list, secret_store_error) result" where
  "get_many keyring s keys =
     (if length keys > MAX_BATCH_KEYS \<or> \<not> distinct keys then Inl InvalidData
      else
        and_then (ok_or Operation (kr_search keyring s [(lit ''application'', APPLICATION_ATTRIBUTE)])) (\<lambda>items.
        if length items > MAX_BATCH_ITEMS then Inl InvalidData
        else collect_many keyring s keys items [] []))"

section \<open>What the document holds\<close>

definition entry_id :: "protected_entry \<Rightarrow> str \<times> str \<times> str" where
  "entry_id e = (pn_provider e, pn_account e, pn_purpose e)"

definition key_id :: "secret_key \<Rightarrow> str \<times> str \<times> str" where
  "key_id k = (sk_provider k, sk_account k, sk_purpose k)"

definition entries_map :: "protected_entry list \<Rightarrow> (str \<times> str \<times> str) \<rightharpoonup> nat list" where
  "entries_map es = map_of (map (\<lambda>e. (entry_id e, pn_secret e)) es)"

definition entry_ok :: "protected_entry \<Rightarrow> bool" where
  "entry_ok e \<longleftrightarrow>
     key_ok \<lparr>sk_provider = pn_provider e, sk_account = pn_account e, sk_purpose = pn_purpose e\<rparr> \<and>
     stored_secret_new (pn_secret e) = Inr (pn_secret e)"

definition document_ok :: "protected_document \<Rightarrow> bool" where
  "document_ok d \<longleftrightarrow>
     pd_version d = DOCUMENT_VERSION \<and> length (pd_entries d) \<le> MAX_PROTECTED_ENTRIES \<and>
     list_all entry_ok (pd_entries d) \<and> distinct (map entry_id (pd_entries d))"

lemma key_id_inj [simp]: "key_id k = key_id k' \<longleftrightarrow> k = k'"
  by (cases k, cases k') (simp add: key_id_def)

lemma entry_matches_id: "entry_matches e k \<longleftrightarrow> entry_id e = key_id k"
  by (simp add: entry_matches_def entry_id_def key_id_def)

lemma entry_same_identity_id: "entry_same_identity a b \<longleftrightarrow> entry_id a = entry_id b"
  by (simp add: entry_same_identity_def entry_id_def)

lemma secret_key_new_cases:
  "(\<exists>e. secret_key_new p a u = Inl e) \<or> secret_key_new p a u = Inr \<lparr>sk_provider = p, sk_account = a, sk_purpose = u\<rparr>"
  by (auto simp: secret_key_new_def checked_key_field_def)

lemma stored_secret_new_cases: "(\<exists>e. stored_secret_new v = Inl e) \<or> stored_secret_new v = Inr v"
  by (simp add: stored_secret_new_def)

lemma entry_validate_iff: "entry_validate e = Inr () \<longleftrightarrow> entry_ok e"
  using secret_key_new_cases [of "pn_provider e" "pn_account e" "pn_purpose e"] stored_secret_new_cases [of "pn_secret e"]
  by (auto simp: entry_validate_def entry_ok_def key_ok_def)

lemma validate_entries_iff:
  "validate_entries previous es = Inr () \<longleftrightarrow>
     list_all entry_ok es \<and> distinct (map entry_id es) \<and> (\<forall>p\<in>set previous. entry_id p \<notin> entry_id ` set es)"
proof (induction previous es rule: validate_entries.induct)
  case (2 previous entry entries)
  show ?case
  proof (cases "entry_validate entry")
    case (Inl e)
    then have "\<not> entry_ok entry" using entry_validate_iff [of entry] by simp
    with Inl show ?thesis by simp
  next
    case (Inr u)
    then have ok: "entry_ok entry" using entry_validate_iff [of entry] by simp
    show ?thesis
    proof (cases "list_ex (\<lambda>p. entry_same_identity p entry) previous")
      case True
      with Inr show ?thesis by (auto simp: list_ex_iff entry_same_identity_id)
    next
      case False
      with 2 Inr ok show ?thesis by (auto simp: list_ex_iff entry_same_identity_id)
    qed
  qed
qed simp

lemma document_validate_iff: "document_validate d = Inr () \<longleftrightarrow> document_ok d"
  by (auto simp: document_validate_def document_ok_def validate_entries_iff)

lemma default_document_ok: "document_ok default_document"
  by (simp add: document_ok_def default_document_def)

lemma entries_map_find: "map_option pn_secret (find (\<lambda>e. entry_matches e k) es) = entries_map es (key_id k)"
  by (induction es) (auto simp: entries_map_def entry_matches_id)

lemma entries_map_cong:
  assumes "distinct (map entry_id es)" "distinct (map entry_id es')" "set es = set es'"
  shows "entries_map es = entries_map es'"
proof -
  have "distinct (map fst (map (\<lambda>e. (entry_id e, pn_secret e)) xs)) \<longleftrightarrow> distinct (map entry_id xs)" for xs
    by (simp add: comp_def)
  with assms show ?thesis by (simp add: entries_map_def map_of_inject_set)
qed

lemma replace_first_id [simp]:
  "map entry_id (replace_first P (\<lambda>e. e\<lparr>pn_secret := v\<rparr>) es) = map entry_id es"
  by (induction es) (auto simp: entry_id_def)

lemma replace_first_length [simp]: "length (replace_first P f es) = length es"
  by (induction es) auto

lemma replace_first_all:
  assumes "list_all Q es" and "\<And>e. Q e \<Longrightarrow> Q (f e)"
  shows "list_all Q (replace_first P f es)"
  using assms by (induction es) auto

lemma replace_first_map:
  assumes "list_ex (\<lambda>e. entry_matches e k) es"
  shows "entries_map (replace_first (\<lambda>e. entry_matches e k) (\<lambda>e. e\<lparr>pn_secret := v\<rparr>) es) = (entries_map es)(key_id k \<mapsto> v)"
  using assms
proof (induction es)
  case (Cons e es)
  show ?case
  proof (cases "entry_matches e k")
    case True
    moreover have "entry_id (e\<lparr>pn_secret := v\<rparr>) = entry_id e" by (simp add: entry_id_def)
    ultimately show ?thesis by (intro ext) (simp add: entries_map_def entry_matches_id)
  next
    case False
    with Cons show ?thesis by (auto simp: entries_map_def entry_matches_id)
  qed
qed simp

lemma entries_map_append_new:
  assumes "\<not> list_ex (\<lambda>e. entry_matches e k) es" "entry_id e = key_id k"
  shows "entries_map (es @ [e]) = (entries_map es)(key_id k \<mapsto> pn_secret e)"
  using assms by (induction es) (auto simp: entries_map_def entry_matches_id)

lemma entries_map_filter:
  "entries_map (filter (\<lambda>e. \<not> entry_matches e k) es) = (entries_map es)(key_id k := None)"
proof (induction es)
  case (Cons e es)
  show ?case
  proof
    fix i
    show "entries_map (filter (\<lambda>e. \<not> entry_matches e k) (e # es)) i = ((entries_map (e # es))(key_id k := None)) i"
      using Cons by (cases "entry_id e = key_id k"; cases "i = key_id k"; simp add: entries_map_def entry_matches_id)
  qed
qed (simp add: entries_map_def)

lemma entries_map_unchanged:
  assumes "length (filter (\<lambda>e. \<not> entry_matches e k) es) = length es"
  shows "(entries_map es)(key_id k := None) = entries_map es"
proof -
  from assms have "filter (\<lambda>e. \<not> entry_matches e k) es = es"
    by (metis filter_id_conv filter_True length_filter_less nat_less_le)
  then show ?thesis using entries_map_filter [of k es] by simp
qed

text \<open>The document a put writes, before it is sorted.\<close>

definition put_entries :: "protected_entry list \<Rightarrow> secret_key \<Rightarrow> nat list \<Rightarrow> protected_entry list" where
  "put_entries es k v =
     (if list_ex (\<lambda>e. entry_matches e k) es then replace_first (\<lambda>e. entry_matches e k) (\<lambda>e. e\<lparr>pn_secret := v\<rparr>) es
      else es @ [\<lparr>pn_provider = sk_provider k, pn_account = sk_account k, pn_purpose = sk_purpose k, pn_secret = v\<rparr>])"

lemma put_entries_map: "entries_map (put_entries es k v) = (entries_map es)(key_id k \<mapsto> v)"
  by (simp add: put_entries_def replace_first_map entries_map_append_new entry_id_def key_id_def)

lemma put_entries_ok:
  assumes d: "document_ok d" and k: "key_ok k" and v: "stored_secret_new v = Inr v"
    and room: "list_ex (\<lambda>e. entry_matches e k) (pd_entries d) \<or> length (pd_entries d) < MAX_PROTECTED_ENTRIES"
  shows "document_ok (d\<lparr>pd_entries := put_entries (pd_entries d) k v\<rparr>)"
proof -
  have "\<lparr>sk_provider = sk_provider k, sk_account = sk_account k, sk_purpose = sk_purpose k\<rparr> = k" by simp
  with k have "key_ok \<lparr>sk_provider = sk_provider k, sk_account = sk_account k, sk_purpose = sk_purpose k\<rparr>" by (simp only:)
  moreover have "entry_ok e \<Longrightarrow> entry_ok (e\<lparr>pn_secret := v\<rparr>)" for e using v by (simp add: entry_ok_def)
  ultimately have all: "list_all entry_ok (put_entries (pd_entries d) k v)"
    using d k v by (auto simp: put_entries_def document_ok_def entry_ok_def intro: replace_first_all)
  have "distinct (map entry_id (put_entries (pd_entries d) k v))"
    using d by (auto simp: put_entries_def document_ok_def entry_matches_id list_ex_iff) (auto simp: entry_id_def key_id_def)
  with all room d show ?thesis by (auto simp: document_ok_def put_entries_def)
qed

section \<open>The store contract\<close>

text \<open>
  \<open>SecretStore\<close>: an operation either takes effect, changing what the next read of exactly that key
  returns and nothing else, or leaves the store as it was and reports an error; it may report an
  error and still have taken effect. A read that a fault disturbs is an error, never another
  answer.
\<close>

locale secret_store =
  fixes get :: "'f \<Rightarrow> 's \<Rightarrow> 'k \<Rightarrow> ('v option, 'e) result"
    and put :: "'f \<Rightarrow> 's \<Rightarrow> 'k \<Rightarrow> 'v \<Rightarrow> 's \<times> (unit, 'e) result"
    and delete :: "'f \<Rightarrow> 's \<Rightarrow> 'k \<Rightarrow> 's \<times> (unit, 'e) result"
    and calm :: 'f
    and inv :: "'s \<Rightarrow> bool"
    and valid :: "'k \<Rightarrow> 'v \<Rightarrow> bool"
  assumes get_total: "inv s \<Longrightarrow> \<exists>found. get calm s k = Inr found"
    and get_honest: "get f s k = Inr found \<Longrightarrow> get calm s k = Inr found"
    and put_law: "inv s \<Longrightarrow> valid k v \<Longrightarrow> put f s k v = (s', r) \<Longrightarrow>
      s' = s \<and> r \<noteq> Inr () \<or> inv s' \<and> get calm s' = (get calm s)(k := Inr (Some v))"
    and delete_law: "inv s \<Longrightarrow> delete f s k = (s', r) \<Longrightarrow>
      s' = s \<and> r \<noteq> Inr () \<or> inv s' \<and> get calm s' = (get calm s)(k := Inr None)"

datatype ('f, 'k, 'v) store_op = StorePut 'f 'k 'v | StoreDelete 'f 'k

fun store_run ::
    "('f \<Rightarrow> 's \<Rightarrow> 'k \<Rightarrow> 'v \<Rightarrow> 's \<times> (unit, 'e) result) \<Rightarrow> ('f \<Rightarrow> 's \<Rightarrow> 'k \<Rightarrow> 's \<times> (unit, 'e) result) \<Rightarrow>
     ('f, 'k, 'v) store_op list \<Rightarrow> 's \<Rightarrow> 's \<times> (unit, 'e) result list" where
  "store_run put delete [] s = (s, [])"
| "store_run put delete (StorePut f k v # ops) s =
     (let r = put f s k v; rest = store_run put delete ops (fst r) in (fst rest, snd r # snd rest))"
| "store_run put delete (StoreDelete f k # ops) s =
     (let r = delete f s k; rest = store_run put delete ops (fst r) in (fst rest, snd r # snd rest))"

text \<open>The abstract store: a map that the operations which took effect update in order.\<close>

fun map_step :: "('f, 'k, 'v) store_op \<Rightarrow> ('k \<rightharpoonup> 'v) \<Rightarrow> ('k \<rightharpoonup> 'v)" where
  "map_step (StorePut f k v) m = m(k \<mapsto> v)"
| "map_step (StoreDelete f k) m = m(k := None)"

definition map_run :: "(('f, 'k, 'v) store_op \<times> bool) list \<Rightarrow> ('k \<rightharpoonup> 'v) \<Rightarrow> ('k \<rightharpoonup> 'v)" where
  "map_run ops m = fold (\<lambda>(op, effect) m. if effect then map_step op m else m) ops m"

fun op_valid :: "('k \<Rightarrow> 'v \<Rightarrow> bool) \<Rightarrow> ('f, 'k, 'v) store_op \<Rightarrow> bool" where
  "op_valid P (StorePut f k v) \<longleftrightarrow> P k v"
| "op_valid P (StoreDelete f k) \<longleftrightarrow> True"

context secret_store
begin

definition holds :: "'s \<Rightarrow> ('k \<rightharpoonup> 'v) \<Rightarrow> bool" where
  "holds s m \<longleftrightarrow> inv s \<and> get calm s = Inr \<circ> m"

lemma put_step:
  assumes "holds s m" "valid k v"
  obtains effect where "snd (put f s k v) = Inr () \<longrightarrow> effect"
    "holds (fst (put f s k v)) (if effect then map_step (StorePut f k v) m else m)"
proof -
  from put_law [OF _ assms(2) surjective_pairing, of s f] assms(1)
  consider "fst (put f s k v) = s" "snd (put f s k v) \<noteq> Inr ()" | "holds (fst (put f s k v)) (m(k \<mapsto> v))"
    by (auto simp: holds_def fun_eq_iff)
  then show ?thesis using that [of False] that [of True] assms(1) by cases (simp_all del: fun_upd_apply)
qed

lemma delete_step:
  assumes "holds s m"
  obtains effect where "snd (delete f s k) = Inr () \<longrightarrow> effect"
    "holds (fst (delete f s k)) (if effect then map_step (StoreDelete f k) m else m)"
proof -
  from delete_law [OF _ surjective_pairing, of s f k] assms(1)
  consider "fst (delete f s k) = s" "snd (delete f s k) \<noteq> Inr ()" | "holds (fst (delete f s k)) (m(k := None))"
    by (auto simp: holds_def fun_eq_iff)
  then show ?thesis using that [of False] that [of True] assms(1) by cases (simp_all del: fun_upd_apply)
qed

lemma run_refines_map:
  assumes "holds s m" "list_all (op_valid valid) ops"
  shows "\<exists>effects. length effects = length ops \<and>
    list_all2 (\<lambda>r effect. r = Inr () \<longrightarrow> effect) (snd (store_run put delete ops s)) effects \<and>
    holds (fst (store_run put delete ops s)) (map_run (zip ops effects) m)"
  using assms
proof (induction ops arbitrary: s m)
  case Nil
  then show ?case by (simp add: map_run_def)
next
  case (Cons op ops)
  from Cons.prems(2) have rest: "list_all (op_valid valid) ops" by simp
  show ?case
  proof (cases op)
    case (StorePut f k v)
    with Cons.prems(2) have "valid k v" by simp
    from put_step [OF Cons.prems(1) this] obtain effect where step: "snd (put f s k v) = Inr () \<longrightarrow> effect"
      "holds (fst (put f s k v)) (if effect then map_step op m else m)" unfolding StorePut by blast
    from Cons.IH [OF step(2) rest] obtain effects where "length effects = length ops"
      "list_all2 (\<lambda>r effect. r = Inr () \<longrightarrow> effect) (snd (store_run put delete ops (fst (put f s k v)))) effects"
      "holds (fst (store_run put delete ops (fst (put f s k v)))) (map_run (zip ops effects) (if effect then map_step op m else m))" by blast
    then show ?thesis using step(1) StorePut by (intro exI [of _ "effect # effects"]) (cases effect; simp add: Let_def map_run_def)
  next
    case (StoreDelete f k)
    from delete_step [OF Cons.prems(1)] obtain effect where step: "snd (delete f s k) = Inr () \<longrightarrow> effect"
      "holds (fst (delete f s k)) (if effect then map_step op m else m)" unfolding StoreDelete by blast
    from Cons.IH [OF step(2) rest] obtain effects where "length effects = length ops"
      "list_all2 (\<lambda>r effect. r = Inr () \<longrightarrow> effect) (snd (store_run put delete ops (fst (delete f s k)))) effects"
      "holds (fst (store_run put delete ops (fst (delete f s k)))) (map_run (zip ops effects) (if effect then map_step op m else m))" by blast
    then show ?thesis using step(1) StoreDelete by (intro exI [of _ "effect # effects"]) (cases effect; simp add: Let_def map_run_def)
  qed
qed

end

section \<open>The protected file keeps the contract\<close>

definition calm_file :: file_faults where
  "calm_file = \<lparr>ff_poisoned = False, ff_read = False, ff_write = NoWriteFault\<rparr>"

definition json_faithful :: "document_json \<Rightarrow> bool" where
  "json_faithful json \<longleftrightarrow> (\<forall>d bs. dj_write json d = Some bs \<longrightarrow> dj_read json bs = Some d)"

definition file_ok :: "document_json \<Rightarrow> nat list option \<Rightarrow> bool" where
  "file_ok json c \<longleftrightarrow> json_faithful json \<and> (\<exists>d. protected_load json calm_file c = Inr d)"

definition pair_valid :: "secret_key \<Rightarrow> nat list \<Rightarrow> bool" where
  "pair_valid k v \<longleftrightarrow> key_ok k \<and> stored_secret_new v = Inr v"

lemma protected_load_ok: "protected_load json f c = Inr d \<Longrightarrow> document_ok d"
  by (auto simp: protected_load_def default_document_ok and_then_Inr document_validate_iff split: if_splits option.splits)

lemma protected_load_calm: "protected_load json f c = Inr d \<Longrightarrow> protected_load json calm_file c = Inr d"
  by (auto simp: protected_load_def calm_file_def split: if_splits)

lemma protected_load_faults: "protected_load json f c = (if ff_read f then Inl Storage else protected_load json calm_file c)"
  by (simp add: protected_load_def calm_file_def)

lemma get_sync_calm:
  assumes "protected_load json calm_file c = Inr d"
  shows "get_sync json calm_file c k = Inr (entries_map (pd_entries d) (key_id k))"
proof (cases "find (\<lambda>e. entry_matches e k) (pd_entries d)")
  case None
  then show ?thesis using assms entries_map_find [of k "pd_entries d"] by (simp add: get_sync_def) (simp add: calm_file_def)
next
  case (Some e)
  then have "e \<in> set (pd_entries d)" by (auto simp: find_Some_iff)
  with protected_load_ok [OF assms] have "stored_secret_new (pn_secret e) = Inr (pn_secret e)"
    by (auto simp: document_ok_def list_all_iff entry_ok_def)
  then show ?thesis using Some assms entries_map_find [of k "pd_entries d"]
    by (simp add: get_sync_def) (simp add: calm_file_def)
qed

lemma save_then_load:
  assumes json: "json_faithful json" and d: "document_ok d" and saved: "protected_save json f c d = (c', r)"
  shows "c' = c \<and> r \<noteq> Inr () \<or>
    (\<exists>d'. protected_load json calm_file c' = Inr d' \<and> entries_map (pd_entries d') = entries_map (pd_entries d))"
proof -
  define d' where "d' = d\<lparr>pd_entries := sort_key (\<lambda>e. (pn_provider e, pn_account e, pn_purpose e)) (pd_entries d)\<rparr>"
  have perm: "mset (pd_entries d') = mset (pd_entries d)" by (simp add: d'_def)
  then have dist: "distinct (map entry_id (pd_entries d'))"
    using d by (metis distinct_map document_ok_def mset_eq_imp_distinct_iff mset_map)
  have set': "set (pd_entries d') = set (pd_entries d)" and len: "length (pd_entries d') = length (pd_entries d)"
    by (simp_all add: d'_def)
  have ok': "document_ok d'"
    using d dist set' len by (simp add: document_ok_def list_all_iff) (simp add: d'_def)
  from saved consider "c' = c" "r \<noteq> Inr ()" | bs where "dj_write json d' = Some bs" "length bs \<le> MAX_DOCUMENT_BYTES" "c' = Some bs"
    by (auto simp: protected_save_def d'_def [symmetric] Let_def split: if_splits option.splits write_fault.splits)
  then show ?thesis
  proof cases
    case (2 bs)
    moreover from this json have "dj_read json bs = Some d'" by (simp add: json_faithful_def)
    moreover have "document_validate d' = Inr ()" using ok' by (simp add: document_validate_iff)
    ultimately have "protected_load json calm_file c' = Inr d'" by (simp add: protected_load_def calm_file_def)
    moreover have "entries_map (pd_entries d') = entries_map (pd_entries d)"
      using d dist set' by (intro entries_map_cong) (auto simp: document_ok_def)
    ultimately show ?thesis by blast
  qed simp
qed

lemma saved_law:
  assumes json: "json_faithful json" and load: "protected_load json calm_file c = Inr d"
    and d': "document_ok d'" "entries_map (pd_entries d') = (entries_map (pd_entries d))(key_id k := x)"
    and saved: "protected_save json f c d' = (c', r)"
  shows "c' = c \<and> r \<noteq> Inr () \<or> file_ok json c' \<and> get_sync json calm_file c' = (get_sync json calm_file c)(k := Inr x)"
  using save_then_load [OF json d'(1) saved]
proof
  assume "\<exists>d''. protected_load json calm_file c' = Inr d'' \<and> entries_map (pd_entries d'') = entries_map (pd_entries d')"
  then obtain d'' where d'': "protected_load json calm_file c' = Inr d''"
    "entries_map (pd_entries d'') = (entries_map (pd_entries d))(key_id k := x)" using d'(2) by auto
  have "get_sync json calm_file c' = (get_sync json calm_file c)(k := Inr x)"
    by (rule ext) (simp add: get_sync_calm [OF load] get_sync_calm [OF d''(1)] d''(2))
  with json d''(1) show ?thesis by (auto simp: file_ok_def)
qed simp

lemma put_sync_law:
  assumes "file_ok json c" "pair_valid k v" "put_sync json f c k v = (c', r)"
  shows "c' = c \<and> r \<noteq> Inr () \<or> file_ok json c' \<and> get_sync json calm_file c' = (get_sync json calm_file c)(k := Inr (Some v))"
proof -
  from assms(1) obtain d where json: "json_faithful json" and load: "protected_load json calm_file c = Inr d"
    by (auto simp: file_ok_def)
  from assms(3) load consider "c' = c" "r \<noteq> Inr ()" |
    "list_ex (\<lambda>e. entry_matches e k) (pd_entries d) \<or> length (pd_entries d) < MAX_PROTECTED_ENTRIES"
    "protected_save json f c (d\<lparr>pd_entries := put_entries (pd_entries d) k v\<rparr>) = (c', r)"
    by (auto simp: put_sync_def put_entries_def protected_load_faults [of json f] split: if_splits)
  then show ?thesis
  proof cases
    case 2
    have "document_ok (d\<lparr>pd_entries := put_entries (pd_entries d) k v\<rparr>)"
      using assms(2) 2(1) protected_load_ok [OF load] by (intro put_entries_ok) (simp_all add: pair_valid_def)
    from saved_law [OF json load this _ 2(2)] show ?thesis by (simp add: put_entries_map)
  qed simp
qed

lemma delete_sync_law:
  assumes "file_ok json c" "delete_sync json f c k = (c', r)"
  shows "c' = c \<and> r \<noteq> Inr () \<or> file_ok json c' \<and> get_sync json calm_file c' = (get_sync json calm_file c)(k := Inr None)"
proof -
  from assms(1) obtain d where json: "json_faithful json" and load: "protected_load json calm_file c = Inr d"
    by (auto simp: file_ok_def)
  define es where "es = filter (\<lambda>e. \<not> entry_matches e k) (pd_entries d)"
  have ok: "document_ok (d\<lparr>pd_entries := es\<rparr>)"
    using protected_load_ok [OF load] unfolding document_ok_def es_def
    by (auto simp: list_all_iff distinct_map_filter intro: order_trans [OF length_filter_le])
  from assms(2) load consider "c' = c" "r \<noteq> Inr ()" |
    "length es \<noteq> length (pd_entries d)" "protected_save json f c (d\<lparr>pd_entries := es\<rparr>) = (c', r)" |
    "length es = length (pd_entries d)" "c' = c"
    by (auto simp: delete_sync_def Let_def es_def protected_load_faults [of json f] split: if_splits)
  then show ?thesis
  proof cases
    case 2
    from saved_law [OF json load ok _ 2(2)] show ?thesis by (simp add: es_def entries_map_filter)
  next
    case 3
    then have "(entries_map (pd_entries d))(key_id k := None) = entries_map (pd_entries d)"
      by (intro entries_map_unchanged) (simp add: es_def)
    then have "entries_map (pd_entries d) (key_id k) = None" by (metis fun_upd_same)
    then show ?thesis using 3 assms(1) load by (auto simp: get_sync_calm fun_eq_iff)
  qed simp
qed

lemma protected_get_calm:
  "protected_load json calm_file c = Inr d \<Longrightarrow> protected_get json calm_file c k = Inr (entries_map (pd_entries d) (key_id k))"
  by (simp add: protected_get_def get_sync_calm)

lemma protected_get_faulty:
  assumes "protected_load json calm_file c = Inr d"
  shows "protected_get json f c k \<in> {protected_get json calm_file c k, Inl Operation}"
  using assms protected_load_faults [of json f c]
  by (auto simp: protected_get_def get_sync_def calm_file_def)

lemma get_sync_honest: "get_sync json f c k = Inr r \<Longrightarrow> get_sync json calm_file c k = Inr r"
  using protected_load_calm [of json f c]
  by (auto simp: get_sync_def and_then_Inr calm_file_def split: if_splits)

lemma map_err_fun_upd:
  assumes "g = h(k := Inr x)"
  shows "(\<lambda>i. map_err e (g i)) = (\<lambda>i. map_err e (h i))(k := Inr x)"
  using assms by (auto simp: fun_eq_iff)

interpretation protected_file: secret_store "protected_get json" "protected_put json" "protected_delete json"
  calm_file "file_ok json" pair_valid for json
proof unfold_locales
  fix f c k v c' r x
  show "file_ok json c \<Longrightarrow> \<exists>found. protected_get json calm_file c k = Inr found"
    by (auto simp: file_ok_def protected_get_calm)
  show "protected_get json f c k = Inr x \<Longrightarrow> protected_get json calm_file c k = Inr x"
    by (auto simp: protected_get_def result_simps dest: get_sync_honest)
  assume ok: "file_ok json c"
  show "pair_valid k v \<Longrightarrow> protected_put json f c k v = (c', r) \<Longrightarrow>
      c' = c \<and> r \<noteq> Inr () \<or> file_ok json c' \<and> protected_get json calm_file c' = (protected_get json calm_file c)(k := Inr (Some v))"
    using put_sync_law [OF ok, of k v f] map_err_fun_upd [of "get_sync json calm_file c'"]
    by (cases "put_sync json f c k v") (auto simp: protected_put_def protected_get_def [abs_def] Let_def result_simps)
  show "protected_delete json f c k = (c', r) \<Longrightarrow>
      c' = c \<and> r \<noteq> Inr () \<or> file_ok json c' \<and> protected_get json calm_file c' = (protected_get json calm_file c)(k := Inr None)"
    using delete_sync_law [OF ok, of f k] map_err_fun_upd [of "get_sync json calm_file c'"]
    by (cases "delete_sync json f c k") (auto simp: protected_delete_def protected_get_def [abs_def] Let_def result_simps)
qed

text \<open>A put fails only for a fault, a full document or one the JSON library cannot write in the limit.\<close>

definition json_fits :: "document_json \<Rightarrow> bool" where
  "json_fits json \<longleftrightarrow> (\<forall>d. document_ok d \<longrightarrow> (\<exists>bs. dj_write json d = Some bs \<and> length bs \<le> MAX_DOCUMENT_BYTES))"

lemma save_calm:
  assumes fits: "json_fits json" and d: "document_ok d"
  shows "snd (protected_save json calm_file c d) = Inr ()"
proof -
  let ?d = "d\<lparr>pd_entries := sort_key (\<lambda>e. (pn_provider e, pn_account e, pn_purpose e)) (pd_entries d)\<rparr>"
  have "mset (map entry_id (pd_entries ?d)) = mset (map entry_id (pd_entries d))" by simp
  then have "distinct (map entry_id (pd_entries ?d))"
    using d mset_eq_imp_distinct_iff unfolding document_ok_def by blast
  with d have "document_ok ?d" by (simp add: document_ok_def list_all_iff)
  with fits obtain bs where "dj_write json ?d = Some bs" "length bs \<le> MAX_DOCUMENT_BYTES" unfolding json_fits_def by blast
  then show ?thesis by (simp add: protected_save_def calm_file_def Let_def)
qed

lemma dom_entries:
  "length (pd_entries d) = card (dom (\<lambda>k. entries_map (pd_entries d) (key_id k)))" if "document_ok d"
proof -
  have "bij_betw key_id (dom (\<lambda>k. entries_map (pd_entries d) (key_id k))) (entry_id ` set (pd_entries d))"
  proof (intro bij_betw_imageI inj_onI)
    show "key_id ` dom (\<lambda>k. entries_map (pd_entries d) (key_id k)) = entry_id ` set (pd_entries d)"
    proof (intro set_eqI iffI)
      fix i
      assume "i \<in> entry_id ` set (pd_entries d)"
      then obtain e where e: "e \<in> set (pd_entries d)" "i = entry_id e" by blast
      define k where "k = \<lparr>sk_provider = pn_provider e, sk_account = pn_account e, sk_purpose = pn_purpose e\<rparr>"
      have k: "i = key_id k" using e by (simp add: k_def key_id_def entry_id_def)
      have "i \<in> dom (entries_map (pd_entries d))" using e by (simp add: entries_map_def dom_map_of_conv_image_fst image_image)
      with k show "i \<in> key_id ` dom (\<lambda>k. entries_map (pd_entries d) (key_id k))" by (intro image_eqI [of _ _ k]) auto
    qed (auto simp: entries_map_def dest!: map_of_SomeD)
  qed simp
  then have "card (dom (\<lambda>k. entries_map (pd_entries d) (key_id k))) = card (entry_id ` set (pd_entries d))"
    by (rule bij_betw_same_card)
  with that show ?thesis by (simp add: document_ok_def) (metis distinct_card length_map list.set_map)
qed

lemma put_calm:
  assumes load: "protected_load json calm_file c = Inr d" and fits: "json_fits json" and valid: "pair_valid k v"
    and room: "entries_map (pd_entries d) (key_id k) \<noteq> None \<or> length (pd_entries d) < MAX_PROTECTED_ENTRIES"
  shows "snd (protected_put json calm_file c k v) = Inr ()"
proof -
  have "list_ex (\<lambda>e. entry_matches e k) (pd_entries d) \<or> length (pd_entries d) < MAX_PROTECTED_ENTRIES"
    using room entries_map_find [of k "pd_entries d"] by (auto simp: list_ex_iff find_Some_iff) (meson nth_mem)
  moreover from this have "document_ok (d\<lparr>pd_entries := put_entries (pd_entries d) k v\<rparr>)"
    using valid protected_load_ok [OF load] by (intro put_entries_ok) (simp_all add: pair_valid_def)
  note saved = save_calm [OF fits this, of c]
  moreover have "\<not> ff_poisoned calm_file" by (simp add: calm_file_def)
  ultimately show ?thesis
    using load saved by (auto simp: protected_put_def put_sync_def put_entries_def Let_def)
qed


text \<open>A JSON library that can write every document: an enumeration of the documents.\<close>

definition example_json :: document_json where
  "example_json =
     \<lparr>dj_write = (\<lambda>d. Some [to_nat (pd_version d, map (\<lambda>e. (entry_id e, pn_secret e)) (pd_entries d))]),
      dj_read = (\<lambda>bs. case (from_nat (hd bs) :: nat \<times> ((str \<times> str \<times> str) \<times> nat list) list) of (v, es) \<Rightarrow>
        Some \<lparr>pd_version = v,
          pd_entries = map (\<lambda>((p, a, u), s). \<lparr>pn_provider = p, pn_account = a, pn_purpose = u, pn_secret = s\<rparr>) es\<rparr>)\<rparr>"

definition example_key :: secret_key where
  "example_key = \<lparr>sk_provider = lit ''grok'', sk_account = lit ''me'', sk_purpose = lit ''manual-session''\<rparr>"

lemma example_json_ok: "json_faithful example_json" "json_fits example_json"
proof -
  have "map (\<lambda>x. \<lparr>pn_provider = pn_provider x, pn_account = pn_account x, pn_purpose = pn_purpose x, pn_secret = pn_secret x\<rparr>) es = es"
    for es :: "protected_entry list" by (induction es) simp_all
  then show "json_faithful example_json" by (simp add: json_faithful_def example_json_def entry_id_def comp_def)
qed (simp add: json_fits_def example_json_def limit_defs)

lemma example_pair_ok: "pair_valid example_key [7, 2]" "pair_valid example_key [9]"
  by (simp_all add: pair_valid_def key_ok_def secret_key_new_def checked_key_field_def example_key_def stored_secret_new_def
      str_len_def utf8_char_def is_control_def lit_def limit_defs)


section \<open>Slots never share a key\<close>

lemma as_bytes_ascii_chars: "\<forall>b\<in>set (as_bytes s). b < 128 \<Longrightarrow> \<forall>c\<in>set s. c < 128"
proof (induction s)
  case (Cons c s)
  have "hd (utf8_char c) \<in> set (utf8_char c)" "c < 128 \<or> 128 \<le> hd (utf8_char c)" by (simp_all add: utf8_char_def)
  moreover have all: "\<forall>b\<in>set (utf8_char c) \<union> set (as_bytes s). b < 128" using Cons.prems by simp
  ultimately have "c < 128" by (meson UnI1 leD)
  with all Cons.IH show ?case by simp
qed simp

lemma split_on_set: "set s \<subseteq> insert sep (\<Union> (set ` set (split_on sep s)))"
proof (induction s)
  case (Cons c s)
  then show ?case by (cases "split_on sep s") auto
qed simp

lemma slot_char_bounds: "is_ascii_lowercase c \<or> is_ascii_digit c \<Longrightarrow> 47 < c \<and> c < 127"
  by (auto simp: is_ascii_lowercase_def is_ascii_digit_def)

lemma slot_name_chars:
  assumes "validate_slot_name v = Inr ()"
  shows "v \<noteq> []" "length v \<le> MAX_CREDENTIAL_SLOT_NAME_BYTES" "\<forall>c\<in>set v. c = 45 \<or> is_ascii_lowercase c \<or> is_ascii_digit c"
proof -
  show "v \<noteq> []" and "length v \<le> MAX_CREDENTIAL_SLOT_NAME_BYTES"
    using assms length_le_str_len [of v] by (auto simp: validate_slot_name_def split: if_splits)
  have parts: "\<forall>p\<in>set (split_on 45 v). \<forall>c\<in>set p. is_ascii_lowercase c \<or> is_ascii_digit c"
  proof
    fix p
    assume "p \<in> set (split_on 45 v)"
    with assms have b: "\<forall>b\<in>set (as_bytes p). is_ascii_lowercase b \<or> is_ascii_digit b"
      by (auto simp: validate_slot_name_def list_ex_iff list_all_iff split: if_splits)
    then have "\<forall>b\<in>set (as_bytes p). b < 128" using slot_char_bounds by fastforce
    then have "\<forall>c\<in>set p. c < 128" by (rule as_bytes_ascii_chars)
    with b show "\<forall>c\<in>set p. is_ascii_lowercase c \<or> is_ascii_digit c" by (simp add: as_bytes_ascii)
  qed
  show "\<forall>c\<in>set v. c = 45 \<or> is_ascii_lowercase c \<or> is_ascii_digit c"
    using parts split_on_set [of v 45] by blast
qed

lemma checked_key_field_ascii:
  assumes "v \<noteq> []" "length v \<le> MAX_KEY_FIELD_BYTES" "\<forall>c\<in>set v. 32 < c \<and> c < 127"
  shows "checked_key_field v = Inr v"
proof -
  have "as_bytes v = v" using assms(3) by (intro as_bytes_ascii) auto
  moreover have "\<not> list_ex is_control v" using assms(3) by (auto simp: list_ex_iff is_control_def)
  ultimately show ?thesis using assms by (simp add: checked_key_field_def str_len_def)
qed

lemma scope_char_ok_printable: "scope_char_ok a c \<Longrightarrow> 32 < c \<and> c < 127 \<and> c \<noteq> 47"
  by (auto simp: scope_char_ok_def is_ascii_alphanumeric_def is_ascii_digit_def is_ascii_alphabetic_def lit_def)

lemma provider_names_printable:
  "provider_as_str p \<noteq> [] \<and> length (provider_as_str p) \<le> 32 \<and> (\<forall>c\<in>set (provider_as_str p). 32 < c \<and> c < 127)"
  by (cases p) (simp_all add: provider_as_str_def lit_def)

lemma slot_prefix: "length SLOT_PURPOSE_PREFIX = 19" "\<forall>c\<in>set SLOT_PURPOSE_PREFIX. 32 < c \<and> c < 127"
  by (simp_all add: SLOT_PURPOSE_PREFIX_def lit_def)

lemma credential_slot_total:
  assumes scope: "scope_ok s" and slot: "validate_slot_name x = Inr ()"
  shows "credential_slot_id_new s x = Inr \<lparr>cs_scope = s, cs_slot = x, cs_secret_key =
    \<lparr>sk_provider = provider_as_str (sc_provider s), sk_account = sc_account s,
     sk_purpose = SLOT_PURPOSE_PREFIX @ sc_instance s @ lit ''/'' @ x\<rparr>\<rparr>"
proof -
  have inst: "sc_instance s \<noteq> []" "length (sc_instance s) \<le> 128" "\<forall>c\<in>set (sc_instance s). 32 < c \<and> c < 127"
    and acc: "sc_account s \<noteq> []" "length (sc_account s) \<le> 160" "\<forall>c\<in>set (sc_account s). 32 < c \<and> c < 127"
    using scope scope_char_ok_printable by (auto simp: scope_ok_def scope_id_ok_def limit_defs)
  note x = slot_name_chars [OF slot]
  have "checked_key_field (provider_as_str (sc_provider s)) = Inr (provider_as_str (sc_provider s))"
    using provider_names_printable [of "sc_provider s"] by (intro checked_key_field_ascii) (auto simp: limit_defs)
  moreover have "checked_key_field (sc_account s) = Inr (sc_account s)"
    using acc by (intro checked_key_field_ascii) (auto simp: limit_defs)
  moreover have "checked_key_field (SLOT_PURPOSE_PREFIX @ sc_instance s @ lit ''/'' @ x) =
      Inr (SLOT_PURPOSE_PREFIX @ sc_instance s @ lit ''/'' @ x)"
  proof (rule checked_key_field_ascii)
    have slash: "lit ''/'' = [47]" by (simp add: lit_def)
    show "SLOT_PURPOSE_PREFIX @ sc_instance s @ lit ''/'' @ x \<noteq> []" by (simp add: slash)
    show "length (SLOT_PURPOSE_PREFIX @ sc_instance s @ lit ''/'' @ x) \<le> MAX_KEY_FIELD_BYTES"
      using inst(2) x(2) slot_prefix by (simp add: limit_defs slash)
    have "32 < c \<and> c < 127" if "c \<in> set x" for c using bspec [OF x(3) that] slot_char_bounds [of c] by auto
    with inst(3) slot_prefix(2) show "\<forall>c\<in>set (SLOT_PURPOSE_PREFIX @ sc_instance s @ lit ''/'' @ x). 32 < c \<and> c < 127"
      by (auto simp: slash)
  qed
  ultimately show ?thesis using slot by (simp add: credential_slot_id_new_def secret_key_new_def Let_def)
qed

lemma slash_unique:
  assumes "a @ 47 # x = b @ 47 # y" "(47 :: nat) \<notin> set a" "47 \<notin> set b"
  shows "a = b \<and> x = y"
proof -
  have "Some (a, x) = split_once 47 (b @ 47 # y)"
    unfolding assms(1) [symmetric] by (rule split_once_text [OF assms(2), symmetric])
  then show ?thesis unfolding split_once_text [OF assms(3)] by simp
qed

text \<open>
  C23: Credential slots are total and never share storage. For a valid scope, a slot name is
  accepted exactly when it is canonical, whatever the lengths of the identifiers, and its key is
  valid; two slots have the same storage key exactly when provider, instance, account and slot name
  all agree, and no slot's purpose is one of the bare purposes that contain no slash.
\<close>

theorem credential_slots_disjoint:
  assumes "scope_ok s" "scope_ok t"
  shows "(\<forall>x. (\<exists>id. credential_slot_id_new s x = Inr id) \<longleftrightarrow> validate_slot_name x = Inr ()) \<and>
    (\<forall>x id. credential_slot_id_new s x = Inr id \<longrightarrow> cs_scope id = s \<and> cs_slot id = x \<and> key_ok (cs_secret_key id) \<and>
       of_char CHR ''/'' \<in> set (sk_purpose (cs_secret_key id))) \<and>
    (\<forall>x y id id'. credential_slot_id_new s x = Inr id \<and> credential_slot_id_new t y = Inr id' \<longrightarrow>
       (cs_secret_key id = cs_secret_key id' \<longleftrightarrow> s = t \<and> x = y))"
proof (intro conjI allI impI)
  have valid: "validate_slot_name x = Inr ()" if "credential_slot_id_new u x = Inr id" for u x id
    using that by (auto simp: credential_slot_id_new_def and_then_Inr)
  fix x
  show "(\<exists>id. credential_slot_id_new s x = Inr id) \<longleftrightarrow> validate_slot_name x = Inr ()"
    using valid credential_slot_total [OF assms(1)] by blast
  fix id
  assume new: "credential_slot_id_new s x = Inr id"
  note eq = credential_slot_total [OF assms(1) valid [OF new]]
  show "cs_scope id = s" "cs_slot id = x" using new eq by auto
  show "of_char CHR ''/'' \<in> set (sk_purpose (cs_secret_key id))" using new eq by (auto simp: lit_def)
  from new show "key_ok (cs_secret_key id)"
    using secret_key_new_cases [of "provider_as_str (sc_provider s)" "sc_account s" "SLOT_PURPOSE_PREFIX @ sc_instance s @ lit ''/'' @ x"]
    by (auto simp: credential_slot_id_new_def Let_def and_then_Inr result_simps key_ok_def)
next
  fix x y id id'
  assume new: "credential_slot_id_new s x = Inr id \<and> credential_slot_id_new t y = Inr id'"
  then have valid: "validate_slot_name x = Inr ()" "validate_slot_name y = Inr ()"
    by (auto simp: credential_slot_id_new_def and_then_Inr)
  have "47 \<notin> set (sc_instance s)" "47 \<notin> set (sc_instance t)"
    using assms scope_char_ok_printable by (auto simp: scope_ok_def scope_id_ok_def)
  then have "sc_instance s @ 47 # x = sc_instance t @ 47 # y \<Longrightarrow> sc_instance s = sc_instance t \<and> x = y"
    using slash_unique by blast
  with new show "cs_secret_key id = cs_secret_key id' \<longleftrightarrow> s = t \<and> x = y"
    using credential_slot_total [OF assms(1) valid(1)] credential_slot_total [OF assms(2) valid(2)]
    by (cases s; cases t) (auto simp: lit_def)
qed

definition example_scope :: "str \<Rightarrow> account_scope" where
  "example_scope i = AccountScope Grok i (lit ''me'')"

theorem credential_slots_disjoint_witness:
  "\<exists>id id'. credential_slot_id_new (example_scope (lit ''a'')) (lit ''api-key'') = Inr id \<and>
     credential_slot_id_new (example_scope (lit ''b'')) (lit ''api-key'') = Inr id' \<and> cs_secret_key id \<noteq> cs_secret_key id'"
proof -
  have ok: "scope_ok (example_scope (lit ''a''))" "scope_ok (example_scope (lit ''b''))"
    by (simp_all add: example_scope_def scope_ok_def scope_id_ok_def scope_char_ok_def is_ascii_alphanumeric_def
        is_ascii_alphabetic_def is_ascii_digit_def lit_def limit_defs)
  have slot: "validate_slot_name (lit ''api-key'') = Inr ()"
    by (simp add: validate_slot_name_def str_len_def utf8_char_def is_ascii_lowercase_def lit_def limit_defs)
  note ab = credential_slots_disjoint [OF ok] and ba = credential_slots_disjoint [OF ok(2,1)]
  from ab slot obtain id where id: "credential_slot_id_new (example_scope (lit ''a'')) (lit ''api-key'') = Inr id" by blast
  from ba slot obtain id' where id': "credential_slot_id_new (example_scope (lit ''b'')) (lit ''api-key'') = Inr id'" by blast
  from ab id id' have "cs_secret_key id \<noteq> cs_secret_key id'" by (auto simp: example_scope_def lit_def)
  with id id' show ?thesis by blast
qed

section \<open>Precedence\<close>

lemma min_by_key_first:
  "min_by_key key xs = Some x \<longleftrightarrow>
     (\<exists>before after. xs = before @ x # after \<and> (\<forall>y\<in>set before. key x < key y) \<and> (\<forall>y\<in>set after. key x \<le> key y))"
proof (induction xs arbitrary: x)
  case (Cons y ys)
  show ?case
  proof
    assume min: "min_by_key key (y # ys) = Some x"
    show "\<exists>before after. y # ys = before @ x # after \<and> (\<forall>z\<in>set before. key x < key z) \<and> (\<forall>z\<in>set after. key x \<le> key z)"
    proof (cases "min_by_key key ys")
      case None
      then have "ys = []" by (cases ys) (auto split: option.splits if_splits)
      with min show ?thesis by force
    next
      case (Some w)
      then obtain b a where w: "ys = b @ w # a" "\<forall>z\<in>set b. key w < key z" "\<forall>z\<in>set a. key w \<le> key z" using Cons.IH by blast
      show ?thesis
      proof (cases "key w < key y")
        case True
        with min Some have "x = w" by simp
        with w True show ?thesis by (intro exI [of _ "y # b"] exI [of _ a]) simp
      next
        case False
        with min Some have "x = y" by simp
        with w False show ?thesis by (intro exI [of _ "[]"] exI [of _ ys]) fastforce
      qed
    qed
  next
    assume "\<exists>before after. y # ys = before @ x # after \<and> (\<forall>z\<in>set before. key x < key z) \<and> (\<forall>z\<in>set after. key x \<le> key z)"
    then obtain b a where ba: "y # ys = b @ x # a" "\<forall>z\<in>set b. key x < key z" "\<forall>z\<in>set a. key x \<le> key z" by blast
    show "min_by_key key (y # ys) = Some x"
    proof (cases b)
      case Nil
      with ba have x: "x = y" "a = ys" by simp_all
      have "key y \<le> key w" if "min_by_key key ys = Some w" for w
      proof -
        from that Cons.IH have "w \<in> set ys" by fastforce
        with ba x show ?thesis by simp
      qed
      with x show ?thesis by (force split: option.splits)
    next
      case (Cons z b')
      with ba have "min_by_key key ys = Some x" "key x < key y" using Cons.IH by auto
      then show ?thesis by simp
    qed
  qed
qed simp

lemma resolve_iff:
  "resolve cs = Some r \<longleftrightarrow>
     (\<exists>before c after. cs = before @ c # after \<and>
        (\<forall>d\<in>set before. source_precedence (cc_source c) < source_precedence (cc_source d)) \<and>
        (\<forall>d\<in>set after. source_precedence (cc_source c) \<le> source_precedence (cc_source d)) \<and>
        r = \<lparr>rc_source = cc_source c,
             rc_persistence = (if cc_source c = Environment then Ephemeral else Persistable), rc_secret = cc_secret c\<rparr>)"
  unfolding resolve_def map_option_eq_Some min_by_key_first by blast

lemma resolve_None_iff: "resolve cs = None \<longleftrightarrow> cs = []"
  by (cases cs) (auto simp: resolve_def split: option.splits)

lemma source_precedence_inject: "source_precedence a = source_precedence b \<longleftrightarrow> a = b"
  by (cases a; cases b) simp_all

lemma resolve_order_independent:
  assumes "mset cs = mset cs'" "distinct (map cc_source cs)"
  shows "resolve cs = resolve cs'"
proof (cases "resolve cs")
  case None
  with assms(1) show ?thesis by (simp add: resolve_None_iff)
next
  case (Some r)
  then obtain b c a where c: "cs = b @ c # a"
    "\<forall>d\<in>set b. source_precedence (cc_source c) < source_precedence (cc_source d)"
    "\<forall>d\<in>set a. source_precedence (cc_source c) \<le> source_precedence (cc_source d)" and
    r: "r = \<lparr>rc_source = cc_source c, rc_persistence = (if cc_source c = Environment then Ephemeral else Persistable), rc_secret = cc_secret c\<rparr>"
    by (auto simp: resolve_iff)
  have least: "source_precedence (cc_source c) < source_precedence (cc_source d)" if "d \<in> set b \<union> set a" for d
  proof -
    have "cc_source d \<noteq> cc_source c" using that assms(2) c(1) by (auto simp: image_iff)
    moreover have "source_precedence (cc_source c) \<le> source_precedence (cc_source d)"
      using that c(2,3) by (auto intro: less_imp_le)
    ultimately show ?thesis
      using source_precedence_inject [of "cc_source d" "cc_source c"] by (metis le_neq_implies_less)
  qed
  have "set cs' = set cs" using assms(1) by (metis mset_eq_setD)
  with c(1) have "c \<in> set cs'" by simp
  then obtain b' a' where cs': "cs' = b' @ c # a'" by (meson split_list)
  with assms(1) c(1) have "mset b' + mset a' = mset b + mset a" by simp
  then have "set b' \<union> set a' = set b \<union> set a" by (metis set_mset_mset set_mset_union)
  with least have "\<forall>d\<in>set b' \<union> set a'. source_precedence (cc_source c) < source_precedence (cc_source d)" by simp
  with cs' r have "resolve cs' = Some r" unfolding resolve_iff by (fastforce intro: less_imp_le)
  with Some show ?thesis by simp
qed



section \<open>One search answers a batch\<close>

definition item_for :: "('s, 'i) keyring \<Rightarrow> 's \<Rightarrow> secret_key \<Rightarrow> 'i \<Rightarrow> bool" where
  "item_for keyring s key item \<longleftrightarrow> (\<exists>attributes. kr_attributes keyring s item = Some attributes \<and> attributes_match attributes key)"

lemma attributes_match_unique: "attributes_match a k \<Longrightarrow> attributes_match a k' \<Longrightarrow> k = k'"
  by (simp add: attributes_match_def)

lemma item_for_unique: "item_for keyring s k i \<Longrightarrow> item_for keyring s k' i \<Longrightarrow> k = k'"
  by (auto simp: item_for_def dest: attributes_match_unique)

lemma find_match:
  assumes a: "kr_attributes keyring s item = Some a"
  shows "find (attributes_match a) keys = Some k \<Longrightarrow> k \<in> set keys \<and> item_for keyring s k item"
    and "find (attributes_match a) keys = None \<Longrightarrow> k \<in> set keys \<Longrightarrow> \<not> item_for keyring s k item"
proof -
  have eq: "item_for keyring s k item \<longleftrightarrow> attributes_match a k" for k using a by (simp add: item_for_def)
  show "find (attributes_match a) keys = None \<Longrightarrow> k \<in> set keys \<Longrightarrow> \<not> item_for keyring s k item"
    by (simp add: find_None_iff eq)
  show "find (attributes_match a) keys = Some k \<Longrightarrow> k \<in> set keys \<and> item_for keyring s k item"
    by (auto simp: find_Some_iff eq)
qed

text \<open>
  What a finished batch returns: the values found so far and, once for every requested key that
  some item carries, the secret of that item; no two items carry the same requested key.
\<close>

definition batch_of ::
    "('s, 'i) keyring \<Rightarrow> 's \<Rightarrow> secret_key list \<Rightarrow> 'i list \<Rightarrow> secret_key list \<Rightarrow> (secret_key \<times> nat list) list \<Rightarrow> bool" where
  "batch_of keyring s keys items seen ws \<longleftrightarrow>
     distinct (map fst ws) \<and> fst ` set ws \<inter> set seen = {} \<and>
     (\<forall>k v. (k, v) \<in> set ws \<longleftrightarrow> k \<in> set keys \<and> (\<exists>i\<in>set items. item_for keyring s k i \<and> kr_secret keyring s i = Some v)) \<and>
     (\<forall>(k, v)\<in>set ws. stored_secret_new v = Inr v) \<and>
     (\<forall>k\<in>set keys. length (filter (item_for keyring s k) items) \<le> 1) \<and>
     (\<forall>k\<in>set keys \<inter> set seen. \<forall>i\<in>set items. \<not> item_for keyring s k i) \<and>
     (\<forall>i\<in>set items. kr_unlock_item keyring s i)"

lemma batch_of_skip:
  assumes "batch_of keyring s keys items seen ws" "kr_unlock_item keyring s item"
    and "\<forall>k\<in>set keys. \<not> item_for keyring s k item"
  shows "batch_of keyring s keys (item # items) seen ws"
  using assms unfolding batch_of_def by auto

lemma batch_of_take:
  assumes rest: "batch_of keyring s keys items (key # seen) ws"
    and item: "kr_unlock_item keyring s item" "item_for keyring s key item" "kr_secret keyring s item = Some v"
    and key: "key \<in> set keys" "key \<notin> set seen" and v: "stored_secret_new v = Inr v"
  shows "batch_of keyring s keys (item # items) seen ((key, v) # ws)"
proof -
  have only: "item_for keyring s k item \<longleftrightarrow> k = key" for k using item(2) item_for_unique by metis
  have none: "\<forall>i\<in>set items. \<not> item_for keyring s key i" using rest key by (simp add: batch_of_def)
  then have empty: "filter (item_for keyring s key) items = []" by (simp add: filter_empty_conv)
  have "length (filter (item_for keyring s k) (item # items)) \<le> 1" if "k \<in> set keys" for k
    using rest that empty by (cases "k = key") (simp_all add: only batch_of_def)
  moreover have "(k, w) \<in> set ((key, v) # ws) \<longleftrightarrow>
      k \<in> set keys \<and> (\<exists>i\<in>set (item # items). item_for keyring s k i \<and> kr_secret keyring s i = Some w)" for k w
    using rest none item key by (cases "k = key") (auto simp: only batch_of_def)
  ultimately show ?thesis using rest item(1) key v only unfolding batch_of_def by auto
qed

lemma collect_many_done:
  "collect_many keyring s keys items seen vs = Inr out \<Longrightarrow> \<exists>ws. out = vs @ ws \<and> batch_of keyring s keys items seen ws"
proof (induction items arbitrary: seen vs)
  case (Cons item items)
  then obtain a where unlocked: "kr_unlock_item keyring s item" and a: "kr_attributes keyring s item = Some a"
    by (auto simp: and_then_Inr result_simps)
  show ?case
  proof (cases "find (attributes_match a) keys")
    case None
    then have none: "\<forall>k\<in>set keys. \<not> item_for keyring s k item" using find_match(2) [OF a] by blast
    from Cons.prems unlocked a None have "collect_many keyring s keys items seen vs = Inr out" by simp
    with Cons.IH batch_of_skip [OF _ unlocked none] show ?thesis by blast
  next
    case (Some key)
    note key = find_match(1) [OF a Some]
    have new: "key \<notin> set seen" using Cons.prems unlocked a Some by (simp split: if_splits)
    with Cons.prems unlocked a Some obtain v v' where v: "kr_secret keyring s item = Some v" and v': "stored_secret_new v = Inr v'"
        and "collect_many keyring s keys items (key # seen) (vs @ [(key, v')]) = Inr out"
      by (auto simp: and_then_Inr result_simps)
    moreover have "v' = v" using v' stored_secret_new_cases [of v] by auto
    ultimately have v: "kr_secret keyring s item = Some v" "stored_secret_new v = Inr v"
      and rest: "collect_many keyring s keys items (key # seen) (vs @ [(key, v)]) = Inr out" by simp_all
    from Cons.IH [OF rest] obtain ws where "out = vs @ (key, v) # ws" "batch_of keyring s keys items (key # seen) ws" by auto
    with batch_of_take [OF _ unlocked conjunct2 [OF key] v(1) conjunct1 [OF key] new v(2)] show ?thesis by blast
  qed
qed (simp add: batch_of_def)

text \<open>
  A batch that succeeds holds exactly the requested keys some item of the application carries,
  each once and with a valid secret, and then no requested key is on two items: duplicates, locked
  items and malformed secrets fail the whole batch.
\<close>

lemma get_many_exact:
  assumes "get_many keyring s keys = Inr out"
  shows "\<exists>items. kr_search keyring s [(lit ''application'', APPLICATION_ATTRIBUTE)] = Some items \<and>
    length keys \<le> MAX_BATCH_KEYS \<and> length items \<le> MAX_BATCH_ITEMS \<and> distinct keys \<and> batch_of keyring s keys items [] out"
  using assms collect_many_done [of keyring s keys _ "[]" "[]" out]
  by (auto simp: get_many_def and_then_Inr result_simps split: if_splits)

end
