(* ===== verification/Leveldb_Format.thy ===== *)
theory Leveldb_Format
  imports Utf8 "HOL-Library.Word"
begin

unbundle bit_operations_syntax

text \<open>
  The byte formats under the reader of Chromium's LevelDB files
  (\<open>crates/providers/src/chromium_leveldb.rs\<close>): little-endian integers, variable-length integers,
  the masked CRC-32C and the Snappy decompressor, each over the bounded \<open>SliceReader\<close>.

  The decompressor is compared with a reference that reads a stream as a list of elements and runs
  the copies one byte at a time.
\<close>

section \<open>Limits and errors\<close>

definition LEVELDB_LOG_BLOCK_BYTES :: nat where [limit_defs]: "LEVELDB_LOG_BLOCK_BYTES = 32 * 1024"
definition LEVELDB_LOG_HEADER_BYTES :: nat where [limit_defs]: "LEVELDB_LOG_HEADER_BYTES = 7"
definition LEVELDB_TABLE_FOOTER_BYTES :: nat where [limit_defs]: "LEVELDB_TABLE_FOOTER_BYTES = 48"
definition LEVELDB_TABLE_MAGIC :: nat where [limit_defs]: "LEVELDB_TABLE_MAGIC = 0xdb4775248b80fb57"
definition LEVELDB_BLOCK_TRAILER_BYTES :: nat where [limit_defs]: "LEVELDB_BLOCK_TRAILER_BYTES = 5"
definition LEVELDB_MAX_SEQUENCE :: nat where [limit_defs]: "LEVELDB_MAX_SEQUENCE = 2 ^ 56 - 1"
definition MAX_LOGICAL_RECORD_BYTES :: nat where [limit_defs]: "MAX_LOGICAL_RECORD_BYTES = 8 * 1024 * 1024"
definition MAX_TABLE_BLOCK_BYTES :: nat where [limit_defs]: "MAX_TABLE_BLOCK_BYTES = 8 * 1024 * 1024"
definition MAX_TABLE_BLOCKS :: nat where [limit_defs]: "MAX_TABLE_BLOCKS = 4 * 1024"
definition MAX_LEVELDB_ENTRIES :: nat where [limit_defs]: "MAX_LEVELDB_ENTRIES = 65536"
definition MAX_LEVELDB_FIELD_BYTES :: nat where [limit_defs]: "MAX_LEVELDB_FIELD_BYTES = 4 * 1024 * 1024"
definition MAX_RECONSTRUCTED_ENTRY_BYTES :: nat where [limit_defs]: "MAX_RECONSTRUCTED_ENTRY_BYTES = 64 * 1024 * 1024"

datatype leveldb_error =
  InvalidProfile | UnsupportedBrowser | InvalidRelativePath | MissingDirectory | UnsafeLayout | DbTooLarge |
  DbTooManyEntries | DbChanged | DbMalformed | InvalidOrigin | InvalidTokenPolicy

section \<open>Slices and the reader\<close>

definition slice_get :: "nat list \<Rightarrow> nat \<Rightarrow> nat \<Rightarrow> nat list option" where
  "slice_get bytes start stop = (if start \<le> stop \<and> stop \<le> length bytes then Some (take (stop - start) (drop start bytes)) else None)"

fun le_value :: "nat list \<Rightarrow> nat" where
  "le_value [] = 0"
| "le_value (b # bs) = b + 256 * le_value bs"

definition read_u16_le :: "nat list \<Rightarrow> nat \<Rightarrow> (nat, leveldb_error) result" where
  "read_u16_le bytes offset = map_ok le_value (ok_or DbMalformed (slice_get bytes offset (saturating_add usize_max offset 2)))"

definition read_u32_le :: "nat list \<Rightarrow> nat \<Rightarrow> (nat, leveldb_error) result" where
  "read_u32_le bytes offset = map_ok le_value (ok_or DbMalformed (slice_get bytes offset (saturating_add usize_max offset 4)))"

definition read_u64_le :: "nat list \<Rightarrow> nat \<Rightarrow> (nat, leveldb_error) result" where
  "read_u64_le bytes offset = map_ok le_value (ok_or DbMalformed (slice_get bytes offset (saturating_add usize_max offset 8)))"

record slice_reader =
  sr_bytes :: "nat list"
  sr_position :: nat

definition reader_new :: "nat list \<Rightarrow> slice_reader" where
  "reader_new bytes = \<lparr>sr_bytes = bytes, sr_position = 0\<rparr>"

definition reader_remaining :: "slice_reader \<Rightarrow> nat list" where
  "reader_remaining r = drop (sr_position r) (sr_bytes r)"

definition reader_is_empty :: "slice_reader \<Rightarrow> bool" where
  "reader_is_empty r \<longleftrightarrow> sr_position r = length (sr_bytes r)"

definition read_u8 :: "slice_reader \<Rightarrow> (nat \<times> slice_reader) option" where
  "read_u8 r =
     (if sr_position r < length (sr_bytes r)
      then Some (sr_bytes r ! sr_position r, r\<lparr>sr_position := sr_position r + 1\<rparr>) else None)"

definition read_exact :: "slice_reader \<Rightarrow> nat \<Rightarrow> (nat list \<times> slice_reader) option" where
  "read_exact r n =
     (case checked_add usize_max (sr_position r) n of
       None \<Rightarrow> None
     | Some stop \<Rightarrow> map_option (\<lambda>value. (value, r\<lparr>sr_position := stop\<rparr>)) (slice_get (sr_bytes r) (sr_position r) stop))"

definition reader_u16_le :: "slice_reader \<Rightarrow> (nat \<times> slice_reader, leveldb_error) result" where
  "reader_u16_le r = map_ok (\<lambda>(value, r). (le_value value, r)) (ok_or DbMalformed (read_exact r 2))"

definition reader_u32_le :: "slice_reader \<Rightarrow> (nat \<times> slice_reader, leveldb_error) result" where
  "reader_u32_le r = map_ok (\<lambda>(value, r). (le_value value, r)) (ok_or DbMalformed (read_exact r 4))"

text \<open>\<open>read_varint\<close>: the loop over the index, with \<open>n\<close> iterations left.\<close>

fun varint_loop :: "nat \<Rightarrow> nat \<Rightarrow> nat \<Rightarrow> slice_reader \<Rightarrow> (nat \<times> slice_reader) option" where
  "varint_loop 0 index value r = None"
| "varint_loop (Suc n) index value r =
     (case read_u8 r of
       None \<Rightarrow> None
     | Some (byte, r) \<Rightarrow>
         let payload = byte mod 128; shift = index * 7 in
         if shift \<ge> 64 \<or> payload * 2 ^ shift mod 2 ^ 64 div 2 ^ shift \<noteq> payload then None
         else
           let value = value OR (payload * 2 ^ shift mod 2 ^ 64) in
           if byte < 128 then if index > 0 \<and> payload = 0 then None else Some (value, r)
           else varint_loop n (index + 1) value r)"

definition read_varint :: "slice_reader \<Rightarrow> nat \<Rightarrow> (nat \<times> slice_reader) option" where
  "read_varint r maximum_bytes = varint_loop maximum_bytes 0 0 r"

definition read_varint32 :: "slice_reader \<Rightarrow> (nat \<times> slice_reader) option" where
  "read_varint32 r = (case read_varint r 5 of Some (value, r) \<Rightarrow> if value < 2 ^ 32 then Some (value, r) else None | None \<Rightarrow> None)"

definition read_varint64 :: "slice_reader \<Rightarrow> (nat \<times> slice_reader) option" where
  "read_varint64 r = read_varint r 10"

definition read_length_prefixed :: "slice_reader \<Rightarrow> nat \<Rightarrow> (nat list \<times> slice_reader, leveldb_error) result" where
  "read_length_prefixed r maximum =
     and_then (ok_or DbMalformed (read_varint32 r)) (\<lambda>(n, r).
     if n > maximum then Inl DbTooLarge else ok_or DbMalformed (read_exact r n))"

type_synonym block_handle = "nat \<times> nat"

definition read_block_handle :: "slice_reader \<Rightarrow> (block_handle \<times> slice_reader, leveldb_error) result" where
  "read_block_handle r =
     and_then (ok_or DbMalformed (read_varint64 r)) (\<lambda>(offset, r).
     and_then (ok_or DbMalformed (read_varint64 r)) (\<lambda>(size, r).
     Inr ((offset, size), r)))"

definition decode_block_handle :: "nat list \<Rightarrow> (block_handle, leveldb_error) result" where
  "decode_block_handle bytes =
     and_then (read_block_handle (reader_new bytes)) (\<lambda>(handle, r).
     if \<not> reader_is_empty r then Inl DbMalformed else Inr handle)"

section \<open>Checksums\<close>

definition crc32c_bit :: "32 word \<Rightarrow> 32 word" where
  "crc32c_bit crc = (if crc AND 1 = 0 then drop_bit 1 crc else drop_bit 1 crc XOR 0x82f63b78)"

definition crc32c_extend :: "32 word \<Rightarrow> nat list \<Rightarrow> 32 word" where
  "crc32c_extend crc bytes = foldl (\<lambda>crc byte. (crc32c_bit ^^ 8) (crc XOR of_nat byte)) crc bytes"

definition mask_crc32c :: "32 word \<Rightarrow> 32 word" where
  "mask_crc32c crc = word_rotr 15 crc + 0xa282ead8"

definition masked_crc32c_parts :: "nat \<Rightarrow> nat list \<Rightarrow> 32 word" where
  "masked_crc32c_parts record_type payload = mask_crc32c (NOT (crc32c_extend (crc32c_extend (NOT 0) [record_type]) payload))"

definition masked_crc32c_block :: "nat list \<Rightarrow> nat \<Rightarrow> 32 word" where
  "masked_crc32c_block block compression = mask_crc32c (NOT (crc32c_extend (crc32c_extend (NOT 0) block) [compression]))"

section \<open>Snappy\<close>

definition append_bounded :: "nat list \<Rightarrow> nat list \<Rightarrow> nat \<Rightarrow> (nat list, leveldb_error) result" where
  "append_bounded destination source maximum =
     (case checked_add usize_max (length destination) (length source) of
       None \<Rightarrow> Inl DbTooLarge
     | Some new_length \<Rightarrow> if new_length \<le> maximum then Inr (destination @ source) else Inl DbTooLarge)"

definition snappy_literal_length :: "nat \<Rightarrow> slice_reader \<Rightarrow> (nat \<times> slice_reader, leveldb_error) result" where
  "snappy_literal_length tag r =
     (let encoded = tag div 4 in
      if encoded < 60 then Inr (encoded + 1, r)
      else
        and_then (ok_or DbMalformed (read_exact r (encoded - 59))) (\<lambda>(raw, r).
        let length_minus_one = foldl (\<lambda>acc (index, byte). acc OR byte * 2 ^ (index * 8)) 0 (enumerate 0 raw) in
        case checked_add usize_max length_minus_one 1 of
          None \<Rightarrow> Inl DbTooLarge
        | Some n \<Rightarrow> if n \<le> MAX_TABLE_BLOCK_BYTES then Inr (n, r) else Inl DbTooLarge))"

definition snappy_copy :: "nat list \<Rightarrow> nat \<Rightarrow> nat \<Rightarrow> nat \<Rightarrow> (nat list, leveldb_error) result" where
  "snappy_copy output offset n expected_length =
     (if offset = 0 \<or> offset > length output \<or>
         (case checked_add usize_max (length output) n of None \<Rightarrow> True | Some value \<Rightarrow> value > expected_length)
      then Inl DbMalformed
      else
        let start = length output - offset in
        Inr (foldl (\<lambda>output index. output @ [output ! (start + index mod offset)]) output [0..<n]))"

definition snappy_step :: "nat \<Rightarrow> nat \<Rightarrow> slice_reader \<Rightarrow> nat list \<Rightarrow> (nat list \<times> slice_reader, leveldb_error) result" where
  "snappy_step expected_length tag r output =
     (if tag mod 4 = 0 then
        and_then (snappy_literal_length tag r) (\<lambda>(n, r).
        and_then (ok_or DbMalformed (read_exact r n)) (\<lambda>(literal, r).
        map_ok (\<lambda>output. (output, r)) (append_bounded output literal expected_length)))
      else if tag mod 4 = 1 then
        and_then (ok_or DbMalformed (read_u8 r)) (\<lambda>(low, r).
        map_ok (\<lambda>output. (output, r))
          (snappy_copy output ((tag div 32) * 256 OR low) (tag div 4 mod 8 + 4) expected_length))
      else if tag mod 4 = 2 then
        and_then (reader_u16_le r) (\<lambda>(offset, r).
        map_ok (\<lambda>output. (output, r)) (snappy_copy output offset (tag div 4 + 1) expected_length))
      else
        and_then (reader_u32_le r) (\<lambda>(offset, r).
        map_ok (\<lambda>output. (output, r)) (snappy_copy output offset (tag div 4 + 1) expected_length)))"

text \<open>No read moves the reader back, so the loop over the elements ends.\<close>

definition advances :: "slice_reader \<Rightarrow> slice_reader \<Rightarrow> bool" where
  "advances r r' \<longleftrightarrow> sr_bytes r' = sr_bytes r \<and> sr_position r \<le> sr_position r'"

lemma advances_refl: "advances r r"
  by (simp add: advances_def)

lemma advances_trans: "advances r r' \<Longrightarrow> advances r' r'' \<Longrightarrow> advances r r''"
  by (simp add: advances_def)

lemma read_exact_advances: "read_exact r n = Some (v, r') \<Longrightarrow> advances r r'"
  by (auto simp: read_exact_def slice_get_def advances_def split: option.splits if_splits)

lemma read_u8_advances: "read_u8 r = Some (b, r') \<Longrightarrow> advances r r'"
  by (auto simp: read_u8_def advances_def split: if_splits)

lemma literal_length_advances: "snappy_literal_length tag r = Inr (n, r') \<Longrightarrow> advances r r'"
  by (auto simp: snappy_literal_length_def Let_def result_simps advances_refl dest: read_exact_advances
      split: if_splits option.splits)

lemma snappy_step_advances: "snappy_step m tag r out = Inr (out', r') \<Longrightarrow> advances r r'"
  by (auto simp: snappy_step_def reader_u16_le_def reader_u32_le_def result_simps split: if_splits
      dest: read_exact_advances read_u8_advances literal_length_advances intro: advances_trans)

function snappy_loop :: "nat \<Rightarrow> slice_reader \<Rightarrow> nat list \<Rightarrow> (nat list, leveldb_error) result" where
  "snappy_loop expected_length r output =
     (if reader_is_empty r then Inr output
      else
        (case read_u8 r of
          None \<Rightarrow> Inl DbMalformed
        | Some (tag, r') \<Rightarrow>
            (case snappy_step expected_length tag r' output of
              Inl e \<Rightarrow> Inl e
            | Inr (output', r'') \<Rightarrow> snappy_loop expected_length r'' output')))"
  by pat_completeness auto
termination
proof (relation "measure (\<lambda>(_, r, _). length (sr_bytes r) - sr_position r)")
  fix expected_length :: nat and r r' r'' :: slice_reader and out out' :: "nat list" and x y tag
  assume "read_u8 r = Some x" "(tag, r') = x" "snappy_step expected_length tag r' out = Inr y" "(out', r'') = y"
  then have "sr_position r < length (sr_bytes r)" "sr_position r' = sr_position r + 1" "sr_bytes r' = sr_bytes r" "advances r' r''"
    by (auto simp: read_u8_def dest: snappy_step_advances split: if_splits)
  then show "((expected_length, r'', out'), expected_length, r, out) \<in> measure (\<lambda>(_, r, _). length (sr_bytes r) - sr_position r)"
    by (auto simp: advances_def)
qed simp

declare snappy_loop.simps [simp del]

definition snappy_decompress :: "nat list \<Rightarrow> (nat list, leveldb_error) result" where
  "snappy_decompress bytes =
     and_then (ok_or DbMalformed (read_varint32 (reader_new bytes))) (\<lambda>(expected_length, r).
     if expected_length > MAX_TABLE_BLOCK_BYTES then Inl DbTooLarge
     else
       and_then (snappy_loop expected_length r []) (\<lambda>output.
       if length output \<noteq> expected_length then Inl DbMalformed else Inr output))"

section \<open>What the reader has left\<close>

definition bytes_ok :: "nat list \<Rightarrow> bool" where
  "bytes_ok bs \<longleftrightarrow> (\<forall>b\<in>set bs. b < 256)"

lemma bytes_ok_simps [simp]:
  "bytes_ok []" "bytes_ok (b # bs) \<longleftrightarrow> b < 256 \<and> bytes_ok bs" "bytes_ok (bs @ cs) \<longleftrightarrow> bytes_ok bs \<and> bytes_ok cs"
  by (auto simp: bytes_ok_def)

lemma bytes_ok_drop: "bytes_ok bs \<Longrightarrow> bytes_ok (drop n bs)"
  by (auto simp: bytes_ok_def dest: in_set_dropD)

definition skip :: "slice_reader \<Rightarrow> nat \<Rightarrow> slice_reader" where
  "skip r n = r\<lparr>sr_position := sr_position r + n\<rparr>"

definition has_left :: "slice_reader \<Rightarrow> nat list \<Rightarrow> bool" where
  "has_left r bs \<longleftrightarrow> sr_position r \<le> length (sr_bytes r) \<and> length (sr_bytes r) \<le> usize_max \<and> drop (sr_position r) (sr_bytes r) = bs"

lemma has_left_new: "length bs \<le> usize_max \<Longrightarrow> has_left (reader_new bs) bs"
  by (simp add: has_left_def reader_new_def)

lemma has_left_skip: "has_left r bs \<Longrightarrow> n \<le> length bs \<Longrightarrow> has_left (skip r n) (drop n bs)"
  by (auto simp: has_left_def skip_def drop_drop add.commute)

lemma skip_0 [simp]: "skip r 0 = r"
  by (simp add: skip_def)

lemma skip_skip [simp]: "skip (skip r m) n = skip r (m + n)"
  by (simp add: skip_def)

lemma reader_empty_iff: "has_left r bs \<Longrightarrow> reader_is_empty r \<longleftrightarrow> bs = []"
  by (auto simp: has_left_def reader_is_empty_def)

lemma read_u8_Nil: "has_left r [] \<Longrightarrow> read_u8 r = None"
  by (auto simp: has_left_def read_u8_def)

lemma read_u8_Cons:
  assumes "has_left r (b # bs)"
  shows "read_u8 r = Some (b, skip r 1)" "has_left (skip r 1) bs"
proof -
  from assms have less: "sr_position r < length (sr_bytes r)" unfolding has_left_def by (metis drop_all leI list.distinct(1))
  moreover from assms have "sr_bytes r ! sr_position r = b"
    unfolding has_left_def by (metis hd_drop_conv_nth less list.sel(1))
  ultimately show "read_u8 r = Some (b, skip r 1)" by (simp add: read_u8_def skip_def)
  show "has_left (skip r 1) bs" using has_left_skip [OF assms, of 1] by simp
qed

lemma read_exact_left:
  assumes "has_left r bs"
  shows "read_exact r n = (if n \<le> length bs then Some (take n bs, skip r n) else None)"
  using assms by (auto simp: has_left_def read_exact_def slice_get_def skip_def checked_add_def)

section \<open>Variable-length integers\<close>

fun varint_bytes :: "nat \<Rightarrow> nat list" where
  "varint_bytes n = (if n < 128 then [n] else (n mod 128 + 128) # varint_bytes (n div 128))"

declare varint_bytes.simps [simp del]

lemma varint_bytes_small: "n < 128 \<Longrightarrow> varint_bytes n = [n]"
  by (simp add: varint_bytes.simps [of n])

lemma varint_bytes_large: "128 \<le> n \<Longrightarrow> varint_bytes n = (n mod 128 + 128) # varint_bytes (n div 128)"
  by (simp add: varint_bytes.simps [of n])

lemma varint_bytes_Cons:
  "varint_bytes n @ bs' = b # bs \<longleftrightarrow>
     (if b < 128 then n = b \<and> bs' = bs else 128 \<le> n \<and> b = n mod 128 + 128 \<and> varint_bytes (n div 128) @ bs' = bs)"
  by (cases "n < 128") (auto simp: varint_bytes_small varint_bytes_large)

lemma length_varint_bytes: "n < 128 ^ Suc k \<Longrightarrow> length (varint_bytes n) \<le> Suc k"
proof (induction k arbitrary: n)
  case (Suc k)
  then have "n div 128 < 128 ^ Suc k" by (simp add: div_less_iff_less_mult)
  from Suc.IH [OF this] show ?case by (cases "n < 128") (simp_all add: varint_bytes_small varint_bytes_large)
qed (simp add: varint_bytes_small)

lemma or_shifted: "value < 2 ^ s \<Longrightarrow> value OR (p * 2 ^ s) = value + p * 2 ^ s" for "value" :: nat
proof -
  assume "value < 2 ^ s"
  then have v: "take_bit s value = value" by (simp add: take_bit_nat_eq_self)
  have "\<not> bit value n \<or> \<not> bit (p * 2 ^ s) n" for n
    using v by (metis bit_push_bit_iff bit_take_bit_iff leD push_bit_eq_mult)
  then have "value AND (p * 2 ^ s) = 0" by (intro bit_eqI) (auto simp: bit_and_iff)
  then show ?thesis by (simp add: disjunctive_add_eq_or)
qed

lemma shift_fits:
  assumes "s < 64"
  shows "p * 2 ^ s mod 2 ^ 64 div 2 ^ s = p \<longleftrightarrow> p * 2 ^ s < (2 :: nat) ^ 64"
proof
  assume eq: "p * 2 ^ s mod 2 ^ 64 div 2 ^ s = p"
  have "p * 2 ^ s mod 2 ^ 64 < (2 :: nat) ^ 64" by simp
  then have "p < 2 ^ (64 - s)"
    using eq assms by (metis less_imp_le div_less_iff_less_mult le_add_diff_inverse2 power_add zero_less_numeral zero_less_power)
  then have "p * 2 ^ s < 2 ^ (64 - s) * 2 ^ s" by simp
  then show "p * 2 ^ s < 2 ^ 64" using assms by (simp flip: power_add)
qed simp

lemma varint_loop_iff:
  assumes "has_left r bs" "bytes_ok bs" "value < 2 ^ (7 * index)" "index + k \<le> 10"
  shows "varint_loop k index value r = Some (v, r') \<longleftrightarrow>
    (\<exists>n bs'. bs = varint_bytes n @ bs' \<and> length (varint_bytes n) \<le> k \<and> (index > 0 \<longrightarrow> n > 0) \<and>
       v = value + n * 2 ^ (7 * index) \<and> v < 2 ^ 64 \<and> r' = skip r (length (varint_bytes n)))"
  using assms
proof (induction k arbitrary: index "value" r bs)
  case 0
  have "varint_bytes n \<noteq> []" for n by (simp add: varint_bytes.simps [of n])
  then show ?case by simp
next
  case (Suc k)
  show ?case
  proof (cases bs)
    case Nil
    have "varint_bytes n \<noteq> []" for n by (simp add: varint_bytes.simps [of n])
    with Nil Suc.prems(1) show ?thesis by (simp add: read_u8_Nil)
  next
    case (Cons b cs)
    note u8 = read_u8_Cons [OF Suc.prems(1) [unfolded Cons]]
    define p where "p = b mod 128"
    have s64: "7 * index < 64" using Suc.prems(4) by simp
    have fits: "(p * 2 ^ (index * 7) mod 2 ^ 64 div 2 ^ (index * 7) = p) \<longleftrightarrow> p * 2 ^ (7 * index) < 2 ^ 64"
      using shift_fits [OF s64, of p] by (simp add: mult.commute)
    have or_eq: "value OR (p * 2 ^ (index * 7) mod 2 ^ 64) = value + p * 2 ^ (7 * index)" if "p * 2 ^ (7 * index) < 2 ^ 64"
      using that or_shifted [OF Suc.prems(3), of p] by (simp add: mult.commute)
    have sum_fits: "p * 2 ^ (7 * index) < 2 ^ 64 \<longleftrightarrow> value + p * 2 ^ (7 * index) < 2 ^ 64"
    proof
      assume "p * 2 ^ (7 * index) < 2 ^ 64"
      then have "p < 2 ^ (64 - 7 * index)" using s64
        by (metis div_less_iff_less_mult less_imp_le le_add_diff_inverse2 nonzero_mult_div_cancel_right power_add power_not_zero zero_less_numeral zero_less_power zero_neq_numeral)
      then have "Suc p * 2 ^ (7 * index) \<le> 2 ^ (64 - 7 * index) * 2 ^ (7 * index)" by (intro mult_le_mono1) simp
      also have "\<dots> = 2 ^ 64" using s64 by (simp flip: power_add)
      finally show "value + p * 2 ^ (7 * index) < 2 ^ 64" using Suc.prems(3) by simp
    qed simp
    have step: "varint_loop (Suc k) index value r =
        (if \<not> p * 2 ^ (7 * index) < 2 ^ 64 then None
         else if b < 128 then if index > 0 \<and> p = 0 then None else Some (value + p * 2 ^ (7 * index), skip r 1)
         else varint_loop k (index + 1) (value + p * 2 ^ (7 * index)) (skip r 1))"
      using s64 fits or_eq by (simp add: u8(1) Let_def p_def [symmetric])
    show ?thesis
    proof (cases "b < 128")
      case True
      then have p: "p = b" by (simp add: p_def)
      have one: "bs = varint_bytes n @ bs' \<longleftrightarrow> n = b \<and> bs' = cs" for n bs'
        unfolding Cons eq_commute [of "b # cs"] varint_bytes_Cons using True by simp
      have "(\<exists>n bs'. bs = varint_bytes n @ bs' \<and> length (varint_bytes n) \<le> Suc k \<and> (index > 0 \<longrightarrow> n > 0) \<and>
          v = value + n * 2 ^ (7 * index) \<and> v < 2 ^ 64 \<and> r' = skip r (length (varint_bytes n))) \<longleftrightarrow>
        (index > 0 \<longrightarrow> b > 0) \<and> v = value + b * 2 ^ (7 * index) \<and> v < 2 ^ 64 \<and> r' = skip r 1"
        unfolding one using varint_bytes_small [OF True] by (simp add: conj_commute)
      moreover have "varint_loop (Suc k) index value r = Some (v, r') \<longleftrightarrow>
        (index > 0 \<longrightarrow> b > 0) \<and> v = value + b * 2 ^ (7 * index) \<and> v < 2 ^ 64 \<and> r' = skip r 1"
        unfolding step p sum_fits [unfolded p] using True by (simp split: if_split) blast
      ultimately show ?thesis by (simp only:)
    next
      case False
      have "b < 256" using Suc.prems(2) by (simp add: Cons)
      with False have "p = b - 128" unfolding p_def by (simp add: le_mod_geq)
      with False \<open>b < 256\<close> have b: "b = p + 128" "p < 128" by simp_all
      have bound: "value + p * 2 ^ (7 * index) < 2 ^ (7 * (index + 1))"
      proof -
        have "Suc p * 2 ^ (7 * index) \<le> 128 * 2 ^ (7 * index)" using b(2) by (intro mult_le_mono1) simp
        then have "value + p * 2 ^ (7 * index) < 128 * 2 ^ (7 * index)"
          unfolding mult_Suc using Suc.prems(3) by linarith
        then show ?thesis by (simp add: power_add)
      qed
      have tail: "bytes_ok cs" "index + 1 + k \<le> 10" using Suc.prems(2,4) by (simp_all add: Cons)
      note IH = Suc.IH [OF u8(2) tail(1) bound tail(2)]
      show ?thesis
      proof
        assume "varint_loop (Suc k) index value r = Some (v, r')"
        then have "varint_loop k (index + 1) (value + p * 2 ^ (7 * index)) (skip r 1) = Some (v, r')"
          unfolding step using False by (simp del: varint_loop.simps split: if_splits)
        then obtain n bs' where n: "cs = varint_bytes n @ bs'" "length (varint_bytes n) \<le> k" "n > 0"
          "v = value + p * 2 ^ (7 * index) + n * 2 ^ (7 * (index + 1))" "v < 2 ^ 64" "r' = skip (skip r 1) (length (varint_bytes n))"
          unfolding IH by auto
        have "varint_bytes (p + 128 * n) = b # varint_bytes n" using n(3) b by (simp add: varint_bytes_large)
        then show "\<exists>n bs'. bs = varint_bytes n @ bs' \<and> length (varint_bytes n) \<le> Suc k \<and> (index > 0 \<longrightarrow> n > 0) \<and>
           v = value + n * 2 ^ (7 * index) \<and> v < 2 ^ 64 \<and> r' = skip r (length (varint_bytes n))"
          using n by (intro exI [of _ "p + 128 * n"] exI [of _ bs']) (simp add: Cons algebra_simps power_add)
      next
        assume "\<exists>n bs'. bs = varint_bytes n @ bs' \<and> length (varint_bytes n) \<le> Suc k \<and> (index > 0 \<longrightarrow> n > 0) \<and>
           v = value + n * 2 ^ (7 * index) \<and> v < 2 ^ 64 \<and> r' = skip r (length (varint_bytes n))"
        then obtain n bs' where n: "varint_bytes n @ bs' = b # cs" "length (varint_bytes n) \<le> Suc k"
           "v = value + n * 2 ^ (7 * index)" "v < 2 ^ 64" "r' = skip r (length (varint_bytes n))" unfolding Cons by metis
        then have large: "128 \<le> n" "p = n mod 128" "varint_bytes (n div 128) @ bs' = cs" "n div 128 > 0"
          using False b(1) by (auto simp: varint_bytes_Cons)
        have split: "n * 2 ^ (7 * index) = p * 2 ^ (7 * index) + n div 128 * 2 ^ (7 * (index + 1))"
        proof -
          have "n * 2 ^ (7 * index) = (n div 128 * 128 + n mod 128) * 2 ^ (7 * index)" by simp
          also have "\<dots> = n mod 128 * 2 ^ (7 * index) + n div 128 * (128 * 2 ^ (7 * index))"
            unfolding distrib_right by (simp only: mult.assoc add.commute)
          finally show ?thesis by (simp add: large(2) power_add)
        qed
        have "varint_loop k (index + 1) (value + p * 2 ^ (7 * index)) (skip r 1) = Some (v, r')"
          unfolding IH using n large split
          by (intro exI [of _ "n div 128"] exI [of _ bs']) (simp add: varint_bytes_large)
        moreover have "p * 2 ^ (7 * index) < 2 ^ 64" using n(3,4) split by linarith
        ultimately show "varint_loop (Suc k) index value r = Some (v, r')" unfolding step using False by (simp del: varint_loop.simps)
      qed
    qed
  qed
qed

lemma read_varint_iff:
  assumes "has_left r bs" "bytes_ok bs" "k \<le> 10" "v < 2 ^ 64" "v < 128 ^ k" "k > 0"
  shows "read_varint r k = Some (v, r') \<longleftrightarrow> (\<exists>bs'. bs = varint_bytes v @ bs') \<and> r' = skip r (length (varint_bytes v))"
proof -
  have "length (varint_bytes v) \<le> k" using length_varint_bytes [of v "k - 1"] assms(5,6) by simp
  then show ?thesis
    unfolding read_varint_def using varint_loop_iff [OF assms(1,2), of 0 0 k v r'] assms(3,4) by auto
qed

lemma read_varint_bound: "has_left r bs \<Longrightarrow> bytes_ok bs \<Longrightarrow> k \<le> 10 \<Longrightarrow> read_varint r k = Some (v, r') \<Longrightarrow> v < 2 ^ 64"
  unfolding read_varint_def using varint_loop_iff [of r bs 0 0 k v r'] by auto

lemma read_varint32_iff:
  assumes "has_left r bs" "bytes_ok bs"
  shows "read_varint32 r = Some (v, r') \<longleftrightarrow>
    v < 2 ^ 32 \<and> (\<exists>bs'. bs = varint_bytes v @ bs') \<and> r' = skip r (length (varint_bytes v))"
proof -
  have "read_varint32 r = Some (v, r') \<longleftrightarrow> v < 2 ^ 32 \<and> read_varint r 5 = Some (v, r')"
    by (auto simp: read_varint32_def split: option.splits if_splits)
  moreover have "v < 2 ^ 32 \<Longrightarrow> v < 2 ^ 64 \<and> v < 128 ^ 5" by simp
  ultimately show ?thesis using read_varint_iff [OF assms, of 5 v r'] by auto
qed

lemma read_varint64_iff:
  assumes "has_left r bs" "bytes_ok bs"
  shows "read_varint64 r = Some (v, r') \<longleftrightarrow>
    v < 2 ^ 64 \<and> (\<exists>bs'. bs = varint_bytes v @ bs') \<and> r' = skip r (length (varint_bytes v))"
proof -
  have "v < 2 ^ 64 \<Longrightarrow> v < 128 ^ 10" by simp
  then show ?thesis unfolding read_varint64_def
    using read_varint_iff [OF assms, of 10 v r'] read_varint_bound [OF assms, of 10 v r'] by auto
qed

section \<open>Evaluating checksums\<close>

lemma crc32c_extend_simps:
  "crc32c_extend crc [] = crc"
  "crc32c_extend crc (b # bs) = crc32c_extend (crc32c_bit (crc32c_bit (crc32c_bit (crc32c_bit
     (crc32c_bit (crc32c_bit (crc32c_bit (crc32c_bit (crc XOR of_nat b))))))))) bs"
  by (simp_all add: crc32c_extend_def eval_nat_numeral)

text \<open>The check value of the polynomial.\<close>

lemma crc32c_check_value: "NOT (crc32c_extend (NOT 0) (lit ''123456789'')) = (0xe3069283 :: 32 word)"
  by (simp add: lit_def crc32c_extend_simps crc32c_bit_def)

section \<open>Snappy against its format\<close>

text \<open>
  The reference: a stream is the length of the output followed by elements, each a literal or a
  copy of bytes already produced, and a copy runs one byte at a time, so it may read what it wrote.
\<close>

datatype snappy_element = SnappyLiteral "nat list" | SnappyCopy nat nat

fun lz_copy :: "nat \<Rightarrow> nat \<Rightarrow> nat list \<Rightarrow> nat list" where
  "lz_copy offset 0 out = out"
| "lz_copy offset (Suc n) out = lz_copy offset n (out @ [out ! (length out - offset)])"

fun lz_element :: "nat list \<Rightarrow> snappy_element \<Rightarrow> nat list option" where
  "lz_element out (SnappyLiteral bs) = Some (out @ bs)"
| "lz_element out (SnappyCopy offset n) = (if 0 < offset \<and> offset \<le> length out then Some (lz_copy offset n out) else None)"

fun lz_expand :: "nat list \<Rightarrow> snappy_element list \<Rightarrow> nat list option" where
  "lz_expand out [] = Some out"
| "lz_expand out (e # es) = (case lz_element out e of None \<Rightarrow> None | Some out' \<Rightarrow> lz_expand out' es)"

fun snappy_encodes :: "snappy_element \<Rightarrow> nat list \<Rightarrow> bool" where
  "snappy_encodes (SnappyLiteral bs) code \<longleftrightarrow>
     (0 < length bs \<and> length bs \<le> 60 \<and> code = 4 * (length bs - 1) # bs) \<or>
     (\<exists>size. 0 < length size \<and> length size \<le> 4 \<and> length bs = le_value size + 1 \<and> code = 4 * (59 + length size) # size @ bs)"
| "snappy_encodes (SnappyCopy offset n) code \<longleftrightarrow>
     (4 \<le> n \<and> n \<le> 11 \<and> offset < 2 ^ 11 \<and> code = [1 + 4 * (n - 4) + 32 * (offset div 256), offset mod 256]) \<or>
     (1 \<le> n \<and> n \<le> 64 \<and> (\<exists>a b. offset = le_value [a, b] \<and> code = [2 + 4 * (n - 1), a, b])) \<or>
     (1 \<le> n \<and> n \<le> 64 \<and> (\<exists>a b c d. offset = le_value [a, b, c, d] \<and> code = [3 + 4 * (n - 1), a, b, c, d]))"

lemma length_lz_copy [simp]: "length (lz_copy offset n out) = length out + n"
  by (induction n arbitrary: out) simp_all

lemma lz_copy_from:
  assumes "0 < offset" "offset \<le> length out"
  shows "lz_copy offset n (out @ map (\<lambda>i. out ! (length out - offset + i mod offset)) [0..<k]) =
    out @ map (\<lambda>i. out ! (length out - offset + i mod offset)) [0..<k + n]"
proof (induction n arbitrary: k)
  case (Suc n)
  let ?g = "\<lambda>i. out ! (length out - offset + i mod offset)"
  let ?out = "out @ map ?g [0..<k]"
  have "?out ! (length ?out - offset) = ?g k"
  proof (cases "k < offset")
    case True
    then have "length out + k - offset < length out" "length out + k - offset = length out - offset + k" using assms by auto
    with True show ?thesis by (simp add: nth_append)
  next
    case False
    then have "length ?out - offset = length out + (k - offset)" by simp
    then have "?out ! (length ?out - offset) = ?g (k - offset)" using False assms by (simp add: nth_append)
    also have "\<dots> = ?g k" using False by (simp add: le_mod_geq)
    finally show ?thesis .
  qed
  then have "lz_copy offset (Suc n) ?out = lz_copy offset n (out @ map ?g [0..<Suc k])" by simp
  also have "\<dots> = out @ map ?g [0..<Suc k + n]" by (rule Suc.IH)
  finally show ?case by simp
qed simp

lemma snappy_copy_loop:
  assumes "0 < offset" "offset \<le> length out"
  shows "foldl (\<lambda>out' index. out' @ [out' ! (length out - offset + index mod offset)]) out [0..<n] =
    out @ map (\<lambda>i. out ! (length out - offset + i mod offset)) [0..<n]"
proof (induction n)
  case (Suc n)
  have "length out - offset + n mod offset < length out" using assms mod_less_divisor [of offset n] by linarith
  with Suc show ?case by (simp add: nth_append)
qed simp

lemma snappy_copy_eq:
  assumes "length out + n \<le> m" "m \<le> usize_max"
  shows "snappy_copy out offset n m = ok_or DbMalformed (lz_element out (SnappyCopy offset n))"
  using assms lz_copy_from [of offset out n 0] snappy_copy_loop [of offset out n]
  by (auto simp: snappy_copy_def checked_add_def)

lemma snappy_copy_Inr:
  "snappy_copy out offset n m = Inr out' \<Longrightarrow> length out + n \<le> m \<and> lz_element out (SnappyCopy offset n) = Some out'"
  using lz_copy_from [of offset out n 0] snappy_copy_loop [of offset out n]
  by (auto simp: snappy_copy_def checked_add_def Let_def split: if_splits)

lemma append_bounded_Inr:
  "append_bounded out bs m = Inr out' \<longleftrightarrow> out' = out @ bs \<and> length out + length bs \<le> min m usize_max"
  by (auto simp: append_bounded_def checked_add_def)

lemma le_value_bound: "bytes_ok bs \<Longrightarrow> le_value bs < 256 ^ length bs"
proof (induction bs)
  case (Cons b bs)
  then have "le_value bs + 1 \<le> 256 ^ length bs" "b \<le> 255" by simp_all
  then have "256 * (le_value bs + 1) \<le> 256 * 256 ^ length bs" "b < 256" by (simp_all only: mult_le_mono2)
  then show ?case by simp
qed simp

lemma le_value_snoc: "le_value (bs @ [b]) = le_value bs + b * 256 ^ length bs"
  by (induction bs) (simp_all add: algebra_simps)

lemma or_bytes_value:
  "bytes_ok raw \<Longrightarrow> foldl (\<lambda>acc (index, byte). acc OR byte * 2 ^ (index * 8)) 0 (enumerate 0 raw) = le_value raw"
proof (induction raw rule: rev_induct)
  case (snoc b raw)
  then have "le_value raw < 256 ^ length raw" by (intro le_value_bound) simp
  moreover have "(256 :: nat) ^ n = 2 ^ (n * 8)" for n using power_mult [of "2 :: nat" 8 n] by (simp add: mult.commute)
  ultimately show ?case using snoc or_shifted [of "le_value raw" "length raw * 8" b]
    by (simp only: enumerate_append_eq le_value_snoc bytes_ok_simps foldl_append foldl.simps enumerate_simps prod.case add_0)
qed simp

lemma literal_length_sound:
  assumes left: "has_left r bs" and ok: "bytes_ok (tag # bs)" and tag: "tag mod 4 = 0"
    and len: "snappy_literal_length tag r = Inr (n, r')"
  shows "\<exists>k. r' = skip r k \<and> k \<le> length bs \<and>
    (\<forall>literal. length literal = n \<longrightarrow> snappy_encodes (SnappyLiteral literal) (tag # take k bs @ literal))"
proof (cases "tag div 4 < 60")
  case True
  with len have "n = tag div 4 + 1" "r' = r" by (simp_all add: snappy_literal_length_def)
  moreover have "tag = 4 * (tag div 4)" using tag by auto
  ultimately show ?thesis using True by (intro exI [of _ 0]) auto
next
  case False
  let ?k = "tag div 4 - 59"
  have "tag div 4 < 64" using ok by (simp add: div_less_iff_less_mult)
  with False have k: "0 < ?k" "?k \<le> 4" "59 + ?k = tag div 4" by auto
  from len False have "read_exact r ?k \<noteq> None" by (cases "read_exact r ?k") (simp_all add: snappy_literal_length_def)
  then have fit: "?k \<le> length bs" and exact: "read_exact r ?k = Some (take ?k bs, skip r ?k)"
    using read_exact_left [OF left, of ?k] by (auto split: if_splits)
  have "bytes_ok (take ?k bs)" using ok by (auto simp: bytes_ok_def dest: in_set_takeD)
  with len False exact have n: "n = le_value (take ?k bs) + 1" "r' = skip r ?k"
    by (auto simp: snappy_literal_length_def Let_def or_bytes_value checked_add_def split: if_splits)
  have "4 * (59 + ?k) = tag" unfolding k(3) using tag by auto
  then have "snappy_encodes (SnappyLiteral literal) (tag # take ?k bs @ literal)" if "length literal = n" for literal
    using that k n fit unfolding snappy_encodes.simps by (intro disjI2 exI [of _ "take ?k bs"]) simp
  with n fit show ?thesis by blast
qed

lemma copy_tag:
  fixes tag :: nat
  assumes "tag < 256" "tag mod 4 = c"
  shows "tag = c + 4 * (tag div 4)" "tag = c + 4 * (tag div 4 mod 8) + 32 * (tag div 32)" "tag div 4 < 64" "tag div 32 < 8"
proof -
  show tag: "tag = c + 4 * (tag div 4)" using assms(2) mod_mult_div_eq [of tag 4] by simp
  have "tag div 4 = tag div 4 mod 8 + 8 * (tag div 32)"
    using mod_mult_div_eq [of "tag div 4" 8] by (simp add: div_mult2_eq [symmetric])
  with tag show "tag = c + 4 * (tag div 4 mod 8) + 32 * (tag div 32)" by linarith
  show "tag div 4 < 64" "tag div 32 < 8" using assms(1) by (simp_all add: div_less_iff_less_mult)
qed

lemma snappy_step_sound:
  assumes left: "has_left r bs" and ok: "bytes_ok (tag # bs)" and step: "snappy_step m tag r out = Inr (out', r')"
  shows "\<exists>e code bs'. tag # bs = code @ bs' \<and> snappy_encodes e code \<and> lz_element out e = Some out' \<and>
    length out' \<le> m \<and> r' = skip r (length code - 1)"
proof -
  have tag: "tag < 256" using ok by simp
  have copied: ?thesis if copy: "snappy_copy out offset n m = Inr out'" and code: "snappy_encodes (SnappyCopy offset n) code"
    "tag # bs = code @ bs'" "r' = skip r (length code - 1)" for offset n code bs'
  proof -
    have "lz_element out (SnappyCopy offset n) = Some out'" "length out' \<le> m"
      using snappy_copy_Inr [OF copy] by (auto split: if_splits)
    with code show ?thesis by blast
  qed
  consider (lit) "tag mod 4 = 0" | (one) "tag mod 4 = 1" | (two) "tag mod 4 = 2" | (four) "tag mod 4 = 3"
    using mod_less_divisor [of 4 tag] by linarith
  then show ?thesis
  proof cases
    case lit
    with step obtain n r1 literal where len: "snappy_literal_length tag r = Inr (n, r1)"
      and exact: "read_exact r1 n = Some (literal, r')" and out: "append_bounded out literal m = Inr out'"
      by (auto simp: snappy_step_def result_simps)
    from literal_length_sound [OF left ok lit len] obtain k where k: "r1 = skip r k" "k \<le> length bs"
      "\<forall>literal. length literal = n \<longrightarrow> snappy_encodes (SnappyLiteral literal) (tag # take k bs @ literal)" by blast
    have l: "n \<le> length (drop k bs)" "literal = take n (drop k bs)" "r' = skip r (k + n)"
      using exact read_exact_left [OF has_left_skip [OF left k(2)], of n] by (auto simp: k(1) split: if_splits)
    then have n: "length literal = n" by simp
    then have "snappy_encodes (SnappyLiteral literal) (tag # take k bs @ literal)" using k(3) by blast
    moreover have "tag # bs = (tag # take k bs @ literal) @ drop (k + n) bs"
      unfolding l(2) by (metis add.commute append_Cons append_assoc append_take_drop_id drop_drop)
    moreover have "lz_element out (SnappyLiteral literal) = Some out'" "length out' \<le> m"
      using out by (simp_all add: append_bounded_Inr)
    moreover have "r' = skip r (length (tag # take k bs @ literal) - 1)" using l(3) k(2) n by simp
    ultimately show ?thesis by blast
  next
    case one
    with step obtain low where low: "read_u8 r = Some (low, r')"
      and copy: "snappy_copy out (tag div 32 * 256 OR low) (tag div 4 mod 8 + 4) m = Inr out'"
      by (auto simp: snappy_step_def result_simps)
    then obtain cs where bs: "bs = low # cs" "r' = skip r 1"
      using left read_u8_Nil [of r] read_u8_Cons [of r] by (cases bs) auto
    have "tag div 32 * 256 OR low = low + tag div 32 * 256"
      using or_shifted [of low 8 "tag div 32"] ok bs by (simp add: or.commute)
    with copy have copy: "snappy_copy out (low + tag div 32 * 256) (tag div 4 mod 8 + 4) m = Inr out'" by simp
    note t = copy_tag [OF tag one]
    have "tag div 4 mod 8 + 4 \<le> 11" using mod_less_divisor [of 8 "tag div 4"] by linarith
    moreover have low: "low < 256" using ok bs by simp
    then have "low + tag div 32 * 256 < 2 ^ 11" using t(4) by simp
    moreover have "(low + tag div 32 * 256) div 256 = tag div 32" "(low + tag div 32 * 256) mod 256 = low" using low by simp_all
    ultimately have "snappy_encodes (SnappyCopy (low + tag div 32 * 256) (tag div 4 mod 8 + 4)) [tag, low]"
      unfolding snappy_encodes.simps by (intro disjI1 conjI) (simp, assumption+, simp only: add_diff_cancel_right' t(2) [symmetric])
    then show ?thesis by (rule copied [OF copy, of _ cs]) (simp_all add: bs eval_nat_numeral)
  next
    case two
    with step obtain raw where raw: "read_exact r 2 = Some (raw, r')"
      and copy: "snappy_copy out (le_value raw) (tag div 4 + 1) m = Inr out'"
      by (auto simp: snappy_step_def reader_u16_le_def result_simps)
    then obtain a b cs where bs: "bs = a # b # cs" "raw = [a, b]" "r' = skip r 2"
      using read_exact_left [OF left, of 2] by (cases bs; cases "tl bs") (auto split: if_splits)
    note t = copy_tag [OF tag two]
    have "snappy_encodes (SnappyCopy (le_value raw) (tag div 4 + 1)) [tag, a, b]"
      using t(1,3) bs(2) by simp
    then show ?thesis by (rule copied [OF copy, of _ cs]) (simp_all add: bs eval_nat_numeral)
  next
    case four
    with step obtain raw where raw: "read_exact r 4 = Some (raw, r')"
      and copy: "snappy_copy out (le_value raw) (tag div 4 + 1) m = Inr out'"
      by (auto simp: snappy_step_def reader_u32_le_def result_simps)
    then have "4 \<le> length bs" "raw = take 4 bs" "r' = skip r 4" using read_exact_left [OF left, of 4] by (auto split: if_splits)
    then obtain a b c d cs where bs: "bs = a # b # c # d # cs" "raw = [a, b, c, d]" "r' = skip r 4"
      by (auto simp: eval_nat_numeral Suc_le_length_iff)
    note t = copy_tag [OF tag four]
    have "snappy_encodes (SnappyCopy (le_value raw) (tag div 4 + 1)) [tag, a, b, c, d]"
      using t(1,3) bs(2) by simp
    then show ?thesis by (rule copied [OF copy, of _ cs]) (simp_all add: bs eval_nat_numeral)
  qed
qed

lemma literal_step:
  assumes len: "snappy_literal_length tag r = Inr (length literal, skip r k)" and left: "has_left r (sz @ literal @ bs')"
    and k: "length sz = k" and tag: "tag mod 4 = 0" and out: "length out + length literal \<le> m" "m \<le> MAX_TABLE_BLOCK_BYTES"
  shows "snappy_step m tag r out = Inr (out @ literal, skip r (k + length literal))"
proof -
  have "has_left (skip r k) (literal @ bs')" using has_left_skip [OF left, of k] k by simp
  from read_exact_left [OF this, of "length literal"]
  have "read_exact (skip r k) (length literal) = Some (literal, skip r (k + length literal))" by simp
  moreover have "append_bounded out literal m = Inr (out @ literal)" using out by (simp add: append_bounded_Inr limit_defs)
  ultimately show ?thesis using tag len by (simp add: snappy_step_def)
qed

lemma tag_parts:
  fixes c q :: nat
  assumes "c < 4"
  shows "(4 * q + c) mod 4 = c" "(4 * q + c) div 4 = q"
  using assms by simp_all

lemma snappy_step_complete:
  assumes left: "has_left r bs" and ok: "bytes_ok (tag # bs)" and split: "tag # bs = code @ bs'"
    and code: "snappy_encodes e code" and out: "lz_element out e = Some out'" "length out' \<le> m" "m \<le> MAX_TABLE_BLOCK_BYTES"
  shows "snappy_step m tag r out = Inr (out', skip r (length code - 1))"
proof (cases e)
  case (SnappyLiteral literal)
  with out have o: "out' = out @ literal" "length out + length literal \<le> m" by auto
  from code SnappyLiteral consider (short) "0 < length literal" "length literal \<le> 60" "code = 4 * (length literal - 1) # literal" |
    (long) sz where "0 < length sz" "length sz \<le> 4" "length literal = le_value sz + 1" "code = 4 * (59 + length sz) # sz @ literal"
    by auto
  then show ?thesis
  proof cases
    case short
    with split have t: "tag = 4 * (length literal - 1)" "has_left r ([] @ literal @ bs')" using left by simp_all
    have "tag div 4 < 60" "tag div 4 + 1 = length literal" using short(1,2) by (simp_all add: t(1))
    then have "snappy_literal_length tag r = Inr (length literal, skip r 0)" unfolding snappy_literal_length_def Let_def by simp
    from literal_step [OF this t(2) _ _ o(2) out(3)] short t(1) o(1) show ?thesis by simp
  next
    case long
    with split have t: "tag = 4 * (59 + length sz)" "bs = sz @ literal @ bs'" by simp_all
    then have "read_exact r (length sz) = Some (sz, skip r (length sz))" "bytes_ok sz"
      using read_exact_left [OF left, of "length sz"] ok by simp_all
    moreover have "le_value sz + 1 \<le> MAX_TABLE_BLOCK_BYTES" using long(3) o(2) out(3) by simp
    moreover from this have "le_value sz + 1 \<le> usize_max" by (simp add: limit_defs)
    ultimately have "snappy_literal_length tag r = Inr (length literal, skip r (length sz))"
      using long t by (simp add: snappy_literal_length_def Let_def or_bytes_value checked_add_def)
    from literal_step [OF this left [unfolded t(2)] _ _ o(2) out(3)] long t(1) o(1) show ?thesis by simp
  qed
next
  case (SnappyCopy offset n)
  with out have "length out + n \<le> m" by (auto split: if_splits)
  moreover have "m \<le> usize_max" using out(3) by (simp add: limit_defs)
  ultimately have copy: "snappy_copy out offset n m = Inr out'" using snappy_copy_eq out(1) SnappyCopy by fastforce
  from code SnappyCopy consider
    (one) "4 \<le> n" "n \<le> 11" "offset < 2 ^ 11" "code = [1 + 4 * (n - 4) + 32 * (offset div 256), offset mod 256]" |
    (two) a b where "1 \<le> n" "offset = le_value [a, b]" "code = [2 + 4 * (n - 1), a, b]" |
    (four) a b c d where "1 \<le> n" "offset = le_value [a, b, c, d]" "code = [3 + 4 * (n - 1), a, b, c, d]" by auto
  then show ?thesis
  proof cases
    case one
    with split have t: "tag = 1 + 4 * (n - 4) + 32 * (offset div 256)" "bs = offset mod 256 # bs'" by simp_all
    have tag: "tag = 4 * (n - 4 + 8 * (offset div 256)) + 1" unfolding t(1) by simp
    have "tag mod 4 = 1" "tag div 4 = n - 4 + 8 * (offset div 256)" unfolding tag by (rule tag_parts; simp)+
    moreover have "(n - 4 + 8 * (offset div 256)) mod 8 = n - 4" unfolding mod_mult_self2 using one(2) by (intro mod_less) simp
    with calculation(2) have "tag div 4 mod 8 + 4 = n" using one(1) by simp
    moreover have "tag div 32 = offset div 256"
    proof -
      have "1 + 4 * (n - 4) < 32" using one(2) by simp
      then show ?thesis unfolding t(1) by simp
    qed
    moreover have "offset div 256 * 256 OR offset mod 256 = offset"
      using or_shifted [of "offset mod 256" 8 "offset div 256"] by (simp add: or.commute)
    moreover have "read_u8 r = Some (offset mod 256, skip r 1)" using read_u8_Cons(1) left t(2) by simp
    ultimately show ?thesis using copy one(4) by (simp add: snappy_step_def)
  next
    case two
    with split have t: "tag = 4 * (n - 1) + 2" "bs = a # b # bs'" by simp_all
    have "tag mod 4 = 2" unfolding t(1) by (rule tag_parts) simp
    moreover have "tag div 4 = n - 1" unfolding t(1) by (rule tag_parts) simp
    then have "tag div 4 + 1 = n" using two(1) by simp
    moreover have "read_exact r 2 = Some ([a, b], skip r 2)" using read_exact_left [OF left, of 2] t by simp
    moreover have len: "length code - 1 = 2" by (simp add: two(3))
    ultimately show ?thesis using copy unfolding len two(2) by (simp add: snappy_step_def reader_u16_le_def)
  next
    case four
    with split have t: "tag = 4 * (n - 1) + 3" "bs = a # b # c # d # bs'" by simp_all
    have "tag mod 4 = 3" unfolding t(1) by (rule tag_parts) simp
    moreover have "tag div 4 = n - 1" unfolding t(1) by (rule tag_parts) simp
    then have "tag div 4 + 1 = n" using four(1) by simp
    moreover have "read_exact r 4 = Some ([a, b, c, d], skip r 4)" using read_exact_left [OF left, of 4] t by simp
    moreover have len: "length code - 1 = 4" by (simp add: four(3))
    ultimately show ?thesis using copy unfolding len four(2) by (simp add: snappy_step_def reader_u32_le_def)
  qed
qed

lemma lz_expand_grows: "lz_expand out es = Some out' \<Longrightarrow> length out \<le> length out'"
proof (induction es arbitrary: out)
  case (Cons e es)
  then obtain mid where mid: "lz_element out e = Some mid" "lz_expand mid es = Some out'" by (auto split: option.splits)
  have "length out \<le> length mid" using mid(1) by (cases e) (auto split: if_splits)
  with Cons.IH [OF mid(2)] show ?case by simp
qed simp

lemma encoded_nonempty: "snappy_encodes e code \<Longrightarrow> code \<noteq> []"
  by (cases e) auto

definition snappy_stream :: "nat list \<Rightarrow> nat list \<Rightarrow> nat list \<Rightarrow> bool" where
  "snappy_stream out bs out' \<longleftrightarrow> (\<exists>es codes. list_all2 snappy_encodes es codes \<and> bs = concat codes \<and> lz_expand out es = Some out')"

lemma snappy_stream_Nil: "snappy_stream out [] out' \<longleftrightarrow> out' = out"
proof -
  have "es = []" if "list_all2 snappy_encodes es codes" "concat codes = []" for es codes
    using that encoded_nonempty by (cases codes) (auto simp: list_all2_Cons2)
  then have "snappy_stream out [] out' \<Longrightarrow> out' = out" unfolding snappy_stream_def by fastforce
  moreover have "snappy_stream out [] out" unfolding snappy_stream_def by (intro exI [of _ "[]"]) simp
  ultimately show ?thesis by blast
qed

lemma snappy_stream_step:
  "snappy_encodes e code \<Longrightarrow> lz_element out e = Some mid \<Longrightarrow> snappy_stream mid bs out' \<Longrightarrow> snappy_stream out (code @ bs) out'"
  unfolding snappy_stream_def by (elim exE conjE) (rule exI [of _ "e # _"], rule exI [of _ "code # _"], auto)

lemma snappy_stream_Cons:
  assumes "snappy_stream out (tag # bs) out'"
  obtains e code mid rest where "snappy_encodes e code" "tag # bs = code @ rest" "lz_element out e = Some mid"
    "snappy_stream mid rest out'" "length mid \<le> length out'"
proof -
  from assms obtain es codes where stream: "list_all2 snappy_encodes es codes" "tag # bs = concat codes" "lz_expand out es = Some out'"
    unfolding snappy_stream_def by blast
  then obtain code codes' where codes: "codes = code # codes'" by (cases codes) auto
  then obtain e es' where es: "es = e # es'" "snappy_encodes e code" "list_all2 snappy_encodes es' codes'"
    using stream(1) by (auto simp: list_all2_Cons2)
  then obtain mid where mid: "lz_element out e = Some mid" "lz_expand mid es' = Some out'" using stream(3) by (auto split: option.splits)
  have "snappy_stream mid (concat codes') out'" unfolding snappy_stream_def using es(3) mid(2) by blast
  with es(2) mid(1) stream(2) codes lz_expand_grows [OF mid(2)] that show ?thesis by simp
qed

lemma snappy_loop_iff:
  assumes "m \<le> MAX_TABLE_BLOCK_BYTES" "has_left r bs" "bytes_ok bs" "length out \<le> m"
  shows "snappy_loop m r out = Inr out' \<longleftrightarrow> length out' \<le> m \<and> snappy_stream out bs out'"
  using assms(2-)
proof (induction "length bs" arbitrary: bs r out rule: less_induct)
  case less
  show ?case
  proof (cases bs)
    case Nil
    with less.prems show ?thesis
      by (auto simp: snappy_loop.simps [of m r out] reader_empty_iff snappy_stream_Nil)
  next
    case (Cons tag cs)
    note u8 = read_u8_Cons [OF less.prems(1) [unfolded Cons]]
    have ok: "bytes_ok (tag # cs)" using less.prems(2) Cons by simp
    have loop: "snappy_loop m r out = (case snappy_step m tag (skip r 1) out of Inl e \<Rightarrow> Inl e | Inr (mid, r') \<Rightarrow> snappy_loop m r' mid)"
      using less.prems(1) Cons by (simp add: snappy_loop.simps [of m r out] reader_empty_iff u8(1))
    have next_left: "has_left (skip (skip r 1) (length code - 1)) rest \<and> bytes_ok rest \<and> length rest < length bs"
      if "tag # cs = code @ rest" "code \<noteq> []" for code rest
    proof -
      have "length code - 1 \<le> length cs" "drop (length code - 1) cs = rest" using that by (cases code; simp)+
      with has_left_skip [OF u8(2)] have "has_left (skip (skip r 1) (length code - 1)) rest" by blast
      moreover have "bytes_ok rest" using ok that(1) by simp
      moreover have "length rest < length bs" using Cons that by (simp add: length_append [symmetric] del: length_append) (metis length_append length_greater_0_conv less_add_same_cancel2 list.size(4) One_nat_def add.right_neutral add_Suc_right)
      ultimately show ?thesis by blast
    qed
    show ?thesis
    proof
      assume "snappy_loop m r out = Inr out'"
      then obtain mid r' where step: "snappy_step m tag (skip r 1) out = Inr (mid, r')" and rest: "snappy_loop m r' mid = Inr out'"
        unfolding loop by (auto split: sum.splits)
      from snappy_step_sound [OF u8(2) ok step] obtain e code bs' where e: "tag # cs = code @ bs'" "snappy_encodes e code"
        "lz_element out e = Some mid" "length mid \<le> m" "r' = skip (skip r 1) (length code - 1)" by blast
      note left = next_left [OF e(1) encoded_nonempty [OF e(2)]]
      have "length out' \<le> m \<and> snappy_stream mid bs' out'"
        using less.hyps [of bs' r' mid] left e(4,5) rest by blast
      with snappy_stream_step [OF e(2,3)] e(1) Cons show "length out' \<le> m \<and> snappy_stream out bs out'" by metis
    next
      assume out': "length out' \<le> m \<and> snappy_stream out bs out'"
      then have "snappy_stream out (tag # cs) out'" using Cons by simp
      then obtain e code mid rest where e: "snappy_encodes e code" "tag # cs = code @ rest" "lz_element out e = Some mid"
        "snappy_stream mid rest out'" "length mid \<le> length out'" by (rule snappy_stream_Cons)
      note left = next_left [OF e(2) encoded_nonempty [OF e(1)]]
      have "length mid \<le> m" using e(5) out' by simp
      from snappy_step_complete [OF u8(2) ok e(2,1,3) this assms(1)]
      have "snappy_loop m r out = snappy_loop m (skip (skip r 1) (length code - 1)) mid" unfolding loop by simp
      moreover have "snappy_loop m (skip (skip r 1) (length code - 1)) mid = Inr out'"
        using less.hyps [of rest _ mid] left e(4) out' \<open>length mid \<le> m\<close> by blast
      ultimately show "snappy_loop m r out = Inr out'" by simp
    qed
  qed
qed

text \<open>
  C32: the decompressor accepts exactly the Snappy format. For any bytes, it returns an output
  exactly when the stream is the minimal variable-length integer of the output's length followed by
  encoded literals and copies that, run one byte at a time, produce that output, and the output
  fits the block limit; no other input is accepted and no copy reads outside what was produced.
\<close>

theorem snappy_matches_format:
  assumes "bytes_ok bs" and "length bs \<le> usize_max"
  shows "snappy_decompress bs = Inr out \<longleftrightarrow>
    length out \<le> MAX_TABLE_BLOCK_BYTES \<and>
    (\<exists>es codes. list_all2 snappy_encodes es codes \<and> bs = varint_bytes (length out) @ concat codes \<and> lz_expand [] es = Some out)"
proof -
  note new = has_left_new [OF assms(2)]
  have len: "n < 2 ^ 32" if "n \<le> MAX_TABLE_BLOCK_BYTES" for n using that by (simp add: limit_defs)
  have "snappy_decompress bs = Inr out \<longleftrightarrow> length out \<le> MAX_TABLE_BLOCK_BYTES \<and>
      (\<exists>r. read_varint32 (reader_new bs) = Some (length out, r) \<and> snappy_loop (length out) r [] = Inr out)"
  proof
    assume "snappy_decompress bs = Inr out"
    then show "length out \<le> MAX_TABLE_BLOCK_BYTES \<and>
      (\<exists>r. read_varint32 (reader_new bs) = Some (length out, r) \<and> snappy_loop (length out) r [] = Inr out)"
      by (auto simp: snappy_decompress_def and_then_Inr result_simps split: if_splits)
  qed (auto simp: snappy_decompress_def)
  also have "\<dots> \<longleftrightarrow> length out \<le> MAX_TABLE_BLOCK_BYTES \<and> (\<exists>rest. bs = varint_bytes (length out) @ rest \<and> snappy_stream [] rest out)"
  proof (intro conj_cong refl)
    assume fits: "length out \<le> MAX_TABLE_BLOCK_BYTES"
    have "snappy_loop (length out) (skip (reader_new bs) (length (varint_bytes (length out)))) [] = Inr out \<longleftrightarrow> snappy_stream [] rest out"
      if "bs = varint_bytes (length out) @ rest" for rest
    proof -
      have "has_left (skip (reader_new bs) (length (varint_bytes (length out)))) rest" "bytes_ok rest"
        using has_left_skip [OF new, of "length (varint_bytes (length out))"] that assms(1) by simp_all
      from snappy_loop_iff [OF fits this, of "[]" out] show ?thesis by simp
    qed
    then show "(\<exists>r. read_varint32 (reader_new bs) = Some (length out, r) \<and> snappy_loop (length out) r [] = Inr out) \<longleftrightarrow>
        (\<exists>rest. bs = varint_bytes (length out) @ rest \<and> snappy_stream [] rest out)"
      using len [OF fits] by (auto simp: read_varint32_iff [OF new assms(1)])
  qed
  finally show ?thesis unfolding snappy_stream_def by blast
qed

theorem snappy_matches_format_witness:
  "snappy_decompress [6, 4, 97, 98, 1, 2] = Inr [97, 98, 97, 98, 97, 98]"
proof -
  let ?bs = "[6, 4, 97, 98, 1, 2] :: nat list"
  have "list_all2 snappy_encodes [SnappyLiteral [97, 98], SnappyCopy 2 4] [[4, 97, 98], [1, 2]]" by simp
  moreover have "?bs = varint_bytes (length [97, 98, 97, 98, 97, 98 :: nat]) @ concat [[4, 97, 98], [1, 2]]"
    by (simp add: varint_bytes_small)
  moreover have "lz_expand [] [SnappyLiteral [97, 98], SnappyCopy 2 4] = Some [97, 98, 97, 98, 97, 98 :: nat]"
  proof -
    have four: "(4 :: nat) = Suc (Suc (Suc (Suc 0)))" by simp
    show ?thesis unfolding four by simp
  qed
  moreover have "bytes_ok ?bs" "length ?bs \<le> usize_max" "length [97, 98, 97, 98, 97, 98 :: nat] \<le> MAX_TABLE_BLOCK_BYTES"
    by (simp_all add: limit_defs)
  ultimately show ?thesis using snappy_matches_format [of ?bs "[97, 98, 97, 98, 97, 98]"] by blast
qed

end
