(* ===== verification/Leveldb_Store.thy ===== *)
theory Leveldb_Store
  imports Leveldb_Format Ordered_Map Text_And_Urls
begin

text \<open>
  The reader of Chromium's LevelDB files (\<open>crates/providers/src/chromium_leveldb.rs\<close>): write
  batches, the record log, sorted tables, the merge of all files by sequence number, and what is
  projected from the result: the local storage of one origin, text pairs and token candidates.

  Acquisition of the files opens directories and compares their metadata: what each system call
  returns is an input, in a record per attempt. The URL library is a parameter.
\<close>

section \<open>Records and budgets\<close>

record parsed_record =
  pr_key :: "nat list"
  pr_sequence :: nat
  pr_value :: "nat list option"

record versioned_value =
  vv_sequence :: nat
  vv_value :: "nat list option"

record parse_budget =
  pb_entries :: nat
  pb_table_blocks :: nat
  pb_reconstructed :: nat

definition default_budget :: parse_budget where
  "default_budget = \<lparr>pb_entries = 0, pb_table_blocks = 0, pb_reconstructed = 0\<rparr>"

text \<open>\<open>checked_add\<close> followed by \<open>filter\<close>: the sum when it does not exceed a limit.\<close>

definition add_within :: "nat \<Rightarrow> nat \<Rightarrow> nat \<Rightarrow> nat option" where
  "add_within limit a b = (case checked_add usize_max a b of Some c \<Rightarrow> if c \<le> limit then Some c else None | None \<Rightarrow> None)"

definition reserve_entries :: "parse_budget \<Rightarrow> nat \<Rightarrow> (parse_budget, leveldb_error) result" where
  "reserve_entries budget additional =
     map_ok (\<lambda>n. budget\<lparr>pb_entries := n\<rparr>) (ok_or DbTooManyEntries (add_within MAX_LEVELDB_ENTRIES (pb_entries budget) additional))"

definition reserve_reconstructed_entry_bytes :: "parse_budget \<Rightarrow> nat \<Rightarrow> nat \<Rightarrow> (parse_budget, leveldb_error) result" where
  "reserve_reconstructed_entry_bytes budget key_bytes value_bytes =
     and_then (ok_or DbTooLarge (checked_add usize_max key_bytes value_bytes)) (\<lambda>additional.
     map_ok (\<lambda>n. budget\<lparr>pb_reconstructed := n\<rparr>)
       (ok_or DbTooLarge (add_within MAX_RECONSTRUCTED_ENTRY_BYTES (pb_reconstructed budget) additional)))"

section \<open>Write batches\<close>

definition batch_entry ::
    "nat \<Rightarrow> nat \<Rightarrow> slice_reader \<Rightarrow> parse_budget \<Rightarrow> (parsed_record \<times> slice_reader \<times> parse_budget, leveldb_error) result" where
  "batch_entry base_sequence index r budget =
     and_then (ok_or DbMalformed (case checked_add u64_max base_sequence index of
         Some sequence \<Rightarrow> if sequence \<le> LEVELDB_MAX_SEQUENCE then Some sequence else None | None \<Rightarrow> None)) (\<lambda>sequence.
     and_then (ok_or DbMalformed (read_u8 r)) (\<lambda>(tag, r).
     and_then (read_length_prefixed r MAX_LEVELDB_FIELD_BYTES) (\<lambda>(key, r).
     and_then
       (if tag = 0 then Inr (None, r)
        else if tag = 1 then map_ok (\<lambda>(value, r). (Some value, r)) (read_length_prefixed r MAX_LEVELDB_FIELD_BYTES)
        else Inl DbMalformed) (\<lambda>(value, r).
     and_then (reserve_reconstructed_entry_bytes budget (length key) (case value of None \<Rightarrow> 0 | Some v \<Rightarrow> length v)) (\<lambda>budget.
     Inr (\<lparr>pr_key = key, pr_sequence = sequence, pr_value = value\<rparr>, r, budget))))))"

fun batch_loop ::
    "nat \<Rightarrow> nat list \<Rightarrow> slice_reader \<Rightarrow> parse_budget \<Rightarrow> parsed_record list \<Rightarrow>
     (parsed_record list \<times> slice_reader \<times> parse_budget, leveldb_error) result" where
  "batch_loop base_sequence [] r budget records = Inr (records, r, budget)"
| "batch_loop base_sequence (index # indices) r budget records =
     and_then (batch_entry base_sequence index r budget) (\<lambda>(rec, r, budget).
     batch_loop base_sequence indices r budget (records @ [rec]))"

definition parse_write_batch :: "nat list \<Rightarrow> parse_budget \<Rightarrow> (parsed_record list \<times> parse_budget, leveldb_error) result" where
  "parse_write_batch bytes budget =
     (if length bytes < 12 \<or> length bytes > MAX_LOGICAL_RECORD_BYTES then Inl DbMalformed
      else
        and_then (read_u64_le bytes 0) (\<lambda>base_sequence.
        if base_sequence > LEVELDB_MAX_SEQUENCE then Inl DbMalformed
        else
          and_then (read_u32_le bytes 8) (\<lambda>n.
          and_then (reserve_entries budget n) (\<lambda>budget.
          and_then (batch_loop base_sequence [0..<n] (reader_new (drop 12 bytes)) budget []) (\<lambda>(records, r, budget).
          if \<not> reader_is_empty r then Inl DbMalformed else Inr (records, budget))))))"

section \<open>The log\<close>

datatype log_record_type = FullRecord | FirstRecord | MiddleRecord | LastRecord

fun log_record_type_parse :: "nat \<Rightarrow> log_record_type option" where
  "log_record_type_parse v =
     (if v = 1 then Some FullRecord else if v = 2 then Some FirstRecord else if v = 3 then Some MiddleRecord
      else if v = 4 then Some LastRecord else None)"

datatype log_item = LogEnd | LogRecord log_record_type "nat list" nat

definition nonzero_in :: "nat list \<Rightarrow> nat \<Rightarrow> nat \<Rightarrow> bool" where
  "nonzero_in bytes start stop \<longleftrightarrow> list_ex (\<lambda>b. b \<noteq> 0) (take (stop - start) (drop start bytes))"

text \<open>One turn of the inner loop of \<open>parse_log\<close>, up to the match on the kind of the record.\<close>

definition log_item_at :: "nat list \<Rightarrow> nat \<Rightarrow> nat \<Rightarrow> (log_item, leveldb_error) result" where
  "log_item_at bytes block_end offset =
     (if block_end - offset < LEVELDB_LOG_HEADER_BYTES then
        if nonzero_in bytes offset block_end then Inl DbMalformed else Inr LogEnd
      else
        and_then (read_u32_le bytes offset) (\<lambda>checksum.
        and_then (read_u16_le bytes (offset + 4)) (\<lambda>n.
        let raw_type = bytes ! (offset + 6); offset = offset + LEVELDB_LOG_HEADER_BYTES in
        if checksum = 0 \<and> n = 0 \<and> raw_type = 0 then
          if nonzero_in bytes offset block_end then Inl DbMalformed else Inr LogEnd
        else
          and_then (ok_or DbMalformed (add_within block_end offset n)) (\<lambda>payload_end.
          and_then (ok_or DbMalformed (log_record_type_parse raw_type)) (\<lambda>record_type.
          let payload = take (payload_end - offset) (drop offset bytes) in
          if unat (masked_crc32c_parts raw_type payload) \<noteq> checksum then Inl DbMalformed
          else Inr (LogRecord record_type payload payload_end))))))"

type_synonym log_state = "parsed_record list \<times> nat list option \<times> parse_budget"

fun log_fragment :: "log_record_type \<Rightarrow> nat list \<Rightarrow> log_state \<Rightarrow> (log_state, leveldb_error) result" where
  "log_fragment FullRecord payload (records, fragmented, budget) =
     (if fragmented \<noteq> None then Inl DbMalformed
      else map_ok (\<lambda>(batch, budget). (records @ batch, fragmented, budget)) (parse_write_batch payload budget))"
| "log_fragment FirstRecord payload (records, fragmented, budget) =
     (if fragmented \<noteq> None then Inl DbMalformed
      else if length payload > MAX_LOGICAL_RECORD_BYTES then Inl DbTooLarge
      else Inr (records, Some payload, budget))"
| "log_fragment MiddleRecord payload (records, fragmented, budget) =
     and_then (ok_or DbMalformed fragmented) (\<lambda>buffer.
     and_then (append_bounded buffer payload MAX_LOGICAL_RECORD_BYTES) (\<lambda>buffer.
     Inr (records, Some buffer, budget)))"
| "log_fragment LastRecord payload (records, fragmented, budget) =
     and_then (ok_or DbMalformed fragmented) (\<lambda>buffer.
     and_then (append_bounded buffer payload MAX_LOGICAL_RECORD_BYTES) (\<lambda>buffer.
     map_ok (\<lambda>(batch, budget). (records @ batch, None, budget)) (parse_write_batch buffer budget)))"

lemma log_item_advances:
  "log_item_at bytes block_end offset = Inr (LogRecord t payload payload_end) \<Longrightarrow> offset < payload_end \<and> payload_end \<le> block_end"
  by (auto simp: log_item_at_def Let_def result_simps add_within_def checked_add_def limit_defs split: if_splits option.splits)

function log_block :: "nat list \<Rightarrow> nat \<Rightarrow> nat \<Rightarrow> log_state \<Rightarrow> (log_state, leveldb_error) result" where
  "log_block bytes block_end offset state =
     (if \<not> offset < block_end then Inr state
      else
        (case log_item_at bytes block_end offset of
          Inl e \<Rightarrow> Inl e
        | Inr LogEnd \<Rightarrow> Inr state
        | Inr (LogRecord record_type payload payload_end) \<Rightarrow>
            (case log_fragment record_type payload state of
              Inl e \<Rightarrow> Inl e
            | Inr state' \<Rightarrow> log_block bytes block_end payload_end state')))"
  by pat_completeness auto
termination
  by (relation "measure (\<lambda>(_, block_end, offset, _). block_end - offset)") (auto dest: log_item_advances)

declare log_block.simps [simp del]

fun log_blocks :: "nat list \<Rightarrow> nat list \<Rightarrow> log_state \<Rightarrow> (log_state, leveldb_error) result" where
  "log_blocks bytes [] state = Inr state"
| "log_blocks bytes (block_start # starts) state =
     and_then (log_block bytes (min (block_start + LEVELDB_LOG_BLOCK_BYTES) (length bytes)) block_start state) (\<lambda>state.
     log_blocks bytes starts state)"

definition block_starts :: "nat \<Rightarrow> nat list" where
  "block_starts n = map (\<lambda>i. i * LEVELDB_LOG_BLOCK_BYTES) [0..<(n + LEVELDB_LOG_BLOCK_BYTES - 1) div LEVELDB_LOG_BLOCK_BYTES]"

definition parse_log :: "nat list \<Rightarrow> parse_budget \<Rightarrow> (parsed_record list \<times> parse_budget, leveldb_error) result" where
  "parse_log bytes budget =
     and_then (log_blocks bytes (block_starts (length bytes)) ([], None, budget)) (\<lambda>(records, fragmented, budget).
     if fragmented \<noteq> None then Inl DbMalformed else Inr (records, budget))"

section \<open>Tables\<close>

record block_entry =
  be_key :: "nat list"
  be_value :: "nat list"

definition validate_block_handle :: "block_handle \<Rightarrow> nat \<Rightarrow> (unit, leveldb_error) result" where
  "validate_block_handle handle footer_start =
     (if snd handle > MAX_TABLE_BLOCK_BYTES then Inl DbTooLarge
      else
        (case checked_add usize_max (fst handle) (snd handle) of
          None \<Rightarrow> Inl DbMalformed
        | Some stop \<Rightarrow> map_ok (\<lambda>_. ()) (ok_or DbMalformed (add_within footer_start stop LEVELDB_BLOCK_TRAILER_BYTES))))"

definition read_table_block ::
    "nat list \<Rightarrow> block_handle \<Rightarrow> nat \<Rightarrow> parse_budget \<Rightarrow> (nat list \<times> parse_budget, leveldb_error) result" where
  "read_table_block table handle footer_start budget =
     and_then (ok_or DbTooManyEntries (add_within MAX_TABLE_BLOCKS (pb_table_blocks budget) 1)) (\<lambda>blocks.
     let budget = budget\<lparr>pb_table_blocks := blocks\<rparr> in
     and_then (validate_block_handle handle footer_start) (\<lambda>_.
     and_then (ok_or DbMalformed (checked_add usize_max (fst handle) (snd handle))) (\<lambda>block_end.
     and_then (ok_or DbMalformed (if block_end < length table then Some (table ! block_end) else None)) (\<lambda>compression.
     and_then (read_u32_le table (block_end + 1)) (\<lambda>checksum.
     and_then (ok_or DbMalformed (slice_get table (fst handle) block_end)) (\<lambda>raw.
     if unat (masked_crc32c_block raw compression) \<noteq> checksum then Inl DbMalformed
     else if compression = 0 then Inr (raw, budget)
     else if compression = 1 then map_ok (\<lambda>block. (block, budget)) (snappy_decompress raw)
     else Inl DbMalformed))))))"

fun parse_restart_offsets ::
    "nat list \<Rightarrow> nat \<Rightarrow> nat list \<Rightarrow> nat list \<Rightarrow> (nat list, leveldb_error) result" where
  "parse_restart_offsets bytes entries_end [] restarts = Inr restarts"
| "parse_restart_offsets bytes entries_end (index # indices) restarts =
     and_then (read_u32_le bytes (entries_end + index * 4)) (\<lambda>offset.
     if offset > entries_end \<or> index = 0 \<and> offset \<noteq> 0 then Inl DbMalformed
     else if index \<noteq> 0 \<and> restarts \<noteq> [] \<and> last restarts \<ge> offset then Inl DbMalformed
     else parse_restart_offsets bytes entries_end indices (restarts @ [offset]))"

definition prefix_entry ::
    "nat list \<Rightarrow> nat \<Rightarrow> nat \<Rightarrow> nat list \<Rightarrow> parse_budget \<Rightarrow>
     (nat \<times> block_entry \<times> nat \<times> parse_budget, leveldb_error) result" where
  "prefix_entry bytes entries_end offset last_key budget =
     and_then (ok_or DbMalformed (read_varint32 (reader_new (take (entries_end - offset) (drop offset bytes))))) (\<lambda>(shared, r).
     and_then (ok_or DbMalformed (read_varint32 r)) (\<lambda>(non_shared, r).
     and_then (ok_or DbMalformed (read_varint32 r)) (\<lambda>(value_length, r).
     and_then (ok_or DbTooLarge (checked_add usize_max shared non_shared)) (\<lambda>key_length.
     if shared > length last_key \<or> key_length > MAX_LEVELDB_FIELD_BYTES \<or> value_length > MAX_LEVELDB_FIELD_BYTES
     then Inl DbTooLarge
     else
       and_then (ok_or DbMalformed (read_exact r non_shared)) (\<lambda>(suffix, r).
       and_then (ok_or DbMalformed (read_exact r value_length)) (\<lambda>(value, r).
       and_then (ok_or DbMalformed (add_within entries_end offset (sr_position r))) (\<lambda>offset.
       and_then (reserve_reconstructed_entry_bytes budget key_length value_length) (\<lambda>budget.
       Inr (shared, \<lparr>be_key = take shared last_key @ suffix, be_value = value\<rparr>, offset, budget)))))))))"

lemma varint_loop_moves: "varint_loop k index value r = Some (v, r') \<Longrightarrow> sr_bytes r' = sr_bytes r \<and> sr_position r < sr_position r'"
proof (induction k arbitrary: index "value" r)
  case (Suc k)
  from Suc.prems obtain b r1 where u8: "read_u8 r = Some (b, r1)" by (cases "read_u8 r") auto
  then have "sr_bytes r1 = sr_bytes r" "sr_position r1 = sr_position r + 1" by (auto simp: read_u8_def split: if_splits)
  moreover have "r' = r1 \<or> (\<exists>index value. varint_loop k index value r1 = Some (v, r'))"
    using Suc.prems u8 by (auto simp: Let_def split: if_splits)
  ultimately show ?case using Suc.IH by fastforce
qed simp

lemma read_varint32_moves: "read_varint32 r = Some (v, r') \<Longrightarrow> sr_bytes r' = sr_bytes r \<and> sr_position r < sr_position r'"
  by (auto simp: read_varint32_def read_varint_def dest: varint_loop_moves split: option.splits if_splits)

lemma prefix_entry_advances:
  assumes "prefix_entry bytes entries_end offset last_key budget = Inr (shared, entry, offset', budget')"
  shows "offset < offset' \<and> offset' \<le> entries_end"
proof -
  from assms obtain r1 r2 r3 r4 r5 n1 n2 n3 v1 v2 where
    v: "read_varint32 (reader_new (take (entries_end - offset) (drop offset bytes))) = Some (n1, r1)" "read_varint32 r1 = Some (n2, r2)"
    "read_varint32 r2 = Some (n3, r3)" "read_exact r3 n2 = Some (v1, r4)" "read_exact r4 n3 = Some (v2, r5)"
    and o': "add_within entries_end offset (sr_position r5) = Some offset'"
    unfolding prefix_entry_def and_then_Inr result_simps by (auto simp: result_simps split: if_splits)
  have "0 < sr_position r5"
    using read_varint32_moves [OF v(1)] read_varint32_moves [OF v(2)] read_varint32_moves [OF v(3)]
      read_exact_advances [OF v(4)] read_exact_advances [OF v(5)] by (simp add: advances_def)
  with o' show ?thesis by (auto simp: add_within_def checked_add_def split: if_splits)
qed

type_synonym prefix_state = "block_entry list \<times> (nat, nat) btree_map \<times> nat list \<times> parse_budget"

function prefix_loop ::
    "nat list \<Rightarrow> nat \<Rightarrow> nat \<Rightarrow> nat \<Rightarrow> prefix_state \<Rightarrow> (nat \<times> prefix_state, leveldb_error) result" where
  "prefix_loop bytes entries_end maximum_entries offset (entries, starts, last_key, budget) =
     (if \<not> offset < entries_end then Inr (offset, entries, starts, last_key, budget)
      else if length entries \<ge> maximum_entries then Inl DbTooManyEntries
      else
        (case prefix_entry bytes entries_end offset last_key budget of
          Inl e \<Rightarrow> Inl e
        | Inr (shared, entry, offset', budget') \<Rightarrow>
            prefix_loop bytes entries_end maximum_entries offset'
              (entries @ [entry], bt_insert offset shared starts, be_key entry, budget')))"
  by pat_completeness auto
termination
  by (relation "measure (\<lambda>(_, entries_end, _, offset, _). entries_end - offset)") (auto dest: prefix_entry_advances)

declare prefix_loop.simps [simp del]

definition parse_prefix_block ::
    "nat list \<Rightarrow> nat \<Rightarrow> parse_budget \<Rightarrow> (block_entry list \<times> parse_budget, leveldb_error) result" where
  "parse_prefix_block bytes maximum_entries budget =
     (if length bytes < 8 \<or> length bytes > MAX_TABLE_BLOCK_BYTES then Inl DbMalformed
      else
        and_then (read_u32_le bytes (length bytes - 4)) (\<lambda>restart_count.
        if restart_count = 0 \<or> restart_count > saturating_add usize_max maximum_entries 1 then Inl DbMalformed
        else
          and_then (ok_or DbMalformed (case checked_mul usize_max restart_count 4 of
              None \<Rightarrow> None | Some n \<Rightarrow> add_within (length bytes) n 4)) (\<lambda>restart_bytes.
          let entries_end = length bytes - restart_bytes in
          and_then (parse_restart_offsets bytes entries_end [0..<restart_count] []) (\<lambda>restarts.
          and_then (prefix_loop bytes entries_end maximum_entries 0 ([], bt_empty, [], budget)) (\<lambda>(offset, entries, starts, last_key, budget).
          if offset \<noteq> entries_end then Inl DbMalformed
          else if entries_end = 0 then if restarts = [0] then Inr (entries, budget) else Inl DbMalformed
          else if list_ex (\<lambda>restart. bt_get starts restart \<noteq> Some 0) restarts then Inl DbMalformed
          else Inr (entries, budget))))))"

definition decode_internal_entry :: "block_entry \<Rightarrow> (parsed_record, leveldb_error) result" where
  "decode_internal_entry entry =
     (let key = be_key entry in
      if length key < 8 then Inl DbMalformed
      else
        let tag_offset = length key - 8 in
        and_then (read_u64_le key tag_offset) (\<lambda>tag.
        let sequence = tag div 256; value_type = tag mod 256; user_key = take tag_offset key in
        if sequence > LEVELDB_MAX_SEQUENCE then Inl DbMalformed
        else if value_type = 1 then Inr \<lparr>pr_key = user_key, pr_sequence = sequence, pr_value = Some (be_value entry)\<rparr>
        else if value_type = 0 \<and> be_value entry = [] then Inr \<lparr>pr_key = user_key, pr_sequence = sequence, pr_value = None\<rparr>
        else Inl DbMalformed))"

type_synonym table_state = "(block_handle, unit) btree_map \<times> parsed_record list \<times> parse_budget"

definition table_block ::
    "nat list \<Rightarrow> nat \<Rightarrow> block_entry \<Rightarrow> table_state \<Rightarrow> (table_state, leveldb_error) result" where
  "table_block bytes footer_start index_entry = (\<lambda>(handles, parsed, budget).
     and_then (decode_block_handle (be_value index_entry)) (\<lambda>handle.
     and_then (validate_block_handle handle footer_start) (\<lambda>_.
     if bt_contains handles handle then Inl DbMalformed
     else
       and_then (read_table_block bytes handle footer_start budget) (\<lambda>(block, budget).
       and_then (parse_prefix_block block MAX_LEVELDB_ENTRIES budget) (\<lambda>(entries, budget).
       and_then (reserve_entries budget (length entries)) (\<lambda>budget.
       and_then (try_map decode_internal_entry entries) (\<lambda>records.
       Inr (bt_insert handle () handles, parsed @ records, budget))))))))"

fun table_blocks :: "nat list \<Rightarrow> nat \<Rightarrow> block_entry list \<Rightarrow> table_state \<Rightarrow> (table_state, leveldb_error) result" where
  "table_blocks bytes footer_start [] state = Inr state"
| "table_blocks bytes footer_start (index_entry # index_entries) state =
     and_then (table_block bytes footer_start index_entry state) (table_blocks bytes footer_start index_entries)"

definition handle_range :: "block_handle \<Rightarrow> (nat \<times> nat, leveldb_error) result" where
  "handle_range handle =
     ok_or DbMalformed
       (case checked_add usize_max (fst handle) (snd handle) of
         None \<Rightarrow> None
       | Some v \<Rightarrow> map_option (\<lambda>stop. (fst handle, stop)) (checked_add usize_max v LEVELDB_BLOCK_TRAILER_BYTES))"

fun ranges_overlap :: "(nat \<times> nat) list \<Rightarrow> bool" where
  "ranges_overlap (a # b # rs) \<longleftrightarrow> snd a > fst b \<or> ranges_overlap (b # rs)"
| "ranges_overlap rs \<longleftrightarrow> False"

definition parse_table :: "nat list \<Rightarrow> parse_budget \<Rightarrow> (parsed_record list \<times> parse_budget, leveldb_error) result" where
  "parse_table bytes budget =
     (if length bytes < LEVELDB_TABLE_FOOTER_BYTES then Inl DbMalformed
      else
        let footer_start = length bytes - LEVELDB_TABLE_FOOTER_BYTES in
        and_then (read_u64_le bytes (length bytes - 8)) (\<lambda>magic.
        if magic \<noteq> LEVELDB_TABLE_MAGIC then Inl DbMalformed
        else
          and_then (read_block_handle (reader_new (take (length bytes - 8 - footer_start) (drop footer_start bytes)))) (\<lambda>(metaindex, footer).
          and_then (read_block_handle footer) (\<lambda>(index, footer).
          if list_ex (\<lambda>b. b \<noteq> 0) (reader_remaining footer) then Inl DbMalformed
          else
            and_then (validate_block_handle metaindex footer_start) (\<lambda>_.
            and_then (validate_block_handle index footer_start) (\<lambda>_.
            if index = metaindex then Inl DbMalformed
            else
              and_then (read_table_block bytes metaindex footer_start budget) (\<lambda>(metaindex_bytes, budget).
              and_then (parse_prefix_block metaindex_bytes MAX_TABLE_BLOCKS budget) (\<lambda>(metaindex_entries, budget).
              and_then (read_table_block bytes index footer_start budget) (\<lambda>(index_bytes, budget).
              and_then (parse_prefix_block index_bytes MAX_TABLE_BLOCKS budget) (\<lambda>(index_entries, budget).
              if length index_entries > MAX_TABLE_BLOCKS then Inl DbTooManyEntries
              else
                and_then (table_blocks bytes footer_start index_entries
                    (bt_insert index () (bt_insert metaindex () bt_empty), [], budget)) (\<lambda>(handles, parsed, budget).
                and_then (try_map handle_range (bt_keys handles)) (\<lambda>ranges.
                if ranges_overlap (sort ranges) then Inl DbMalformed else Inr (parsed, budget)))))))))))))"

section \<open>Merging\<close>

type_synonym record_map = "(nat list, versioned_value) btree_map"

definition merge_record :: "record_map \<Rightarrow> parsed_record \<Rightarrow> (record_map, leveldb_error) result" where
  "merge_record records rec =
     (case bt_get records (pr_key rec) of
       None \<Rightarrow> Inr (bt_insert (pr_key rec) \<lparr>vv_sequence = pr_sequence rec, vv_value = pr_value rec\<rparr> records)
     | Some existing \<Rightarrow>
         if pr_sequence rec > vv_sequence existing then
           Inr (bt_insert (pr_key rec) \<lparr>vv_sequence = pr_sequence rec, vv_value = pr_value rec\<rparr> records)
         else if pr_sequence rec < vv_sequence existing then Inr records
         else if vv_value existing = pr_value rec then Inr records
         else Inl DbMalformed)"

fun merge_records :: "record_map \<Rightarrow> parsed_record list \<Rightarrow> (record_map, leveldb_error) result" where
  "merge_records records [] = Inr records"
| "merge_records records (rec # recs) = and_then (merge_record records rec) (\<lambda>records. merge_records records recs)"

datatype leveldb_file_kind = LogFile | TableFile

definition classify_leveldb_file :: "str \<Rightarrow> leveldb_file_kind option" where
  "classify_leveldb_file name =
     (case (case strip_suffix (lit ''.log'') name of
             Some stem \<Rightarrow> Some (stem, LogFile)
           | None \<Rightarrow> map_option (\<lambda>stem. (stem, TableFile)) (strip_suffix (lit ''.ldb'') name)) of
       None \<Rightarrow> None
     | Some (stem, kind) \<Rightarrow> if stem \<noteq> [] \<and> list_all is_ascii_digit (as_bytes stem) then Some kind else None)"

fun parse_image :: "leveldb_file_kind \<Rightarrow> nat list \<Rightarrow> parse_budget \<Rightarrow> (parsed_record list \<times> parse_budget, leveldb_error) result" where
  "parse_image LogFile bytes budget = parse_log bytes budget"
| "parse_image TableFile bytes budget = parse_table bytes budget"

fun parse_images_from ::
    "(leveldb_file_kind \<times> nat list) list \<Rightarrow> parse_budget \<Rightarrow> record_map \<Rightarrow> (record_map, leveldb_error) result" where
  "parse_images_from [] budget records = Inr records"
| "parse_images_from ((kind, bytes) # images) budget records =
     and_then (parse_image kind bytes budget) (\<lambda>(parsed, budget).
     and_then (merge_records records parsed) (\<lambda>records.
     parse_images_from images budget records))"

definition parse_images :: "(leveldb_file_kind \<times> nat list) list \<Rightarrow> (record_map, leveldb_error) result" where
  "parse_images images = parse_images_from images default_budget bt_empty"

section \<open>Acquisition\<close>

datatype browser_kind = Chromium | GoogleChrome | Brave | BraveOrigin | MicrosoftEdge | Firefox | Zen

fun ensure_chromium :: "browser_kind \<Rightarrow> (unit, leveldb_error) result" where
  "ensure_chromium Firefox = Inl UnsupportedBrowser"
| "ensure_chromium Zen = Inl UnsupportedBrowser"
| "ensure_chromium _ = Inr ()"

definition SNAPSHOT_ATTEMPTS :: nat where [limit_defs]: "SNAPSHOT_ATTEMPTS = 3"
definition MAX_DB_PATH_BYTES :: nat where [limit_defs]: "MAX_DB_PATH_BYTES = 4 * 1024"
definition MAX_FILE_NAME_BYTES :: nat where [limit_defs]: "MAX_FILE_NAME_BYTES = 255"
definition MAX_LEVELDB_FILES :: nat where [limit_defs]: "MAX_LEVELDB_FILES = 256"
definition MAX_LEVELDB_FILE_BYTES :: nat where [limit_defs]: "MAX_LEVELDB_FILE_BYTES = 32 * 1024 * 1024"
definition MAX_LEVELDB_AGGREGATE_BYTES :: nat where [limit_defs]: "MAX_LEVELDB_AGGREGATE_BYTES = 64 * 1024 * 1024"

definition validate_relative_directory :: "str \<Rightarrow> (unit, leveldb_error) result" where
  "validate_relative_directory relative =
     (if relative = [] \<or> hd relative = 47 \<or> str_len relative > MAX_DB_PATH_BYTES \<or>
         list_ex (\<lambda>p. p = lit ''.'' \<or> p = lit ''..'' \<or> str_len p > MAX_FILE_NAME_BYTES \<or> 0 \<in> set p) (path_pieces relative)
      then Inl InvalidRelativePath else Inr ())"

record file_identity =
  fi_device :: nat
  fi_inode :: nat
  fi_mode :: nat
  fi_links :: nat
  fi_uid :: nat
  fi_gid :: nat
  fi_size :: int
  fi_modified_seconds :: int
  fi_modified_nanoseconds :: int
  fi_changed_seconds :: int
  fi_changed_nanoseconds :: int

record directory_entry_identity =
  de_name :: str
  de_identity :: file_identity
  de_kind :: "leveldb_file_kind option"

record directory_inspection =
  di_directory :: file_identity
  di_entries :: "directory_entry_identity list"

datatype acquisition_error = AcquisitionChanged | AcquisitionFatal leveldb_error

definition MAX_DIRECTORY_ENTRIES :: nat where [limit_defs]: "MAX_DIRECTORY_ENTRIES = 512"

datatype file_type = DirectoryFile | RegularFile | OtherFile

definition db_file_type :: "file_identity \<Rightarrow> file_type" where
  "db_file_type stat =
     (let kind = fi_mode stat AND 0xF000 in
      if kind = 0x4000 then DirectoryFile else if kind = 0x8000 then RegularFile else OtherFile)"

text \<open>
  What the system returns to one attempt. An open is \<open>Inl True\<close> when the name does not exist,
  \<open>Inl False\<close> when it fails otherwise, and the outcome of \<open>fstat\<close> when it succeeds. A stream of
  directory entries is absent when it cannot be opened; each of its items is absent when reading it
  fails, and carries the name's bytes and the outcome of \<open>fstatat\<close>.
\<close>

type_synonym open_outcome = "(file_identity option, bool) result"

record directory_reading =
  dr_stat :: "file_identity option"
  dr_stream :: "(nat list \<times> file_identity option) option list option"

record file_reading =
  fr_opened :: "file_identity option"
  fr_contents :: "nat list option"
  fr_closed_over :: "file_identity option"

record attempt_world =
  aw_open_path :: "str list \<Rightarrow> open_outcome"
  aw_profile_stat :: "file_identity option"
  aw_clone :: bool
  aw_open_relative :: "str list \<Rightarrow> open_outcome"
  aw_before :: directory_reading
  aw_file :: "str \<Rightarrow> file_reading"
  aw_after :: directory_reading

fun open_path_components :: "(str list \<Rightarrow> open_outcome) \<Rightarrow> str list \<Rightarrow> str list \<Rightarrow> (str list, acquisition_error) result" where
  "open_path_components open_at opened [] = Inr opened"
| "open_path_components open_at opened (name # names) =
     (if name = lit ''..'' then Inl (AcquisitionFatal InvalidProfile)
      else
        (case open_at (opened @ [name]) of
          Inr (Some stat) \<Rightarrow>
            if db_file_type stat \<noteq> DirectoryFile then Inl (AcquisitionFatal InvalidProfile)
            else open_path_components open_at (opened @ [name]) names
        | _ \<Rightarrow> Inl (AcquisitionFatal InvalidProfile)))"

definition open_profile_directory :: "(str list \<Rightarrow> open_outcome) \<Rightarrow> str \<Rightarrow> (str list, acquisition_error) result" where
  "open_profile_directory open_at path =
     (if path = [] \<or> hd path \<noteq> 47 then Inl (AcquisitionFatal InvalidProfile)
      else
        (case open_at [] of
          Inl _ \<Rightarrow> Inl (AcquisitionFatal InvalidProfile)
        | Inr _ \<Rightarrow>
            and_then (open_path_components open_at [] (path_pieces path)) (\<lambda>opened.
            if opened = [] then Inl (AcquisitionFatal InvalidProfile) else Inr opened)))"

fun open_relative_components :: "(str list \<Rightarrow> open_outcome) \<Rightarrow> str list \<Rightarrow> str list \<Rightarrow> (str list, acquisition_error) result" where
  "open_relative_components open_at opened [] = Inr opened"
| "open_relative_components open_at opened (name # names) =
     (if name = lit ''.'' \<or> name = lit ''..'' then Inl (AcquisitionFatal InvalidRelativePath)
      else
        (case open_at (opened @ [name]) of
          Inl missing \<Rightarrow> Inl (AcquisitionFatal (if missing then MissingDirectory else UnsafeLayout))
        | Inr None \<Rightarrow> Inl AcquisitionChanged
        | Inr (Some stat) \<Rightarrow>
            if db_file_type stat \<noteq> DirectoryFile then Inl (AcquisitionFatal UnsafeLayout)
            else open_relative_components open_at (opened @ [name]) names))"

definition open_relative_directory ::
    "bool \<Rightarrow> (str list \<Rightarrow> open_outcome) \<Rightarrow> str list \<Rightarrow> str \<Rightarrow> (str list, acquisition_error) result" where
  "open_relative_directory cloned open_at profile_directory relative =
     (if \<not> cloned then Inl (AcquisitionFatal InvalidProfile)
      else open_relative_components open_at profile_directory (path_pieces relative))"

fun inspect_entries ::
    "(nat list \<times> file_identity option) option list \<Rightarrow> directory_entry_identity list \<Rightarrow>
     (directory_entry_identity list, leveldb_error) result" where
  "inspect_entries [] entries = Inr entries"
| "inspect_entries (item # items) entries =
     (if length entries \<ge> MAX_DIRECTORY_ENTRIES then Inl DbTooManyEntries
      else
        (case item of
          None \<Rightarrow> Inl UnsafeLayout
        | Some (name_bytes, stat) \<Rightarrow>
            if name_bytes = lit ''.'' \<or> name_bytes = lit ''..'' then inspect_entries items entries
            else
              (case from_utf8 name_bytes of
                None \<Rightarrow> Inl UnsafeLayout
              | Some name \<Rightarrow>
                  if name = [] \<or> str_len name > MAX_FILE_NAME_BYTES then Inl UnsafeLayout
                  else
                    (case stat of
                      None \<Rightarrow> Inl UnsafeLayout
                    | Some stat \<Rightarrow>
                        if db_file_type stat \<noteq> RegularFile then Inl UnsafeLayout
                        else inspect_entries items
                          (entries @ [\<lparr>de_name = name, de_identity = stat, de_kind = classify_leveldb_file name\<rparr>])))))"

text \<open>The names of one directory are distinct, so sorting by name is sorting by the derived order.\<close>

definition inspect_directory :: "directory_reading \<Rightarrow> (directory_inspection, leveldb_error) result" where
  "inspect_directory reading =
     (case dr_stat reading of
       None \<Rightarrow> Inl UnsafeLayout
     | Some stat \<Rightarrow>
         if db_file_type stat \<noteq> DirectoryFile then Inl UnsafeLayout
         else
           and_then (ok_or UnsafeLayout (dr_stream reading)) (\<lambda>items.
           and_then (inspect_entries items []) (\<lambda>entries.
           Inr \<lparr>di_directory = stat, di_entries = sort_key de_name entries\<rparr>)))"

definition read_file_image ::
    "file_reading \<Rightarrow> directory_entry_identity \<Rightarrow> (leveldb_file_kind \<times> nat list, acquisition_error) result" where
  "read_file_image reading expected =
     and_then (ok_or (AcquisitionFatal DbMalformed) (de_kind expected)) (\<lambda>kind.
     and_then (ok_or AcquisitionChanged (fr_opened reading)) (\<lambda>opened.
     if db_file_type opened \<noteq> RegularFile \<or> opened \<noteq> de_identity expected then Inl AcquisitionChanged
     else if fi_size opened < 0 then Inl (AcquisitionFatal DbTooLarge)
     else
       and_then (ok_or AcquisitionChanged (fr_contents reading)) (\<lambda>contents.
       let bytes = take (MAX_LEVELDB_FILE_BYTES + 1) contents in
       if length bytes \<noteq> nat (fi_size opened) then Inl AcquisitionChanged
       else
         and_then (ok_or AcquisitionChanged (fr_closed_over reading)) (\<lambda>closed_over.
         if closed_over \<noteq> de_identity expected then Inl AcquisitionChanged else Inr (kind, bytes)))))"

fun aggregate_sizes :: "directory_entry_identity list \<Rightarrow> nat \<Rightarrow> (nat, leveldb_error) result" where
  "aggregate_sizes [] total_bytes = Inr total_bytes"
| "aggregate_sizes (entry # entries) total_bytes =
     (let len = fi_size (de_identity entry) in
      if len < 0 then Inl UnsafeLayout
      else if nat len > MAX_LEVELDB_FILE_BYTES then Inl DbTooLarge
      else
        and_then (ok_or DbTooLarge (case checked_add u64_max total_bytes (nat len) of
            Some s \<Rightarrow> if s \<le> MAX_LEVELDB_AGGREGATE_BYTES then Some s else None | None \<Rightarrow> None)) (\<lambda>total_bytes.
        aggregate_sizes entries total_bytes))"

fun read_images ::
    "(str \<Rightarrow> file_reading) \<Rightarrow> directory_entry_identity list \<Rightarrow> nat \<Rightarrow>
     ((leveldb_file_kind \<times> nat list) list \<times> nat, acquisition_error) result" where
  "read_images readings [] read_total = Inr ([], read_total)"
| "read_images readings (entry # entries) read_total =
     and_then (read_file_image (readings (de_name entry)) entry) (\<lambda>img.
     and_then (ok_or (AcquisitionFatal DbTooLarge) (checked_add u64_max read_total (length (snd img)))) (\<lambda>read_total.
     and_then (read_images readings entries read_total) (\<lambda>(images, read_total).
     Inr (img # images, read_total))))"

definition acquire_images_once ::
    "attempt_world \<Rightarrow> str \<Rightarrow> str \<Rightarrow> ((leveldb_file_kind \<times> nat list) list, acquisition_error) result" where
  "acquire_images_once world profile relative =
     and_then (open_profile_directory (aw_open_path world) profile) (\<lambda>profile_directory.
     and_then (ok_or (AcquisitionFatal InvalidProfile) (aw_profile_stat world)) (\<lambda>profile_stat.
     if db_file_type profile_stat \<noteq> DirectoryFile then Inl (AcquisitionFatal InvalidProfile)
     else
       and_then (open_relative_directory (aw_clone world) (aw_open_relative world) profile_directory relative) (\<lambda>_.
       and_then (map_err AcquisitionFatal (inspect_directory (aw_before world))) (\<lambda>before.
       let relevant = filter (\<lambda>entry. de_kind entry \<noteq> None) (di_entries before) in
       if length relevant > MAX_LEVELDB_FILES then Inl (AcquisitionFatal DbTooManyEntries)
       else
         and_then (map_err AcquisitionFatal (aggregate_sizes relevant 0)) (\<lambda>aggregate.
         and_then (read_images (aw_file world) relevant 0) (\<lambda>(images, read_total).
         if read_total \<noteq> aggregate then Inl AcquisitionChanged
         else
           and_then (map_err (\<lambda>_. AcquisitionChanged) (inspect_directory (aw_after world))) (\<lambda>after.
           if di_directory before \<noteq> di_directory after \<or> di_entries before \<noteq> di_entries after
           then Inl AcquisitionChanged else Inr images)))))))"

text \<open>The attempts, one world each, in the order they are made.\<close>

fun acquire_stable_images ::
    "attempt_world list \<Rightarrow> str \<Rightarrow> str \<Rightarrow> ((leveldb_file_kind \<times> nat list) list, leveldb_error) result" where
  "acquire_stable_images [] profile relative = Inl DbChanged"
| "acquire_stable_images (world # worlds) profile relative =
     (case acquire_images_once world profile relative of
       Inr images \<Rightarrow> Inr images
     | Inl AcquisitionChanged \<Rightarrow> acquire_stable_images worlds profile relative
     | Inl (AcquisitionFatal e) \<Rightarrow> Inl e)"

definition leveldb_open ::
    "(nat \<Rightarrow> attempt_world) \<Rightarrow> browser_kind \<Rightarrow> str \<Rightarrow> str \<Rightarrow> (record_map \<times> nat, leveldb_error) result" where
  "leveldb_open world browser profile relative =
     and_then (ensure_chromium browser) (\<lambda>_.
     and_then (validate_relative_directory relative) (\<lambda>_.
     and_then (acquire_stable_images (map world [0..<SNAPSHOT_ATTEMPTS]) profile relative) (\<lambda>images.
     and_then (parse_images images) (\<lambda>records.
     Inr (records, length images)))))"

section \<open>Text\<close>

definition MAX_TEXT_BYTES :: nat where [limit_defs]: "MAX_TEXT_BYTES = 256 * 1024"
definition MAX_ORIGIN_BYTES :: nat where [limit_defs]: "MAX_ORIGIN_BYTES = 2 * 1024"
definition MAX_TOKEN_BYTES :: nat where [limit_defs]: "MAX_TOKEN_BYTES = 16 * 1024"
definition MAX_TOKEN_CANDIDATES :: nat where [limit_defs]: "MAX_TOKEN_CANDIDATES = 256"
definition DEFAULT_TOKEN_MINIMUM_BYTES :: nat where [limit_defs]: "DEFAULT_TOKEN_MINIMUM_BYTES = 60"

fun utf16_units :: "nat list \<Rightarrow> nat list option" where
  "utf16_units [] = Some []"
| "utf16_units [b] = None"
| "utf16_units (a # b # bs) = map_option ((#) (a + 256 * b)) (utf16_units bs)"

fun decode_utf16 :: "nat list \<Rightarrow> str option" where
  "decode_utf16 [] = Some []"
| "decode_utf16 (u # us) =
     (if u < 0xd800 \<or> 0xe000 \<le> u then map_option ((#) u) (decode_utf16 us)
      else if 0xdc00 \<le> u then None
      else
        (case us of
          [] \<Rightarrow> None
        | v # vs \<Rightarrow>
            if 0xdc00 \<le> v \<and> v < 0xe000
            then map_option ((#) (0x10000 + (u - 0xd800) * 0x400 + (v - 0xdc00))) (decode_utf16 vs) else None))"

definition decode_utf16_le :: "nat list \<Rightarrow> str option" where
  "decode_utf16_le bytes = (case utf16_units bytes of None \<Rightarrow> None | Some units \<Rightarrow> decode_utf16 units)"

fun decode_prefixed_text :: "nat list \<Rightarrow> str option" where
  "decode_prefixed_text [] = None"
| "decode_prefixed_text (prefix # payload) =
     (if prefix = 0 then decode_utf16_le payload else if prefix = 1 then Some payload else None)"

fun every_other :: "'a list \<Rightarrow> 'a list" where
  "every_other [] = []"
| "every_other [x] = [x]"
| "every_other (x # y # xs) = x # every_other xs"

definition looks_like_utf16 :: "nat list \<Rightarrow> bool" where
  "looks_like_utf16 bytes \<longleftrightarrow>
     \<not> (length bytes < 6 \<or> length bytes mod 2 \<noteq> 0) \<and>
     (let odd_bytes = every_other (drop 1 (take 64 bytes)); checked = length odd_bytes in
      checked \<ge> 4 \<and> length (filter (\<lambda>b. b = 0) odd_bytes) * 10 > checked * 6)"

definition trim_controls :: "str \<Rightarrow> str" where
  "trim_controls s = rev (dropWhile is_control (rev (dropWhile is_control s)))"

definition bounded_db_text :: "str \<Rightarrow> (str, leveldb_error) result" where
  "bounded_db_text v = (let trimmed = trim_controls v in if str_len trimmed > MAX_TEXT_BYTES then Inl DbTooLarge else Inr trimmed)"

definition bounded_exact_text :: "str \<Rightarrow> (str, leveldb_error) result" where
  "bounded_exact_text v = (if str_len v > MAX_TEXT_BYTES then Inl DbTooLarge else Inr v)"

definition decode_optional_text :: "nat list \<Rightarrow> (str option, leveldb_error) result" where
  "decode_optional_text bytes =
     (if bytes = [] then Inr None
      else if length bytes > MAX_TEXT_BYTES then Inr None
      else
        (case decode_prefixed_text bytes of
          Some decoded \<Rightarrow> map_ok Some (bounded_db_text decoded)
        | None \<Rightarrow>
            (case (if looks_like_utf16 bytes then decode_utf16_le bytes else None) of
              Some decoded \<Rightarrow> map_ok Some (bounded_db_text decoded)
            | None \<Rightarrow>
                (case from_utf8 bytes of
                  Some decoded \<Rightarrow> map_ok Some (bounded_db_text decoded)
                | None \<Rightarrow>
                    (case (if length bytes mod 2 = 0 then decode_utf16_le bytes else None) of
                      Some decoded \<Rightarrow> map_ok Some (bounded_db_text decoded)
                    | None \<Rightarrow> map_ok Some (bounded_db_text bytes))))))"

definition decode_required_text :: "nat list \<Rightarrow> (str, leveldb_error) result" where
  "decode_required_text bytes =
     (if length bytes > MAX_TEXT_BYTES then Inl DbTooLarge
      else
        (case decode_prefixed_text bytes of
          Some decoded \<Rightarrow> bounded_exact_text decoded
        | None \<Rightarrow> and_then (decode_optional_text bytes) (ok_or DbMalformed)))"

section \<open>Origins\<close>

definition contains_str :: "str \<Rightarrow> str \<Rightarrow> bool" where
  "contains_str pattern s \<longleftrightarrow> list_ex (\<lambda>i. take (length pattern) (drop i s) = pattern) [0..<Suc (length s)]"

record https_origin =
  ho_canonical :: str
  ho_host :: str
  ho_port :: nat

fun canonical_db_host :: "host \<Rightarrow> (str \<times> str) option" where
  "canonical_db_host (HostDomain domain) =
     (if domain \<noteq> [] then Some (map to_ascii_lowercase domain, map to_ascii_lowercase domain) else None)"
| "canonical_db_host (HostIpv4 address) = Some (ipv4_text address, ipv4_text address)"
| "canonical_db_host (HostIpv6 address) = Some (ipv6_text address, lit ''['' @ ipv6_text address @ lit '']'')"

definition parse_https_origin :: "(str \<Rightarrow> url option) \<Rightarrow> str \<Rightarrow> https_origin option" where
  "parse_https_origin parse_url v =
     (if v = [] \<or> str_len v > MAX_ORIGIN_BYTES \<or> list_ex is_whitespace v then None
      else
        (case parse_url v of
          None \<Rightarrow> None
        | Some u \<Rightarrow>
            if ur_scheme u \<noteq> lit ''https'' \<or> ur_username u \<noteq> [] \<or> ur_password u \<noteq> None \<or> ur_query u \<noteq> None \<or>
               ur_fragment u \<noteq> None \<or> ur_path u \<noteq> lit ''/'' then None
            else
              (case ur_host u of
                None \<Rightarrow> None
              | Some h \<Rightarrow>
                  (case canonical_db_host h of
                    None \<Rightarrow> None
                  | Some (host_text, display_host) \<Rightarrow>
                      (case ur_port u of
                        None \<Rightarrow> None
                      | Some port \<Rightarrow>
                          Some \<lparr>ho_canonical = (if port = 443 then lit ''https://'' @ display_host
                                  else lit ''https://'' @ display_host @ lit '':'' @ decimal port),
                                ho_host = host_text, ho_port = port\<rparr>)))))"

definition origin_parse :: "(str \<Rightarrow> url option) \<Rightarrow> str \<Rightarrow> (https_origin, leveldb_error) result" where
  "origin_parse parse_url v = ok_or InvalidOrigin (parse_https_origin parse_url v)"

definition looks_like_legacy_origin :: "str \<Rightarrow> bool" where
  "looks_like_legacy_origin v \<longleftrightarrow>
     v \<noteq> [] \<and> str_len v \<le> MAX_ORIGIN_BYTES \<and> \<not> list_ex (\<lambda>c. c \<in> set (lit ''/?#@'')) v \<and>
     \<not> list_ex is_whitespace v \<and>
     (v = lit ''localhost'' \<or> 46 \<in> set v \<or> starts_with 91 v)"

definition storage_origin_matches :: "(str \<Rightarrow> url option) \<Rightarrow> str \<Rightarrow> https_origin \<Rightarrow> bool" where
  "storage_origin_matches parse_url serialized requested \<longleftrightarrow>
     (let base = (case split_once 94 serialized of None \<Rightarrow> serialized | Some (base, _) \<Rightarrow> base) in
      if base = [] \<or> str_len base > MAX_ORIGIN_BYTES then False
      else if contains_str (lit ''://'') base then is_some_and (\<lambda>parsed. parsed = requested) (parse_https_origin parse_url base)
      else if ho_port requested \<noteq> 443 \<or> \<not> looks_like_legacy_origin base then False
      else is_some_and (\<lambda>parsed. ho_port parsed = 443 \<and> ho_host parsed = ho_host requested)
             (parse_https_origin parse_url (lit ''https://'' @ base)))"

definition decode_local_storage_key :: "nat list \<Rightarrow> ((str \<times> str) option, leveldb_error) result" where
  "decode_local_storage_key bytes =
     (let modern = (bytes \<noteq> [] \<and> hd bytes = 95); tail = (if modern then drop 1 bytes else bytes) in
      if 0 \<notin> set tail then Inr None
      else
        let origin_bytes = takeWhile (\<lambda>b. b \<noteq> 0) tail; key_bytes = drop (length origin_bytes + 1) tail in
        if origin_bytes = [] \<or> length origin_bytes > MAX_ORIGIN_BYTES \<or> length key_bytes > MAX_TEXT_BYTES then
          if length origin_bytes > MAX_ORIGIN_BYTES \<or> length key_bytes > MAX_TEXT_BYTES then Inl DbTooLarge else Inr None
        else
          (case from_utf8 origin_bytes of
            None \<Rightarrow> Inr None
          | Some origin \<Rightarrow>
              if \<not> modern \<and> \<not> looks_like_legacy_origin origin then Inr None
              else
                (case decode_prefixed_text key_bytes of
                  Some decoded \<Rightarrow> map_ok (\<lambda>key. Some (origin, key)) (bounded_exact_text decoded)
                | None \<Rightarrow> map_ok (map_option (\<lambda>key. (origin, key))) (decode_optional_text key_bytes))))"

section \<open>Projections\<close>

record logical_local_value =
  lv_sequence :: nat
  lv_raw_length :: nat
  lv_value :: "str option"

record local_storage_entry =
  le_origin :: https_origin
  le_key :: str
  le_text :: str
  le_raw_length :: nat
  le_sequence :: nat

definition project_record ::
    "(str \<Rightarrow> url option) \<Rightarrow> https_origin \<Rightarrow> nat list \<times> versioned_value \<Rightarrow> (nat list, logical_local_value) btree_map \<Rightarrow>
     ((nat list, logical_local_value) btree_map, leveldb_error) result" where
  "project_record parse_url origin = (\<lambda>(raw_key, version) logical.
     and_then (decode_local_storage_key raw_key) (\<lambda>decoded_key.
     case decoded_key of
       None \<Rightarrow> Inr logical
     | Some (serialized_origin, local_key) \<Rightarrow>
         if \<not> storage_origin_matches parse_url serialized_origin origin then Inr logical
         else
           let logical_key = as_bytes local_key;
               raw_value_length = (case vv_value version of None \<Rightarrow> 0 | Some v \<Rightarrow> length v) in
           and_then (try_option decode_required_text (vv_value version)) (\<lambda>decoded.
           let fresh = bt_insert logical_key \<lparr>lv_sequence = vv_sequence version, lv_raw_length = raw_value_length, lv_value = decoded\<rparr> logical in
           case bt_get logical logical_key of
             None \<Rightarrow> Inr fresh
           | Some existing \<Rightarrow>
               if vv_sequence version > lv_sequence existing then Inr fresh
               else if vv_sequence version = lv_sequence existing then
                 if lv_value existing \<noteq> decoded then Inl DbMalformed else Inr logical
               else Inr logical)))"

fun project_records ::
    "(str \<Rightarrow> url option) \<Rightarrow> https_origin \<Rightarrow> (nat list \<times> versioned_value) list \<Rightarrow> (nat list, logical_local_value) btree_map \<Rightarrow>
     ((nat list, logical_local_value) btree_map, leveldb_error) result" where
  "project_records parse_url origin [] logical = Inr logical"
| "project_records parse_url origin (entry # entries) logical =
     and_then (project_record parse_url origin entry logical) (project_records parse_url origin entries)"

definition local_entry :: "https_origin \<Rightarrow> nat list \<times> logical_local_value \<Rightarrow> (local_storage_entry, leveldb_error) result option" where
  "local_entry origin = (\<lambda>(key, selected).
     map_option (\<lambda>v. map_ok (\<lambda>key. \<lparr>le_origin = origin, le_key = key, le_text = v,
         le_raw_length = lv_raw_length selected, le_sequence = lv_sequence selected\<rparr>) (ok_or DbMalformed (from_utf8 key)))
       (lv_value selected))"

definition project_local_storage ::
    "(str \<Rightarrow> url option) \<Rightarrow> record_map \<Rightarrow> https_origin \<Rightarrow> (local_storage_entry list, leveldb_error) result" where
  "project_local_storage parse_url records origin =
     and_then (project_records parse_url origin (bt_entries records) bt_empty) (\<lambda>logical.
     try_map id (List.map_filter (local_entry origin) (bt_entries logical)))"

record db_text_entry =
  dt_key :: str
  dt_text :: str
  dt_sequence :: nat

fun project_text_from :: "(nat list \<times> versioned_value) list \<Rightarrow> db_text_entry list \<Rightarrow> (db_text_entry list, leveldb_error) result" where
  "project_text_from [] out = Inr out"
| "project_text_from ((key, version) # entries) out =
     (case vv_value version of
       None \<Rightarrow> project_text_from entries out
     | Some v \<Rightarrow>
         and_then (decode_optional_text key) (\<lambda>key.
         case key of
           None \<Rightarrow> project_text_from entries out
         | Some key \<Rightarrow>
             and_then (decode_optional_text v) (\<lambda>v.
             case v of
               None \<Rightarrow> project_text_from entries out
             | Some v \<Rightarrow>
                 if length out \<ge> MAX_LEVELDB_ENTRIES then Inl DbTooManyEntries
                 else project_text_from entries (out @ [\<lparr>dt_key = key, dt_text = v, dt_sequence = vv_sequence version\<rparr>]))))"

definition project_text_entries :: "record_map \<Rightarrow> (db_text_entry list, leveldb_error) result" where
  "project_text_entries records = project_text_from (bt_entries records) []"

definition token_byte :: "nat \<Rightarrow> bool" where
  "token_byte b \<longleftrightarrow> is_ascii_alphanumeric b \<or> b \<in> set (lit ''._-+/='')"

definition insert_token_run ::
    "nat list \<Rightarrow> nat \<Rightarrow> (nat list, unit) btree_map \<Rightarrow> ((nat list, unit) btree_map, leveldb_error) result" where
  "insert_token_run run minimum_bytes tokens =
     (if length run < minimum_bytes \<or> length run > MAX_TOKEN_BYTES then Inr tokens
      else
        let tokens = bt_insert run () tokens in
        if bt_len tokens > MAX_TOKEN_CANDIDATES then Inl DbTooManyEntries else Inr tokens)"

text \<open>The scan, with the run it is inside of; an empty run is no run.\<close>

fun scan_run ::
    "nat \<Rightarrow> nat list \<Rightarrow> nat list \<Rightarrow> (nat list, unit) btree_map \<Rightarrow> ((nat list, unit) btree_map, leveldb_error) result" where
  "scan_run minimum_bytes run [] tokens = (if run = [] then Inr tokens else insert_token_run run minimum_bytes tokens)"
| "scan_run minimum_bytes run (b # bs) tokens =
     (if token_byte b then scan_run minimum_bytes (run @ [b]) bs tokens
      else if run = [] then scan_run minimum_bytes [] bs tokens
      else and_then (insert_token_run run minimum_bytes tokens) (scan_run minimum_bytes [] bs))"

definition scan_tokens ::
    "nat list \<Rightarrow> nat \<Rightarrow> (nat list, unit) btree_map \<Rightarrow> ((nat list, unit) btree_map, leveldb_error) result" where
  "scan_tokens bytes minimum_bytes tokens = scan_run minimum_bytes [] bytes tokens"

fun scan_records ::
    "nat \<Rightarrow> (nat list \<times> versioned_value) list \<Rightarrow> (nat list, unit) btree_map \<Rightarrow> ((nat list, unit) btree_map, leveldb_error) result" where
  "scan_records minimum_bytes [] tokens = Inr tokens"
| "scan_records minimum_bytes ((key, version) # entries) tokens =
     and_then (scan_tokens key minimum_bytes tokens) (\<lambda>tokens.
     and_then (case vv_value version of None \<Rightarrow> Inr tokens | Some v \<Rightarrow> scan_tokens v minimum_bytes tokens)
       (scan_records minimum_bytes entries))"

definition project_token_candidates :: "record_map \<Rightarrow> nat \<Rightarrow> (str list, leveldb_error) result" where
  "project_token_candidates records minimum_bytes =
     (if minimum_bytes = 0 \<or> minimum_bytes > MAX_TOKEN_BYTES then Inl InvalidTokenPolicy
      else
        and_then (scan_records minimum_bytes (bt_entries records) bt_empty) (\<lambda>tokens.
        try_map (\<lambda>token. ok_or DbMalformed (from_utf8 token)) (bt_keys tokens)))"

definition default_token_candidates :: "record_map \<Rightarrow> (str list, leveldb_error) result" where
  "default_token_candidates records = project_token_candidates records DEFAULT_TOKEN_MINIMUM_BYTES"

end
