(* ===== verification/Leveldb_Merge.thy ===== *)
theory Leveldb_Merge
  imports Leveldb_Store
begin

text \<open>
  What the reader of Chromium's LevelDB files promises: the parse
  stays within its budget, the newest version of every key wins whatever the order of the files,
  and the local storage projected for an origin comes from that origin alone.
\<close>

section \<open>The newest version wins\<close>

text \<open>
  The merge of all files and the projection of one origin both fold over records and keep, per
  key, the version with the highest sequence number; equal numbers must agree.
\<close>

fun try_fold :: "('m \<Rightarrow> 'r \<Rightarrow> ('m, 'e) result) \<Rightarrow> 'm \<Rightarrow> 'r list \<Rightarrow> ('m, 'e) result" where
  "try_fold step m [] = Inr m"
| "try_fold step m (r # rs) = and_then (step m r) (\<lambda>m. try_fold step m rs)"

definition newest_of :: "(nat \<times> 'v) set \<Rightarrow> (nat \<times> 'v) option \<Rightarrow> bool" where
  "newest_of S w \<longleftrightarrow>
     (case w of
       None \<Rightarrow> S = {}
     | Some v \<Rightarrow> v \<in> S \<and> (\<forall>x\<in>S. fst x \<le> fst v \<and> (fst x = fst v \<longrightarrow> x = v)))"

lemma newest_of_unique:
  assumes "newest_of S w" "newest_of S w'"
  shows "w = w'"
proof (cases w; cases w')
  fix v v'
  assume "w = Some v" "w' = Some v'"
  with assms have "v \<in> S" "v' \<in> S" "fst v' \<le> fst v" "fst v \<le> fst v'" "fst v' = fst v \<longrightarrow> v' = v"
    unfolding newest_of_def by auto
  with \<open>w = Some v\<close> \<open>w' = Some v'\<close> show ?thesis by auto
qed (use assms in \<open>auto simp: newest_of_def\<close>)

locale newest_wins =
  fixes step :: "'m \<Rightarrow> 'r \<Rightarrow> ('m, 'e) result"
    and get :: "'m \<Rightarrow> 'k \<Rightarrow> (nat \<times> 'v) option"
    and key :: "'r \<Rightarrow> 'k option"
    and version :: "'r \<Rightarrow> nat \<times> 'v"
  assumes step_skip: "step m r = Inr m' \<Longrightarrow> key r = None \<Longrightarrow> get m' = get m"
    and step_take: "step m r = Inr m' \<Longrightarrow> key r = Some k \<Longrightarrow>
      get m' = get m \<and> (\<exists>v. get m k = Some v \<and> (fst (version r) < fst v \<or> version r = v)) \<or>
      get m' = (get m)(k \<mapsto> version r) \<and> (\<forall>v. get m k = Some v \<longrightarrow> fst v < fst (version r))"
begin

lemma step_newest:
  assumes "step m r = Inr m'" and old: "newest_of S (get m k)"
  shows "newest_of (S \<union> {version r |u::unit. key r = Some k}) (get m' k)"
proof (cases "key r = Some k")
  case False
  have "get m' k = get m k"
    using False step_skip [OF assms(1)] step_take [OF assms(1)] by (cases "key r") (auto simp: fun_upd_def)
  with False old show ?thesis by simp
next
  case True
  from step_take [OF assms(1) True] show ?thesis
  proof (elim disjE conjE exE)
    fix v
    assume "get m' = get m" "get m k = Some v" "fst (version r) < fst v"
    with True old show ?thesis by (auto simp: newest_of_def)
  next
    fix v
    assume "get m' = get m" "get m k = Some v" "version r = v"
    with True old show ?thesis by (auto simp: newest_of_def)
  next
    assume "get m' = (get m)(k \<mapsto> version r)" "\<forall>v. get m k = Some v \<longrightarrow> fst v < fst (version r)"
    with True old show ?thesis by (cases "get m k") (auto simp: newest_of_def dest: le_less_trans)
  qed
qed

lemma run_newest:
  assumes "try_fold step m rs = Inr m'" "newest_of S (get m k)"
  shows "newest_of (S \<union> {version r |r. r \<in> set rs \<and> key r = Some k}) (get m' k)"
  using assms
proof (induction rs arbitrary: m S)
  case (Cons r rs)
  then obtain m1 where m1: "step m r = Inr m1" "try_fold step m1 rs = Inr m'" by (auto simp: and_then_Inr)
  have "S \<union> {version r |u::unit. key r = Some k} \<union> {version q |q. q \<in> set rs \<and> key q = Some k} =
      S \<union> {version q |q. q \<in> set (r # rs) \<and> key q = Some k}" by auto
  with Cons.IH [OF m1(2) step_newest [OF m1(1) Cons.prems(2)]] show ?case by simp
qed simp

lemma newest_version:
  "try_fold step m rs = Inr m' \<Longrightarrow> get m k = None \<Longrightarrow> newest_of {version r |r. r \<in> set rs \<and> key r = Some k} (get m' k)"
  using run_newest [of m rs m' "{}" k] by (simp add: newest_of_def)

end

definition version_of :: "record_map \<Rightarrow> nat list \<Rightarrow> (nat \<times> nat list option) option" where
  "version_of records k = map_option (\<lambda>v. (vv_sequence v, vv_value v)) (bt_get records k)"

lemma merge_records_fold: "merge_records records recs = try_fold merge_record records recs"
  by (induction recs arbitrary: records) simp_all

interpretation merged: newest_wins merge_record version_of "\<lambda>r. Some (pr_key r)" "\<lambda>r. (pr_sequence r, pr_value r)"
proof unfold_locales
  fix m r m' k
  assume "merge_record m r = Inr m'" "Some (pr_key r) = Some k"
  then show "version_of m' = version_of m \<and> (\<exists>v. version_of m k = Some v \<and> (fst (pr_sequence r, pr_value r) < fst v \<or> (pr_sequence r, pr_value r) = v)) \<or>
      version_of m' = (version_of m)(k \<mapsto> (pr_sequence r, pr_value r)) \<and> (\<forall>v. version_of m k = Some v \<longrightarrow> fst v < fst (pr_sequence r, pr_value r))"
    by (auto simp: merge_record_def version_of_def fun_eq_iff split: option.splits if_splits)
qed simp

lemma merge_total:
  assumes "\<forall>r\<in>set recs. \<forall>r'\<in>set recs. pr_key r = pr_key r' \<and> pr_sequence r = pr_sequence r' \<longrightarrow> pr_value r = pr_value r'"
  shows "\<exists>m. merge_records bt_empty recs = Inr m"
proof -
  have run: "\<exists>m'. merge_records m recs = Inr m'"
    if "\<forall>r\<in>set recs. \<forall>v. bt_get m (pr_key r) = Some v \<and> vv_sequence v = pr_sequence r \<longrightarrow> vv_value v = pr_value r"
      "\<forall>r\<in>set recs. \<forall>r'\<in>set recs. pr_key r = pr_key r' \<and> pr_sequence r = pr_sequence r' \<longrightarrow> pr_value r = pr_value r'"
    for m using that
  proof (induction recs arbitrary: m)
    case Nil
    show ?case by (rule exI, rule merge_records.simps(1))
  next
    case (Cons r rs)
    have "\<exists>m1. merge_record m r = Inr m1" using Cons.prems(1) by (auto simp: merge_record_def split: option.splits)
    then obtain m1 where m1: "merge_record m r = Inr m1" by blast
    have "bt_get m1 k = bt_get m k \<or> k = pr_key r \<and> bt_get m1 k = Some \<lparr>vv_sequence = pr_sequence r, vv_value = pr_value r\<rparr>" for k
      using m1 by (auto simp: merge_record_def split: option.splits if_splits)
    note put = this
    have "vv_value v = pr_value q" if q: "q \<in> set rs" and v: "bt_get m1 (pr_key q) = Some v" "vv_sequence v = pr_sequence q" for q v
      using put [of "pr_key q"]
    proof
      assume "bt_get m1 (pr_key q) = bt_get m (pr_key q)"
      with v Cons.prems(1) q show ?thesis by simp
    next
      assume "pr_key q = pr_key r \<and> bt_get m1 (pr_key q) = Some \<lparr>vv_sequence = pr_sequence r, vv_value = pr_value r\<rparr>"
      then have "pr_key r = pr_key q" "v = \<lparr>vv_sequence = pr_sequence r, vv_value = pr_value r\<rparr>" using v(1) by simp_all
      moreover have "pr_key r = pr_key q \<and> pr_sequence r = pr_sequence q \<longrightarrow> pr_value r = pr_value q"
        using bspec [OF bspec [OF Cons.prems(2)], of r q] q by simp
      ultimately show ?thesis using v(2) by simp
    qed
    then have "\<forall>q\<in>set rs. \<forall>v. bt_get m1 (pr_key q) = Some v \<and> vv_sequence v = pr_sequence q \<longrightarrow> vv_value v = pr_value q" by blast
    moreover have "\<forall>q\<in>set rs. \<forall>q'\<in>set rs. pr_key q = pr_key q' \<and> pr_sequence q = pr_sequence q' \<longrightarrow> pr_value q = pr_value q'"
      using Cons.prems(2) by (meson list.set_intros(2))
    ultimately obtain m2 where "merge_records m1 rs = Inr m2" using Cons.IH by blast
    with m1 have "merge_records m (r # rs) = Inr m2" by (simp only: merge_records.simps and_then_simps)
    then show ?case by blast
  qed
  show ?thesis by (rule run [OF _ assms]) simp
qed

section \<open>The budget\<close>

definition record_bytes :: "parsed_record \<Rightarrow> nat" where
  "record_bytes r = length (pr_key r) + (case pr_value r of None \<Rightarrow> 0 | Some v \<Rightarrow> length v)"

definition budget_ok :: "parse_budget \<Rightarrow> bool" where
  "budget_ok b \<longleftrightarrow> pb_entries b \<le> MAX_LEVELDB_ENTRIES \<and> pb_reconstructed b \<le> MAX_RECONSTRUCTED_ENTRY_BYTES"

text \<open>What a parse charges: at least the entries and bytes of the records it returns.\<close>

definition charged :: "parse_budget \<Rightarrow> nat \<Rightarrow> nat \<Rightarrow> parse_budget \<Rightarrow> bool" where
  "charged b entries bytes b' \<longleftrightarrow>
     pb_entries b + entries \<le> pb_entries b' \<and> pb_reconstructed b + bytes \<le> pb_reconstructed b' \<and> (budget_ok b \<longrightarrow> budget_ok b')"

lemma charged_refl: "charged b 0 0 b"
  by (simp add: charged_def)

lemma charged_trans: "charged b m k b' \<Longrightarrow> charged b' n l b'' \<Longrightarrow> charged b (m + n) (k + l) b''"
  by (auto simp: charged_def)

lemma charged_less: "charged b m k b' \<Longrightarrow> m' \<le> m \<Longrightarrow> k' \<le> k \<Longrightarrow> charged b m' k' b'"
  by (auto simp: charged_def)

lemma reserve_entries_charged: "reserve_entries b n = Inr b' \<Longrightarrow> charged b n 0 b'"
  by (auto simp: reserve_entries_def result_simps add_within_def checked_add_def charged_def budget_ok_def split: option.splits if_splits)

lemma reserve_bytes_charged: "reserve_reconstructed_entry_bytes b k v = Inr b' \<Longrightarrow> charged b 0 (k + v) b'"
  by (auto simp: reserve_reconstructed_entry_bytes_def result_simps add_within_def checked_add_def charged_def budget_ok_def
      split: option.splits if_splits)

lemma and_thenE:
  assumes "and_then r f = Inr y"
  obtains x where "r = Inr x" "f x = Inr y"
  using assms by (auto simp: and_then_Inr)

definition records_bytes :: "parsed_record list \<Rightarrow> nat" where
  "records_bytes rs = sum_list (map record_bytes rs)"

lemma records_bytes_simps [simp]:
  "records_bytes [] = 0" "records_bytes (r # rs) = record_bytes r + records_bytes rs"
  "records_bytes (rs @ qs) = records_bytes rs + records_bytes qs"
  by (simp_all add: records_bytes_def)

lemma batch_entry_charged:
  assumes "batch_entry base index r b = Inr (rec, r', b')"
  shows "charged b 0 (record_bytes rec) b'"
proof -
  from assms obtain key v where rec: "rec = \<lparr>pr_key = key, pr_sequence = base + index, pr_value = v\<rparr>"
    and charge: "reserve_reconstructed_entry_bytes b (length key) (case v of None \<Rightarrow> 0 | Some v \<Rightarrow> length v) = Inr b'"
    unfolding batch_entry_def by (elim and_thenE) (auto simp: result_simps checked_add_def elim!: and_thenE split: if_splits option.splits)
  from reserve_bytes_charged [OF charge] rec show ?thesis by (simp add: record_bytes_def)
qed

lemma batch_loop_charged:
  "batch_loop base indices r b recs = Inr (out, r', b') \<Longrightarrow>
     \<exists>new. out = recs @ new \<and> length new = length indices \<and> charged b 0 (records_bytes new) b'"
proof (induction indices arbitrary: r b recs)
  case (Cons index indices)
  then obtain rec r1 b1 where entry: "batch_entry base index r b = Inr (rec, r1, b1)"
    and rest: "batch_loop base indices r1 b1 (recs @ [rec]) = Inr (out, r', b')" by (auto simp: and_then_Inr)
  from Cons.IH [OF rest] obtain new where new: "out = (recs @ [rec]) @ new" "length new = length indices" "charged b1 0 (records_bytes new) b'" by blast
  from charged_trans [OF batch_entry_charged [OF entry] new(3)] new(1,2) show ?case
    by (intro exI [of _ "rec # new"]) simp
qed (simp add: charged_refl)

lemma parse_write_batch_charged:
  assumes "parse_write_batch bytes b = Inr (recs, b')"
  shows "charged b (length recs) (records_bytes recs) b'"
proof -
  from assms obtain base n b1 r where reserve: "reserve_entries b n = Inr b1"
    and loop: "batch_loop base [0..<n] (reader_new (drop 12 bytes)) b1 [] = Inr (recs, r, b')"
    by (auto simp: parse_write_batch_def and_then_Inr split: if_splits)
  from batch_loop_charged [OF loop] have "length recs = n" "charged b1 0 (records_bytes recs) b'" by auto
  with charged_trans [OF reserve_entries_charged [OF reserve]] show ?thesis by fastforce
qed

fun log_charged :: "log_state \<Rightarrow> log_state \<Rightarrow> bool" where
  "log_charged (recs, _, b) (recs', _, b') \<longleftrightarrow>
     (\<exists>new. recs' = recs @ new \<and> charged b (length new) (records_bytes new) b')"

lemma log_charged_refl: "log_charged s s"
  by (cases s) (simp add: charged_refl)

lemma log_charged_trans: "log_charged s s' \<Longrightarrow> log_charged s' s'' \<Longrightarrow> log_charged s s''"
  using charged_trans by (cases s; cases s'; cases s'') fastforce

lemma log_fragment_charged:
  assumes "log_fragment t payload s = Inr s'"
  shows "log_charged s s'"
proof -
  obtain recs fragmented b where s: "s = (recs, fragmented, b)" by (cases s) auto
  show ?thesis
    using assms unfolding s
    by (cases t) (auto simp: result_simps and_then_Inr charged_refl dest: parse_write_batch_charged split: if_splits)
qed

lemma log_block_charged: "log_block bytes block_end offset s = Inr s' \<Longrightarrow> log_charged s s'"
proof (induction bytes block_end offset s rule: log_block.induct)
  case (1 bytes block_end offset s)
  show ?case
  proof (cases "offset < block_end")
    case False
    with "1.prems" show ?thesis by (simp add: log_block.simps [of bytes block_end offset s] log_charged_refl)
  next
    case True
    show ?thesis
    proof (cases "log_item_at bytes block_end offset")
      case (Inr item)
      show ?thesis
      proof (cases item)
        case LogEnd
        with "1.prems" True Inr show ?thesis by (simp add: log_block.simps [of bytes block_end offset s] log_charged_refl)
      next
        case (LogRecord t payload stop)
        with "1.prems" True Inr obtain s1 where s1: "log_fragment t payload s = Inr s1" "log_block bytes block_end stop s1 = Inr s'"
          by (auto simp: log_block.simps [of bytes block_end offset s] split: sum.splits)
        have "log_charged s1 s'" using "1.IH" True Inr LogRecord s1 by blast
        with log_fragment_charged [OF s1(1)] show ?thesis by (rule log_charged_trans)
      qed
    qed (use "1.prems" True in \<open>simp add: log_block.simps [of bytes block_end offset s]\<close>)
  qed
qed

lemma log_blocks_charged: "log_blocks bytes starts s = Inr s' \<Longrightarrow> log_charged s s'"
proof (induction starts arbitrary: s)
  case (Cons start starts)
  then show ?case by (auto simp: and_then_Inr intro: log_charged_trans dest: log_block_charged)
qed (simp add: log_charged_refl)

lemma parse_log_charged: "parse_log bytes b = Inr (recs, b') \<Longrightarrow> charged b (length recs) (records_bytes recs) b'"
  by (auto simp: parse_log_def and_then_Inr dest!: log_blocks_charged split: if_splits)

section \<open>The budget of tables\<close>

definition entry_bytes :: "block_entry \<Rightarrow> nat" where
  "entry_bytes e = length (be_key e) + length (be_value e)"

lemma prefix_entry_charged:
  assumes "prefix_entry bytes entries_end offset last_key b = Inr (shared, entry, offset', b')"
  shows "charged b 0 (entry_bytes entry) b'"
proof -
  from assms obtain r3 r4 r5 n2 n3 suffix v where
    v: "read_exact r3 n2 = Some (suffix, r4)" "read_exact r4 n3 = Some (v, r5)" and shared: "shared \<le> length last_key"
    and entry: "entry = \<lparr>be_key = take shared last_key @ suffix, be_value = v\<rparr>"
    and charge: "reserve_reconstructed_entry_bytes b (shared + n2) n3 = Inr b'"
    unfolding prefix_entry_def and_then_Inr result_simps
    by (auto simp: result_simps checked_add_def split: if_splits)
  have "length suffix = n2" "length v = n3"
    using v by (auto simp: read_exact_def slice_get_def checked_add_def split: option.splits if_splits)
  with reserve_bytes_charged [OF charge] entry shared show ?thesis by (simp add: entry_bytes_def)
qed

lemma prefix_loop_charged:
  "prefix_loop bytes entries_end n offset (entries, starts, last_key, b) = Inr (offset', entries', starts', last_key', b') \<Longrightarrow>
     \<exists>new. entries' = entries @ new \<and> charged b 0 (sum_list (map entry_bytes new)) b'"
proof (induction bytes entries_end n offset "(entries, starts, last_key, b)" arbitrary: entries starts last_key b rule: prefix_loop.induct)
  case (1 bytes entries_end n offset entries starts last_key b)
  note step = prefix_loop.simps [of bytes entries_end n offset entries starts last_key b]
  show ?case
  proof (cases "offset < entries_end")
    case False
    with "1.prems" show ?thesis by (simp add: step charged_refl)
  next
    case True
    with "1.prems" have room: "\<not> length entries \<ge> n" by (simp add: step split: if_splits)
    with "1.prems" True obtain shared entry offset1 b1 where
      entry: "prefix_entry bytes entries_end offset last_key b = Inr (shared, entry, offset1, b1)"
      and rest: "prefix_loop bytes entries_end n offset1 (entries @ [entry], bt_insert offset shared starts, be_key entry, b1) =
        Inr (offset', entries', starts', last_key', b')"
      by (auto simp: step split: sum.splits)
    have "\<exists>new. entries' = (entries @ [entry]) @ new \<and> charged b1 0 (sum_list (map entry_bytes new)) b'"
      using "1.hyps" [of "(shared, entry, offset1, b1)" shared "(entry, offset1, b1)" entry "(offset1, b1)" offset1 b1] True room entry rest
      by blast
    then obtain new where new: "entries' = (entries @ [entry]) @ new" "charged b1 0 (sum_list (map entry_bytes new)) b'" by blast
    from charged_trans [OF prefix_entry_charged [OF entry] new(2)] new(1) show ?thesis
      by (intro exI [of _ "entry # new"]) simp
  qed
qed

lemma parse_prefix_block_charged:
  assumes "parse_prefix_block bytes n b = Inr (entries, b')"
  shows "charged b 0 (sum_list (map entry_bytes entries)) b'"
proof -
  from assms obtain entries_end offset starts last_key where
    "prefix_loop bytes entries_end n 0 ([], bt_empty, [], b) = Inr (offset, entries, starts, last_key, b')"
    by (auto simp: parse_prefix_block_def Let_def and_then_Inr split: if_splits)
  from prefix_loop_charged [OF this] show ?thesis by simp
qed

lemma read_table_block_charged: "read_table_block table handle footer b = Inr (block, b') \<Longrightarrow> charged b 0 0 b'"
  by (auto simp: read_table_block_def Let_def and_then_Inr result_simps charged_def budget_ok_def split: if_splits)

lemma decode_internal_bytes: "decode_internal_entry e = Inr r \<Longrightarrow> record_bytes r \<le> entry_bytes e"
  by (auto simp: decode_internal_entry_def Let_def and_then_Inr record_bytes_def entry_bytes_def split: if_splits)

lemma decoded_bytes:
  "try_map decode_internal_entry es = Inr rs \<Longrightarrow> length rs = length es \<and> records_bytes rs \<le> sum_list (map entry_bytes es)"
proof (induction es arbitrary: rs)
  case (Cons e es)
  then obtain r qs where "decode_internal_entry e = Inr r" "try_map decode_internal_entry es = Inr qs" "rs = r # qs"
    by (auto simp: and_then_Inr)
  with Cons.IH [of qs] decode_internal_bytes [of e r] show ?case by simp
qed simp

lemma table_block_charged:
  assumes "table_block bytes footer index_entry (handles, parsed, b) = Inr (handles', parsed', b')"
  shows "\<exists>new. parsed' = parsed @ new \<and> charged b (length new) (records_bytes new) b'"
proof -
  from assms obtain handle block b1 entries b2 recs where
    b1: "read_table_block bytes handle footer b = Inr (block, b1)" and
    b2: "parse_prefix_block block MAX_LEVELDB_ENTRIES b1 = Inr (entries, b2)" and
    b3: "reserve_entries b2 (length entries) = Inr b'" and
    recs: "try_map decode_internal_entry entries = Inr recs" "parsed' = parsed @ recs"
    by (auto simp: table_block_def and_then_Inr split: if_splits)
  have "charged b (length entries) (sum_list (map entry_bytes entries)) b'"
    using charged_trans [OF charged_trans [OF read_table_block_charged [OF b1] parse_prefix_block_charged [OF b2]] reserve_entries_charged [OF b3]]
    by simp
  with decoded_bytes [OF recs(1)] recs(2) show ?thesis by (auto intro: charged_less)
qed

lemma table_blocks_charged:
  "table_blocks bytes footer es (handles, parsed, b) = Inr (handles', parsed', b') \<Longrightarrow>
     \<exists>new. parsed' = parsed @ new \<and> charged b (length new) (records_bytes new) b'"
proof (induction es arbitrary: handles parsed b)
  case (Cons e es)
  then obtain handles1 parsed1 b1 where
    e: "table_block bytes footer e (handles, parsed, b) = Inr (handles1, parsed1, b1)" and
    es: "table_blocks bytes footer es (handles1, parsed1, b1) = Inr (handles', parsed', b')" by (auto simp: and_then_Inr)
  from table_block_charged [OF e] obtain new where new: "parsed1 = parsed @ new" "charged b (length new) (records_bytes new) b1" by blast
  from Cons.IH [OF es] obtain more where more: "parsed' = parsed1 @ more" "charged b1 (length more) (records_bytes more) b'" by blast
  from charged_trans [OF new(2) more(2)] new(1) more(1) show ?case by (intro exI [of _ "new @ more"]) simp
qed (simp add: charged_refl)

lemma parse_table_charged:
  assumes "parse_table bytes b = Inr (recs, b')"
  shows "charged b (length recs) (records_bytes recs) b'"
proof -
  from assms obtain metaindex index footer mb b1 ms b2 ib b3 es b4 handles0 handles where
    "read_table_block bytes metaindex footer b = Inr (mb, b1)" "parse_prefix_block mb MAX_TABLE_BLOCKS b1 = Inr (ms, b2)"
    "read_table_block bytes index footer b2 = Inr (ib, b3)" "parse_prefix_block ib MAX_TABLE_BLOCKS b3 = Inr (es, b4)" and
    blocks: "table_blocks bytes footer es (handles0, [], b4) = Inr (handles, recs, b')"
    unfolding parse_table_def Let_def and_then_Inr by (auto simp: and_then_Inr split: if_splits)
  then have "charged b 0 0 b4"
    by (meson charged_less charged_trans le0 read_table_block_charged parse_prefix_block_charged)
  with table_blocks_charged [OF blocks] charged_trans show ?thesis by fastforce
qed

section \<open>All files together\<close>

lemma parse_image_charged: "parse_image kind bytes b = Inr (recs, b') \<Longrightarrow> charged b (length recs) (records_bytes recs) b'"
  by (cases kind) (simp_all add: parse_log_charged parse_table_charged)

lemma merge_records_append:
  "merge_records m (rs @ qs) = and_then (merge_records m rs) (\<lambda>m'. merge_records m' qs)"
proof (induction rs arbitrary: m)
  case (Cons r rs)
  then show ?case by (cases "merge_record m r") simp_all
qed simp

definition parsed_as :: "leveldb_file_kind \<times> nat list \<Rightarrow> parsed_record list \<Rightarrow> bool" where
  "parsed_as img recs \<longleftrightarrow> (\<exists>b b'. parse_image (fst img) (snd img) b = Inr (recs, b'))"

lemma parse_images_parts:
  "parse_images_from images b m = Inr m' \<Longrightarrow>
     \<exists>parts b'. list_all2 parsed_as images parts \<and> merge_records m (concat parts) = Inr m' \<and>
       charged b (length (concat parts)) (records_bytes (concat parts)) b'"
proof (induction images arbitrary: b m)
  case (Cons img images)
  obtain kind bytes where img: "img = (kind, bytes)" by fastforce
  with Cons.prems obtain recs b1 m1 where parsed: "parse_image kind bytes b = Inr (recs, b1)" and m1: "merge_records m recs = Inr m1"
    and rest: "parse_images_from images b1 m1 = Inr m'" by (auto elim!: and_thenE)
  from Cons.IH [OF rest] obtain parts b' where parts: "list_all2 parsed_as images parts" "merge_records m1 (concat parts) = Inr m'"
    "charged b1 (length (concat parts)) (records_bytes (concat parts)) b'" by blast
  have "parsed_as img recs" using parsed img by (auto simp: parsed_as_def)
  moreover have "merge_records m (concat (recs # parts)) = Inr m'" using m1 parts(2) by (simp add: merge_records_append)
  ultimately show ?case using parts(1) charged_trans [OF parse_image_charged [OF parsed] parts(3)]
    by (intro exI [of _ "recs # parts"] exI [of _ b']) simp
qed (auto intro: charged_refl)

text \<open>
  C30: opening a database keeps the newest version of every key, within the budget. When the files
  parse, there are at most 65,536 records of at most 64 MiB in all, and the value kept for a key is
  the one with the highest sequence number among all records of all files, deletions included, with
  every record of that number agreeing; a key no file mentions has none. Two orders of the same
  records that both succeed give the same database.
\<close>

theorem leveldb_newest_wins:
  assumes "parse_images images = Inr m"
  shows "(\<exists>parts. list_all2 parsed_as images parts \<and> length (concat parts) \<le> MAX_LEVELDB_ENTRIES \<and>
      records_bytes (concat parts) \<le> MAX_RECONSTRUCTED_ENTRY_BYTES \<and>
      merge_records bt_empty (concat parts) = Inr m \<and>
      (\<forall>k. newest_of {(pr_sequence r, pr_value r) |r. r \<in> set (concat parts) \<and> pr_key r = k} (version_of m k))) \<and>
    (\<forall>rs rs' m m'. set rs = set rs' \<and> merge_records bt_empty rs = Inr m \<and> merge_records bt_empty rs' = Inr m' \<longrightarrow> m = m')"
proof -
  have newest: "newest_of {(pr_sequence r, pr_value r) |r. r \<in> set rs \<and> pr_key r = k} (version_of m k)"
    if "merge_records bt_empty rs = Inr m" for rs m k
    using merged.newest_version [of bt_empty rs m k] that by (simp add: merge_records_fold version_of_def)
  have "m = m'" if "set rs = set rs'" "merge_records bt_empty rs = Inr m" "merge_records bt_empty rs' = Inr m'" for rs rs' m m'
  proof (rule bt_eqI)
    fix k
    have "version_of m k = version_of m' k"
      using newest_of_unique [OF newest [OF that(2), of k]] newest [OF that(3), of k] that(1) by simp
    then show "bt_get m k = bt_get m' k"
      by (cases "bt_get m k"; cases "bt_get m' k") (auto simp: version_of_def)
  qed
  moreover from parse_images_parts [OF assms [unfolded parse_images_def]] obtain parts b' where
    parts: "list_all2 parsed_as images parts" "merge_records bt_empty (concat parts) = Inr m"
      "charged default_budget (length (concat parts)) (records_bytes (concat parts)) b'" by blast
  have "length (concat parts) \<le> MAX_LEVELDB_ENTRIES" "records_bytes (concat parts) \<le> MAX_RECONSTRUCTED_ENTRY_BYTES"
    using parts(3) by (auto simp: charged_def budget_ok_def default_budget_def)
  with parts newest [OF parts(2)] have "\<exists>parts. list_all2 parsed_as images parts \<and> length (concat parts) \<le> MAX_LEVELDB_ENTRIES \<and>
      records_bytes (concat parts) \<le> MAX_RECONSTRUCTED_ENTRY_BYTES \<and> merge_records bt_empty (concat parts) = Inr m \<and>
      (\<forall>k. newest_of {(pr_sequence r, pr_value r) |r. r \<in> set (concat parts) \<and> pr_key r = k} (version_of m k))" by blast
  ultimately show ?thesis by blast
qed

text \<open>A log of one batch that writes one key.\<close>

definition example_batch :: "nat list" where
  "example_batch = [1, 0, 0, 0, 0, 0, 0, 0, 1, 0, 0, 0, 1, 1, 97, 1, 98]"

definition example_log :: "nat list" where
  "example_log = [211, 28, 62, 199, 17, 0, 1] @ example_batch"

definition example_record :: parsed_record where
  "example_record = \<lparr>pr_key = [97], pr_sequence = 1, pr_value = Some [98]\<rparr>"

lemma example_checksum: "unat (masked_crc32c_parts 1 example_batch) = 3342736595"
proof -
  have rotated: "word_rotr 15 (- 1728212387 :: 32 word) = 616247803" by code_simp
  have "masked_crc32c_parts 1 example_batch = 3342736595"
    unfolding masked_crc32c_parts_def mask_crc32c_def example_batch_def
    by (simp add: crc32c_extend_simps crc32c_bit_def rotated)
  then show ?thesis by simp
qed

lemma read_varint32_small:
  assumes "sr_position r < length (sr_bytes r)" "sr_bytes r ! sr_position r < 128"
  shows "read_varint32 r = Some (sr_bytes r ! sr_position r, r\<lparr>sr_position := sr_position r + 1\<rparr>)"
proof -
  have "(5::nat) = Suc 4" by simp
  then show ?thesis using assms unfolding read_varint32_def read_varint_def
    by (simp only: varint_loop.simps) (simp add: read_u8_def Let_def)
qed

lemma example_entry:
  "batch_entry 1 0 \<lparr>sr_bytes = [1, 1, 97, 1, 98], sr_position = 0\<rparr> b =
     map_ok (\<lambda>b. (example_record, \<lparr>sr_bytes = [1, 1, 97, 1, 98], sr_position = 5\<rparr>, b)) (reserve_reconstructed_entry_bytes b 1 1)"
  by (simp add: batch_entry_def checked_add_def read_u8_def read_length_prefixed_def read_varint32_small read_exact_def
      slice_get_def example_record_def limit_defs map_ok_def split: sum.split)

lemma example_batch_parsed:
  "parse_write_batch example_batch default_budget = Inr ([example_record], \<lparr>pb_entries = 1, pb_table_blocks = 0, pb_reconstructed = 2\<rparr>)"
proof -
  have header: "read_u64_le example_batch 0 = Inr 1" "read_u32_le example_batch 8 = Inr 1"
    by (simp_all add: read_u64_le_def read_u32_le_def slice_get_def saturating_add_def example_batch_def limit_defs)
  have rest: "drop 12 example_batch = [1, 1, 97, 1, 98]" "length example_batch = 17" by (simp_all add: example_batch_def)
  show ?thesis unfolding parse_write_batch_def
    by (simp add: header rest example_entry [simplified] reader_new_def reader_is_empty_def reserve_entries_def
        reserve_reconstructed_entry_bytes_def add_within_def checked_add_def default_budget_def limit_defs)
qed

lemma example_item: "log_item_at example_log 24 0 = Inr (LogRecord FullRecord example_batch 24)"
proof -
  have "read_u32_le example_log 0 = Inr 3342736595" "read_u16_le example_log 4 = Inr 17" "example_log ! 6 = 1"
    by (simp_all add: read_u32_le_def read_u16_le_def slice_get_def saturating_add_def example_log_def limit_defs)
  moreover have "take 17 (drop 7 example_log) = example_batch" by (simp add: example_log_def example_batch_def)
  ultimately show ?thesis
    by (simp add: log_item_at_def add_within_def checked_add_def example_checksum [simplified] limit_defs)
qed

lemma example_log_parsed:
  "parse_log example_log default_budget = Inr ([example_record], \<lparr>pb_entries = 1, pb_table_blocks = 0, pb_reconstructed = 2\<rparr>)"
proof -
  have starts: "length example_log = 24" "block_starts 24 = [0]"
    by (simp_all add: example_log_def example_batch_def block_starts_def limit_defs)
  show ?thesis unfolding parse_log_def
    by (simp add: starts example_item example_batch_parsed log_block.simps limit_defs)
qed

theorem leveldb_newest_wins_witness:
  "\<exists>m. parse_images [(LogFile, example_log)] = Inr m \<and> version_of m [97] = Some (1, Some [98]) \<and>
     (\<exists>parts. list_all2 parsed_as [(LogFile, example_log)] parts \<and> length (concat parts) \<le> MAX_LEVELDB_ENTRIES \<and>
       newest_of {(pr_sequence r, pr_value r) |r. r \<in> set (concat parts) \<and> pr_key r = [97]} (version_of m [97]))"
proof -
  obtain m where m: "merge_records bt_empty [example_record] = Inr m" "version_of m [97] = Some (1, Some [98])"
    by (simp add: merge_record_def example_record_def version_of_def)
  then have "parse_images [(LogFile, example_log)] = Inr m"
    by (simp add: parse_images_def example_log_parsed)
  with leveldb_newest_wins [OF this] m(2) show ?thesis by blast
qed

section \<open>Local storage\<close>

definition storage_key :: "(str \<Rightarrow> url option) \<Rightarrow> https_origin \<Rightarrow> nat list \<times> versioned_value \<Rightarrow> nat list option" where
  "storage_key parse_url origin entry =
     (case decode_local_storage_key (fst entry) of
       Inr (Some (serialized, key)) \<Rightarrow> if storage_origin_matches parse_url serialized origin then Some (as_bytes key) else None
     | _ \<Rightarrow> None)"

definition storage_version :: "nat list \<times> versioned_value \<Rightarrow> nat \<times> str option" where
  "storage_version entry =
     (vv_sequence (snd entry), case try_option decode_required_text (vv_value (snd entry)) of Inr d \<Rightarrow> d | Inl _ \<Rightarrow> None)"

definition logical_version :: "(nat list, logical_local_value) btree_map \<Rightarrow> nat list \<Rightarrow> (nat \<times> str option) option" where
  "logical_version logical k = map_option (\<lambda>v. (lv_sequence v, lv_value v)) (bt_get logical k)"

lemma project_records_fold:
  "project_records parse_url origin entries logical = try_fold (\<lambda>m entry. project_record parse_url origin entry m) logical entries"
proof (induction entries arbitrary: logical)
  case (Cons entry entries)
  then show ?case by (cases "project_record parse_url origin entry logical") simp_all
qed simp

lemma project_record_skip:
  "project_record parse_url origin entry m = Inr m' \<Longrightarrow> storage_key parse_url origin entry = None \<Longrightarrow> m' = m"
  by (cases entry; cases "decode_local_storage_key (fst entry)") (auto simp: project_record_def storage_key_def split: option.splits if_splits)

lemma project_record_take:
  assumes "project_record parse_url origin entry m = Inr m'" "storage_key parse_url origin entry = Some k"
  obtains d where "storage_version entry = (vv_sequence (snd entry), d)"
    "m' = m \<and> (\<exists>v. bt_get m k = Some v \<and> (vv_sequence (snd entry) < lv_sequence v \<or> vv_sequence (snd entry) = lv_sequence v \<and> lv_value v = d)) \<or>
     (\<exists>n. m' = bt_insert k \<lparr>lv_sequence = vv_sequence (snd entry), lv_raw_length = n, lv_value = d\<rparr> m) \<and>
       (\<forall>v. bt_get m k = Some v \<longrightarrow> lv_sequence v < vv_sequence (snd entry))"
proof -
  obtain serialized key where key: "decode_local_storage_key (fst entry) = Inr (Some (serialized, key))"
    "storage_origin_matches parse_url serialized origin" "k = as_bytes key"
    using assms(2) by (auto simp: storage_key_def split: sum.splits option.splits if_splits)
  with assms(1) obtain d where d: "try_option decode_required_text (vv_value (snd entry)) = Inr d"
    by (cases entry) (auto simp: project_record_def Let_def elim!: and_thenE)
  show thesis
  proof (rule that [of d])
    show "storage_version entry = (vv_sequence (snd entry), d)" using d by (simp add: storage_version_def)
    show "m' = m \<and> (\<exists>v. bt_get m k = Some v \<and> (vv_sequence (snd entry) < lv_sequence v \<or> vv_sequence (snd entry) = lv_sequence v \<and> lv_value v = d)) \<or>
     (\<exists>n. m' = bt_insert k \<lparr>lv_sequence = vv_sequence (snd entry), lv_raw_length = n, lv_value = d\<rparr> m) \<and>
       (\<forall>v. bt_get m k = Some v \<longrightarrow> lv_sequence v < vv_sequence (snd entry))"
      using assms(1) key d
      by (cases entry) (auto simp: project_record_def Let_def not_less split: option.splits if_splits)
  qed
qed

interpretation projected: newest_wins "\<lambda>m entry. project_record parse_url origin entry m" logical_version
    "storage_key parse_url origin" storage_version for parse_url origin
proof unfold_locales
  fix m entry m'
  assume "project_record parse_url origin entry m = Inr m'" "storage_key parse_url origin entry = None"
  then show "logical_version m' = logical_version m" by (auto dest: project_record_skip)
next
  fix m entry m' k
  assume "project_record parse_url origin entry m = Inr m'" "storage_key parse_url origin entry = Some k"
  then obtain d where "storage_version entry = (vv_sequence (snd entry), d)"
    "m' = m \<and> (\<exists>v. bt_get m k = Some v \<and> (vv_sequence (snd entry) < lv_sequence v \<or> vv_sequence (snd entry) = lv_sequence v \<and> lv_value v = d)) \<or>
     (\<exists>n. m' = bt_insert k \<lparr>lv_sequence = vv_sequence (snd entry), lv_raw_length = n, lv_value = d\<rparr> m) \<and>
       (\<forall>v. bt_get m k = Some v \<longrightarrow> lv_sequence v < vv_sequence (snd entry))"
    by (rule project_record_take)
  then show "logical_version m' = logical_version m \<and>
        (\<exists>v. logical_version m k = Some v \<and> (fst (storage_version entry) < fst v \<or> storage_version entry = v)) \<or>
      logical_version m' = (logical_version m)(k \<mapsto> storage_version entry) \<and>
        (\<forall>v. logical_version m k = Some v \<longrightarrow> fst v < fst (storage_version entry))"
    by (auto simp: logical_version_def fun_eq_iff)
qed

text \<open>The versions of a key that the records of an origin hold; a deletion is a version too.\<close>

definition stored_versions :: "(str \<Rightarrow> url option) \<Rightarrow> record_map \<Rightarrow> https_origin \<Rightarrow> nat list \<Rightarrow> (nat \<times> str option) set" where
  "stored_versions parse_url records origin k =
     {(vv_sequence v, d) |raw v serialized key d. bt_get records raw = Some v \<and>
        decode_local_storage_key raw = Inr (Some (serialized, key)) \<and> storage_origin_matches parse_url serialized origin \<and>
        as_bytes key = k \<and> try_option decode_required_text (vv_value v) = Inr d}"

lemma project_records_decoded:
  assumes "project_records parse_url origin entries logical = Inr logical'" "entry \<in> set entries"
    "storage_key parse_url origin entry = Some k"
  shows "try_option decode_required_text (vv_value (snd entry)) = Inr (snd (storage_version entry))"
  using assms(1,2)
proof (induction entries arbitrary: logical)
  case (Cons e es)
  then obtain m where m: "project_record parse_url origin e logical = Inr m" "project_records parse_url origin es m = Inr logical'"
    by (auto elim!: and_thenE)
  show ?case
  proof (cases "entry = e")
    case True
    with m(1) assms(3) show ?thesis
      by (cases entry) (auto simp: project_record_def storage_key_def storage_version_def Let_def
          split: option.splits if_splits sum.splits elim!: and_thenE)
  next
    case False
    with Cons.IH [OF m(2)] Cons.prems(2) show ?thesis by simp
  qed
qed simp

lemma projected_versions:
  assumes "project_records parse_url origin (bt_entries records) bt_empty = Inr logical"
  shows "newest_of (stored_versions parse_url records origin k) (logical_version logical k)"
proof -
  have "stored_versions parse_url records origin k =
      {storage_version entry |entry. entry \<in> set (bt_entries records) \<and> storage_key parse_url origin entry = Some k}" (is "?A = ?B")
  proof
    show "?A \<subseteq> ?B"
    proof
      fix x
      assume "x \<in> ?A"
      then obtain raw v serialized key d where x: "x = (vv_sequence v, d)" and raw: "bt_get records raw = Some v"
        and found: "decode_local_storage_key raw = Inr (Some (serialized, key))" "storage_origin_matches parse_url serialized origin"
          "as_bytes key = k" "try_option decode_required_text (vv_value v) = Inr d"
        unfolding stored_versions_def by blast
      have "x = storage_version (raw, v)" "storage_key parse_url origin (raw, v) = Some k"
        using x found by (simp_all add: storage_version_def storage_key_def)
      with raw show "x \<in> ?B" by (auto simp: bt_get_entry)
    qed
    show "?B \<subseteq> ?A"
    proof
      fix x
      assume "x \<in> ?B"
      then obtain raw v where entry: "x = storage_version (raw, v)" "(raw, v) \<in> set (bt_entries records)"
        "storage_key parse_url origin (raw, v) = Some k" by auto
      from entry(3) obtain serialized key where "decode_local_storage_key raw = Inr (Some (serialized, key))"
        "storage_origin_matches parse_url serialized origin" "as_bytes key = k"
        by (auto simp: storage_key_def split: sum.splits option.splits if_splits)
      moreover have "try_option decode_required_text (vv_value v) = Inr (snd x)" "x = (vv_sequence v, snd x)"
        using project_records_decoded [OF assms entry(2,3)] entry(1) by (simp_all add: storage_version_def)
      ultimately show "x \<in> ?A" using entry(2) unfolding stored_versions_def bt_get_entry by blast
    qed
  qed
  with projected.newest_version [of parse_url origin bt_empty "bt_entries records" logical k] assms show ?thesis
    by (simp add: project_records_fold logical_version_def)
qed

lemma collect_present:
  assumes "try_map id (List.map_filter f xs) = Inr ys"
  shows "y \<in> set ys \<longleftrightarrow> (\<exists>x\<in>set xs. f x = Some (Inr y))" "x \<in> set xs \<Longrightarrow> f x = Some r \<Longrightarrow> \<exists>y. r = Inr y"
  using assms by (induction xs arbitrary: ys) (auto simp: List.map_filter_simps split: option.splits elim!: and_thenE)

lemma local_entry_Inr:
  "local_entry origin (k, v) = Some (Inr e) \<longleftrightarrow>
     le_origin e = origin \<and> from_utf8 k = Some (le_key e) \<and> lv_value v = Some (le_text e) \<and>
     le_raw_length e = lv_raw_length v \<and> le_sequence e = lv_sequence v"
  by (cases "lv_value v"; cases "from_utf8 k"; cases e) (auto simp: local_entry_def)

text \<open>
  C31: the local storage projected for an origin is that origin's, at its newest. Every entry comes
  from a record whose stored origin matches the requested one, with the value and sequence number
  of the newest such record for its key; and every key of the origin whose newest version is a live
  value is listed. A key whose newest version is a deletion is absent, however many older values
  the files still hold.
\<close>

theorem local_storage_confined:
  assumes "project_local_storage parse_url records origin = Inr entries"
  shows "(\<forall>e\<in>set entries. le_origin e = origin \<and>
      newest_of (stored_versions parse_url records origin (as_bytes (le_key e))) (Some (le_sequence e, Some (le_text e)))) \<and>
    (\<forall>k n t. newest_of (stored_versions parse_url records origin k) (Some (n, Some t)) \<longrightarrow>
      (\<exists>e\<in>set entries. as_bytes (le_key e) = k \<and> le_sequence e = n \<and> le_text e = t)) \<and>
    (\<forall>k n. newest_of (stored_versions parse_url records origin k) (Some (n, None)) \<longrightarrow> k \<notin> as_bytes ` le_key ` set entries)"
proof -
  from assms obtain logical where logical: "project_records parse_url origin (bt_entries records) bt_empty = Inr logical"
    and listed: "try_map id (List.map_filter (local_entry origin) (bt_entries logical)) = Inr entries"
    by (auto simp: project_local_storage_def elim!: and_thenE)
  note newest = projected_versions [OF logical]
  have entry: "e \<in> set entries \<longleftrightarrow> (\<exists>k v. bt_get logical k = Some v \<and> local_entry origin (k, v) = Some (Inr e))" for e
    using collect_present(1) [OF listed] by (auto simp: bt_get_entry)
  have sound: "le_origin e = origin \<and> logical_version logical (as_bytes (le_key e)) = Some (le_sequence e, Some (le_text e))"
    if "e \<in> set entries" for e
    using that by (auto simp: entry local_entry_Inr logical_version_def from_utf8_iff)
  have complete: "\<exists>e\<in>set entries. as_bytes (le_key e) = k \<and> le_sequence e = n \<and> le_text e = t"
    if version: "logical_version logical k = Some (n, Some t)" for k n t
  proof -
    from version obtain v where v: "bt_get logical k = Some v" "lv_sequence v = n" "lv_value v = Some t"
      by (auto simp: logical_version_def)
    then obtain r where r: "local_entry origin (k, v) = Some r" by (simp add: local_entry_def)
    then obtain e where "r = Inr e" using collect_present(2) [OF listed _ r] v(1) by (auto simp: bt_get_entry)
    with r v show ?thesis by (intro bexI [of _ e]) (auto simp: entry local_entry_Inr from_utf8_iff)
  qed
  have "logical_version logical k = w" if "newest_of (stored_versions parse_url records origin k) w" for k w
    using newest_of_unique [OF newest that] .
  note stored = this
  show ?thesis
  proof (intro conjI ballI allI impI)
    fix e
    assume "e \<in> set entries"
    from sound [OF this] newest [of "as_bytes (le_key e)"] show "le_origin e = origin"
      "newest_of (stored_versions parse_url records origin (as_bytes (le_key e))) (Some (le_sequence e, Some (le_text e)))" by simp_all
  qed (use stored complete sound in fastforce)+
qed

text \<open>One key of one site in the format without a scheme, and a parser that knows that site's URL.\<close>

definition example_site_url :: "str \<Rightarrow> url option" where
  "example_site_url v =
     (if v = lit ''https://a.b'' then Some \<lparr>ur_text = lit ''https://a.b/'', ur_scheme = lit ''https'', ur_username = [], ur_password = None,
        ur_host = Some (HostDomain (lit ''a.b'')), ur_host_str = Some (lit ''a.b''), ur_port = Some 443, ur_explicit_port = None,
        ur_path = lit ''/'', ur_query = None, ur_query_pairs = [], ur_fragment = None\<rparr> else None)"

definition example_site :: https_origin where
  "example_site = \<lparr>ho_canonical = lit ''https://a.b'', ho_host = lit ''a.b'', ho_port = 443\<rparr>"

definition example_key :: "nat list" where
  "example_key = lit ''a.b'' @ [0, 1, 107]"

definition example_content :: "nat list" where
  "example_content = [1, 118]"

definition example_records :: record_map where
  "example_records = bt_insert example_key \<lparr>vv_sequence = 3, vv_value = Some example_content\<rparr> bt_empty"

lemma example_site_key:
  "decode_local_storage_key example_key = Inr (Some (lit ''a.b'', [107]))"
  "storage_origin_matches example_site_url (lit ''a.b'') example_site"
proof -
  have bytes: "from_utf8 [97, 46, 98] = Some [97, 46, 98]"
    by (simp add: from_utf8_iff as_bytes_def utf8_char_def is_scalar_def del: from_utf8.simps)
  show "decode_local_storage_key example_key = Inr (Some (lit ''a.b'', [107]))"
    by (simp add: decode_local_storage_key_def example_key_def lit_def bytes looks_like_legacy_origin_def str_len_def as_bytes_def utf8_char_def is_whitespace_def
        bounded_exact_text_def limit_defs del: from_utf8.simps)
  have "\<not> contains_str (lit ''://'') (lit ''a.b'')" by code_simp
  moreover have "split_once 94 (lit ''a.b'') = None" by code_simp
  ultimately show "storage_origin_matches example_site_url (lit ''a.b'') example_site"
    by (simp add: storage_origin_matches_def example_site_def lit_def example_site_url_def looks_like_legacy_origin_def
        parse_https_origin_def str_len_def as_bytes_def utf8_char_def is_whitespace_def to_ascii_lowercase_def limit_defs)
qed

lemma bt_entries_single: "bt_entries (bt_insert k v bt_empty) = [(k, v)]"
  by (simp add: bt_entries_keys bt_keys_eq)

lemma example_projection:
  "project_local_storage example_site_url example_records example_site =
     Inr [\<lparr>le_origin = example_site, le_key = [107], le_text = [118], le_raw_length = 2, le_sequence = 3\<rparr>]"
proof -
  have key: "utf8_char 107 = [107]" "from_utf8 [107] = Some [107]"
    by (simp_all add: from_utf8_iff as_bytes_def utf8_char_def is_scalar_def del: from_utf8.simps)
  have "decode_required_text example_content = Inr [118]" "length example_content = 2"
    by (simp_all add: example_content_def decode_required_text_def bounded_exact_text_def str_len_def as_bytes_def utf8_char_def limit_defs)
  then show ?thesis
    by (simp add: project_local_storage_def example_records_def bt_entries_single project_record_def example_site_key try_option_def key
        List.map_filter_simps local_entry_def del: from_utf8.simps)
qed

theorem local_storage_confined_witness:
  "\<exists>entries. project_local_storage example_site_url example_records example_site = Inr entries \<and>
     map le_text entries = [[118]] \<and>
     newest_of (stored_versions example_site_url example_records example_site [107]) (Some (3, Some [118]))"
proof -
  have "as_bytes [107] = [107]" by (simp add: as_bytes_def utf8_char_def)
  with local_storage_confined [OF example_projection] example_projection show ?thesis by simp
qed

section \<open>Acquisition\<close>

lemma acquire_stable_attempt:
  "acquire_stable_images worlds profile relative = Inr images \<Longrightarrow>
     \<exists>world\<in>set worlds. acquire_images_once world profile relative = Inr images"
  by (induction worlds) (auto split: sum.splits acquisition_error.splits)

text \<open>A file read in full, as the listing described it, with its identity unchanged around the read.\<close>

definition read_unchanged :: "attempt_world \<Rightarrow> directory_entry_identity \<Rightarrow> leveldb_file_kind \<times> nat list \<Rightarrow> bool" where
  "read_unchanged world entry = (\<lambda>(kind, bytes).
     de_kind entry = Some kind \<and> db_file_type (de_identity entry) = RegularFile \<and>
     fr_opened (aw_file world (de_name entry)) = Some (de_identity entry) \<and>
     fr_contents (aw_file world (de_name entry)) = Some bytes \<and>
     fr_closed_over (aw_file world (de_name entry)) = Some (de_identity entry) \<and>
     int (length bytes) = fi_size (de_identity entry) \<and> length bytes \<le> MAX_LEVELDB_FILE_BYTES)"

lemma read_file_image_unchanged:
  assumes "read_file_image (aw_file world (de_name entry)) entry = Inr img"
    and "fi_size (de_identity entry) \<le> int MAX_LEVELDB_FILE_BYTES"
  shows "read_unchanged world entry img"
proof -
  from assms(1) obtain kind contents where found: "de_kind entry = Some kind" "db_file_type (de_identity entry) = RegularFile"
    "fr_opened (aw_file world (de_name entry)) = Some (de_identity entry)" "fr_contents (aw_file world (de_name entry)) = Some contents"
    "fr_closed_over (aw_file world (de_name entry)) = Some (de_identity entry)"
    "img = (kind, take (MAX_LEVELDB_FILE_BYTES + 1) contents)"
    and len: "length (take (MAX_LEVELDB_FILE_BYTES + 1) contents) = nat (fi_size (de_identity entry))" "0 \<le> fi_size (de_identity entry)"
    by (auto simp: read_file_image_def result_simps Let_def split: if_splits)
  from len assms(2) have "length contents \<le> MAX_LEVELDB_FILE_BYTES" by simp
  with found len show ?thesis by (simp add: read_unchanged_def)
qed

lemma aggregate_sizes_bound:
  "aggregate_sizes entries n = Inr m \<Longrightarrow> n \<le> MAX_LEVELDB_AGGREGATE_BYTES \<Longrightarrow>
     m \<le> MAX_LEVELDB_AGGREGATE_BYTES \<and> (\<forall>entry\<in>set entries. 0 \<le> fi_size (de_identity entry) \<and>
       fi_size (de_identity entry) \<le> int MAX_LEVELDB_FILE_BYTES)"
proof (induction entries arbitrary: n)
  case (Cons entry entries)
  let ?len = "fi_size (de_identity entry)"
  from Cons.prems obtain k where "0 \<le> ?len" "nat ?len \<le> MAX_LEVELDB_FILE_BYTES" "k \<le> MAX_LEVELDB_AGGREGATE_BYTES"
    "aggregate_sizes entries k = Inr m" by (auto simp: Let_def result_simps split: if_splits option.splits)
  with Cons.IH show ?case by (auto simp: nat_le_iff)
qed simp

lemma read_images_files:
  "read_images readings entries n = Inr (images, m) \<Longrightarrow>
     list_all2 (\<lambda>entry img. read_file_image (readings (de_name entry)) entry = Inr img) entries images \<and>
     m = n + sum_list (map (length \<circ> snd) images)"
proof (induction entries arbitrary: n images)
  case (Cons entry entries)
  from Cons.prems obtain img k rest where "read_file_image (readings (de_name entry)) entry = Inr img"
    "checked_add u64_max n (length (snd img)) = Some k" "read_images readings entries k = Inr (rest, m)" "images = img # rest"
    by (auto simp: result_simps)
  moreover from this(2) have "k = n + length (snd img)" by (auto simp: checked_add_def split: if_splits)
  moreover note Cons.IH [OF calculation(3)]
  ultimately show ?case by simp
qed simp

definition stable_snapshot ::
    "attempt_world \<Rightarrow> directory_inspection \<Rightarrow> (leveldb_file_kind \<times> nat list) list \<Rightarrow> bool" where
  "stable_snapshot world seen images \<longleftrightarrow>
     inspect_directory (aw_before world) = Inr seen \<and> inspect_directory (aw_after world) = Inr seen \<and>
     list_all2 (read_unchanged world) (filter (\<lambda>entry. de_kind entry \<noteq> None) (di_entries seen)) images \<and>
     length images \<le> MAX_LEVELDB_FILES \<and> sum_list (map (length \<circ> snd) images) \<le> MAX_LEVELDB_AGGREGATE_BYTES"

lemma acquire_images_once_stable:
  assumes "acquire_images_once world profile relative = Inr images"
  shows "\<exists>seen. stable_snapshot world seen images"
proof -
  from assms obtain before where before: "inspect_directory (aw_before world) = Inr before"
    and rest: "(let relevant = filter (\<lambda>entry. de_kind entry \<noteq> None) (di_entries before) in
       if length relevant > MAX_LEVELDB_FILES then Inl (AcquisitionFatal DbTooManyEntries)
       else
         and_then (map_err AcquisitionFatal (aggregate_sizes relevant 0)) (\<lambda>aggregate.
         and_then (read_images (aw_file world) relevant 0) (\<lambda>(images, read_total).
         if read_total \<noteq> aggregate then Inl AcquisitionChanged
         else
           and_then (map_err (\<lambda>_. AcquisitionChanged) (inspect_directory (aw_after world))) (\<lambda>after.
           if di_directory before \<noteq> di_directory after \<or> di_entries before \<noteq> di_entries after
           then Inl AcquisitionChanged else Inr images)))) = Inr images"
    unfolding acquire_images_once_def by (elim and_thenE) (simp only: result_simps split: if_splits; blast)
  let ?relevant = "filter (\<lambda>entry. de_kind entry \<noteq> None) (di_entries before)"
  from rest obtain aggregate after where few: "length ?relevant \<le> MAX_LEVELDB_FILES"
    and sizes: "aggregate_sizes ?relevant 0 = Inr aggregate" and files: "read_images (aw_file world) ?relevant 0 = Inr (images, aggregate)"
    and after: "inspect_directory (aw_after world) = Inr after" "di_directory before = di_directory after" "di_entries before = di_entries after"
    unfolding Let_def by (auto simp: result_simps not_less split: if_splits)
  have "after = before" using after(2,3) by (cases after; cases before) simp
  note bound = aggregate_sizes_bound [OF sizes] and read = read_images_files [OF files]
  have "list_all2 (read_unchanged world) ?relevant images"
    using conjunct1 [OF read] by (rule list.rel_mono_strong) (use bound read_file_image_unchanged in auto)
  moreover have "length images \<le> MAX_LEVELDB_FILES" using few list_all2_lengthD [OF conjunct1 [OF read]] by simp
  ultimately show ?thesis using before after(1) \<open>after = before\<close> bound read
    by (intro exI [of _ before]) (simp add: stable_snapshot_def)
qed


text \<open>A profile with one log, which nothing touches while it is read.\<close>

definition example_identity :: "nat \<Rightarrow> int \<Rightarrow> file_identity" where
  "example_identity mode len = \<lparr>fi_device = 1, fi_inode = 2, fi_mode = mode, fi_links = 1, fi_uid = 1000, fi_gid = 1000, fi_size = len,
     fi_modified_seconds = 5, fi_modified_nanoseconds = 0, fi_changed_seconds = 5, fi_changed_nanoseconds = 0\<rparr>"

definition example_directory :: directory_reading where
  "example_directory = \<lparr>dr_stat = Some (example_identity 0x41C0 4096),
     dr_stream = Some [Some (lit ''.'', None), Some (lit ''7.log'', Some (example_identity 0x8180 24))]\<rparr>"

definition example_world :: attempt_world where
  "example_world = \<lparr>aw_open_path = (\<lambda>_. Inr (Some (example_identity 0x41C0 4096))), aw_profile_stat = Some (example_identity 0x41C0 4096),
     aw_clone = True, aw_open_relative = (\<lambda>_. Inr (Some (example_identity 0x41C0 4096))), aw_before = example_directory,
     aw_file = (\<lambda>_. \<lparr>fr_opened = Some (example_identity 0x8180 24), fr_contents = Some example_log,
        fr_closed_over = Some (example_identity 0x8180 24)\<rparr>),
     aw_after = example_directory\<rparr>"

definition example_entry_identity :: directory_entry_identity where
  "example_entry_identity = \<lparr>de_name = lit ''7.log'', de_identity = example_identity 0x8180 24, de_kind = Some LogFile\<rparr>"

lemma example_modes: "db_file_type (example_identity 0x41C0 n) = DirectoryFile" "db_file_type (example_identity 0x8180 n) = RegularFile"
  by (simp_all add: db_file_type_def example_identity_def)

lemma example_inspection:
  "inspect_directory example_directory = Inr \<lparr>di_directory = example_identity 0x41C0 4096, di_entries = [example_entry_identity]\<rparr>"
proof -
  have "from_utf8 (lit ''7.log'') = Some (lit ''7.log'')"
    by (simp add: lit_def from_utf8_iff as_bytes_def utf8_char_def is_scalar_def del: from_utf8.simps)
  moreover have "classify_leveldb_file (lit ''7.log'') = Some LogFile" by code_simp
  moreover have "str_len (lit ''7.log'') = 5" by (simp add: lit_def str_len_def as_bytes_def utf8_char_def)
  moreover have "lit ''7.log'' \<noteq> lit ''.''" "lit ''7.log'' \<noteq> lit ''..''" "lit ''7.log'' \<noteq> []" by (simp_all add: lit_def)
  ultimately show ?thesis
    by (simp add: inspect_directory_def example_directory_def example_modes example_entry_identity_def limit_defs)
qed

lemma example_acquired: "acquire_images_once example_world (lit ''/p'') (lit ''db'') = Inr [(LogFile, example_log)]"
proof -
  have pieces: "path_pieces (lit ''/p'') = [lit ''p'']" "path_pieces (lit ''db'') = [lit ''db'']" by code_simp+
  have names: "lit ''p'' \<noteq> lit ''..''" "lit ''db'' \<noteq> lit ''..''" "lit ''db'' \<noteq> lit ''.''" "lit ''/p'' \<noteq> []" "hd (lit ''/p'') = 47"
    by (simp_all add: lit_def)
  have "length example_log = 24" by (simp add: example_log_def example_batch_def)
  moreover have "fi_size (example_identity m n) = n" for m n by (simp add: example_identity_def)
  ultimately have "read_file_image (aw_file example_world (lit ''7.log'')) example_entry_identity = Inr (LogFile, example_log)"
    "aggregate_sizes [example_entry_identity] 0 = Inr 24"
    by (simp_all add: read_file_image_def example_world_def example_entry_identity_def example_modes checked_add_def limit_defs)
  moreover have "de_name example_entry_identity = lit ''7.log''" "de_kind example_entry_identity = Some LogFile"
    by (simp_all add: example_entry_identity_def)
  moreover have "aw_open_path example_world = (\<lambda>_. Inr (Some (example_identity 0x41C0 4096)))" "aw_clone example_world"
    "aw_open_relative example_world = (\<lambda>_. Inr (Some (example_identity 0x41C0 4096)))" "aw_before example_world = example_directory"
    "aw_after example_world = example_directory" "aw_profile_stat example_world = Some (example_identity 0x41C0 4096)"
    by (simp_all add: example_world_def)
  ultimately show ?thesis using \<open>length example_log = 24\<close>
    by (simp add: acquire_images_once_def open_profile_directory_def open_relative_directory_def pieces names example_modes
        example_inspection checked_add_def limit_defs)
qed


end
