(* ===== verification/History_Store.thy ===== *)
theory History_Store
  imports Text_And_Urls
begin

text \<open>
  The history store (\<open>crates/storage/src/history.rs\<close>): validated records, the worker that owns the
  database, its statements, the opening of the file and the requests of callers.

  The database is a record of what its statements read and change: the rows of the table, which have
  no order of their own, the last row identifier used, the schema and the pragmas. Whether the engine
  refuses a statement is an input, by the name the source gives the operation and the row it reads.
  File metadata is an input too. Durations are nanoseconds.
\<close>

section \<open>Limits and records\<close>

definition MAX_HISTORY_IDENTIFIER_BYTES :: nat where [limit_defs]: "MAX_HISTORY_IDENTIFIER_BYTES = 64"
definition MAX_HISTORY_RECORDS :: nat where [limit_defs]: "MAX_HISTORY_RECORDS = 25000"
definition MAX_HISTORY_DATABASE_BYTES :: nat where [limit_defs]: "MAX_HISTORY_DATABASE_BYTES = 256 * 1024 * 1024"
definition MAX_HISTORY_QUERY_RECORDS :: nat where [limit_defs]: "MAX_HISTORY_QUERY_RECORDS = 1000"
definition MAX_HISTORY_TIMESTAMP_UNIX_MS :: int where [limit_defs]: "MAX_HISTORY_TIMESTAMP_UNIX_MS = 253402300799999"
definition MAX_HISTORY_VALUE_MICROS :: int where [limit_defs]: "MAX_HISTORY_VALUE_MICROS = 9000000000000000"
definition HISTORY_SCHEMA_VERSION :: nat where [limit_defs]: "HISTORY_SCHEMA_VERSION = 1"
definition HISTORY_COMMAND_CAPACITY :: nat where [limit_defs]: "HISTORY_COMMAND_CAPACITY = 64"
definition MAX_COMMAND_CAPACITY :: nat where [limit_defs]: "MAX_COMMAND_CAPACITY = 1024"
definition DEFAULT_BUSY_TIMEOUT :: nat where [limit_defs]: "DEFAULT_BUSY_TIMEOUT = 5 * 1000000000"
definition DEFAULT_REQUEST_TIMEOUT :: nat where [limit_defs]: "DEFAULT_REQUEST_TIMEOUT = 5 * 1000000000"
definition MAX_CONFIGURED_TIMEOUT :: nat where [limit_defs]: "MAX_CONFIGURED_TIMEOUT = 30 * 1000000000"
definition DATABASE_MODE :: nat where [limit_defs]: "DATABASE_MODE = 0x180"
definition PRIVATE_DIRECTORY_MASK :: nat where [limit_defs]: "PRIVATE_DIRECTORY_MASK = 0x3F"

definition u32_limit :: nat where [limit_defs]: "u32_limit = 2 ^ 32 - 1"
definition row_id_limit :: nat where [limit_defs]: "row_id_limit = 2 ^ 63 - 1"

datatype history_record_error =
  InvalidHistoryIdentifier nat | HistoryTimestampOutOfRange int | HistoryValueOutOfRange int

datatype history_error =
  InvalidHistoryRecord history_record_error
| InvalidHistoryOptions string
| UnsafeHistoryPath str string
| HistoryIo string
| HistoryDatabase string
| FutureHistorySchema nat nat
| MalformedHistorySchema string
| HistoryQueueFull
| HistoryRequestTimeout
| HistoryWorkerStopped
| HistoryWorkerPanicked
| HistorySequenceExhausted
| HistoryCheckpointBusy

definition history_identifier_new :: "str \<Rightarrow> (str, history_record_error) result" where
  "history_identifier_new v =
     (let bytes = as_bytes v;
          valid_length = (v \<noteq> [] \<and> str_len v \<le> MAX_HISTORY_IDENTIFIER_BYTES);
          valid_first = (bytes \<noteq> [] \<and> (is_ascii_lowercase (hd bytes) \<or> is_ascii_digit (hd bytes)));
          valid_rest = list_all (\<lambda>b. is_ascii_lowercase b \<or> is_ascii_digit b \<or> b \<in> set (lit ''._-'')) (drop 1 bytes) in
      if \<not> valid_length \<or> \<not> valid_first \<or> \<not> valid_rest then Inl (InvalidHistoryIdentifier MAX_HISTORY_IDENTIFIER_BYTES)
      else Inr v)"

record history_record =
  hy_provider :: str
  hy_observed :: int
  hy_metric :: str
  hy_value :: int

definition history_record_new :: "str \<Rightarrow> int \<Rightarrow> str \<Rightarrow> int \<Rightarrow> (history_record, history_record_error) result" where
  "history_record_new provider observed metric v =
     (if \<not> (0 \<le> observed \<and> observed \<le> MAX_HISTORY_TIMESTAMP_UNIX_MS) then Inl (HistoryTimestampOutOfRange observed)
      else if \<not> (- MAX_HISTORY_VALUE_MICROS \<le> v \<and> v \<le> MAX_HISTORY_VALUE_MICROS) then Inl (HistoryValueOutOfRange v)
      else
        and_then (history_identifier_new provider) (\<lambda>provider.
        and_then (history_identifier_new metric) (\<lambda>metric.
        Inr \<lparr>hy_provider = provider, hy_observed = observed, hy_metric = metric, hy_value = v\<rparr>)))"

section \<open>Options\<close>

definition retention_new :: "nat \<Rightarrow> (nat, history_error) result" where
  "retention_new max_records =
     (if max_records = 0 then Inl (InvalidHistoryOptions ''history retention must be nonzero'')
      else if max_records > MAX_HISTORY_RECORDS then Inl (InvalidHistoryOptions ''history retention exceeds the supported maximum'')
      else Inr max_records)"

record history_options =
  ho_retention :: nat
  ho_command_capacity :: nat
  ho_busy_timeout :: nat
  ho_request_timeout :: nat

definition history_options_new :: "nat \<Rightarrow> history_options" where
  "history_options_new retention =
     \<lparr>ho_retention = retention, ho_command_capacity = HISTORY_COMMAND_CAPACITY,
      ho_busy_timeout = DEFAULT_BUSY_TIMEOUT, ho_request_timeout = DEFAULT_REQUEST_TIMEOUT\<rparr>"

definition validate_timeout :: "nat \<Rightarrow> string \<Rightarrow> (unit, history_error) result" where
  "validate_timeout timeout label =
     (if timeout < 1000000 \<or> timeout > MAX_CONFIGURED_TIMEOUT then Inl (InvalidHistoryOptions label) else Inr ())"

definition with_command_capacity :: "history_options \<Rightarrow> nat \<Rightarrow> (history_options, history_error) result" where
  "with_command_capacity options capacity =
     (if \<not> (1 \<le> capacity \<and> capacity \<le> MAX_COMMAND_CAPACITY)
      then Inl (InvalidHistoryOptions ''history command capacity must be between 1 and 1024'')
      else Inr (options\<lparr>ho_command_capacity := capacity\<rparr>))"

definition with_busy_timeout :: "history_options \<Rightarrow> nat \<Rightarrow> (history_options, history_error) result" where
  "with_busy_timeout options timeout =
     and_then (validate_timeout timeout ''SQLite busy timeout'') (\<lambda>_. Inr (options\<lparr>ho_busy_timeout := timeout\<rparr>))"

definition with_request_timeout :: "history_options \<Rightarrow> nat \<Rightarrow> (history_options, history_error) result" where
  "with_request_timeout options timeout =
     and_then (validate_timeout timeout ''history request timeout'') (\<lambda>_. Inr (options\<lparr>ho_request_timeout := timeout\<rparr>))"

definition validate_options :: "history_options \<Rightarrow> (unit, history_error) result" where
  "validate_options options =
     (if \<not> (1 \<le> ho_command_capacity options \<and> ho_command_capacity options \<le> MAX_COMMAND_CAPACITY)
      then Inl (InvalidHistoryOptions ''history command capacity must be between 1 and 1024'')
      else
        and_then (validate_timeout (ho_busy_timeout options) ''SQLite busy timeout'') (\<lambda>_.
        validate_timeout (ho_request_timeout options) ''history request timeout''))"

section \<open>The database\<close>

record history_row =
  hr_id :: nat
  hr_provider :: str
  hr_observed :: int
  hr_metric :: str
  hr_value :: int

record schema_object =
  so_type :: string
  so_name :: str
  so_sql :: str

record history_db =
  hd_rows :: "history_row list"
  hd_last_id :: nat
  hd_version :: int
  hd_objects :: "schema_object list"
  hd_journal_mode :: str
  hd_foreign_keys :: int
  hd_busy_timeout_ms :: int
  hd_integrity :: str

type_synonym db_faults = "string \<Rightarrow> nat \<Rightarrow> bool"

definition statement :: "db_faults \<Rightarrow> string \<Rightarrow> 'a \<Rightarrow> ('a, history_error) result" where
  "statement fails operation v = (if fails operation 0 then Inl (HistoryDatabase operation) else Inr v)"

text \<open>\<open>ORDER BY observed_at_unix_ms DESC, id DESC\<close>.\<close>

definition newest_first :: "history_row list \<Rightarrow> history_row list" where
  "newest_first rows = sort_key (\<lambda>r. (- hr_observed r, - int (hr_id r))) rows"

text \<open>
  The insertion fails when the engine refuses it, when a check of the table does, or when no row
  identifier is left; a row's identifier is larger than any used before (\<open>AUTOINCREMENT\<close>).
\<close>

definition insert_record :: "db_faults \<Rightarrow> history_db \<Rightarrow> history_record \<Rightarrow> (history_db, history_error) result" where
  "insert_record fails db rec =
     (if fails ''insert history record'' 0 \<or>
         \<not> (0 \<le> hy_observed rec \<and> hy_observed rec \<le> 253402300799999) \<or>
         \<not> (-9000000000000000 \<le> hy_value rec \<and> hy_value rec \<le> 9000000000000000) \<or> hd_last_id db \<ge> row_id_limit
      then Inl (HistoryDatabase ''insert history record'')
      else
        let row = \<lparr>hr_id = hd_last_id db + 1, hr_provider = hy_provider rec, hr_observed = hy_observed rec,
              hr_metric = hy_metric rec, hr_value = hy_value rec\<rparr> in
        Inr (db\<lparr>hd_rows := row # hd_rows db, hd_last_id := hd_last_id db + 1\<rparr>))"

definition prune_records :: "db_faults \<Rightarrow> history_db \<Rightarrow> nat \<Rightarrow> (history_db \<times> nat, history_error) result" where
  "prune_records fails db retention =
     and_then (statement fails ''apply history retention'' ()) (\<lambda>_.
     let doomed = map hr_id (drop retention (newest_first (hd_rows db)));
         kept = filter (\<lambda>r. hr_id r \<notin> set doomed) (hd_rows db);
         removed = length (hd_rows db) - length kept in
     if removed > u32_limit then Inl (MalformedHistorySchema ''retention removed an unrepresentable row count'')
     else Inr (db\<lparr>hd_rows := kept\<rparr>, removed))"

definition enforce_retention :: "db_faults \<Rightarrow> history_db \<Rightarrow> nat \<Rightarrow> (history_db, history_error) result" where
  "enforce_retention fails db retention =
     and_then (statement fails ''begin startup retention transaction'' ()) (\<lambda>_.
     and_then (prune_records fails db retention) (\<lambda>(db', _).
     statement fails ''commit startup retention transaction'' db'))"

fun read_rows :: "db_faults \<Rightarrow> nat \<Rightarrow> history_row list \<Rightarrow> (history_record list, history_error) result" where
  "read_rows fails index [] = Inr []"
| "read_rows fails index (row # rows) =
     (if fails ''read history row'' index then Inl (HistoryDatabase ''read history row'')
      else
        and_then (map_err InvalidHistoryRecord
            (history_record_new (hr_provider row) (hr_observed row) (hr_metric row) (hr_value row))) (\<lambda>rec.
        and_then (read_rows fails (index + 1) rows) (\<lambda>recs. Inr (rec # recs))))"

definition query_latest :: "db_faults \<Rightarrow> history_db \<Rightarrow> nat \<Rightarrow> (history_record list, history_error) result" where
  "query_latest fails db limit =
     and_then (statement fails ''prepare history query'' ()) (\<lambda>_.
     and_then (statement fails ''query history'' ()) (\<lambda>_.
     read_rows fails 0 (take limit (newest_first (hd_rows db)))))"

definition read_schema_version :: "db_faults \<Rightarrow> history_db \<Rightarrow> (nat, history_error) result" where
  "read_schema_version fails db =
     and_then (statement fails ''read schema version'' ()) (\<lambda>_.
     if 0 \<le> hd_version db \<and> hd_version db \<le> int u32_limit then Inr (nat (hd_version db))
     else Inl (MalformedHistorySchema ''history schema version is not an unsigned 32-bit integer''))"

record storage_execution =
  se_owner :: nat
  se_sequence :: nat

record history_status =
  hs_journal_mode :: str
  hs_foreign_keys :: bool
  hs_busy_timeout_ms :: nat
  hs_schema_version :: nat
  hs_row_count :: nat
  hs_execution :: storage_execution

definition read_status :: "db_faults \<Rightarrow> history_db \<Rightarrow> storage_execution \<Rightarrow> (history_status, history_error) result" where
  "read_status fails db execution =
     and_then (statement fails ''read journal mode'' ()) (\<lambda>_.
     and_then (statement fails ''read foreign-key setting'' ()) (\<lambda>_.
     and_then (statement fails ''read busy timeout'' ()) (\<lambda>_.
     and_then (statement fails ''count history records'' ()) (\<lambda>_.
     if hd_busy_timeout_ms db < 0 then Inl (MalformedHistorySchema ''SQLite returned a negative busy timeout'')
     else
       and_then (read_schema_version fails db) (\<lambda>version.
       if length (hd_rows db) > u32_limit then Inl (MalformedHistorySchema ''history row count exceeds the supported bound'')
       else Inr \<lparr>hs_journal_mode = map to_ascii_lowercase (hd_journal_mode db), hs_foreign_keys = (hd_foreign_keys db = 1),
          hs_busy_timeout_ms = nat (hd_busy_timeout_ms db), hs_schema_version = version,
          hs_row_count = length (hd_rows db), hs_execution = execution\<rparr>)))))"

section \<open>The worker\<close>

record history_worker =
  hw_db :: history_db
  hw_retention :: nat
  hw_owner :: nat
  hw_sequence :: nat

record insert_receipt =
  ir_execution :: storage_execution
  ir_pruned :: nat

record history_query =
  hq_records :: "history_record list"
  hq_execution :: storage_execution

definition next_execution :: "history_worker \<Rightarrow> (history_worker \<times> storage_execution, history_error) result" where
  "next_execution w =
     (case checked_add u64_max (hw_sequence w) 1 of
       None \<Rightarrow> Inl HistorySequenceExhausted
     | Some n \<Rightarrow> Inr (w\<lparr>hw_sequence := n\<rparr>, \<lparr>se_owner = hw_owner w, se_sequence = n\<rparr>))"

text \<open>A transaction that fails, at whatever statement, is rolled back when it is dropped.\<close>

definition worker_insert :: "db_faults \<Rightarrow> history_worker \<Rightarrow> history_record \<Rightarrow> history_worker \<times> (insert_receipt, history_error) result" where
  "worker_insert fails w rec =
     (case next_execution w of
       Inl e \<Rightarrow> (w, Inl e)
     | Inr (w, execution) \<Rightarrow>
         (case and_then (statement fails ''begin insert transaction'' ()) (\<lambda>_.
               and_then (insert_record fails (hw_db w) rec) (\<lambda>db.
               and_then (prune_records fails db (hw_retention w)) (\<lambda>(db, pruned).
               and_then (statement fails ''commit insert transaction'' ()) (\<lambda>_.
               Inr (db, pruned))))) of
           Inl e \<Rightarrow> (w, Inl e)
         | Inr (db, pruned) \<Rightarrow> (w\<lparr>hw_db := db\<rparr>, Inr \<lparr>ir_execution = execution, ir_pruned = pruned\<rparr>)))"

definition worker_latest :: "db_faults \<Rightarrow> history_worker \<Rightarrow> nat \<Rightarrow> history_worker \<times> (history_query, history_error) result" where
  "worker_latest fails w limit =
     (case next_execution w of
       Inl e \<Rightarrow> (w, Inl e)
     | Inr (w, execution) \<Rightarrow>
         (w, map_ok (\<lambda>records. \<lparr>hq_records = records, hq_execution = execution\<rparr>) (query_latest fails (hw_db w) limit)))"

definition worker_status :: "db_faults \<Rightarrow> history_worker \<Rightarrow> history_worker \<times> (history_status, history_error) result" where
  "worker_status fails w =
     (case next_execution w of
       Inl e \<Rightarrow> (w, Inl e)
     | Inr (w, execution) \<Rightarrow> (w, read_status fails (hw_db w) execution))"

datatype history_command = InsertCommand history_record | LatestCommand nat | StatusCommand

datatype history_reply =
  InsertReply "(insert_receipt, history_error) result"
| LatestReply "(history_query, history_error) result"
| StatusReply "(history_status, history_error) result"

fun worker_execute :: "db_faults \<Rightarrow> history_worker \<Rightarrow> history_command \<Rightarrow> history_worker \<times> history_reply" where
  "worker_execute fails w (InsertCommand rec) = (case worker_insert fails w rec of (w, r) \<Rightarrow> (w, InsertReply r))"
| "worker_execute fails w (LatestCommand limit) = (case worker_latest fails w limit of (w, r) \<Rightarrow> (w, LatestReply r))"
| "worker_execute fails w StatusCommand = (case worker_status fails w of (w, r) \<Rightarrow> (w, StatusReply r))"

text \<open>
  What one turn of the worker's loop meets: the stop flag, a timeout, the closed channel, or a
  command, with whether the flag is set by then and what the engine refuses.
\<close>

datatype worker_event = StopSeen | IdlePoll | ChannelClosed | Arrived history_command bool db_faults

fun worker_loop :: "history_worker \<Rightarrow> worker_event list \<Rightarrow> history_worker \<times> history_reply list \<times> bool" where
  "worker_loop w [] = (w, [], False)"
| "worker_loop w (StopSeen # events) = (w, [], True)"
| "worker_loop w (IdlePoll # events) = worker_loop w events"
| "worker_loop w (ChannelClosed # events) = (w, [], True)"
| "worker_loop w (Arrived cmd stopped fails # events) =
     (if stopped then (w, [], True)
      else
        (case worker_execute fails w cmd of
          (w, reply) \<Rightarrow> (case worker_loop w events of (w, replies, ended) \<Rightarrow> (w, reply # replies, ended))))"

definition shutdown_connection :: "db_faults \<Rightarrow> int \<Rightarrow> (unit, history_error) result" where
  "shutdown_connection fails busy =
     and_then (statement fails ''checkpoint WAL during shutdown'' ()) (\<lambda>_.
     if busy = 0 then Inr () else Inl HistoryCheckpointBusy)"

section \<open>The schema\<close>

definition CREATE_TABLE_SQL :: str where
  "CREATE_TABLE_SQL = join_with [10]
     [lit ''CREATE TABLE history_records ('',
      lit ''    id INTEGER PRIMARY KEY AUTOINCREMENT,'',
      lit ''    provider_id TEXT NOT NULL,'',
      lit ''    observed_at_unix_ms INTEGER NOT NULL CHECK (observed_at_unix_ms >= 0 AND observed_at_unix_ms <= 253402300799999),'',
      lit ''    metric_id TEXT NOT NULL,'',
      lit ''    value_micros INTEGER NOT NULL CHECK (value_micros >= -9000000000000000 AND value_micros <= 9000000000000000)'',
      lit '') STRICT'']"

definition CREATE_ORDER_INDEX_SQL :: str where
  "CREATE_ORDER_INDEX_SQL =
     lit ''CREATE INDEX history_records_order ON history_records(observed_at_unix_ms DESC, id DESC)''"

text \<open>\<open>LIKE 'sqlite_%'\<close> ignores case, and its underscore stands for any character.\<close>

definition sqlite_internal :: "str \<Rightarrow> bool" where
  "sqlite_internal name \<longleftrightarrow> map to_ascii_lowercase (take 6 name) = lit ''sqlite'' \<and> length name \<ge> 7"

definition history_table :: schema_object where
  "history_table = \<lparr>so_type = ''table'', so_name = lit ''history_records'', so_sql = CREATE_TABLE_SQL\<rparr>"

definition history_index :: schema_object where
  "history_index = \<lparr>so_type = ''index'', so_name = lit ''history_records_order'', so_sql = CREATE_ORDER_INDEX_SQL\<rparr>"

definition migrate_schema :: "db_faults \<Rightarrow> history_db \<Rightarrow> nat \<Rightarrow> (history_db, history_error) result" where
  "migrate_schema fails db version =
     (if version = 0 then
        and_then (statement fails ''inspect unversioned schema'' ()) (\<lambda>_.
        if length (filter (\<lambda>object. \<not> sqlite_internal (so_name object)) (hd_objects db)) \<noteq> 0
        then Inl (MalformedHistorySchema ''unversioned database contains application objects'')
        else
          and_then (statement fails ''begin schema migration'' ()) (\<lambda>_.
          and_then (statement fails ''create history table'' ()) (\<lambda>_.
          and_then (statement fails ''create history index'' ()) (\<lambda>_.
          and_then (statement fails ''write schema version'' ()) (\<lambda>_.
          statement fails ''commit schema migration''
            (db\<lparr>hd_objects := hd_objects db @ [history_table, history_index], hd_version := int HISTORY_SCHEMA_VERSION\<rparr>))))))
      else if version = HISTORY_SCHEMA_VERSION then Inr db
      else Inl (MalformedHistorySchema ''no migration exists for the declared schema version''))"

definition object_sql :: "history_db \<Rightarrow> string \<Rightarrow> str \<Rightarrow> str option" where
  "object_sql db kind name = map_option so_sql (find (\<lambda>object. so_type object = kind \<and> so_name object = name) (hd_objects db))"

definition verify_schema :: "db_faults \<Rightarrow> history_db \<Rightarrow> (unit, history_error) result" where
  "verify_schema fails db =
     and_then (statement fails ''check database integrity'' ()) (\<lambda>_.
     if hd_integrity db \<noteq> lit ''ok'' then Inl (MalformedHistorySchema ''SQLite integrity check failed'')
     else
       and_then (statement fails ''verify history table'' (object_sql db ''table'' (lit ''history_records''))) (\<lambda>table_sql.
       if table_sql \<noteq> Some CREATE_TABLE_SQL
       then Inl (MalformedHistorySchema ''history table definition differs from the supported schema'')
       else
         and_then (statement fails ''verify history index'' (object_sql db ''index'' (lit ''history_records_order''))) (\<lambda>index_sql.
         if index_sql \<noteq> Some CREATE_ORDER_INDEX_SQL
         then Inl (MalformedHistorySchema ''history ordering index differs from the supported schema'')
         else
           and_then (statement fails ''verify schema objects'' ()) (\<lambda>_.
           if length (filter (\<lambda>object. \<not> sqlite_internal (so_name object) \<and>
                so_name object \<notin> {lit ''history_records'', lit ''history_records_order''}) (hd_objects db)) \<noteq> 0
           then Inl (MalformedHistorySchema ''history database contains unexpected schema objects'')
           else Inr ()))))"

section \<open>The file\<close>

record file_meta =
  fm_directory :: bool
  fm_regular :: bool
  fm_symlink :: bool
  fm_uid :: nat
  fm_mode :: nat
  fm_links :: nat
  fm_len :: nat
  fm_device :: nat
  fm_inode :: nat

text \<open>
  What \<open>symlink_metadata\<close> returns for a path: \<open>Inl True\<close> when it does not exist, \<open>Inl False\<close> for
  another failure. A path is given by its components below the root.
\<close>

type_synonym lookup = "str list \<Rightarrow> (file_meta, bool) result"

record prepared_database =
  pd_path :: str
  pd_identity :: "nat \<times> nat"
  pd_created :: bool

definition metadata_identity :: "file_meta \<Rightarrow> nat \<times> nat" where
  "metadata_identity m = (fm_device m, fm_inode m)"

definition validate_database_metadata :: "nat \<Rightarrow> str \<Rightarrow> file_meta \<Rightarrow> (unit, history_error) result" where
  "validate_database_metadata euid path m =
     (if \<not> fm_regular m then Inl (UnsafeHistoryPath path ''database is not a regular file'')
      else if fm_mode m AND 0xFFF \<noteq> DATABASE_MODE then Inl (UnsafeHistoryPath path ''database permissions are not mode 0600'')
      else if fm_uid m \<noteq> euid then Inl (UnsafeHistoryPath path ''database is not owned by the effective user'')
      else if fm_links m \<noteq> 1 then Inl (UnsafeHistoryPath path ''database must have exactly one hard link'')
      else if fm_len m > MAX_HISTORY_DATABASE_BYTES then Inl (UnsafeHistoryPath path ''database exceeds the supported size bound'')
      else Inr ())"

definition check_component :: "lookup \<Rightarrow> str \<Rightarrow> str list \<Rightarrow> (unit, history_error) result" where
  "check_component fs path traversed =
     (case fs traversed of
       Inl _ \<Rightarrow> Inl (HistoryIo ''inspect path component for'')
     | Inr m \<Rightarrow> if fm_symlink m then Inl (UnsafeHistoryPath path ''path contains a symbolic link'') else Inr ())"

fun reject_symlinks_from :: "lookup \<Rightarrow> str \<Rightarrow> str list \<Rightarrow> str list \<Rightarrow> (unit, history_error) result" where
  "reject_symlinks_from fs path traversed [] = Inr ()"
| "reject_symlinks_from fs path traversed (name # names) =
     (if name = lit ''..'' then Inl (UnsafeHistoryPath path ''parent-directory traversal is not allowed'')
      else
        and_then (check_component fs path (traversed @ [name])) (\<lambda>_.
        reject_symlinks_from fs path (traversed @ [name]) names))"

definition reject_symlink_components :: "lookup \<Rightarrow> str \<Rightarrow> str list \<Rightarrow> (unit, history_error) result" where
  "reject_symlink_components fs path parent =
     and_then (check_component fs path []) (\<lambda>_. reject_symlinks_from fs path [] parent)"

text \<open>
  The outcome of creating the file: the first operation that fails, or the metadata of what was
  created, absent when reading it fails.
\<close>

definition prepare_database_path ::
    "nat \<Rightarrow> lookup \<Rightarrow> (file_meta option, string) result \<Rightarrow> str \<Rightarrow> (prepared_database, history_error) result" where
  "prepare_database_path euid fs creation path =
     (if \<not> starts_with 47 path then Inl (UnsafeHistoryPath path ''database path must be absolute'')
      else if path_pieces path = [] \<or> last (path_pieces path) = lit ''..''
      then Inl (UnsafeHistoryPath path ''database path has no file name'')
      else
        let parent = butlast (path_pieces path) in
        and_then (reject_symlink_components fs (lit ''/'' @ join_with (lit ''/'') parent) parent) (\<lambda>_.
        case fs parent of
          Inl _ \<Rightarrow> Inl (HistoryIo ''inspect parent directory for'')
        | Inr m \<Rightarrow>
            if \<not> fm_directory m then Inl (UnsafeHistoryPath path ''database parent is not a directory'')
            else if fm_uid m \<noteq> euid then Inl (UnsafeHistoryPath path ''database parent is not owned by the effective user'')
            else if fm_mode m AND PRIVATE_DIRECTORY_MASK \<noteq> 0
            then Inl (UnsafeHistoryPath path ''database parent grants group or other permissions'')
            else
              (case fs (path_pieces path) of
                Inr m \<Rightarrow>
                  and_then (validate_database_metadata euid path m) (\<lambda>_.
                  Inr \<lparr>pd_path = path, pd_identity = metadata_identity m, pd_created = False\<rparr>)
              | Inl missing \<Rightarrow>
                  if \<not> missing then Inl (HistoryIo ''inspect database'')
                  else
                    and_then (map_err HistoryIo creation) (\<lambda>created.
                    case created of
                      None \<Rightarrow> Inl (HistoryIo ''inspect newly created database'')
                    | Some m \<Rightarrow>
                        and_then (validate_database_metadata euid path m) (\<lambda>_.
                        Inr \<lparr>pd_path = path, pd_identity = metadata_identity m, pd_created = True\<rparr>)))))"

definition validate_prepared_identity :: "nat \<Rightarrow> lookup \<Rightarrow> prepared_database \<Rightarrow> (unit, history_error) result" where
  "validate_prepared_identity euid fs prepared =
     (case fs (path_pieces (pd_path prepared)) of
       Inl _ \<Rightarrow> Inl (HistoryIo ''reinspect database'')
     | Inr m \<Rightarrow>
         and_then (validate_database_metadata euid (pd_path prepared) m) (\<lambda>_.
         if metadata_identity m \<noteq> pd_identity prepared
         then Inl (UnsafeHistoryPath (pd_path prepared) ''database changed while it was being opened'') else Inr ()))"

definition sidecar_path :: "str \<Rightarrow> str \<Rightarrow> str" where
  "sidecar_path path suffix = path @ suffix"

fun validate_sidecars_from :: "nat \<Rightarrow> lookup \<Rightarrow> str \<Rightarrow> str list \<Rightarrow> (unit, history_error) result" where
  "validate_sidecars_from euid fs path [] = Inr ()"
| "validate_sidecars_from euid fs path (suffix # suffixes) =
     (case fs (path_pieces (sidecar_path path suffix)) of
       Inr m \<Rightarrow>
         if fm_regular m \<and> fm_mode m AND 0xFFF = DATABASE_MODE \<and> fm_uid m = euid \<and> fm_links m = 1 \<and>
            fm_len m \<le> MAX_HISTORY_DATABASE_BYTES
         then validate_sidecars_from euid fs path suffixes
         else Inl (UnsafeHistoryPath (sidecar_path path suffix) ''SQLite sidecar must be an owner-mode-0600 regular file'')
     | Inl missing \<Rightarrow>
         if missing then validate_sidecars_from euid fs path suffixes else Inl (HistoryIo ''inspect SQLite sidecar for''))"

definition validate_sidecars :: "nat \<Rightarrow> lookup \<Rightarrow> str \<Rightarrow> (unit, history_error) result" where
  "validate_sidecars euid fs path = validate_sidecars_from euid fs path [lit ''-journal'', lit ''-wal'', lit ''-shm'']"

text \<open>
  The connection: what the file looks like before and after it is opened, and the journal mode the
  engine answers when asked for write-ahead logging. The database is returned as the failing
  statement leaves it.
\<close>

definition initialize_connection ::
    "db_faults \<Rightarrow> nat \<Rightarrow> lookup \<Rightarrow> lookup \<Rightarrow> str \<Rightarrow> prepared_database \<Rightarrow> nat \<Rightarrow> nat \<Rightarrow> nat \<Rightarrow> history_db \<Rightarrow>
     history_db \<times> (unit, history_error) result" where
  "initialize_connection fails euid fs_before fs_after granted prepared busy_timeout retention owner db =
     (case
        and_then (validate_prepared_identity euid fs_before prepared) (\<lambda>_.
        and_then (validate_sidecars euid fs_before (pd_path prepared)) (\<lambda>_.
        and_then (statement fails ''open database'' ()) (\<lambda>_.
        and_then (validate_prepared_identity euid fs_after prepared) (\<lambda>_.
        and_then (statement fails ''set busy timeout'' ()) (\<lambda>_.
        statement fails ''enable foreign keys'' ()))))) of
       Inl e \<Rightarrow> (db, Inl e)
     | Inr _ \<Rightarrow>
         let db = db\<lparr>hd_busy_timeout_ms := int (busy_timeout div 1000000), hd_foreign_keys := 1\<rparr> in
         (case and_then (read_schema_version fails db) (\<lambda>version.
               if version > HISTORY_SCHEMA_VERSION then Inl (FutureHistorySchema version HISTORY_SCHEMA_VERSION)
               else migrate_schema fails db version) of
           Inl e \<Rightarrow> (db, Inl e)
         | Inr db \<Rightarrow>
             (case and_then (verify_schema fails db) (\<lambda>_. statement fails ''enable WAL'' ()) of
               Inl e \<Rightarrow> (db, Inl e)
             | Inr _ \<Rightarrow>
                 let db = db\<lparr>hd_journal_mode := granted\<rparr> in
                 if map to_ascii_lowercase granted \<noteq> lit ''wal''
                 then (db, Inl (MalformedHistorySchema ''SQLite did not accept WAL journal mode''))
                 else
                   (case enforce_retention fails db retention of
                     Inl e \<Rightarrow> (db, Inl e)
                   | Inr db \<Rightarrow>
                       (case read_status fails db \<lparr>se_owner = owner, se_sequence = 0\<rparr> of
                         Inl e \<Rightarrow> (db, Inl e)
                       | Inr status \<Rightarrow>
                           if hs_journal_mode status \<noteq> lit ''wal'' \<or> \<not> hs_foreign_keys status \<or>
                              hs_schema_version status \<noteq> HISTORY_SCHEMA_VERSION
                           then (db, Inl (MalformedHistorySchema ''required SQLite pragmas were not active''))
                           else (db, Inr ()))))))"

text \<open>The paths that are removed again when a database just created could not be opened.\<close>

definition cleanup_failed_new_database :: "nat \<Rightarrow> lookup \<Rightarrow> prepared_database \<Rightarrow> str list" where
  "cleanup_failed_new_database euid fs prepared =
     (if validate_prepared_identity euid fs prepared = Inr () then
        pd_path prepared #
        filter (\<lambda>sidecar. case fs (path_pieces sidecar) of Inr m \<Rightarrow> fm_regular m | Inl _ \<Rightarrow> False)
          (map (sidecar_path (pd_path prepared)) [lit ''-journal'', lit ''-wal'', lit ''-shm''])
      else [])"

text \<open>How the caller learns of the start: the worker's answer, a timeout, or a worker that is gone.\<close>

datatype startup_outcome = StartupAnswered | StartupTimedOut | StartupDisconnected

definition open_with_options ::
    "db_faults \<Rightarrow> nat \<Rightarrow> lookup \<Rightarrow> (file_meta option, string) result \<Rightarrow> lookup \<Rightarrow> lookup \<Rightarrow> lookup \<Rightarrow> str \<Rightarrow> bool \<Rightarrow> startup_outcome \<Rightarrow> bool \<Rightarrow>
     nat \<Rightarrow> str \<Rightarrow> history_options \<Rightarrow> history_db \<Rightarrow> history_db \<times> str list \<times> (history_worker, history_error) result" where
  "open_with_options fails euid fs creation fs_before fs_after fs_cleanup granted spawned startup panicked owner path options db =
     (case and_then (validate_options options) (\<lambda>_. prepare_database_path euid fs creation path) of
       Inl e \<Rightarrow> (db, [], Inl e)
     | Inr prepared \<Rightarrow>
         if \<not> spawned then (db, [], Inl (HistoryIo ''spawn the storage worker for''))
         else
           (case initialize_connection fails euid fs_before fs_after granted prepared (ho_busy_timeout options) (ho_retention options) owner db of
             (db, r) \<Rightarrow>
               let removed = (if r \<noteq> Inr () \<and> pd_created prepared then cleanup_failed_new_database euid fs_cleanup prepared else []) in
               (db, removed,
                (case (startup, r) of
                  (StartupAnswered, Inr _) \<Rightarrow> Inr \<lparr>hw_db = db, hw_retention = ho_retention options, hw_owner = owner, hw_sequence = 0\<rparr>
                | (StartupAnswered, Inl e) \<Rightarrow> if panicked then Inl HistoryWorkerPanicked else Inl e
                | (StartupTimedOut, _) \<Rightarrow> if panicked then Inl HistoryWorkerPanicked else Inl HistoryRequestTimeout
                | (StartupDisconnected, _) \<Rightarrow> if panicked then Inl HistoryWorkerPanicked else Inl HistoryWorkerStopped))))"

section \<open>Requests\<close>

record history_channel =
  hc_open :: bool
  hc_connected :: bool
  hc_capacity :: nat
  hc_queue :: "history_command list"

datatype reply_outcome = ReplyTimeout | ReplyDisconnected | Replied history_reply

fun receive_reply :: "reply_outcome \<Rightarrow> (history_reply, history_error) result" where
  "receive_reply (Replied r) = Inr r"
| "receive_reply ReplyTimeout = Inl HistoryRequestTimeout"
| "receive_reply ReplyDisconnected = Inl HistoryWorkerStopped"

definition history_request ::
    "history_channel \<Rightarrow> history_command \<Rightarrow> reply_outcome \<Rightarrow> history_channel \<times> (history_reply, history_error) result" where
  "history_request channel cmd reply =
     (if \<not> hc_open channel then (channel, Inl HistoryWorkerStopped)
      else if \<not> hc_connected channel then (channel, Inl HistoryWorkerStopped)
      else if length (hc_queue channel) \<ge> hc_capacity channel then (channel, Inl HistoryQueueFull)
      else (channel\<lparr>hc_queue := hc_queue channel @ [cmd]\<rparr>, receive_reply reply))"

definition history_latest ::
    "history_channel \<Rightarrow> nat \<Rightarrow> reply_outcome \<Rightarrow> history_channel \<times> (history_reply, history_error) result" where
  "history_latest channel limit reply =
     (if \<not> (1 \<le> limit \<and> limit \<le> MAX_HISTORY_QUERY_RECORDS)
      then (channel, Inl (InvalidHistoryOptions ''history query limit must be between 1 and 1000''))
      else history_request channel (LatestCommand limit) reply)"

definition shutdown_inner :: "bool \<Rightarrow> bool \<Rightarrow> (unit, history_error) result option \<Rightarrow> (unit, history_error) result" where
  "shutdown_inner running panicked sent =
     (if \<not> running then Inr ()
      else if panicked then Inl HistoryWorkerPanicked
      else (case sent of None \<Rightarrow> Inl HistoryWorkerStopped | Some r \<Rightarrow> r))"

end
