(* ===== verification/History_Refinement.thy ===== *)
theory History_Refinement
  imports History_Store
begin

text \<open>
  What the history store promises: the database is, at every moment, the newest records of all that
  were accepted, whatever statements failed in between; it is opened only when it is exactly the
  supported schema, and only as a private file.
\<close>

section \<open>A bounded log\<close>

text \<open>
  A store that inserts by time and keeps the first \<open>limit\<close> entries holds the newest of everything
  that was ever inserted: forgetting early loses nothing.
\<close>

lemma take_insort_take: "take n (insort_key f x (take n ys)) = take n (insort_key f x ys)"
proof (induction ys arbitrary: n)
  case (Cons y ys)
  then show ?case by (cases n) (auto simp: take_Cons')
qed simp

locale retained_log =
  fixes insert :: "'s \<Rightarrow> 'r \<Rightarrow> 's option"
    and view :: "'s \<Rightarrow> 'r list"
    and time :: "'r \<Rightarrow> int"
    and limit :: nat
    and ok :: "'s \<Rightarrow> bool"
    and admissible :: "'r \<Rightarrow> bool"
  assumes insert_ok: "ok s \<Longrightarrow> admissible r \<Longrightarrow> insert s r = Some s' \<Longrightarrow> ok s'"
    and insert_view: "ok s \<Longrightarrow> admissible r \<Longrightarrow> insert s r = Some s' \<Longrightarrow>
      view s' = take limit (insort_key (\<lambda>r. - time r) r (view s))"
    and view_sorted: "ok s \<Longrightarrow> sorted (map (\<lambda>r. - time r) (view s))"
    and view_bounded: "ok s \<Longrightarrow> length (view s) \<le> limit"
begin

text \<open>A state that holds the newest of the records in \<open>rs\<close>, latest first, and of an older view.\<close>

definition holds :: "'s \<Rightarrow> 'r list \<Rightarrow> 'r list \<Rightarrow> bool" where
  "holds s rs old \<longleftrightarrow> ok s \<and> view s = take limit (sort_key (\<lambda>r. - time r) (rs @ old))"

lemma holds_start: "ok s \<Longrightarrow> holds s [] (view s)"
  unfolding holds_def using view_sorted [of s] view_bounded [of s] by (simp add: sort_key_id_if_sorted)

lemma holds_insert:
  assumes "holds s rs old" "admissible r" "insert s r = Some s'"
  shows "holds s' (r # rs) old"
  using assms insert_ok insert_view unfolding holds_def by (auto simp: take_insort_take)

end

section \<open>Rows and records\<close>

definition row_record :: "history_row \<Rightarrow> history_record" where
  "row_record r = \<lparr>hy_provider = hr_provider r, hy_observed = hr_observed r, hy_metric = hr_metric r, hy_value = hr_value r\<rparr>"

definition history_view :: "history_db \<Rightarrow> history_record list" where
  "history_view db = map row_record (newest_first (hd_rows db))"

definition valid_record :: "history_record \<Rightarrow> bool" where
  "valid_record r \<longleftrightarrow> history_record_new (hy_provider r) (hy_observed r) (hy_metric r) (hy_value r) = Inr r"

definition history_ok :: "nat \<Rightarrow> history_db \<Rightarrow> bool" where
  "history_ok retention db \<longleftrightarrow>
     distinct (map hr_id (hd_rows db)) \<and> (\<forall>r\<in>set (hd_rows db). hr_id r \<le> hd_last_id db \<and> valid_record (row_record r)) \<and>
     length (hd_rows db) \<le> retention"

abbreviation row_key :: "history_row \<Rightarrow> int \<times> int" where
  "row_key r \<equiv> (- hr_observed r, - int (hr_id r))"

lemma newest_first_set [simp]: "set (newest_first rows) = set rows"
  by (simp add: newest_first_def)

lemma newest_first_length [simp]: "length (newest_first rows) = length rows"
  by (simp add: newest_first_def)

lemma newest_first_filter: "newest_first (filter P rows) = filter P (newest_first rows)"
  by (simp add: newest_first_def filter_sort)

lemma distinct_map_newest: "distinct (map hr_id (newest_first rows)) \<longleftrightarrow> distinct (map hr_id rows)"
  by (metis mset_map mset_sort newest_first_def mset_eq_imp_distinct_iff)

text \<open>A row with the largest identifier goes before those of its own time.\<close>

lemma newest_first_insert:
  assumes "\<forall>r\<in>set rows. hr_id r < hr_id new"
  shows "newest_first (new # rows) = insort_key (\<lambda>r. - hr_observed r) new (newest_first rows)"
proof -
  have "insort_key row_key new rs = insort_key (\<lambda>r. - hr_observed r) new rs" if "\<forall>r\<in>set rs. hr_id r < hr_id new" for rs
    using that by (induction rs) (auto simp: less_eq_prod_def)
  with assms show ?thesis unfolding newest_first_def by simp
qed

lemma newest_first_sorted: "sorted (map (\<lambda>r. - hr_observed r) (newest_first rows))"
proof -
  have "sorted (map row_key (newest_first rows))" unfolding newest_first_def by (rule sorted_sort_key)
  then show ?thesis by (induction "newest_first rows" arbitrary: rows) (auto simp: sorted_map less_eq_prod_def elim!: sorted_wrt_mono_rel [rotated])
qed

lemma map_insort_record:
  "map row_record (insort_key (\<lambda>r. - hr_observed r) new rows) = insort_key (\<lambda>r. - hy_observed r) (row_record new) (map row_record rows)"
  by (induction rows) (auto simp: row_record_def)

lemma filter_not_dropped:
  assumes "distinct (map f xs)"
  shows "filter (\<lambda>x. f x \<notin> set (map f (drop n xs))) xs = take n xs"
proof -
  have "distinct (map f (take n xs @ drop n xs))" using assms by simp
  then have disjoint: "\<forall>x\<in>set (take n xs). f x \<notin> f ` set (drop n xs)" by (auto simp flip: append_take_drop_id simp del: append_take_drop_id)
  have "filter (\<lambda>x. f x \<notin> set (map f (drop n xs))) (take n xs @ drop n xs) = take n xs"
    using disjoint by (simp add: filter_id_conv filter_empty_conv del: append_take_drop_id)
  then show ?thesis by simp
qed

section \<open>Statements\<close>

lemma statement_Inr [result_simps]: "statement fails operation v = Inr x \<longleftrightarrow> \<not> fails operation 0 \<and> x = v"
  by (auto simp: statement_def)

lemma prune_records_rows:
  assumes "prune_records fails db n = Inr (db', k)" "distinct (map hr_id (hd_rows db))"
  shows "newest_first (hd_rows db') = take n (newest_first (hd_rows db))" "hd_last_id db' = hd_last_id db"
    "set (hd_rows db') \<subseteq> set (hd_rows db)" "distinct (map hr_id (hd_rows db'))" "db' = db\<lparr>hd_rows := hd_rows db'\<rparr>"
proof -
  let ?doomed = "map hr_id (drop n (newest_first (hd_rows db)))"
  have db': "db' = db\<lparr>hd_rows := filter (\<lambda>r. hr_id r \<notin> set ?doomed) (hd_rows db)\<rparr>"
    using assms(1) by (auto simp: prune_records_def Let_def result_simps split: if_splits)
  then show "newest_first (hd_rows db') = take n (newest_first (hd_rows db))"
    using filter_not_dropped [of hr_id "newest_first (hd_rows db)" n] assms(2) by (simp add: newest_first_filter distinct_map_newest)
  show "hd_last_id db' = hd_last_id db" "set (hd_rows db') \<subseteq> set (hd_rows db)" "db' = db\<lparr>hd_rows := hd_rows db'\<rparr>"
    "distinct (map hr_id (hd_rows db'))" using db' assms(2) by (auto simp: distinct_map_filter)
qed

lemma insert_record_row:
  assumes "insert_record fails db rec = Inr db'"
  shows "\<exists>new. row_record new = rec \<and> hr_id new = hd_last_id db + 1 \<and>
    db' = db\<lparr>hd_rows := new # hd_rows db, hd_last_id := hd_last_id db + 1\<rparr>"
proof -
  let ?new = "\<lparr>hr_id = hd_last_id db + 1, hr_provider = hy_provider rec, hr_observed = hy_observed rec,
    hr_metric = hy_metric rec, hr_value = hy_value rec\<rparr>"
  have "db' = db\<lparr>hd_rows := ?new # hd_rows db, hd_last_id := hd_last_id db + 1\<rparr>"
    using assms by (simp add: insert_record_def Let_def split: if_splits)
  moreover have "row_record ?new = rec" by (simp add: row_record_def)
  ultimately show ?thesis by fastforce
qed

text \<open>Insertion and retention in one transaction, as one step of the log.\<close>

definition insert_transaction :: "db_faults \<Rightarrow> nat \<Rightarrow> history_db \<Rightarrow> history_record \<Rightarrow> (history_db \<times> nat, history_error) result" where
  "insert_transaction fails retention db rec =
     and_then (statement fails ''begin insert transaction'' ()) (\<lambda>_.
     and_then (insert_record fails db rec) (\<lambda>db.
     and_then (prune_records fails db retention) (\<lambda>(db, pruned).
     and_then (statement fails ''commit insert transaction'' ()) (\<lambda>_.
     Inr (db, pruned)))))"

lemma insert_transaction_step:
  assumes "insert_transaction fails n db rec = Inr (db', k)" and ok: "history_ok n db" and rec: "valid_record rec"
  shows "history_ok n db' \<and> history_view db' = take n (insort_key (\<lambda>r. - hy_observed r) rec (history_view db))"
proof -
  from assms(1) obtain mid where mid: "insert_record fails db rec = Inr mid" "prune_records fails mid n = Inr (db', k)"
    by (auto simp: insert_transaction_def result_simps)
  from insert_record_row [OF mid(1)] obtain new where new: "row_record new = rec" "hr_id new = hd_last_id db + 1"
    "mid = db\<lparr>hd_rows := new # hd_rows db, hd_last_id := hd_last_id db + 1\<rparr>" by blast
  have larger: "\<forall>r\<in>set (hd_rows db). hr_id r < hr_id new" using ok new(2) by (auto simp: history_ok_def)
  then have "distinct (map hr_id (hd_rows mid))" using ok new by (auto simp: history_ok_def)
  note pruned = prune_records_rows [OF mid(2) this]
  have "history_view db' = take n (insort_key (\<lambda>r. - hy_observed r) rec (history_view db))"
    unfolding history_view_def pruned(1) using newest_first_insert [OF larger] new by (simp add: take_map [symmetric] map_insort_record)
  moreover have "length (hd_rows db') \<le> n"
    using arg_cong [OF pruned(1), of length] by simp
  moreover have "\<forall>r\<in>set (hd_rows db'). hr_id r \<le> hd_last_id db' \<and> valid_record (row_record r)"
    using pruned(2,3) ok new rec by (fastforce simp: history_ok_def)
  ultimately show ?thesis using pruned(4) by (simp add: history_ok_def)
qed

interpretation history_log: retained_log
  "\<lambda>db rec. case insert_transaction fails n db rec of Inr (db', k) \<Rightarrow> Some db' | Inl _ \<Rightarrow> None"
  history_view hy_observed n "history_ok n" valid_record for fails n
proof unfold_locales
  fix db rec db'
  assume "history_ok n db" "valid_record rec"
    "(case insert_transaction fails n db rec of Inr (db', k) \<Rightarrow> Some db' | Inl _ \<Rightarrow> None) = Some db'"
  with insert_transaction_step show "history_ok n db'"
    "history_view db' = take n (insort_key (\<lambda>r. - hy_observed r) rec (history_view db))"
    by (auto split: sum.splits)
next
  fix db
  assume "history_ok n db"
  then show "length (history_view db) \<le> n" by (simp add: history_view_def history_ok_def)
  have "map (\<lambda>r. - hy_observed r) (history_view db) = map (\<lambda>r. - hr_observed r) (newest_first (hd_rows db))"
    by (simp add: history_view_def row_record_def)
  with newest_first_sorted show "sorted (map (\<lambda>r. - hy_observed r) (history_view db))" by simp
qed

lemma worker_insert_transaction:
  "worker_insert fails w rec =
     (case next_execution w of
       Inl e \<Rightarrow> (w, Inl e)
     | Inr (w, execution) \<Rightarrow>
         (case insert_transaction fails (hw_retention w) (hw_db w) rec of
           Inl e \<Rightarrow> (w, Inl e)
         | Inr (db, pruned) \<Rightarrow> (w\<lparr>hw_db := db\<rparr>, Inr \<lparr>ir_execution = execution, ir_pruned = pruned\<rparr>)))"
  unfolding worker_insert_def insert_transaction_def ..

lemma next_execution_keeps: "next_execution w = Inr (w', execution) \<Longrightarrow> hw_db w' = hw_db w \<and> hw_retention w' = hw_retention w"
  by (auto simp: next_execution_def split: option.splits)

text \<open>The records a command and its reply put on the log.\<close>

fun accepted :: "history_command \<times> history_reply \<Rightarrow> history_record list" where
  "accepted (InsertCommand rec, InsertReply (Inr receipt)) = [rec]"
| "accepted _ = []"

lemma worker_execute_holds:
  assumes "worker_execute fails w cmd = (w', reply)" "history_log.holds n (hw_db w) rs old" "hw_retention w = n"
    and valid: "\<And>rec. cmd = InsertCommand rec \<Longrightarrow> valid_record rec"
  shows "history_log.holds n (hw_db w') (accepted (cmd, reply) @ rs) old" "hw_retention w' = n"
proof -
  have "history_log.holds n (hw_db w') (accepted (cmd, reply) @ rs) old \<and> hw_retention w' = n"
  proof (cases cmd)
    case (InsertCommand rec)
    obtain r where r: "worker_insert fails w rec = (w', r)" "reply = InsertReply r" using assms(1) InsertCommand by (auto split: prod.splits)
    show ?thesis
    proof (cases r)
      case (Inl e)
      with r InsertCommand assms(2,3) show ?thesis
        by (auto simp: worker_insert_transaction dest: next_execution_keeps split: sum.splits prod.splits)
    next
      case (Inr receipt)
      with r(1) obtain w1 execution db k where "next_execution w = Inr (w1, execution)" "w' = w1\<lparr>hw_db := db\<rparr>"
        "insert_transaction fails (hw_retention w1) (hw_db w1) rec = Inr (db, k)"
        by (auto simp: worker_insert_transaction split: sum.splits prod.splits)
      with assms(2,3) history_log.holds_insert [of n "hw_db w" rs old rec fails db] valid InsertCommand r(2) Inr show ?thesis
        by (auto dest: next_execution_keeps)
    qed
  qed (use assms(1-3) in \<open>auto simp: worker_latest_def worker_status_def dest: next_execution_keeps split: sum.splits prod.splits\<close>)
  then show "history_log.holds n (hw_db w') (accepted (cmd, reply) @ rs) old" "hw_retention w' = n" by simp_all
qed

section \<open>The worker's run\<close>

text \<open>The commands that a run executes: those that arrive before it stops.\<close>

fun executed :: "worker_event list \<Rightarrow> history_command list" where
  "executed [] = []"
| "executed (IdlePoll # events) = executed events"
| "executed (Arrived cmd stopped fails # events) = (if stopped then [] else cmd # executed events)"
| "executed (_ # events) = []"

definition accepted_records :: "worker_event list \<Rightarrow> history_reply list \<Rightarrow> history_record list" where
  "accepted_records events replies = concat (map accepted (rev (zip (executed events) replies)))"

lemma worker_loop_holds:
  assumes "worker_loop w events = (w', replies, ended)" "history_log.holds n (hw_db w) rs old" "hw_retention w = n"
    and "\<forall>rec. InsertCommand rec \<in> set (executed events) \<longrightarrow> valid_record rec"
  shows "history_log.holds n (hw_db w') (accepted_records events replies @ rs) old \<and> hw_retention w' = n \<and>
    length replies = length (executed events)"
  using assms
proof (induction events arbitrary: w rs replies)
  case (Cons event events)
  show ?case
  proof (cases event)
    case (Arrived cmd stopped fails)
    show ?thesis
    proof (cases stopped)
      case False
      obtain w1 reply where first: "worker_execute fails w cmd = (w1, reply)" by fastforce
      with Cons.prems(1) Arrived False obtain replies' where rest: "worker_loop w1 events = (w', replies', ended)" "replies = reply # replies'"
        by (auto split: prod.splits)
      have "history_log.holds n (hw_db w1) (accepted (cmd, reply) @ rs) old" "hw_retention w1 = n"
        using worker_execute_holds [OF first Cons.prems(2,3)] Cons.prems(4) Arrived False by auto
      from Cons.IH [OF rest(1) this] Cons.prems(4) Arrived False rest(2) show ?thesis by (simp add: accepted_records_def)
    qed (use Cons.prems Arrived in \<open>simp add: accepted_records_def\<close>)
  qed (use Cons in \<open>auto simp: accepted_records_def\<close>)
qed (simp add: accepted_records_def)

lemma read_rows_records:
  "\<forall>r\<in>set rows. valid_record (row_record r) \<Longrightarrow> read_rows fails i rows = Inr recs \<Longrightarrow> recs = map row_record rows"
proof (induction rows arbitrary: i recs)
  case (Cons r rows)
  from Cons.prems(1) have "history_record_new (hr_provider r) (hr_observed r) (hr_metric r) (hr_value r) = Inr (row_record r)"
    by (simp add: valid_record_def row_record_def)
  with Cons.prems Cons.IH show ?case by (auto simp: result_simps split: if_splits)
qed simp

lemma read_rows_succeeds:
  "\<forall>r\<in>set rows. valid_record (row_record r) \<Longrightarrow> read_rows (\<lambda>_ _. False) i rows = Inr (map row_record rows)"
proof (induction rows arbitrary: i)
  case (Cons r rows)
  from Cons.prems have "history_record_new (hr_provider r) (hr_observed r) (hr_metric r) (hr_value r) = Inr (row_record r)"
    by (simp add: valid_record_def row_record_def)
  with Cons show ?case by simp
qed simp

lemma latest_rows_valid: "history_ok n db \<Longrightarrow> \<forall>r\<in>set (take limit (newest_first (hd_rows db))). valid_record (row_record r)"
  by (auto simp: history_ok_def dest!: in_set_takeD)

text \<open>
  C26: the history is the newest of everything accepted. However commands arrive, whichever statements
  the engine refuses and wherever the worker stops, the table holds exactly the records of all
  successful insertions and of the store as it was opened, newest first and latest insertion first
  among equals, cut to the retention limit; a failed insertion leaves no trace. A query returns a
  prefix of them, and it does return one when the engine refuses nothing.
\<close>

theorem history_keeps_newest:
  assumes "worker_loop w events = (w', replies, ended)" "history_ok (hw_retention w) (hw_db w)"
    and "\<forall>rec. InsertCommand rec \<in> set (executed events) \<longrightarrow> valid_record rec"
  shows "history_ok (hw_retention w) (hw_db w') \<and>
    history_view (hw_db w') = take (hw_retention w)
      (sort_key (\<lambda>r. - hy_observed r) (accepted_records events replies @ history_view (hw_db w))) \<and>
    (\<forall>fails limit w'' q. worker_latest fails w' limit = (w'', Inr q) \<longrightarrow> hq_records q = take limit (history_view (hw_db w'))) \<and>
    (\<forall>limit. hw_sequence w' < u64_max \<longrightarrow> (\<exists>w'' q. worker_latest (\<lambda>_ _. False) w' limit = (w'', Inr q)))"
proof -
  from worker_loop_holds [OF assms(1) history_log.holds_start [OF assms(2)] refl assms(3)]
  have ok: "history_ok (hw_retention w) (hw_db w')" and view: "history_view (hw_db w') = take (hw_retention w)
      (sort_key (\<lambda>r. - hy_observed r) (accepted_records events replies @ history_view (hw_db w)))"
    by (simp_all add: history_log.holds_def)
  note valid = latest_rows_valid [OF ok]
  have "hq_records q = take limit (history_view (hw_db w'))" if "worker_latest fails w' limit = (w'', Inr q)" for fails limit w'' q
    using that read_rows_records [OF valid] next_execution_keeps
    by (fastforce simp: worker_latest_def query_latest_def result_simps history_view_def take_map split: sum.splits)
  moreover have "\<exists>w'' q. worker_latest (\<lambda>_ _. False) w' limit = (w'', Inr q)" if "hw_sequence w' < u64_max" for limit
    using that read_rows_succeeds [OF valid]
    by (simp add: worker_latest_def next_execution_def checked_add_def query_latest_def statement_def)
  ultimately show ?thesis using ok view by blast
qed

text \<open>A store that keeps one record is sent two, the second older than the first; the engine refuses a third.\<close>

definition example_sample :: "int \<Rightarrow> history_record" where
  "example_sample t = \<lparr>hy_provider = lit ''codex'', hy_observed = t, hy_metric = lit ''used'', hy_value = 7\<rparr>"

definition empty_history :: history_db where
  "empty_history = \<lparr>hd_rows = [], hd_last_id = 0, hd_version = 0, hd_objects = [], hd_journal_mode = lit ''delete'',
     hd_foreign_keys = 0, hd_busy_timeout_ms = 0, hd_integrity = lit ''ok''\<rparr>"

definition example_worker :: history_worker where
  "example_worker = \<lparr>hw_db = empty_history, hw_retention = 1, hw_owner = 3, hw_sequence = 0\<rparr>"

definition example_events :: "worker_event list" where
  "example_events = [Arrived (InsertCommand (example_sample 5)) False (\<lambda>_ _. False), IdlePoll,
     Arrived (InsertCommand (example_sample 3)) False (\<lambda>_ _. False),
     Arrived (InsertCommand (example_sample 9)) False (\<lambda>operation _. operation = ''commit insert transaction''), StopSeen]"

lemma example_sample_valid: "0 \<le> t \<Longrightarrow> t \<le> 253402300799999 \<Longrightarrow> valid_record (example_sample t)"
  by (simp add: valid_record_def example_sample_def history_record_new_def history_identifier_new_def Let_def lit_def
      as_bytes_def str_len_def utf8_char_def is_ascii_lowercase_def limit_defs)

lemma example_run:
  "\<exists>w' replies. worker_loop example_worker example_events = (w', replies, True) \<and> history_view (hw_db w') = [example_sample 5] \<and>
     accepted_records example_events replies = [example_sample 3, example_sample 5]"
proof -
  have sorting: "newest_first [r] = [r]" "hr_observed r < hr_observed q \<Longrightarrow> newest_first [r, q] = [q, r]" for r q
    by (simp_all add: newest_first_def less_eq_prod_def)
  show ?thesis
    by (simp add: example_events_def example_worker_def empty_history_def worker_insert_transaction insert_transaction_def next_execution_def
        checked_add_def statement_def insert_record_def prune_records_def Let_def sorting example_sample_def history_view_def row_record_def
        accepted_records_def limit_defs)
qed

theorem history_keeps_newest_witness:
  "\<exists>w' replies. worker_loop example_worker example_events = (w', replies, True) \<and> history_view (hw_db w') = [example_sample 5] \<and>
     history_view (hw_db w') = take 1 (sort_key (\<lambda>r. - hy_observed r) [example_sample 3, example_sample 5])"
proof -
  obtain w' replies where run: "worker_loop example_worker example_events = (w', replies, True)" "history_view (hw_db w') = [example_sample 5]"
    "accepted_records example_events replies = [example_sample 3, example_sample 5]" using example_run by blast
  have "hw_retention example_worker = 1" "history_view (hw_db example_worker) = []" "history_ok 1 (hw_db example_worker)"
    by (simp_all add: example_worker_def history_view_def empty_history_def newest_first_def history_ok_def)
  moreover have "\<forall>rec. InsertCommand rec \<in> set (executed example_events) \<longrightarrow> valid_record rec"
    by (auto simp: example_events_def intro: example_sample_valid)
  ultimately show ?thesis using history_keeps_newest [OF run(1)] run by simp
qed

section \<open>Opening\<close>

lemma enforce_retention_rows:
  assumes "enforce_retention fails db n = Inr db'" "distinct (map hr_id (hd_rows db))"
  shows "newest_first (hd_rows db') = take n (newest_first (hd_rows db))" "db' = db\<lparr>hd_rows := hd_rows db'\<rparr>"
proof -
  from assms(1) obtain k where "prune_records fails db n = Inr (db', k)" by (auto simp: enforce_retention_def result_simps)
  from prune_records_rows [OF this assms(2)] show "newest_first (hd_rows db') = take n (newest_first (hd_rows db))"
    "db' = db\<lparr>hd_rows := hd_rows db'\<rparr>" by simp_all
qed

definition supported_schema :: "history_db \<Rightarrow> bool" where
  "supported_schema db \<longleftrightarrow>
     hd_version db = 1 \<and> hd_integrity db = lit ''ok'' \<and>
     object_sql db ''table'' (lit ''history_records'') = Some CREATE_TABLE_SQL \<and>
     object_sql db ''index'' (lit ''history_records_order'') = Some CREATE_ORDER_INDEX_SQL \<and>
     (\<forall>object\<in>set (hd_objects db). sqlite_internal (so_name object) \<or>
        so_name object \<in> {lit ''history_records'', lit ''history_records_order''})"

lemma verify_schema_Inr:
  "verify_schema fails db = Inr () \<Longrightarrow> hd_version db = 1 \<Longrightarrow> supported_schema db"
  by (auto simp: verify_schema_def supported_schema_def result_simps filter_empty_conv split: if_splits)

lemma migrate_schema_Inr:
  assumes "migrate_schema fails db v = Inr db'" "v \<le> HISTORY_SCHEMA_VERSION" "hd_version db = int v"
  shows "hd_version db' = 1 \<and> hd_rows db' = hd_rows db \<and> hd_integrity db' = hd_integrity db"
  using assms by (auto simp: migrate_schema_def result_simps limit_defs split: if_splits)

lemma read_schema_version_Inr: "read_schema_version fails db = Inr v \<Longrightarrow> hd_version db = int v"
  by (auto simp: read_schema_version_def result_simps split: if_splits)

definition private_database :: "nat \<Rightarrow> file_meta \<Rightarrow> bool" where
  "private_database euid m \<longleftrightarrow>
     fm_regular m \<and> fm_mode m AND 0xFFF = 0x180 \<and> fm_uid m = euid \<and> fm_links m = 1 \<and> fm_len m \<le> MAX_HISTORY_DATABASE_BYTES"

lemma validate_database_metadata_Inr: "validate_database_metadata euid path m = Inr () \<longleftrightarrow> private_database euid m"
  by (auto simp: validate_database_metadata_def private_database_def limit_defs)

lemma validate_prepared_identity_Inr:
  "validate_prepared_identity euid fs p = Inr () \<longleftrightarrow>
     (\<exists>m. fs (path_pieces (pd_path p)) = Inr m \<and> private_database euid m \<and> metadata_identity m = pd_identity p)"
  by (auto simp: validate_prepared_identity_def result_simps validate_database_metadata_Inr split: sum.splits if_splits)

lemma initialize_success:
  assumes "initialize_connection fails euid fs0 fs1 granted p busy n owner db = (db', Inr ())"
  obtains version db1 where "validate_prepared_identity euid fs0 p = Inr ()" "validate_prepared_identity euid fs1 p = Inr ()"
    "read_schema_version fails (db\<lparr>hd_busy_timeout_ms := int (busy div 1000000), hd_foreign_keys := 1\<rparr>) = Inr version"
    "version \<le> HISTORY_SCHEMA_VERSION"
    "migrate_schema fails (db\<lparr>hd_busy_timeout_ms := int (busy div 1000000), hd_foreign_keys := 1\<rparr>) version = Inr db1"
    "verify_schema fails db1 = Inr ()" "map to_ascii_lowercase granted = lit ''wal''"
    "enforce_retention fails (db1\<lparr>hd_journal_mode := granted\<rparr>) n = Inr db'"
    "map to_ascii_lowercase (hd_journal_mode db') = lit ''wal''" "hd_foreign_keys db' = 1"
proof -
  have status: "map to_ascii_lowercase (hd_journal_mode d) = hs_journal_mode st \<and> (hs_foreign_keys st \<longleftrightarrow> hd_foreign_keys d = 1)"
    if "read_status fails d x = Inr st" for d x st using that by (auto simp: read_status_def result_simps split: if_splits)
  from assms show thesis
    unfolding initialize_connection_def Let_def
    by (auto simp: result_simps not_less dest: status split: sum.splits if_splits intro!: that)
qed

lemma initialize_future:
  assumes "initialize_connection fails euid fs0 fs1 granted p busy n owner db = (db', r)" "hd_version db > 1"
  shows "r \<noteq> Inr () \<and> hd_rows db' = hd_rows db \<and> hd_objects db' = hd_objects db \<and> hd_version db' = hd_version db \<and>
    hd_journal_mode db' = hd_journal_mode db"
proof -
  have "\<exists>e. and_then (read_schema_version fails d) (\<lambda>version.
      if version > HISTORY_SCHEMA_VERSION then Inl (FutureHistorySchema version HISTORY_SCHEMA_VERSION)
      else migrate_schema fails d version) = Inl e" if "hd_version d = hd_version db" for d
    using assms(2) that by (cases "read_schema_version fails d") (auto dest: read_schema_version_Inr simp: limit_defs)
  note refused = this
  show ?thesis using assms(1) refused [of "db\<lparr>hd_busy_timeout_ms := int (busy div 1000000), hd_foreign_keys := 1\<rparr>"]
    by (auto simp: initialize_connection_def Let_def split: sum.splits)
qed


definition example_meta :: "bool \<Rightarrow> file_meta" where
  "example_meta dir = \<lparr>fm_directory = dir, fm_regular = (\<not> dir), fm_symlink = False, fm_uid = 1000,
     fm_mode = (if dir then 0x41C0 else 0x8180), fm_links = 1, fm_len = 0, fm_device = 1, fm_inode = (if dir then 2 else 3)\<rparr>"

definition example_files :: lookup where
  "example_files p = (if p = [] \<or> p = [lit ''d''] then Inr (example_meta True)
     else if p = [lit ''d'', lit ''h''] then Inr (example_meta False) else Inl True)"

definition example_prepared :: prepared_database where
  "example_prepared = \<lparr>pd_path = lit ''/d/h'', pd_identity = (1, 3), pd_created = False\<rparr>"

lemma example_pieces:
  "path_pieces (lit ''/d/h'') = [lit ''d'', lit ''h'']" "path_pieces (lit ''/d/h-journal'') = [lit ''d'', lit ''h-journal'']"
  "path_pieces (lit ''/d/h-wal'') = [lit ''d'', lit ''h-wal'']" "path_pieces (lit ''/d/h-shm'') = [lit ''d'', lit ''h-shm'']"
  by code_simp+

lemma example_file_checks:
  "validate_prepared_identity 1000 example_files example_prepared = Inr ()" "validate_sidecars 1000 example_files (lit ''/d/h'') = Inr ()"
proof -
  have "example_files [lit ''d'', lit ''h''] = Inr (example_meta False)" "private_database 1000 (example_meta False)"
    "metadata_identity (example_meta False) = (1, 3)"
    by (simp_all add: example_files_def lit_def private_database_def example_meta_def metadata_identity_def)
  then show "validate_prepared_identity 1000 example_files example_prepared = Inr ()"
    by (simp add: validate_prepared_identity_Inr example_prepared_def example_pieces)
  have "lit ''/d/h'' @ lit ''-journal'' = lit ''/d/h-journal''" "lit ''/d/h'' @ lit ''-wal'' = lit ''/d/h-wal''"
    "lit ''/d/h'' @ lit ''-shm'' = lit ''/d/h-shm''" by (simp_all add: lit_def)
  moreover have "example_files [lit ''d'', lit ''h-journal''] = Inl True" "example_files [lit ''d'', lit ''h-wal''] = Inl True"
    "example_files [lit ''d'', lit ''h-shm''] = Inl True" by (simp_all add: example_files_def lit_def)
  ultimately show "validate_sidecars 1000 example_files (lit ''/d/h'') = Inr ()"
    by (simp add: validate_sidecars_def sidecar_path_def example_pieces)
qed

lemma example_opened:
  "\<exists>db'. initialize_connection (\<lambda>_ _. False) 1000 example_files example_files (lit ''wal'') example_prepared 5000000000 10 3 empty_history =
     (db', Inr ())"
proof -
  have wal: "map to_ascii_lowercase (lit ''wal'') = lit ''wal''" by (simp add: lit_def to_ascii_lowercase_def)
  show ?thesis
    by (simp add: initialize_connection_def example_file_checks example_prepared_def [THEN arg_cong, of pd_path] statement_def Let_def wal
        read_schema_version_def empty_history_def migrate_schema_def verify_schema_def object_sql_def history_table_def history_index_def
        enforce_retention_def prune_records_def newest_first_def read_status_def limit_defs)
qed


section \<open>The path\<close>

lemma reject_symlinks_from_Inr:
  "reject_symlinks_from fs path traversed names = Inr () \<Longrightarrow>
     lit ''..'' \<notin> set names \<and> (\<forall>k. 0 < k \<and> k \<le> length names \<longrightarrow> (\<exists>m. fs (traversed @ take k names) = Inr m \<and> \<not> fm_symlink m))"
proof (induction names arbitrary: traversed)
  case (Cons name names)
  then have here: "name \<noteq> lit ''..''" "\<exists>m. fs (traversed @ [name]) = Inr m \<and> \<not> fm_symlink m"
    and rest: "reject_symlinks_from fs path (traversed @ [name]) names = Inr ()"
    by (auto simp: check_component_def result_simps split: if_splits sum.splits)
  have "\<exists>m. fs (traversed @ take k (name # names)) = Inr m \<and> \<not> fm_symlink m" if "0 < k" "k \<le> length (name # names)" for k
    using that here(2) Cons.IH [OF rest] by (cases "k = 1") (auto simp: take_Cons' gr0_conv_Suc)
  with here(1) Cons.IH [OF rest] show ?case by auto
qed simp

text \<open>
  C28: a history file is accepted only where nobody else can touch it. The path is absolute and never
  climbs, no directory on the way to the file is a symbolic link, the directory that holds it belongs
  to the user and grants nothing to others, and the file, found or just created, is a regular file
  of mode 0600 with one link.
\<close>

theorem history_path_private:
  assumes "prepare_database_path euid fs creation path = Inr p"
  shows "starts_with 47 path \<and> pd_path p = path \<and> path_pieces path \<noteq> [] \<and> lit ''..'' \<notin> set (path_pieces path) \<and>
    (\<forall>k<length (path_pieces path). \<exists>m. fs (take k (path_pieces path)) = Inr m \<and> \<not> fm_symlink m) \<and>
    (\<exists>m. fs (butlast (path_pieces path)) = Inr m \<and> fm_directory m \<and> fm_uid m = euid \<and> fm_mode m AND 0x3F = 0) \<and>
    (\<exists>m. private_database euid m \<and> metadata_identity m = pd_identity p \<and>
      (if pd_created p then fs (path_pieces path) = Inl True \<and> creation = Inr (Some m) else fs (path_pieces path) = Inr m))"
proof -
  let ?parent = "butlast (path_pieces path)"
  from assms obtain m where path: "starts_with 47 path" "path_pieces path \<noteq> []" "last (path_pieces path) \<noteq> lit ''..''"
    and links: "reject_symlink_components fs (lit ''/'' @ join_with (lit ''/'') ?parent) ?parent = Inr ()"
    and m: "fs ?parent = Inr m" "fm_directory m" "fm_uid m = euid" "fm_mode m AND PRIVATE_DIRECTORY_MASK = 0"
    by (auto simp: prepare_database_path_def Let_def result_simps split: if_splits sum.splits)
  have "\<exists>m. private_database euid m \<and> metadata_identity m = pd_identity p \<and> pd_path p = path \<and>
      (if pd_created p then fs (path_pieces path) = Inl True \<and> creation = Inr (Some m) else fs (path_pieces path) = Inr m)"
    using assms by (auto simp: prepare_database_path_def Let_def result_simps validate_database_metadata_Inr
        split: if_splits sum.splits option.splits)
  moreover have root: "\<exists>m. fs [] = Inr m \<and> \<not> fm_symlink m" and below: "reject_symlinks_from fs (lit ''/'' @ join_with (lit ''/'') ?parent) [] ?parent = Inr ()"
    using links by (auto simp: reject_symlink_components_def check_component_def result_simps split: sum.splits if_splits)
  have "\<exists>m. fs (take k (path_pieces path)) = Inr m \<and> \<not> fm_symlink m" if "k < length (path_pieces path)" for k
  proof (cases "k = 0")
    case False
    have "take k ?parent = take k (path_pieces path)" using that by (simp add: butlast_conv_take min_absorb1)
    with conjunct2 [OF reject_symlinks_from_Inr [OF below], rule_format, of k] False that show ?thesis by simp
  qed (use root in simp)
  moreover have "lit ''..'' \<notin> set (path_pieces path)"
    using reject_symlinks_from_Inr [OF below] path(2,3) by (metis append_butlast_last_id in_set_conv_decomp rotate1.simps(2) set_rotate1 set_ConsD)
  ultimately show ?thesis using path m by (auto simp: limit_defs)
qed

theorem history_path_private_witness:
  "prepare_database_path 1000 example_files (Inl ''create private database'') (lit ''/d/h'') = Inr example_prepared \<and>
   \<not> fm_symlink (example_meta True) \<and> lit ''..'' \<notin> set (path_pieces (lit ''/d/h''))"
proof -
  have "example_files [] = Inr (example_meta True)" "example_files [lit ''d''] = Inr (example_meta True)"
    "example_files [lit ''d'', lit ''h''] = Inr (example_meta False)" by (simp_all add: example_files_def lit_def)
  moreover have "starts_with 47 (lit ''/d/h'')" "lit ''h'' \<noteq> lit ''..''" "lit ''d'' \<noteq> lit ''..''" by (simp_all add: starts_with_def lit_def)
  ultimately have "prepare_database_path 1000 example_files (Inl ''create private database'') (lit ''/d/h'') = Inr example_prepared"
    by (simp add: prepare_database_path_def example_pieces Let_def reject_symlink_components_def check_component_def example_meta_def
        validate_database_metadata_def metadata_identity_def example_prepared_def limit_defs)
  with history_path_private [OF this] show ?thesis by (simp add: example_meta_def)
qed

end
