(* ===== verification/Spec2Isabelle.thy ===== *)
theory Spec2Isabelle
  imports Actor_Handlers Shutdown Notifications Ipc_Codec Frontend_Presence Rate_Window
    Cookie_Jar Http_Transport Credential_Frame Credential_Store Leveldb_Merge
    History_Refinement
begin

text \<open>
  Verification of Omarchy AI Bar, a monitor of AI usage, quotas and cost for a desktop bar.

  \<^bold>\<open>The program.\<close> A background process fetches, per provider and account, a usage sample, keeps the
  last good one with its age and error, publishes all of them as one sequenced envelope, and serves
  that envelope to a frontend over a local socket, redacted as the surface demands. The domain
  crate (\<open>crates/domain\<close>) holds the validated data; the runtime crate (\<open>crates/runtime\<close>) holds the
  scheduler, the snapshot store and the actor that owns both; the ipc crate (\<open>crates/ipc\<close>) holds
  the wire codec, the protocol of the display socket, the policy of the tray fallback and the channel
  that delivers a credential. The provider crate (\<open>crates/providers\<close>) talks to the services through
  one transport, with cookies, signatures and an allowlist of endpoints; the auth crate
  (\<open>crates/auth\<close>) keeps the credentials. The storage crate (\<open>crates/storage\<close>) keeps history.
  Provider adapters, the command line and the process wiring surround them.

  \<^bold>\<open>Conventions.\<close> A struct is a record with a prefix per struct, an enum a datatype, text a list of
  Unicode scalar values (\<open>lit\<close> gives the text of a literal), a BTreeMap the type \<open>btree_map\<close> of
  ascending association lists, a timestamp the nanoseconds since the epoch, a duration and a
  monotonic instant a number of nanoseconds with the bounds of the Rust types in \<open>Prelude\<close>. Fallible
  code returns \<open>result\<close>, the sum of error and value; a panic is \<open>None\<close> or a value of its own.
  Arithmetic that is checked, saturating or may overflow in the source is written out so.

  \<^bold>\<open>Theories of the domain.\<close>
  \<^item> \<open>Prelude\<close>: results, bounded arithmetic, stable sorting, comparisons as the source composes them
    (\<open>then_with\<close>), with the locales \<open>sort_order\<close> and \<open>comparison\<close> of canonical sorting.
  \<^item> \<open>Ordered_Map\<close>: BTreeMap and its laws, with the locale of a keyed store it provides.
  \<^item> \<open>Provider_Id\<close>, \<open>Identifiers\<close>, \<open>Domain_Values\<close>, \<open>Classified_Error\<close>: \<open>provider_id.rs\<close>,
    \<open>text.rs\<close> and \<open>ids.rs\<close>, \<open>timestamp.rs\<close>, \<open>percentage.rs\<close> and \<open>freshness.rs\<close>, \<open>error.rs\<close>. HMAC-SHA-256
    and the calendar library are parameters; what is used of them is \<open>hmac_digest_ok\<close> (32 bytes)
    and \<open>time_lib_ok\<close>. Shown: aliases are valid scopes, digest inputs are unambiguous.
  \<^item> \<open>Rate_Window\<close>, \<open>Money_Credits\<close>, \<open>Provider_Status\<close>, \<open>Cost_Usage\<close>, \<open>Sample_Details\<close>: the parts of a
    sample with their constructors, canonical orders, redactions and decoders.
  \<^item> \<open>Snapshot\<close>: samples, provider snapshots, envelopes, redaction and the surface policy
    (\<open>snapshot.rs\<close>, \<open>privacy.rs\<close>). Shown: a surface that must be public receives only a view that
    does not depend on personal fields, redaction never fails, overlays keep the reading.

  \<^bold>\<open>Theories of the runtime.\<close>
  \<^item> \<open>Scheduler\<close> (\<open>scheduler.rs\<close>): cadences and reset boundaries; the clock is one pair of readings
    per call. Shown: what is due is returned, once, and the earliest boundary is armed.
  \<^item> \<open>Snapshot_Store\<close> (\<open>snapshot_store.rs\<close>): every transition is an instance of the locale
    \<open>store_transition\<close>, and runs of transitions refine a map from accounts to snapshots in which
    each operation is a pure step; the only failure left is an exhausted sequence.
  \<^item> \<open>Runtime_Policy\<close> (\<open>actor.rs\<close>, \<open>command.rs\<close>, \<open>event.rs\<close>): limits, back-off, vocabulary.
  \<^item> \<open>Runtime_Actor\<close> (\<open>actor.rs\<close>): the actor's state, its handlers and the turn of its loop.
    A refresh source is the scope of the local history it may have; workers are what their closures
    capture, and their results arrive as inputs. Task identifiers come from a counter; the broadcast
    channel is the list of events sent. \<open>actor_reachable\<close> is the inductive set of states.
  \<^item> \<open>Actor_Invariant\<close> and \<open>Actor_Handlers\<close>: the invariant \<open>actor_ok\<close>, its preservation by each
    handler in a small logic of outcomes (\<open>ensures\<close>), and what follows for reachable states: the
    bound on running refreshes, the queue, one worker per slot, balanced events, coherent
    publications, the ways the actor can stop, progress of the queue and respect for back-off.
  \<^item> \<open>Shutdown\<close> (\<open>shutdown.rs\<close>, end of \<open>run\<close>): both draining loops over the ways tasks end, which
    are a parameter. Shown: the drain ends and counts every task.
  \<^item> \<open>Notifications\<close> (\<open>notifications.rs\<close>): events and their projection; the sink is a parameter.

  \<^bold>\<open>Theories of the wire.\<close>
  \<^item> \<open>Ipc_Codec\<close> (\<open>codec.rs\<close>): the JSON library is a parameter. The incremental decoder is an
    instance of the locale \<open>chunk_reader\<close> and equals a reference that cuts the whole stream into
    lines; encoding and decoding are inverse under \<open>json_faithful\<close>.
  \<^item> \<open>Ipc_Protocol\<close> (\<open>protocol.rs\<close>): capabilities, messages, the handshake guard, the replay
    registry. Shown: frames are admitted exactly by the handshake, replays are caught.
  \<^item> \<open>Frontend_Presence\<close> (\<open>frontend_presence.rs\<close>): refines the rule that the fallback shows when no
    frontend has been connected for the grace period.

  \<^bold>\<open>Theories of the network and of credentials.\<close>
  \<^item> \<open>Text_And_Urls\<close>: what the code uses of the standard library on text and addresses, and the
    parts of a parsed URL, which the URL library produces.
  \<^item> \<open>Cookie_Text\<close>, \<open>Cookie_Jar\<close> (\<open>cookie.rs\<close>): pasted captures, domains, imports and the header of a
    request. Shown: what is written is read back, the header holds exactly the cookies that apply,
    in an order that does not depend on the hash map, and a capture stays on its host.
  \<^item> \<open>Endpoint_Policy\<close> (\<open>endpoint.rs\<close>, \<open>configured_endpoint.rs\<close>): the allowlist equals its
    specification, private addresses included.
  \<^item> \<open>Cloud_Signing\<close> (\<open>cloud_signing.rs\<close>): canonical requests; SHA-256 and HMAC are parameters. Shown:
    the canonical query is exact, and a signature covers method, URL, headers and body.
  \<^item> \<open>Http_Transport\<close> (\<open>transport.rs\<close>, \<open>retry.rs\<close>): the loops over redirects and retries are
    \<open>partial_function\<close>s over what the network answers. Shown: they return, and every request they
    send goes to an approved endpoint, with credentials only where they belong.
  \<^item> \<open>Credential_Frame\<close> (\<open>ipc/credential.rs\<close>): a netstring read from a socket that splits and delays
    it at will equals one parse of the whole stream.
  \<^item> \<open>Credential_Store\<close> (\<open>auth\<close>): keys, slots, precedence, the keyring adapter and the protected file,
    an interpretation of the locale \<open>secret_store\<close>: runs of operations refine a map, under faults
    before and after the rename of the file. The environment's credentials never reach it.
  \<^item> \<open>Utf8\<close>, \<open>Leveldb_Format\<close>, \<open>Leveldb_Store\<close>, \<open>Leveldb_Merge\<close> (\<open>chromium_leveldb.rs\<close>): the reader of a
    browser's database. Varints, checksums and Snappy; log, tables and budgets; acquisition of a
    snapshot of the directory; the merge of all files and its projections. Shown: the decompressor
    accepts exactly the format and expands it as specified, a database is read only from a snapshot
    that did not change, the newest version of each key wins within the budget, and local storage is
    the requested origin's alone. Merge and projection are two interpretations of \<open>newest_wins\<close>.
  \<^item> \<open>History_Store\<close>, \<open>History_Refinement\<close> (\<open>storage/history.rs\<close>): the worker that owns the history
    database. Its SQL statements act on a record of rows, schema and pragmas; which of them the engine
    refuses is an input. The locale \<open>retained_log\<close> carries the refinement: the table is the newest of
    all that was accepted. Shown too: what is opened is the supported schema, in a private file.

  \<^bold>\<open>Bounds and fuel.\<close> No definition uses fuel. The binary search of the scheduler, the decoding of
  UTF-8, and the loops of the Snappy decoder, the log and the prefix blocks end by a measure; the loops of the transport are \<open>partial_function (option)\<close> and proved to
  return; every other loop is structural recursion on a list or the component tree. The loops that wait for
  the outside world (the actor's turns, the drain of aborted tasks) take what arrives as a list.
  The sizes of all bounds are those of the source's constants.

  \<^bold>\<open>Not modelled.\<close> Serialisation text (serde derives it), the rounding of binary floating point
  (\<open>UsagePercent::remaining\<close>, \<open>DisplayPercent::complement\<close>, \<open>advisor.rs\<close>), the asynchronous executor
  and channels beyond the order of what they deliver, debug formatting, system calls on sockets,
  directories and locks, the inside of SQLite, subprocesses, Firefox's databases, the provider adapters (each a
  mapping from one response format to a sample), the command line, and the QML frontend.
\<close>

end
